(* ===== verification/SS_Prelude.thy ===== *)
theory SS_Prelude
  imports Main "HOL-Library.Word"
begin

text \<open>
  Shared vocabulary of the development: bytes and machine words, the outcome type of C code that
  may stop the process or leave the defined behaviour of the language, memory blocks with
  bounds-checked copies, byte-order conversions, and the generic list facts the components use.

  A memory block (what \<^verbatim>\<open>malloc\<close> returns, or an array) is the list of its bytes. Every access goes
  through \<open>read_mem\<close> and \<open>write_mem\<close>, which yield the fault \<open>UB\<close> when the access
  leaves the block; a theorem that a function returns \<open>Inr _\<close> therefore includes memory
  safety. The allocator is a parameter: it decides per request size whether memory is available and
  which indeterminate bytes a fresh block holds.
\<close>

unbundle bit_operations_syntax

section \<open>Types\<close>

type_synonym byte = "8 word"
type_synonym bytes = "byte list"
type_synonym u16 = "16 word"
type_synonym u32 = "32 word"
type_synonym u64 = "64 word"

text \<open>
  How a C function can fail to return: \<^verbatim>\<open>FATAL\<close> logs and calls \<^verbatim>\<open>exit(-1)\<close>, the allocation
  wrappers call \<^verbatim>\<open>exit(EXIT_FAILURE)\<close>, a failed \<^verbatim>\<open>assert\<close> aborts, an access outside a block or
  through a null pointer is undefined behaviour, and a loop whose state repeats never returns.
\<close>

datatype fault = FATAL string | EXIT_FAILURE | ASSERT_FAILED | UB | DIVERGES

type_synonym 'a res = "fault + 'a"

named_theorems res_simps \<open>equations that run the outcome monad\<close>
named_theorems mem_simps \<open>equations that discharge in-bounds memory accesses\<close>

section \<open>Outcomes\<close>

definition bnd :: "'a res \<Rightarrow> ('a \<Rightarrow> 'b res) \<Rightarrow> 'b res" where
  "bnd m f = (case m of Inl e \<Rightarrow> Inl e | Inr x \<Rightarrow> f x)"

definition assertc :: "bool \<Rightarrow> 'a res \<Rightarrow> 'a res" where
  "assertc b m = (if b then m else Inl ASSERT_FAILED)"

definition returns :: "'a res \<Rightarrow> bool" where
  "returns m = (case m of Inl _ \<Rightarrow> False | Inr _ \<Rightarrow> True)"

lemma bnd_Inr [simp, res_simps]: "bnd (Inr x) f = f x"
  by (simp add: bnd_def)

lemma bnd_Inl [simp, res_simps]: "bnd (Inl e) f = Inl e"
  by (simp add: bnd_def)

lemma assertc_True [simp, res_simps]: "b \<Longrightarrow> assertc b m = m"
  by (simp add: assertc_def)

lemma bnd_Inr_iff: "bnd m f = Inr y \<longleftrightarrow> (\<exists>x. m = Inr x \<and> f x = Inr y)"
  by (auto simp: bnd_def split: sum.splits)

lemma bnd_InrE:
  assumes "bnd m f = Inr y"
  obtains x where "m = Inr x" and "f x = Inr y"
  using assms by (auto simp: bnd_Inr_iff)

lemma bnd_assoc: "bnd (bnd m f) g = bnd m (\<lambda>x. bnd (f x) g)"
  by (simp add: bnd_def split: sum.splits)

lemma bnd_cong [fundef_cong]:
  "m = m' \<Longrightarrow> (\<And>x. m' = Inr x \<Longrightarrow> f x = g x) \<Longrightarrow> bnd m f = bnd m' g"
  by (auto simp: bnd_def split: sum.splits)

lemma returns_iff: "returns m \<longleftrightarrow> (\<exists>x. m = Inr x)"
  by (auto simp: returns_def split: sum.splits)

lemma returns_Inr [simp]: "returns (Inr x)"
  by (simp add: returns_def)

lemma returns_bnd: "m = Inr x \<Longrightarrow> returns (f x) \<Longrightarrow> returns (bnd m f)"
  by simp

section \<open>Memory blocks\<close>

definition read_mem :: "bytes \<Rightarrow> nat \<Rightarrow> nat \<Rightarrow> bytes res" where
  "read_mem b off n = (if off + n \<le> length b then Inr (take n (drop off b)) else Inl UB)"

definition write_mem :: "bytes \<Rightarrow> nat \<Rightarrow> bytes \<Rightarrow> bytes res" where
  "write_mem b off xs =
     (if off + length xs \<le> length b then Inr (take off b @ xs @ drop (off + length xs) b) else Inl UB)"

definition read_byte :: "bytes \<Rightarrow> nat \<Rightarrow> byte res" where
  "read_byte b i = (if i < length b then Inr (b ! i) else Inl UB)"

definition write_byte :: "bytes \<Rightarrow> nat \<Rightarrow> byte \<Rightarrow> bytes res" where
  "write_byte b i v = (if i < length b then Inr (b[i := v]) else Inl UB)"

text \<open>\<^verbatim>\<open>memcpy(dst + doff, src + soff, n)\<close> and \<^verbatim>\<open>memmove\<close> inside one block.\<close>

definition memcpy :: "bytes \<Rightarrow> nat \<Rightarrow> bytes \<Rightarrow> nat \<Rightarrow> nat \<Rightarrow> bytes res" where
  "memcpy dst doff src soff n = bnd (read_mem src soff n) (write_mem dst doff)"

definition memmove :: "bytes \<Rightarrow> nat \<Rightarrow> nat \<Rightarrow> nat \<Rightarrow> bytes res" where
  "memmove b doff soff n = bnd (read_mem b soff n) (write_mem b doff)"

definition memset :: "bytes \<Rightarrow> nat \<Rightarrow> byte \<Rightarrow> nat \<Rightarrow> bytes res" where
  "memset b off v n = write_mem b off (replicate n v)"

text \<open>Several writes in order, each at an offset from a base, as one library call performs them.\<close>

fun write_all :: "bytes \<Rightarrow> nat \<Rightarrow> (nat \<times> bytes) list \<Rightarrow> bytes res" where
  "write_all b base [] = Inr b"
| "write_all b base ((off, xs) # ws) = bnd (write_mem b (base + off) xs) (\<lambda>b'. write_all b' base ws)"

lemma read_mem_ok [mem_simps]: "off + n \<le> length b \<Longrightarrow> read_mem b off n = Inr (take n (drop off b))"
  by (simp add: read_mem_def)

lemma write_mem_ok [mem_simps]:
  "off + length xs \<le> length b \<Longrightarrow>
   write_mem b off xs = Inr (take off b @ xs @ drop (off + length xs) b)"
  by (simp add: write_mem_def)

lemma read_byte_ok [mem_simps]: "i < length b \<Longrightarrow> read_byte b i = Inr (b ! i)"
  by (simp add: read_byte_def)

lemma write_byte_ok [mem_simps]: "i < length b \<Longrightarrow> write_byte b i v = Inr (b[i := v])"
  by (simp add: write_byte_def)

lemma memcpy_ok [mem_simps]:
  "soff + n \<le> length src \<Longrightarrow> doff + n \<le> length dst \<Longrightarrow>
   memcpy dst doff src soff n = Inr (take doff dst @ take n (drop soff src) @ drop (doff + n) dst)"
  by (simp add: memcpy_def read_mem_def write_mem_def)

lemma memmove_ok [mem_simps]:
  "soff + n \<le> length b \<Longrightarrow> doff + n \<le> length b \<Longrightarrow>
   memmove b doff soff n = Inr (take doff b @ take n (drop soff b) @ drop (doff + n) b)"
  by (simp add: memmove_def read_mem_def write_mem_def)

lemma memset_ok [mem_simps]:
  "off + n \<le> length b \<Longrightarrow> memset b off v n = Inr (take off b @ replicate n v @ drop (off + n) b)"
  by (simp add: memset_def write_mem_def)

lemma write_mem_length: "write_mem b off xs = Inr b' \<Longrightarrow> length b' = length b"
  by (auto simp: write_mem_def split: if_splits)

lemma memcpy_length: "memcpy dst doff src soff n = Inr b' \<Longrightarrow> length b' = length dst"
  by (auto simp: memcpy_def bnd_Inr_iff dest: write_mem_length)

lemma write_all_length: "write_all b base ws = Inr b' \<Longrightarrow> length b' = length b"
  by (induction b base ws rule: write_all.induct) (auto simp: bnd_Inr_iff dest: write_mem_length)

section \<open>The allocator\<close>

record heap =
  avail :: "nat \<Rightarrow> bool"    \<comment> \<open>does a \<^verbatim>\<open>malloc\<close> or \<^verbatim>\<open>realloc\<close> to this many bytes succeed\<close>
  aligned :: "nat \<Rightarrow> bool"  \<comment> \<open>does the platform's 16-byte aligned allocation succeed\<close>
  uninit :: "nat \<Rightarrow> byte"   \<comment> \<open>the indeterminate byte at an offset of a fresh block\<close>

definition fresh :: "heap \<Rightarrow> nat \<Rightarrow> bytes" where
  "fresh h n = map (uninit h) [0..<n]"

definition heap_ok :: "heap \<Rightarrow> bool" where
  "heap_ok h \<longleftrightarrow> (\<forall>n. avail h n)"

lemma length_fresh [simp]: "length (fresh h n) = n"
  by (simp add: fresh_def)

lemma heap_okD [simp]: "heap_ok h \<Longrightarrow> avail h n"
  by (simp add: heap_ok_def)

section \<open>Byte order\<close>

text \<open>A 16-bit big-endian load and store (\<^verbatim>\<open>htons\<close> on a little-endian host), a 32-bit little-endian
  load, and the little-endian value of a byte string.\<close>

definition be16 :: "u16 \<Rightarrow> bytes" where
  "be16 v = [ucast (drop_bit 8 v), ucast v]"

definition le32 :: "byte \<Rightarrow> byte \<Rightarrow> byte \<Rightarrow> byte \<Rightarrow> u32" where
  "le32 b0 b1 b2 b3 =
     ucast b0 OR push_bit 8 (ucast b1) OR push_bit 16 (ucast b2) OR push_bit 24 (ucast b3)"

fun le_nat :: "bytes \<Rightarrow> nat" where
  "le_nat [] = 0"
| "le_nat (b # bs) = unat b + 256 * le_nat bs"

lemma length_be16 [simp]: "length (be16 v) = 2"
  by (simp add: be16_def)

lemma le_nat_bound: "le_nat bs < 256 ^ length bs"
proof (induction bs)
  case (Cons b bs)
  have "unat b < 256"
    using unsigned_less [of b] by simp
  with Cons show ?case by simp
qed simp

lemma le_nat_zeros [simp]: "le_nat (replicate n 0) = 0"
  by (induction n) auto

lemma le_nat_inj: "length xs = length ys \<Longrightarrow> le_nat xs = le_nat ys \<Longrightarrow> xs = ys"
proof (induction xs ys rule: list_induct2)
  case (Cons x xs y ys)
  have b: "unat x < 256" "unat y < 256"
    using unsigned_less [of x] unsigned_less [of y] by simp_all
  have eq: "unat x + 256 * le_nat xs = unat y + 256 * le_nat ys"
    using Cons.prems by simp
  then have "(unat x + 256 * le_nat xs) mod 256 = (unat y + 256 * le_nat ys) mod 256"
    by simp
  with b have "unat x = unat y" by simp
  with eq have "le_nat xs = le_nat ys" by simp
  with Cons.IH \<open>unat x = unat y\<close> show ?case by (simp add: word_unat_eq_iff)
qed simp

section \<open>Integer conversions\<close>

text \<open>Conversion of a \<^verbatim>\<open>size_t\<close> to \<^verbatim>\<open>int\<close> keeps the low 32 bits as two's complement.\<close>

definition int_of_size :: "nat \<Rightarrow> int" where
  "int_of_size n = sint (of_nat n :: u32)"

lemma int_of_size_small: "n < 2 ^ 31 \<Longrightarrow> int_of_size n = int n"
  by (simp add: int_of_size_def signed_of_nat signed_take_bit_int_eq_self)

text \<open>Conversion of a \<^verbatim>\<open>size_t\<close> to \<^verbatim>\<open>uint16_t\<close>.\<close>

lemma unat_u16_small: "n < 2 ^ 16 \<Longrightarrow> unat (of_nat n :: u16) = n"
  by (simp add: unsigned_of_nat take_bit_nat_eq_self)

lemma unat_plus1_less:
  fixes i n :: "'a::len word"
  assumes "i < n"
  shows "unat (i + 1) = Suc (unat i)"
proof -
  have "unat i + 1 \<le> unat n"
    using assms by (simp add: word_less_nat_alt)
  also have "unat n < 2 ^ LENGTH('a)"
    by (rule unsigned_less)
  finally show ?thesis
    by (simp add: unat_word_ariths(1))
qed

section \<open>Lists\<close>

lemma take_append_drop_eq: "xs = ys @ zs \<Longrightarrow> length ys = n \<Longrightarrow> take n xs = ys \<and> drop n xs = zs"
  by simp

lemma take_append_ge: "n \<le> length xs \<Longrightarrow> take n (xs @ ys) = take n xs"
  by simp

lemma take_take_le: "m \<le> n \<Longrightarrow> take m (take n xs) = take m xs"
  by (simp add: min_def)

lemma four_elems:
  assumes "4 \<le> length xs"
  obtains a b c d ys where "xs = a # b # c # d # ys"
  using assms by (auto simp: numeral_eq_Suc Suc_le_length_iff)

lemma append_prefix_cases:
  assumes "xs @ ys = us @ vs" and "length xs < length us"
  obtains ws where "us = xs @ ws" and "ys = ws @ vs" and "ws \<noteq> []"
proof -
  obtain ws where "us = xs @ ws \<and> ys = ws @ vs \<or> xs = us @ ws \<and> ws @ ys = vs"
    using assms(1) by (auto simp: append_eq_append_conv2)
  with assms(2) have "us = xs @ ws" "ys = ws @ vs" "ws \<noteq> []" by auto
  then show ?thesis by (rule that)
qed

lemma append_prefix_le_cases:
  assumes "xs @ ys = us @ vs" and "length us \<le> length xs"
  obtains ws where "xs = us @ ws" and "ws @ ys = vs"
proof -
  obtain ws where "xs = us @ ws \<and> ws @ ys = vs \<or> xs @ ws = us \<and> ys = ws @ vs"
    using assms(1) by (auto simp: append_eq_append_conv2)
  with assms(2) show ?thesis by (auto intro: that)
qed

end
