(* ===== verification/SS_Buffer.thy ===== *)
theory SS_Buffer
  imports SS_Prelude
begin

text \<open>
  The allocation wrappers of \<^verbatim>\<open>src/ssrutils.c\<close> and the growable byte buffer \<^verbatim>\<open>buffer_t\<close> of
  \<^verbatim>\<open>src/crypto.h\<close> with its operations \<^verbatim>\<open>balloc\<close>, \<^verbatim>\<open>brealloc\<close>, \<^verbatim>\<open>bfree\<close>, \<^verbatim>\<open>bprepend\<close> of
  \<^verbatim>\<open>src/crypto.c\<close>. A buffer's data pointer is the block it points to (the null pointer is the empty
  block). Its abstraction is \<open>contents\<close>, the first \<^verbatim>\<open>len\<close> bytes; the well-formedness invariant
  says that the recorded capacity is the size of the block and bounds the length. The locale
  \<open>growable_buffer\<close> is the interface the ciphers rely on.
\<close>

section \<open>Allocation wrappers\<close>

definition ss_malloc :: "heap \<Rightarrow> nat \<Rightarrow> bytes res" where
  "ss_malloc h sz = (if avail h sz then Inr (fresh h sz) else Inl EXIT_FAILURE)"

definition ss_realloc :: "heap \<Rightarrow> bytes \<Rightarrow> nat \<Rightarrow> bytes res" where
  "ss_realloc h ptr new_size =
     (if avail h new_size then Inr (take new_size ptr @ drop (length ptr) (fresh h new_size))
      else Inl EXIT_FAILURE)"

definition ss_aligned_malloc :: "heap \<Rightarrow> nat \<Rightarrow> bytes res" where
  "ss_aligned_malloc h sz = (if aligned h sz then Inr (fresh h sz) else ss_malloc h sz)"

section \<open>The buffer and its operations\<close>

record buffer_t =
  b_idx :: nat
  b_len :: nat
  b_cap :: nat
  b_data :: bytes

definition null_buffer :: buffer_t where
  "null_buffer = \<lparr>b_idx = 0, b_len = 0, b_cap = 0, b_data = []\<rparr>"

definition balloc :: "heap \<Rightarrow> nat \<Rightarrow> (int \<times> buffer_t) res" where
  "balloc h cap =
     bnd (ss_malloc h cap) (\<lambda>d.
       Inr (int_of_size cap, null_buffer\<lparr>b_data := d, b_cap := cap\<rparr>))"

text \<open>A buffer on the heap, as the ciphers make one for a chunk: \<^verbatim>\<open>ss_malloc(sizeof(buffer_t))\<close>, zeroed, then
  \<^verbatim>\<open>balloc\<close>.\<close>

abbreviation (input) SIZEOF_BUFFER :: nat where "SIZEOF_BUFFER \<equiv> 32"

definition new_buffer :: "heap \<Rightarrow> nat \<Rightarrow> buffer_t res" where
  "new_buffer h cap = bnd (ss_malloc h SIZEOF_BUFFER) (\<lambda>_. bnd (balloc h cap) (\<lambda>(_, b). Inr b))"

text \<open>\<^verbatim>\<open>brealloc\<close> through a pointer that is known not to be null, and with the null check and the
  return value.\<close>

definition brealloc :: "heap \<Rightarrow> buffer_t \<Rightarrow> nat \<Rightarrow> nat \<Rightarrow> buffer_t res" where
  "brealloc h b len cap =
     (let real_capacity = max len cap in
      if b_cap b < real_capacity
      then bnd (ss_realloc h (b_data b) real_capacity) (\<lambda>d.
             Inr (b\<lparr>b_data := d, b_cap := real_capacity\<rparr>))
      else Inr b)"

definition brealloc_ptr :: "heap \<Rightarrow> buffer_t option \<Rightarrow> nat \<Rightarrow> nat \<Rightarrow> (int \<times> buffer_t option) res" where
  "brealloc_ptr h p len cap =
     (case p of None \<Rightarrow> Inr (-1, None)
      | Some b \<Rightarrow> bnd (brealloc h b len cap) (\<lambda>b'. Inr (int_of_size (max len cap), Some b')))"

definition bfree :: "buffer_t option \<Rightarrow> buffer_t option" where
  "bfree p =
     (case p of None \<Rightarrow> None
      | Some b \<Rightarrow> Some (b\<lparr>b_idx := 0, b_len := 0, b_cap := 0, b_data := []\<rparr>))"

definition bprepend :: "heap \<Rightarrow> buffer_t \<Rightarrow> buffer_t \<Rightarrow> nat \<Rightarrow> (int \<times> buffer_t) res" where
  "bprepend h dst src cap =
     bnd (brealloc h dst (b_len dst + b_len src) cap) (\<lambda>dst.
     bnd (memmove (b_data dst) (b_len src) 0 (b_len dst)) (\<lambda>d.
     bnd (memcpy d 0 (b_data src) 0 (b_len src)) (\<lambda>d.
       let n = b_len dst + b_len src in
       Inr (int_of_size n, dst\<lparr>b_data := d, b_len := n\<rparr>))))"

text \<open>
  The last three statements of every cipher operation: \<^verbatim>\<open>brealloc(b, n, capacity);
  memcpy(b->data, src, n); b->len = n;\<close>
\<close>

definition buf_store :: "buffer_t \<Rightarrow> bytes \<Rightarrow> nat \<Rightarrow> buffer_t res" where
  "buf_store b src n =
     bnd (memcpy (b_data b) 0 src 0 n) (\<lambda>d. Inr (b\<lparr>b_data := d, b_len := n\<rparr>))"

definition buf_assign :: "heap \<Rightarrow> buffer_t \<Rightarrow> bytes \<Rightarrow> nat \<Rightarrow> nat \<Rightarrow> buffer_t res" where
  "buf_assign h b src n cap = bnd (brealloc h b n cap) (\<lambda>b. buf_store b src n)"

section \<open>Abstraction and invariant\<close>

definition contents :: "buffer_t \<Rightarrow> bytes" where
  "contents b = take (b_len b) (b_data b)"

definition wf_block :: "buffer_t \<Rightarrow> bool" where
  "wf_block b \<longleftrightarrow> length (b_data b) = b_cap b"

definition wf_buffer :: "buffer_t \<Rightarrow> bool" where
  "wf_buffer b \<longleftrightarrow> wf_block b \<and> b_len b \<le> b_cap b"

lemma contents_upd [simp]: "contents (b\<lparr>b_data := d, b_len := n\<rparr>) = take n d"
  by (simp add: contents_def)

lemma wf_bufferI: "length (b_data b) = b_cap b \<Longrightarrow> b_len b \<le> b_cap b \<Longrightarrow> wf_buffer b"
  by (simp add: wf_buffer_def wf_block_def)

lemma wf_bufferD:
  "wf_buffer b \<Longrightarrow> length (b_data b) = b_cap b" "wf_buffer b \<Longrightarrow> b_len b \<le> b_cap b"
  by (simp_all add: wf_buffer_def wf_block_def)

lemma wf_buffer_block: "wf_buffer b \<Longrightarrow> wf_block b"
  by (simp add: wf_buffer_def)

lemma wf_null_buffer [simp]: "wf_buffer null_buffer"
  by (simp add: wf_buffer_def wf_block_def null_buffer_def)

lemma length_contents [simp]: "wf_buffer b \<Longrightarrow> length (contents b) = b_len b"
  by (simp add: contents_def wf_bufferD)

lemma balloc_ok:
  assumes "heap_ok h"
  obtains b where "balloc h cap = Inr (int_of_size cap, b)" and "wf_buffer b" and "b_cap b = cap"
    and "b_len b = 0"
  using assms by (auto simp: balloc_def ss_malloc_def null_buffer_def wf_buffer_def wf_block_def)

lemma new_buffer_ok:
  assumes "heap_ok h"
  obtains b where "new_buffer h cap = Inr b" and "wf_buffer b" and "b_cap b = cap" and "b_len b = 0"
  using assms by (auto simp: new_buffer_def balloc_def ss_malloc_def null_buffer_def wf_buffer_def wf_block_def)

text \<open>\<^verbatim>\<open>brealloc\<close> keeps the length and every byte of the old block, and makes room.\<close>

lemma brealloc_ok:
  assumes "heap_ok h" and "wf_block b"
  obtains b' where "brealloc h b n cap = Inr b'" and "wf_block b'" and "b_len b' = b_len b"
    and "max n cap \<le> b_cap b'" and "b_cap b \<le> b_cap b'"
    and "take (b_cap b) (b_data b') = b_data b" and "b_idx b' = b_idx b"
proof (cases "b_cap b < max n cap")
  case True
  let ?d = "take (max n cap) (b_data b) @ drop (length (b_data b)) (fresh h (max n cap))"
  have len: "length (b_data b) = b_cap b"
    using assms(2) by (simp add: wf_block_def)
  have "brealloc h b n cap = Inr (b\<lparr>b_data := ?d, b_cap := max n cap\<rparr>)"
    using True assms(1) by (simp add: brealloc_def ss_realloc_def Let_def)
  then show ?thesis
    by (rule that) (use True len in \<open>auto simp: wf_block_def\<close>)
next
  case False
  then have "brealloc h b n cap = Inr b"
    by (simp add: brealloc_def Let_def)
  then show ?thesis
    by (rule that) (use False assms(2) in \<open>auto simp: wf_block_def\<close>)
qed

lemma brealloc_contents:
  assumes "heap_ok h" and "wf_buffer b"
  obtains b' where "brealloc h b n cap = Inr b'" and "wf_buffer b'" and "contents b' = contents b"
    and "max n cap \<le> b_cap b'" and "b_len b' = b_len b" and "b_cap b \<le> b_cap b'"
proof -
  obtain b' where b': "brealloc h b n cap = Inr b'" "wf_block b'" "b_len b' = b_len b"
    "max n cap \<le> b_cap b'" "b_cap b \<le> b_cap b'" "take (b_cap b) (b_data b') = b_data b"
    using brealloc_ok [OF assms(1) wf_buffer_block [OF assms(2)]] by blast
  have le: "b_len b \<le> b_cap b"
    using assms(2) by (simp add: wf_bufferD)
  have "contents b' = take (b_len b) (take (b_cap b) (b_data b'))"
    using le by (simp add: contents_def b'(3) take_take_le)
  then have "contents b' = contents b"
    by (simp add: b'(6) contents_def)
  moreover have "wf_buffer b'"
    using b' le by (simp add: wf_buffer_def)
  ultimately show ?thesis
    using b' that by blast
qed

lemma buf_store_ok:
  assumes "wf_block b" and "n \<le> length src" and "n \<le> b_cap b"
  obtains b' where "buf_store b src n = Inr b'" and "wf_buffer b'" and "contents b' = take n src"
    and "b_len b' = n" and "b_cap b' = b_cap b"
  using assms by (auto simp: buf_store_def mem_simps wf_block_def wf_buffer_def contents_def)

lemma buf_assign_ok:
  assumes "heap_ok h" and "wf_block b" and "n \<le> length src"
  obtains b' where "buf_assign h b src n cap = Inr b'" and "wf_buffer b'"
    and "contents b' = take n src" and "b_len b' = n"
proof -
  obtain b1 where b1: "brealloc h b n cap = Inr b1" "wf_block b1" "max n cap \<le> b_cap b1"
    using brealloc_ok [OF assms(1,2)] by blast
  obtain b' where "buf_store b1 src n = Inr b'" "wf_buffer b'" "contents b' = take n src" "b_len b' = n"
    using buf_store_ok [OF b1(2) assms(3)] b1(3) by auto
  then show ?thesis
    using b1 that by (simp add: buf_assign_def)
qed

section \<open>The interface the ciphers use\<close>

locale growable_buffer =
  fixes inv :: "'b \<Rightarrow> bool"
    and items :: "'b \<Rightarrow> bytes"
    and room :: "'b \<Rightarrow> nat"
    and reserve :: "'b \<Rightarrow> nat \<Rightarrow> nat \<Rightarrow> 'b res"
    and prepend :: "'b \<Rightarrow> 'b \<Rightarrow> nat \<Rightarrow> (int \<times> 'b) res"
    and enough :: bool
  assumes reserve_law:
      "enough \<Longrightarrow> inv b \<Longrightarrow>
       \<exists>b'. reserve b n c = Inr b' \<and> inv b' \<and> items b' = items b \<and> max n c \<le> room b' \<and> room b \<le> room b'"
    and prepend_law:
      "enough \<Longrightarrow> inv d \<Longrightarrow> inv s \<Longrightarrow>
       \<exists>r d'. prepend d s c = Inr (r, d') \<and> inv d' \<and> items d' = items s @ items d"
begin

fun prepend_all :: "'b \<Rightarrow> 'b list \<Rightarrow> nat \<Rightarrow> 'b res" where
  "prepend_all d [] c = Inr d"
| "prepend_all d (s # ss) c = bnd (prepend d s c) (\<lambda>(_, d'). prepend_all d' ss c)"

text \<open>Prepending several buffers one after the other puts their contents in front, the last first.\<close>

lemma prepend_all_items:
  "enough \<Longrightarrow> inv d \<Longrightarrow> (\<forall>s\<in>set ss. inv s) \<Longrightarrow>
   \<exists>d'. prepend_all d ss c = Inr d' \<and> inv d' \<and> items d' = concat (rev (map items ss)) @ items d"
proof (induction ss arbitrary: d)
  case (Cons s ss)
  obtain r d1 where d1: "prepend d s c = Inr (r, d1)" "inv d1" "items d1 = items s @ items d"
    using prepend_law [of d s c] Cons.prems by auto
  from Cons.IH [OF Cons.prems(1) d1(2)] Cons.prems(3) d1 show ?case
    by auto
qed simp

lemma reserve_prepend:
  assumes "enough" "inv d" "inv s"
  shows "\<exists>b r b'. reserve d n c = Inr b \<and> prepend b s c = Inr (r, b') \<and> items b' = items s @ items d"
proof -
  obtain b where b: "reserve d n c = Inr b" "inv b" "items b = items d"
    using reserve_law [OF assms(1,2)] by blast
  then show ?thesis
    using prepend_law [OF assms(1) b(2) assms(3), of c] by auto
qed

end

lemma bprepend_contents:
  assumes "heap_ok h" and "wf_buffer dst" and "wf_buffer src"
  shows "\<exists>dst'. bprepend h dst src cap = Inr (int_of_size (b_len dst + b_len src), dst') \<and>
     wf_buffer dst' \<and> contents dst' = contents src @ contents dst"
proof -
  obtain b where b: "brealloc h dst (b_len dst + b_len src) cap = Inr b" "wf_buffer b"
    "contents b = contents dst" "max (b_len dst + b_len src) cap \<le> b_cap b" "b_len b = b_len dst"
    using brealloc_contents [OF assms(1,2)] by blast
  have l: "length (b_data b) = b_cap b" "length (b_data src) = b_cap src" "b_len src \<le> b_cap src"
    "b_len dst \<le> length (b_data dst)"
    using b(2) assms(2,3) by (simp_all add: wf_bufferD)
  from b(3) have "take (b_len dst) (b_data b) = contents dst"
    by (simp add: contents_def b(5))
  with b l show ?thesis
    by (auto simp: bprepend_def mem_simps Let_def contents_def wf_buffer_def wf_block_def)
qed

interpretation cbuf: growable_buffer wf_buffer contents b_cap "brealloc h" "bprepend h" "heap_ok h" for h
proof unfold_locales
  fix b n c
  assume "heap_ok h" "wf_buffer b"
  then show "\<exists>b'. brealloc h b n c = Inr b' \<and> wf_buffer b' \<and> contents b' = contents b \<and>
      max n c \<le> b_cap b' \<and> b_cap b \<le> b_cap b'"
    using brealloc_contents by metis
next
  fix d s c
  assume "heap_ok h" "wf_buffer d" "wf_buffer s"
  then show "\<exists>r d'. bprepend h d s c = Inr (r, d') \<and> wf_buffer d' \<and> contents d' = contents s @ contents d"
    using bprepend_contents by blast
qed

end
