(* ===== verification/SS_Bloom.thy ===== *)
theory SS_Bloom
  imports SS_Prelude Complex_Main "HOL-Library.Signed_Division"
begin

text \<open>
  The Bloom filter of \<^verbatim>\<open>libbloom/bloom.c\<close> and its hash \<^verbatim>\<open>libbloom/murmur2/MurmurHash2.c\<close>. All hash
  arithmetic is on 32-bit words; the bit vector is a memory block. The floating-point sizing of
  \<^verbatim>\<open>bloom_init\<close> takes the rounding of a double operation and the C library's \<^verbatim>\<open>log\<close> as parameters.

  The abstraction \<open>bitset\<close> reads the block as a set of bit positions. The operations refine set
  operations on it (\<open>bloom_check_add_spec\<close>): adding joins the element's positions, checking is
  inclusion of them, and both stay inside the block. The locale \<open>membership_filter\<close> is the
  interface the ping-pong filter uses.
\<close>

unbundle bit_operations_syntax

section \<open>MurmurHash2\<close>

abbreviation murmur_m :: u32 where "murmur_m \<equiv> 0x5bd1e995"

fun murmur_blocks :: "bytes \<Rightarrow> int \<Rightarrow> u32 \<Rightarrow> (bytes \<times> int \<times> u32) res" where
  "murmur_blocks data len h =
     (if len \<ge> 4 then
        (case data of
           b0 # b1 # b2 # b3 # data' \<Rightarrow>
             (let k = le32 b0 b1 b2 b3;
                  k = k * murmur_m;
                  k = k XOR drop_bit 24 k;
                  k = k * murmur_m;
                  h = h * murmur_m;
                  h = h XOR k
              in murmur_blocks data' (len - 4) h)
         | _ \<Rightarrow> Inl UB)
      else Inr (data, len, h))"

declare murmur_blocks.simps [simp del]

definition murmur_tail :: "bytes \<Rightarrow> int \<Rightarrow> u32 \<Rightarrow> u32 res" where
  "murmur_tail data len h =
     bnd (if len = 3 then bnd (read_byte data 2) (\<lambda>d. Inr (h XOR push_bit 16 (ucast d))) else Inr h) (\<lambda>h.
     bnd (if len = 3 \<or> len = 2
          then bnd (read_byte data 1) (\<lambda>d. Inr (h XOR push_bit 8 (ucast d))) else Inr h) (\<lambda>h.
     if len = 3 \<or> len = 2 \<or> len = 1
     then bnd (read_byte data 0) (\<lambda>d. Inr ((h XOR ucast d) * murmur_m)) else Inr h))"

definition murmurhash2 :: "bytes \<Rightarrow> int \<Rightarrow> u32 \<Rightarrow> u32 res" where
  "murmurhash2 key len seed =
     (let h = seed XOR word_of_int len in
      bnd (murmur_blocks key len h) (\<lambda>(data, len, h).
      bnd (murmur_tail data len h) (\<lambda>h.
        let h = h XOR drop_bit 13 h;
            h = h * murmur_m;
            h = h XOR drop_bit 15 h
        in Inr h)))"

section \<open>The filter\<close>

record bloom =
  bl_entries :: int
  bl_error :: real
  bl_bits :: int
  bl_bytes :: int
  bl_hashes :: int
  bl_bpe :: real
  bl_bf :: bytes
  bl_ready :: int

text \<open>A double operation is the exact one followed by the rounding \<open>fl\<close>; \<open>log_d\<close> is the C
  library's natural logarithm. A cast to \<^verbatim>\<open>int\<close> truncates and is undefined out of range.\<close>

record libm =
  fl :: "real \<Rightarrow> real"
  log_d :: "real \<Rightarrow> real"

definition cast_int :: "real \<Rightarrow> int res" where
  "cast_int x = (let t = (if x \<ge> 0 then \<lfloor>x\<rfloor> else \<lceil>x\<rceil>)
                 in if - (2 ^ 31) \<le> t \<and> t < 2 ^ 31 then Inr t else Inl UB)"

definition test_bit_set_bit :: "bytes \<Rightarrow> u32 \<Rightarrow> bool \<Rightarrow> (int \<times> bytes) res" where
  "test_bit_set_bit buf x setb =
     (let byte = drop_bit 3 x in
      bnd (read_byte buf (unat byte)) (\<lambda>c.
        let mask = push_bit (unat (x mod 8)) (1 :: u32) in
        if ucast c AND mask \<noteq> 0 then Inr (1, buf)
        else if setb
        then bnd (write_byte buf (unat byte) (ucast (ucast c OR mask))) (\<lambda>buf. Inr (0, buf))
        else Inr (0, buf)))"

function bloom_probe ::
  "u32 \<Rightarrow> u32 \<Rightarrow> u32 \<Rightarrow> u32 \<Rightarrow> bool \<Rightarrow> u32 \<Rightarrow> int \<Rightarrow> bytes \<Rightarrow> (int \<times> bytes) res" where
  "bloom_probe a b bits hashes add i hits bf =
     (if i < hashes then
        (if bits = 0 then Inl UB
         else let x = (a + i * b) mod bits in
           bnd (test_bit_set_bit bf x add) (\<lambda>(r, bf').
             if r \<noteq> 0 then bloom_probe a b bits hashes add (i + 1) (hits + 1) bf'
             else if \<not> add then Inr (0, bf')
             else bloom_probe a b bits hashes add (i + 1) hits bf'))
      else Inr (if hits = sint hashes then 1 else 0, bf))"
  by pat_completeness auto
termination
  by (relation "measure (\<lambda>(a, b, bits, hashes, add, i, hits, bf). unat hashes - unat i)")
    (auto simp: unat_plus1_less word_less_nat_alt)

declare bloom_probe.simps [simp del]

definition bloom_check_add :: "bloom \<Rightarrow> bytes \<Rightarrow> int \<Rightarrow> bool \<Rightarrow> (int \<times> bloom) res" where
  "bloom_check_add bloom buffer len add =
     (if bl_ready bloom = 0 then Inr (-1, bloom)
      else bnd (murmurhash2 buffer len 0x9747b28c) (\<lambda>a.
           bnd (murmurhash2 buffer len a) (\<lambda>b.
           bnd (bloom_probe a b (word_of_int (bl_bits bloom)) (word_of_int (bl_hashes bloom)) add 0 0
                  (bl_bf bloom)) (\<lambda>(r, bf).
             Inr (r, bloom\<lparr>bl_bf := bf\<rparr>)))))"

definition bloom_bytes :: "int \<Rightarrow> int" where
  "bloom_bytes bits = (if bits smod 8 \<noteq> 0 then bits sdiv 8 + 1 else bits sdiv 8)"

definition bloom_init :: "heap \<Rightarrow> libm \<Rightarrow> bloom \<Rightarrow> int \<Rightarrow> real \<Rightarrow> (int \<times> bloom) res" where
  "bloom_init h lm bloom entries error =
     (let bloom = bloom\<lparr>bl_ready := 0\<rparr> in
      if entries < 1000 \<or> error = 0 then Inr (1, bloom)
      else
        let bloom = bloom\<lparr>bl_entries := entries, bl_error := error\<rparr>;
            num = log_d lm error;
            denom = fl lm (480453013918201 / 10 ^ 15);
            bloom = bloom\<lparr>bl_bpe := - fl lm (num / denom)\<rparr>;
            dentries = of_int entries
        in
        bnd (cast_int (fl lm (dentries * bl_bpe bloom))) (\<lambda>bits.
          let bytes = bloom_bytes bits;
              bloom = bloom\<lparr>bl_bits := bits, bl_bytes := bytes\<rparr>
          in
          bnd (cast_int (of_int \<lceil>fl lm (fl lm (693147180559945 / 10 ^ 15) * bl_bpe bloom)\<rceil>)) (\<lambda>hashes.
            let bloom = bloom\<lparr>bl_hashes := hashes\<rparr> in
            if bytes < 0 \<or> \<not> avail h (nat bytes)
            then Inr (1, bloom\<lparr>bl_bf := []\<rparr>)
            else Inr (0, bloom\<lparr>bl_bf := replicate (nat bytes) 0, bl_ready := 1\<rparr>))))"

definition bloom_init_size ::
  "heap \<Rightarrow> libm \<Rightarrow> bloom \<Rightarrow> int \<Rightarrow> real \<Rightarrow> u32 \<Rightarrow> (int \<times> bloom) res" where
  "bloom_init_size h lm bloom entries error cache_size = bloom_init h lm bloom entries error"

definition bloom_check :: "bloom \<Rightarrow> bytes \<Rightarrow> int \<Rightarrow> (int \<times> bloom) res" where
  "bloom_check bloom buffer len = bloom_check_add bloom buffer len False"

definition bloom_add :: "bloom \<Rightarrow> bytes \<Rightarrow> int \<Rightarrow> (int \<times> bloom) res" where
  "bloom_add bloom buffer len = bloom_check_add bloom buffer len True"

definition bloom_free :: "bloom \<Rightarrow> bloom" where
  "bloom_free bloom =
     (let bloom = (if bl_ready bloom \<noteq> 0 then bloom\<lparr>bl_bf := []\<rparr> else bloom)
      in bloom\<lparr>bl_ready := 0\<rparr>)"

definition bloom_reset :: "bloom \<Rightarrow> (int \<times> bloom) res" where
  "bloom_reset bloom =
     (if bl_ready bloom = 0 then Inr (1, bloom)
      else bnd (memset (bl_bf bloom) 0 0 (nat (bl_bytes bloom))) (\<lambda>bf. Inr (0, bloom\<lparr>bl_bf := bf\<rparr>)))"

section \<open>The hash reads only the element\<close>

lemma murmur_blocks_ok:
  assumes "0 \<le> len" and "len \<le> int (length data)"
  shows "\<exists>d l h'. murmur_blocks data len h = Inr (d, l, h') \<and> 0 \<le> l \<and> l < 4 \<and> l \<le> int (length d)"
  using assms
proof (induction data len h rule: murmur_blocks.induct)
  case (1 data len h)
  show ?case
  proof (cases "4 \<le> len")
    case True
    with "1.prems" have "4 \<le> length data" by linarith
    then obtain b0 b1 b2 b3 data' where d: "data = b0 # b1 # b2 # b3 # data'"
      by (rule four_elems)
    show ?thesis
      using "1.IH" [OF True d refl refl refl refl refl refl] "1.prems" True
      by (subst murmur_blocks.simps) (simp add: d Let_def)
  next
    case False
    with "1.prems" show ?thesis by (subst murmur_blocks.simps) auto
  qed
qed


lemma murmur_blocks_prefix:
  assumes "0 \<le> len" and "len \<le> int (length data)"
  shows "murmur_blocks (data @ ext) len h =
    bnd (murmur_blocks data len h) (\<lambda>(d, l, h'). Inr (d @ ext, l, h'))"
  using assms
proof (induction data len h rule: murmur_blocks.induct)
  case (1 data len h)
  show ?case
  proof (cases "4 \<le> len")
    case True
    with "1.prems" have "4 \<le> length data" by linarith
    then obtain b0 b1 b2 b3 data' where d: "data = b0 # b1 # b2 # b3 # data'"
      by (rule four_elems)
    show ?thesis
      using "1.IH" [OF True d refl refl refl refl refl refl] "1.prems" True
      by (simp add: d Let_def murmur_blocks.simps [of "b0 # b1 # b2 # b3 # data'"]
          murmur_blocks.simps [of "b0 # b1 # b2 # b3 # data' @ ext"])
  next
    case False
    with "1.prems" show ?thesis
      by (simp add: murmur_blocks.simps [of data] murmur_blocks.simps [of "data @ ext"])
  qed
qed

lemma murmur_tail_ok:
  assumes "0 \<le> len" and "len \<le> int (length data)" and "len < 4"
  shows "\<exists>r. murmur_tail data len h = Inr r"
    and "murmur_tail (data @ ext) len h = murmur_tail data len h"
  using assms by (auto simp: murmur_tail_def read_byte_def nth_append)

lemma murmurhash2_ok:
  assumes "0 \<le> len" and "len \<le> int (length key)"
  shows "\<exists>r. murmurhash2 key len seed = Inr r"
proof -
  obtain d l h' where b: "murmur_blocks key len (seed XOR word_of_int len) = Inr (d, l, h')"
    and l: "0 \<le> l" "l < 4" "l \<le> int (length d)"
    using murmur_blocks_ok [OF assms] by blast
  obtain r where "murmur_tail d l h' = Inr r"
    using murmur_tail_ok(1) [OF l(1,3,2)] by blast
  with b show ?thesis
    by (simp add: murmurhash2_def Let_def)
qed

text \<open>The hash is a function of the first \<^verbatim>\<open>len\<close> bytes: what follows them in memory has no effect.\<close>

lemma murmurhash2_append:
  assumes "0 \<le> len" and "len \<le> int (length key)"
  shows "murmurhash2 (key @ ext) len seed = murmurhash2 key len seed"
  using murmur_blocks_ok [OF assms, of "seed XOR word_of_int len"]
  by (auto simp: murmurhash2_def Let_def murmur_blocks_prefix [OF assms] murmur_tail_ok(2))

lemma murmurhash2_take:
  "n \<le> length key \<Longrightarrow> murmurhash2 (take n key) (int n) seed = murmurhash2 key (int n) seed"
  using murmurhash2_append [of "int n" "take n key" "drop n key" seed] by simp

section \<open>The block as a set of bit positions\<close>

definition bitset :: "bytes \<Rightarrow> nat set" where
  "bitset bf = {j. j < 8 * length bf \<and> bit (bf ! (j div 8)) (j mod 8)}"

lemma bitset_zeros [simp]: "bitset (replicate n 0) = {}"
  by (auto simp: bitset_def)

lemma bitset_set_bit:
  assumes "j < 8 * length bf"
  shows "bitset (bf[j div 8 := set_bit (j mod 8) (bf ! (j div 8))]) = insert j (bitset bf)"
proof (rule set_eqI)
  fix k
  show "k \<in> bitset (bf[j div 8 := set_bit (j mod 8) (bf ! (j div 8))]) \<longleftrightarrow> k \<in> insert j (bitset bf)"
  proof (cases "k div 8 = j div 8")
    case True
    then have "k = j \<longleftrightarrow> k mod 8 = j mod 8"
      by (metis div_mod_decomp)
    with True assms show ?thesis
      by (auto simp: bitset_def bit_set_bit_iff)
  next
    case False
    with assms show ?thesis
      by (auto simp: bitset_def)
  qed
qed


lemma test_bit_set_bit_spec:
  assumes "unat x < 8 * length bf"
  shows "\<exists>bf'. test_bit_set_bit bf x setb = Inr (if unat x \<in> bitset bf then 1 else 0, bf') \<and>
    length bf' = length bf \<and> bitset bf' = (if setb then insert (unat x) (bitset bf) else bitset bf) \<and>
    (\<not> setb \<longrightarrow> bf' = bf)"
proof -
  let ?n = "unat (x mod 8)" and ?i = "unat (drop_bit 3 x)"
  have i: "?i = unat x div 8"
    by (simp add: drop_bit_eq_div unat_div)
  have n: "?n = unat x mod 8"
    by (simp add: unat_mod)
  then have n8: "?n < 8" by simp
  have lt: "?i < length bf"
    using assms by (simp add: i) 
  have test: "(ucast (bf ! ?i) AND push_bit ?n (1 :: u32) \<noteq> 0) \<longleftrightarrow> bit (bf ! ?i) ?n"
    unfolding bit_iff_and_push_bit_not_eq_0 [symmetric] using n8 by (simp add: bit_unsigned_iff)
  have setv: "(ucast (ucast (bf ! ?i) OR push_bit ?n (1 :: u32)) :: byte) = set_bit ?n (bf ! ?i)"
    using n8 by (intro bit_eqI) (auto simp: bit_unsigned_iff bit_or_iff bit_exp_iff bit_set_bit_iff)
  have mem: "unat x \<in> bitset bf \<longleftrightarrow> bit (bf ! ?i) ?n"
    using assms by (simp add: bitset_def i n)
  have upd: "bitset (bf[?i := set_bit ?n (bf ! ?i)]) = insert (unat x) (bitset bf)"
    using bitset_set_bit [OF assms] by (simp add: i n)
  have run: "test_bit_set_bit bf x setb =
      (if bit (bf ! ?i) ?n then Inr (1, bf)
       else if setb then Inr (0, bf[?i := set_bit ?n (bf ! ?i)]) else Inr (0, bf))"
    unfolding test_bit_set_bit_def Let_def read_byte_ok [OF lt] write_byte_ok [OF lt] bnd_Inr test setv
    by (rule refl)
  show ?thesis
  proof (cases "bit (bf ! ?i) ?n")
    case True
    then show ?thesis by (simp add: run mem insert_absorb)
  next
    case False
    then show ?thesis using upd by (simp add: run mem)
  qed
qed

section \<open>Probing\<close>

definition probe_pos :: "u32 \<Rightarrow> u32 \<Rightarrow> u32 \<Rightarrow> u32 \<Rightarrow> u32 \<Rightarrow> nat set" where
  "probe_pos a b bits hashes i = {unat ((a + j * b) mod bits) | j. i \<le> j \<and> j < hashes}"

lemma probe_pos_empty: "\<not> i < hashes \<Longrightarrow> probe_pos a b bits hashes i = {}"
  by (auto simp: probe_pos_def)

lemma probe_pos_step:
  assumes "i < hashes"
  shows "probe_pos a b bits hashes i =
    insert (unat ((a + i * b) mod bits)) (probe_pos a b bits hashes (i + 1))"
proof -
  have "i \<le> j \<longleftrightarrow> j = i \<or> i + 1 \<le> j" for j
    using unat_plus1_less [OF assms] by (auto simp: word_le_nat_alt word_unat_eq_iff)
  then show ?thesis
    using assms by (auto simp: probe_pos_def)
qed

text \<open>From probe \<open>i\<close> on, with every earlier probe a hit or not, the loop reports whether all
  probes hit, and with \<open>add\<close> it leaves the remaining positions set.\<close>

lemma bloom_probe_spec:
  assumes "0 < bits" and "unat bits \<le> 8 * length bf" and "sint hashes = int (unat hashes)"
    and "hits \<le> int (unat i)" and "i \<le> hashes"
  shows "\<exists>bf'. bloom_probe a b bits hashes add i hits bf =
      Inr (if hits = int (unat i) \<and> probe_pos a b bits hashes i \<subseteq> bitset bf then 1 else 0, bf') \<and>
    length bf' = length bf \<and>
    bitset bf' = (if add then bitset bf \<union> probe_pos a b bits hashes i else bitset bf) \<and>
    (\<not> add \<longrightarrow> bf' = bf)"
  using assms
proof (induction a b bits hashes add i hits bf rule: bloom_probe.induct)
  case (1 a b bits hashes add i hits bf)
  show ?case
  proof (cases "i < hashes")
    case False
    with "1.prems" have i: "i = hashes" by simp
    have "bloom_probe a b bits hashes add i hits bf = Inr (if hits = sint hashes then 1 else 0, bf)"
      using False by (subst bloom_probe.simps) simp
    with i False "1.prems"(3) show ?thesis
      by (auto simp: probe_pos_empty)
  next
    case True
    let ?x = "(a + i * b) mod bits"
    have suc: "unat (i + 1) = Suc (unat i)"
      using unat_plus1_less [OF True] .
    have "unat ?x < unat bits"
      using "1.prems"(1) by (simp add: unat_mod word_less_nat_alt)
    with "1.prems"(2) have x: "unat ?x < 8 * length bf" by simp
    obtain bf1 where t: "test_bit_set_bit bf ?x add = Inr (if unat ?x \<in> bitset bf then 1 else 0, bf1)"
      and bf1: "length bf1 = length bf"
        "bitset bf1 = (if add then insert (unat ?x) (bitset bf) else bitset bf)" "\<not> add \<longrightarrow> bf1 = bf"
      using test_bit_set_bit_spec [OF x] by blast
    have nz: "bits \<noteq> 0" using "1.prems"(1) by auto
    have le: "i + 1 \<le> hashes"
      using True suc by (simp add: word_le_nat_alt word_less_nat_alt)
    note step = probe_pos_step [OF True, of a b bits]
    note unf = bloom_probe.simps [of a b bits hashes add i hits bf]
    show ?thesis
    proof (cases "unat ?x \<in> bitset bf")
      case hit: True
      have bs: "bitset bf1 = bitset bf"
        using bf1(2) hit by auto
      obtain bf2 where "bloom_probe a b bits hashes add (i + 1) (hits + 1) bf1 =
          Inr (if hits + 1 = int (unat (i + 1)) \<and> probe_pos a b bits hashes (i + 1) \<subseteq> bitset bf1 then 1 else 0, bf2)"
        "length bf2 = length bf1"
        "bitset bf2 = (if add then bitset bf1 \<union> probe_pos a b bits hashes (i + 1) else bitset bf1)"
        "\<not> add \<longrightarrow> bf2 = bf1"
        using "1.IH"(1) [OF True nz refl t] "1.prems" bf1(1) hit le suc by auto
      moreover have "bloom_probe a b bits hashes add i hits bf =
          bloom_probe a b bits hashes add (i + 1) (hits + 1) bf1"
        using hit by (simp add: unf True nz Let_def t)
      ultimately show ?thesis
        using hit bs bf1 by (auto simp: step suc)
    next
      case miss: False
      show ?thesis
      proof (cases add)
        case False
        then have "bloom_probe a b bits hashes add i hits bf = Inr (0, bf1)"
          using miss t by (subst bloom_probe.simps) (simp add: True nz Let_def)
        with False miss bf1 show ?thesis
          by (auto simp: step)
      next
        case add: True
        obtain bf2 where "bloom_probe a b bits hashes add (i + 1) hits bf1 =
            Inr (if hits = int (unat (i + 1)) \<and> probe_pos a b bits hashes (i + 1) \<subseteq> bitset bf1 then 1 else 0, bf2)"
          "length bf2 = length bf1"
          "bitset bf2 = (if add then bitset bf1 \<union> probe_pos a b bits hashes (i + 1) else bitset bf1)"
          using "1.IH"(2) [OF True nz refl t] "1.prems" bf1(1) miss add le suc by auto
        moreover have "hits \<noteq> int (unat (i + 1))"
          using "1.prems"(4) suc by simp
        moreover have "bloom_probe a b bits hashes add i hits bf = bloom_probe a b bits hashes add (i + 1) hits bf1"
          using miss add t by (subst bloom_probe.simps) (simp add: True nz Let_def)
        ultimately show ?thesis
          using miss bf1 add by (auto simp: step)
      qed
    qed
  qed
qed


section \<open>Refinement of the filter operations\<close>

definition wf_bloom :: "bloom \<Rightarrow> bool" where
  "wf_bloom f \<longleftrightarrow> 0 < bl_bits f \<and> bl_bits f < 2 ^ 31 \<and> 0 < bl_hashes f \<and> bl_hashes f < 2 ^ 31 \<and>
     0 \<le> bl_bytes f \<and> length (bl_bf f) = nat (bl_bytes f) \<and> bl_bits f \<le> 8 * bl_bytes f \<and>
     bl_ready f \<noteq> 0"

definition elem_ok :: "bytes \<times> int \<Rightarrow> bool" where
  "elem_ok x \<longleftrightarrow> 0 \<le> snd x \<and> snd x \<le> int (length (fst x))"

definition positions :: "bloom \<Rightarrow> bytes \<times> int \<Rightarrow> nat set" where
  "positions f x =
     (case murmurhash2 (fst x) (snd x) 0x9747b28c of Inl _ \<Rightarrow> {} | Inr a \<Rightarrow>
        (case murmurhash2 (fst x) (snd x) a of Inl _ \<Rightarrow> {} | Inr b \<Rightarrow>
           probe_pos a b (word_of_int (bl_bits f)) (word_of_int (bl_hashes f)) 0))"

lemma word_of_int_small:
  assumes "0 \<le> k" and "k < 2 ^ 31"
  shows "unat (word_of_int k :: u32) = nat k" and "sint (word_of_int k :: u32) = k"
proof -
  show "unat (word_of_int k :: u32) = nat k"
    using assms by (simp add: unat_eq_nat_uint unsigned_of_int take_bit_int_eq_self)
  show "sint (word_of_int k :: u32) = k"
    using assms by (simp add: signed_of_int signed_take_bit_int_eq_self)
qed

text \<open>Checking and adding, on the set of bit positions.\<close>

lemma bloom_check_add_spec:
  assumes "wf_bloom f" and "elem_ok (buf, len)"
  shows "\<exists>bf. bloom_check_add f buf len add =
      Inr (if positions f (buf, len) \<subseteq> bitset (bl_bf f) then 1 else 0, f\<lparr>bl_bf := bf\<rparr>) \<and>
    length bf = length (bl_bf f) \<and>
    bitset bf = (if add then bitset (bl_bf f) \<union> positions f (buf, len) else bitset (bl_bf f)) \<and>
    (\<not> add \<longrightarrow> bf = bl_bf f)"
proof -
  have len: "0 \<le> len" "len \<le> int (length buf)"
    using assms(2) by (simp_all add: elem_ok_def)
  obtain a where a: "murmurhash2 buf len 0x9747b28c = Inr a"
    using murmurhash2_ok [OF len] by blast
  obtain b where b: "murmurhash2 buf len a = Inr b"
    using murmurhash2_ok [OF len] by blast
  let ?bits = "word_of_int (bl_bits f) :: u32" and ?hs = "word_of_int (bl_hashes f) :: u32"
  have pos: "positions f (buf, len) = probe_pos a b ?bits ?hs 0"
    by (simp add: positions_def a b)
  have ub: "unat ?bits = nat (bl_bits f)" "unat ?hs = nat (bl_hashes f)" "sint ?hs = bl_hashes f"
    using assms(1) by (simp_all add: wf_bloom_def word_of_int_small)
  have "0 < ?bits"
    using ub(1) assms(1) by (simp add: word_less_nat_alt wf_bloom_def)
  moreover have "nat (bl_bits f) \<le> 8 * nat (bl_bytes f)"
    using assms(1) unfolding wf_bloom_def by linarith
  then have "unat ?bits \<le> 8 * length (bl_bf f)"
    using ub(1) assms(1) by (simp add: wf_bloom_def)
  moreover have "sint ?hs = int (unat ?hs)"
    using ub(2,3) assms(1) by (simp add: wf_bloom_def)
  ultimately obtain bf where
    "bloom_probe a b ?bits ?hs add 0 0 (bl_bf f) =
       Inr (if (0::int) = int (unat (0::u32)) \<and> probe_pos a b ?bits ?hs 0 \<subseteq> bitset (bl_bf f) then 1 else 0, bf)"
    "length bf = length (bl_bf f)"
    "bitset bf = (if add then bitset (bl_bf f) \<union> probe_pos a b ?bits ?hs 0 else bitset (bl_bf f))"
    "\<not> add \<longrightarrow> bf = bl_bf f"
    using bloom_probe_spec [of ?bits "bl_bf f" ?hs 0 0 a b add] by auto
  then show ?thesis
    using assms(1) by (intro exI [of _ bf]) (simp add: bloom_check_add_def a b pos wf_bloom_def)
qed

lemma positions_upd [simp]: "positions (f\<lparr>bl_bf := bf\<rparr>) x = positions f x"
  by (simp add: positions_def split: sum.split)

lemma wf_bloom_upd: "wf_bloom f \<Longrightarrow> length bf = length (bl_bf f) \<Longrightarrow> wf_bloom (f\<lparr>bl_bf := bf\<rparr>)"
  by (simp add: wf_bloom_def)

lemma positions_nonempty:
  assumes "wf_bloom f" and "elem_ok x"
  shows "positions f x \<noteq> {}"
proof -
  have len: "0 \<le> snd x" "snd x \<le> int (length (fst x))"
    using assms(2) by (simp_all add: elem_ok_def)
  obtain a where a: "murmurhash2 (fst x) (snd x) 0x9747b28c = Inr a"
    using murmurhash2_ok [OF len] by blast
  obtain b where b: "murmurhash2 (fst x) (snd x) a = Inr b"
    using murmurhash2_ok [OF len] by blast
  have "0 < (word_of_int (bl_hashes f) :: u32)"
    using assms(1) by (simp add: word_less_nat_alt wf_bloom_def word_of_int_small)
  then show ?thesis
    by (simp add: positions_def a b probe_pos_step)
qed

text \<open>An element is identified by its first \<^verbatim>\<open>len\<close> bytes.\<close>

lemma positions_take: "n \<le> length buf \<Longrightarrow> positions f (take n buf, int n) = positions f (buf, int n)"
  by (simp add: positions_def murmurhash2_take split: sum.split)

section \<open>The interface the ping-pong filter uses\<close>

locale membership_filter =
  fixes inv :: "'f \<Rightarrow> bool"
    and ok :: "'e \<Rightarrow> bool"
    and found :: "'f \<Rightarrow> 'e \<Rightarrow> bool"
    and check :: "'f \<Rightarrow> 'e \<Rightarrow> (int \<times> 'f) res"
    and add :: "'f \<Rightarrow> 'e \<Rightarrow> (int \<times> 'f) res"
    and reset :: "'f \<Rightarrow> (int \<times> 'f) res"
  assumes check_law: "inv f \<Longrightarrow> ok x \<Longrightarrow> check f x = Inr (if found f x then 1 else 0, f)"
    and add_law: "inv f \<Longrightarrow> ok x \<Longrightarrow>
      \<exists>f'. add f x = Inr (if found f x then 1 else 0, f') \<and> inv f' \<and> found f' x \<and>
        (\<forall>y. found f y \<longrightarrow> found f' y)"
    and reset_law: "inv f \<Longrightarrow>
      \<exists>f'. reset f = Inr (0, f') \<and> inv f' \<and> (\<forall>y. ok y \<longrightarrow> \<not> found f' y)"
begin

fun add_all :: "'f \<Rightarrow> 'e list \<Rightarrow> 'f res" where
  "add_all f [] = Inr f"
| "add_all f (x # xs) = bnd (add f x) (\<lambda>(_, f'). add_all f' xs)"

text \<open>No false negatives over any sequence of insertions.\<close>

lemma add_all_found:
  "inv f \<Longrightarrow> (\<forall>x\<in>set xs. ok x) \<Longrightarrow>
   \<exists>f'. add_all f xs = Inr f' \<and> inv f' \<and> (\<forall>y. found f y \<or> y \<in> set xs \<longrightarrow> found f' y)"
proof (induction xs arbitrary: f)
  case (Cons x xs)
  obtain f1 where f1: "add f x = Inr (if found f x then 1 else 0, f1)" "inv f1" "found f1 x"
    "\<forall>y. found f y \<longrightarrow> found f1 y"
    using add_law [of f x] Cons.prems by auto
  obtain f' where "add_all f1 xs = Inr f'" "inv f'" "\<forall>y. found f1 y \<or> y \<in> set xs \<longrightarrow> found f' y"
    using Cons.IH [OF f1(2)] Cons.prems(2) by auto
  with f1 show ?case by auto
qed simp

lemma check_after_add:
  assumes "inv f" "ok x" "add f x = Inr (r, f')"
  shows "check f' x = Inr (1, f')"
  using add_law [OF assms(1,2)] assms check_law by auto

end

definition bloom_found :: "bloom \<Rightarrow> bytes \<times> int \<Rightarrow> bool" where
  "bloom_found f x \<longleftrightarrow> positions f x \<subseteq> bitset (bl_bf f)"

lemma bloom_reset_ok:
  assumes "wf_bloom f"
  shows "bloom_reset f = Inr (0, f\<lparr>bl_bf := replicate (length (bl_bf f)) 0\<rparr>)"
  using assms by (simp add: bloom_reset_def wf_bloom_def mem_simps)

interpretation blf: membership_filter wf_bloom elem_ok bloom_found
  "\<lambda>f (buf, len). bloom_check f buf len" "\<lambda>f (buf, len). bloom_add f buf len" bloom_reset
proof unfold_locales
  fix f :: bloom and x :: "bytes \<times> int"
  assume wf: "wf_bloom f" and ok: "elem_ok x"
  obtain buf len where x: "x = (buf, len)" by (cases x)
  show "(case x of (buf, len) \<Rightarrow> bloom_check f buf len) = Inr (if bloom_found f x then 1 else 0, f)"
    using bloom_check_add_spec [OF wf ok [unfolded x], of False]
    by (auto simp: x bloom_check_def bloom_found_def)
  show "\<exists>f'. (case x of (buf, len) \<Rightarrow> bloom_add f buf len) = Inr (if bloom_found f x then 1 else 0, f') \<and>
      wf_bloom f' \<and> bloom_found f' x \<and> (\<forall>y. bloom_found f y \<longrightarrow> bloom_found f' y)"
  proof -
    obtain bf where bf: "bloom_check_add f buf len True =
        Inr (if positions f (buf, len) \<subseteq> bitset (bl_bf f) then 1 else 0, f\<lparr>bl_bf := bf\<rparr>)"
      "length bf = length (bl_bf f)" "bitset bf = bitset (bl_bf f) \<union> positions f (buf, len)"
      using bloom_check_add_spec [OF wf ok [unfolded x], of True] by auto
    show ?thesis
      by (rule exI [of _ "f\<lparr>bl_bf := bf\<rparr>"])
        (use bf wf in \<open>auto simp: x bloom_add_def bloom_found_def wf_bloom_upd\<close>)
  qed
next
  fix f :: bloom
  assume wf: "wf_bloom f"
  then have "wf_bloom (f\<lparr>bl_bf := replicate (length (bl_bf f)) 0\<rparr>)"
    by (simp add: wf_bloom_upd)
  then show "\<exists>f'. bloom_reset f = Inr (0, f') \<and> wf_bloom f' \<and> (\<forall>y. elem_ok y \<longrightarrow> \<not> bloom_found f' y)"
    using bloom_reset_ok [OF wf] positions_nonempty wf by (auto simp: bloom_found_def)
qed

section \<open>Initialisation\<close>

lemma bytes_of_bits:
  assumes "0 \<le> bits"
  shows "0 \<le> bloom_bytes bits" and "bits \<le> 8 * bloom_bytes bits" and "8 * bloom_bytes bits < bits + 8"
  using assms by (auto simp: bloom_bytes_def signed_divide_int_def signed_modulo_int_def sgn_if) presburger

lemma cast_int_range: "cast_int x = Inr t \<Longrightarrow> - (2 ^ 31) \<le> t \<and> t < 2 ^ 31"
  by (auto simp: cast_int_def Let_def split: if_splits)

lemma bloom_init_wf:
  assumes "bloom_init h lm f0 entries error = Inr (0, f)" and "0 < bl_bits f" and "0 < bl_hashes f"
  shows "wf_bloom f \<and> bitset (bl_bf f) = {} \<and> bl_entries f = entries"
proof -
  obtain bits hashes where
    b: "cast_int (fl lm (of_int entries * - fl lm (log_d lm error / fl lm (480453013918201 / 10 ^ 15)))) = Inr bits"
    and h: "cast_int (of_int \<lceil>fl lm (fl lm (693147180559945 / 10 ^ 15) *
        - fl lm (log_d lm error / fl lm (480453013918201 / 10 ^ 15)))\<rceil>) = Inr hashes"
    and f: "bl_bits f = bits" "bl_hashes f = hashes" "bl_ready f = 1" "bl_entries f = entries"
      "bl_bytes f = bloom_bytes bits"
      "bl_bf f = replicate (nat (bl_bytes f)) 0"
    using assms(1) by (auto simp: bloom_init_def Let_def bnd_Inr_iff split: if_splits)
  show ?thesis
    using cast_int_range [OF b] cast_int_range [OF h] bytes_of_bits [of bits] assms(2,3)
    by (simp add: wf_bloom_def f)
qed

end
