(* ===== verification/SS_PPBloom.thy ===== *)
theory SS_PPBloom
  imports SS_Bloom
begin

text \<open>
  The ping-pong replay filter of \<^verbatim>\<open>src/ppbloom.c\<close>: two Bloom filters, one of which is filled; when it
  has taken \<^verbatim>\<open>entries\<close> insertions the other one is erased and filled next. The file's static
  variables are the record \<open>ppbloom_t\<close>.

  The invariant \<open>wf_pp\<close> is kept by every operation; \<open>survives s x k\<close> says how many more
  insertions an element is guaranteed to be recognised for. The locale \<open>replay_guard\<close> is the
  interface the ciphers use: an accepted salt or IV is recognised during the next
  \<^verbatim>\<open>entries - 1\<close> insertions.
\<close>

section \<open>State and operations\<close>

abbreviation (input) PING :: nat where "PING \<equiv> 0"
abbreviation (input) PONG :: nat where "PONG \<equiv> 1"

record ppbloom_t =
  pp_bloom :: "nat \<Rightarrow> bloom"
  pp_count :: "nat \<Rightarrow> int"
  pp_current :: nat
  pp_entries :: int
  pp_error :: real

definition ppbloom_init :: "heap \<Rightarrow> libm \<Rightarrow> ppbloom_t \<Rightarrow> int \<Rightarrow> real \<Rightarrow> (int \<times> ppbloom_t) res" where
  "ppbloom_init h lm s n e =
     (let s = s\<lparr>pp_entries := n sdiv 2, pp_error := e\<rparr> in
      bnd (bloom_init h lm (pp_bloom s PING) (pp_entries s) (pp_error s)) (\<lambda>(err, f).
        let s = s\<lparr>pp_bloom := (pp_bloom s)(PING := f)\<rparr> in
        if err \<noteq> 0 then Inr (err, s)
        else bnd (bloom_init h lm (pp_bloom s PONG) (pp_entries s) (pp_error s)) (\<lambda>(err, f).
          let s = s\<lparr>pp_bloom := (pp_bloom s)(PONG := f)\<rparr> in
          if err \<noteq> 0 then Inr (err, s)
          else Inr (0, s\<lparr>pp_count := (pp_count s)(PING := 0, PONG := 0), pp_current := PING\<rparr>))))"

definition ppbloom_check :: "ppbloom_t \<Rightarrow> bytes \<Rightarrow> int \<Rightarrow> int res" where
  "ppbloom_check s buffer len =
     bnd (bloom_check (pp_bloom s PING) buffer len) (\<lambda>(ret, _).
       if ret \<noteq> 0 then Inr ret
       else bnd (bloom_check (pp_bloom s PONG) buffer len) (\<lambda>(ret, _).
         if ret \<noteq> 0 then Inr ret else Inr 0))"

definition ppbloom_add :: "ppbloom_t \<Rightarrow> bytes \<Rightarrow> int \<Rightarrow> (int \<times> ppbloom_t) res" where
  "ppbloom_add s buffer len =
     (let c = pp_current s in
      bnd (bloom_add (pp_bloom s c) buffer len) (\<lambda>(err, f).
        let s = s\<lparr>pp_bloom := (pp_bloom s)(c := f)\<rparr> in
        if err = -1 then Inr (err, s)
        else
          let s = s\<lparr>pp_count := (pp_count s)(c := pp_count s c + 1)\<rparr> in
          if pp_count s c \<ge> pp_entries s then
            let s = s\<lparr>pp_count := (pp_count s)(c := 0)\<rparr>;
                c' = (if pp_current s = PING then PONG else PING);
                s = s\<lparr>pp_current := c'\<rparr>
            in bnd (bloom_reset (pp_bloom s c')) (\<lambda>(_, f).
                 Inr (0, s\<lparr>pp_bloom := (pp_bloom s)(c' := f)\<rparr>))
          else Inr (0, s)))"

definition ppbloom_free :: "ppbloom_t \<Rightarrow> ppbloom_t" where
  "ppbloom_free s =
     s\<lparr>pp_bloom := (pp_bloom s)(PING := bloom_free (pp_bloom s PING),
                                   PONG := bloom_free (pp_bloom s PONG))\<rparr>"

section \<open>Invariant\<close>

definition other :: "nat \<Rightarrow> nat" where
  "other c = (if c = PING then PONG else PING)"

definition wf_pp :: "ppbloom_t \<Rightarrow> bool" where
  "wf_pp s \<longleftrightarrow> (pp_current s = PING \<or> pp_current s = PONG) \<and>
     wf_bloom (pp_bloom s (pp_current s)) \<and> wf_bloom (pp_bloom s (other (pp_current s))) \<and>
     0 \<le> pp_count s (pp_current s) \<and> pp_count s (pp_current s) < pp_entries s \<and>
     pp_count s (other (pp_current s)) = 0"

definition pp_found :: "ppbloom_t \<Rightarrow> bytes \<times> int \<Rightarrow> bool" where
  "pp_found s x \<longleftrightarrow> bloom_found (pp_bloom s PING) x \<or> bloom_found (pp_bloom s PONG) x"

text \<open>How many further insertions an element outlives: it sits in the filter being filled (and then
  also outlives one whole filling of the other), or in the other one.\<close>

definition survives :: "ppbloom_t \<Rightarrow> bytes \<times> int \<Rightarrow> nat \<Rightarrow> bool" where
  "survives s x k \<longleftrightarrow>
     (bloom_found (pp_bloom s (pp_current s)) x \<and>
        int k < 2 * pp_entries s - pp_count s (pp_current s)) \<or>
     (bloom_found (pp_bloom s (other (pp_current s))) x \<and>
        int k < pp_entries s - pp_count s (pp_current s))"

lemma other_neq: "c = PING \<or> c = PONG \<Longrightarrow> other c \<noteq> c"
  and other_other: "c = PING \<or> c = PONG \<Longrightarrow> other (other c) = c"
  and other_range: "other c = PING \<or> other c = PONG"
  by (auto simp: other_def)

lemma wf_pp_bloom: "wf_pp s \<Longrightarrow> c = PING \<or> c = PONG \<Longrightarrow> wf_bloom (pp_bloom s c)"
  by (auto simp: wf_pp_def other_def)

lemma survives_found: "wf_pp s \<Longrightarrow> survives s x k \<Longrightarrow> pp_found s x"
  by (auto simp: survives_def pp_found_def wf_pp_def other_def split: if_splits)

lemma bloom_add_ready:
  assumes "wf_bloom f" and "elem_ok (buf, len)"
  obtains r f' where "bloom_add f buf len = Inr (r, f')" and "r \<noteq> -1" and "wf_bloom f'"
    and "bloom_found f' (buf, len)" and "\<And>y. bloom_found f y \<Longrightarrow> bloom_found f' y"
  using blf.add_law [OF assms] by (auto split: if_splits)

lemma ppbloom_check_spec:
  assumes "wf_pp s" and "elem_ok (buf, len)"
  shows "ppbloom_check s buf len = Inr (if pp_found s (buf, len) then 1 else 0)"
proof -
  have "bloom_check (pp_bloom s c) buf len =
      Inr (if bloom_found (pp_bloom s c) (buf, len) then 1 else 0, pp_bloom s c)"
    if "c = PING \<or> c = PONG" for c
    using blf.check_law [OF wf_pp_bloom [OF assms(1) that] assms(2)] by simp
  then show ?thesis
    by (simp add: ppbloom_check_def pp_found_def)
qed

text \<open>The two ways an insertion ends: room is left in the current filter, or the filters swap.\<close>

lemma ppbloom_add_cases:
  assumes "wf_pp s" and "elem_ok (buf, len)"
  obtains
    (stay) f where "ppbloom_add s buf len = Inr (0, s\<lparr>pp_bloom := (pp_bloom s)(pp_current s := f),
          pp_count := (pp_count s)(pp_current s := pp_count s (pp_current s) + 1)\<rparr>)"
      and "wf_bloom f" and "bloom_found f (buf, len)"
      and "\<And>y. bloom_found (pp_bloom s (pp_current s)) y \<Longrightarrow> bloom_found f y"
      and "pp_count s (pp_current s) + 1 < pp_entries s"
  | (swap) f g where "ppbloom_add s buf len = Inr (0, s\<lparr>pp_bloom := (pp_bloom s)(pp_current s := f,
          other (pp_current s) := g), pp_count := (pp_count s)(pp_current s := 0),
          pp_current := other (pp_current s)\<rparr>)"
      and "wf_bloom f" and "bloom_found f (buf, len)"
      and "\<And>y. bloom_found (pp_bloom s (pp_current s)) y \<Longrightarrow> bloom_found f y"
      and "wf_bloom g" and "pp_count s (pp_current s) + 1 = pp_entries s"
proof -
  let ?c = "pp_current s"
  have c: "?c = PING \<or> ?c = PONG"
    using assms(1) by (simp add: wf_pp_def)
  obtain r f where f: "bloom_add (pp_bloom s ?c) buf len = Inr (r, f)" "r \<noteq> -1" "wf_bloom f"
    "bloom_found f (buf, len)" "\<And>y. bloom_found (pp_bloom s ?c) y \<Longrightarrow> bloom_found f y"
    using bloom_add_ready [OF wf_pp_bloom [OF assms(1) c] assms(2)] by blast
  show ?thesis
  proof (cases "pp_count s ?c + 1 < pp_entries s")
    case True
    show ?thesis
      by (rule stay [OF _ f(3,4,5) True]) (use True f(1,2) in \<open>simp_all add: ppbloom_add_def Let_def\<close>)
  next
    case False
    have oc: "other ?c = PING \<or> other ?c = PONG" "other ?c \<noteq> ?c"
      using c by (auto simp: other_def)
    obtain g where g: "bloom_reset (pp_bloom s (other ?c)) = Inr (0, g)" "wf_bloom g"
      using blf.reset_law [OF wf_pp_bloom [OF assms(1) oc(1)]] by blast
    have "pp_count s ?c + 1 = pp_entries s"
      using False assms(1) by (simp add: wf_pp_def)
    then show ?thesis
      by (rule swap [OF _ f(3,4,5) g(2), rotated -1])
        (use False f(1,2) g(1) oc(2) in
          \<open>simp_all add: ppbloom_add_def Let_def other_def fun_upd_twist split: if_splits\<close>)
  qed
qed

lemma ppbloom_add_spec:
  assumes "wf_pp s" and "elem_ok (buf, len)"
  shows "\<exists>s'. ppbloom_add s buf len = Inr (0, s') \<and> wf_pp s' \<and>
    pp_entries s' = pp_entries s \<and> survives s' (buf, len) (nat (pp_entries s - 1)) \<and>
    (\<forall>y k. survives s y (Suc k) \<longrightarrow> survives s' y k)"
proof -
  let ?c = "pp_current s"
  have c: "?c = PING \<or> ?c = PONG"
    using assms(1) by (simp add: wf_pp_def)
  note oc = other_neq [OF c] other_other [OF c]
  show ?thesis
    using assms
  proof (cases rule: ppbloom_add_cases)
    case (stay f)
    show ?thesis
      by (rule exI, rule conjI, rule stay(1), intro conjI allI impI)
        (use stay(2-) assms(1) c oc in \<open>auto simp: wf_pp_def survives_def\<close>)
  next
    case (swap f g)
    show ?thesis
      by (rule exI, rule conjI, rule swap(1), intro conjI allI impI)
        (use swap(2-) assms(1) oc other_range [of ?c] in \<open>auto simp: wf_pp_def survives_def\<close>)
  qed
qed

section \<open>The interface the ciphers use\<close>

locale replay_guard =
  fixes inv :: "'s \<Rightarrow> bool"
    and ok :: "'e \<Rightarrow> bool"
    and found :: "'s \<Rightarrow> 'e \<Rightarrow> bool"
    and lasts :: "'s \<Rightarrow> 'e \<Rightarrow> nat \<Rightarrow> bool"
    and window :: "'s \<Rightarrow> nat"
    and query :: "'s \<Rightarrow> 'e \<Rightarrow> int res"
    and insert :: "'s \<Rightarrow> 'e \<Rightarrow> (int \<times> 's) res"
  assumes query_law: "inv s \<Longrightarrow> ok x \<Longrightarrow> query s x = Inr (if found s x then 1 else 0)"
    and insert_law: "inv s \<Longrightarrow> ok x \<Longrightarrow>
      \<exists>s'. insert s x = Inr (0, s') \<and> inv s' \<and> window s' = window s \<and> lasts s' x (window s - 1) \<and>
        (\<forall>y k. lasts s y (Suc k) \<longrightarrow> lasts s' y k)"
    and lasts_found: "inv s \<Longrightarrow> lasts s x k \<Longrightarrow> found s x"
    and lasts_mono: "lasts s x k \<Longrightarrow> j \<le> k \<Longrightarrow> lasts s x j"
begin

fun insert_all :: "'s \<Rightarrow> 'e list \<Rightarrow> 's res" where
  "insert_all s [] = Inr s"
| "insert_all s (x # xs) = bnd (insert s x) (\<lambda>(_, s'). insert_all s' xs)"

lemma insert_all_lasts:
  "inv s \<Longrightarrow> (\<forall>y\<in>set ys. ok y) \<Longrightarrow> lasts s x (k + length ys) \<Longrightarrow>
   \<exists>s'. insert_all s ys = Inr s' \<and> inv s' \<and> window s' = window s \<and> lasts s' x k"
proof (induction ys arbitrary: s)
  case (Cons y ys)
  obtain s1 where s1: "insert s y = Inr (0, s1)" "inv s1" "window s1 = window s"
    "\<forall>z k. lasts s z (Suc k) \<longrightarrow> lasts s1 z k"
    using insert_law [of s y] Cons.prems by auto
  have "lasts s1 x (k + length ys)"
    using s1(4) Cons.prems(3) by simp
  with Cons.IH [OF s1(2)] Cons.prems(2) s1 show ?case by auto
qed simp

text \<open>An inserted element is recognised through every later sequence shorter than the window.\<close>

lemma replay_detected:
  assumes "inv s" and "ok x" and "\<forall>y\<in>set ys. ok y" and "length ys < window s"
  shows "\<exists>s1 s2. insert s x = Inr (0, s1) \<and> insert_all s1 ys = Inr s2 \<and> inv s2 \<and> query s2 x = Inr 1"
proof -
  obtain s1 where s1: "insert s x = Inr (0, s1)" "inv s1" "lasts s1 x (window s - 1)"
    using insert_law [OF assms(1,2)] by blast
  have "lasts s1 x (0 + length ys)"
    using lasts_mono [OF s1(3)] assms(4) by simp
  then obtain s2 where "insert_all s1 ys = Inr s2" "inv s2" "lasts s2 x 0"
    using insert_all_lasts [OF s1(2) assms(3)] by blast
  then show ?thesis
    using s1 query_law [of s2 x] assms(2) lasts_found by auto
qed

end

interpretation ppg: replay_guard wf_pp elem_ok pp_found survives "\<lambda>s. nat (pp_entries s)"
  "\<lambda>s (buf, len). ppbloom_check s buf len" "\<lambda>s (buf, len). ppbloom_add s buf len"
proof unfold_locales
  fix s :: ppbloom_t and x :: "bytes \<times> int"
  assume wf: "wf_pp s" and ok: "elem_ok x"
  show "(case x of (buf, len) \<Rightarrow> ppbloom_check s buf len) = Inr (if pp_found s x then 1 else 0)"
    using ppbloom_check_spec [OF wf] ok by (cases x) simp
  have "nat (pp_entries s - 1) = nat (pp_entries s) - 1"
    by simp
  then show "\<exists>s'. (case x of (buf, len) \<Rightarrow> ppbloom_add s buf len) = Inr (0, s') \<and> wf_pp s' \<and>
      nat (pp_entries s') = nat (pp_entries s) \<and> survives s' x (nat (pp_entries s) - 1) \<and>
      (\<forall>y k. survives s y (Suc k) \<longrightarrow> survives s' y k)"
    using ppbloom_add_spec [OF wf, of "fst x" "snd x"] ok by (cases x) auto
next
  show "survives s x k \<Longrightarrow> j \<le> k \<Longrightarrow> survives s x j" for s x k j
    by (auto simp: survives_def)
qed (rule survives_found)

section \<open>Properties\<close>

fun ppbloom_adds :: "ppbloom_t \<Rightarrow> (bytes \<times> int) list \<Rightarrow> ppbloom_t res" where
  "ppbloom_adds s [] = Inr s"
| "ppbloom_adds s ((buf, len) # xs) = bnd (ppbloom_add s buf len) (\<lambda>(_, s'). ppbloom_adds s' xs)"

lemma ppbloom_adds_eq: "ppbloom_adds s xs = ppg.insert_all s xs"
  by (induction s xs rule: ppbloom_adds.induct) (auto intro!: bnd_cong)

text \<open>C14: a salt or IV recorded in the replay filter is recognised by every check made before
  \<^verbatim>\<open>entries\<close> further insertions, whatever is inserted in between and however often the two filters
  swap.\<close>

theorem ppbloom_replay_window:
  assumes "wf_pp s" and "elem_ok (salt, len)" and "\<forall>y\<in>set ys. elem_ok y"
    and "length ys < nat (pp_entries s)"
  shows "\<exists>s1 s2. ppbloom_add s salt len = Inr (0, s1) \<and>
    ppbloom_adds s1 ys = Inr s2 \<and> wf_pp s2 \<and> ppbloom_check s2 salt len = Inr 1"
  using ppg.replay_detected [OF assms] by (simp add: ppbloom_adds_eq)

end
