(* ===== verification/SS_Lib.thy ===== *)
theory SS_Lib
  imports SS_Buffer SS_PPBloom
begin

text \<open>
  What the C code shares: the cipher structures of \<^verbatim>\<open>src/crypto.h\<close>, the return codes, the static
  variables of the process, and the record of the external functions it calls. libsodium and mbed
  TLS are not part of the repository: each function the code calls is a field of \<open>crypto_lib\<close>, and an
  opaque library structure is the image of its memory. A field takes the bytes the C function reads
  and returns its error code, the new image of the structure it updates and the bytes it writes.
\<close>

section \<open>Return codes and sizes\<close>

abbreviation (input) CRYPTO_ERROR :: int where "CRYPTO_ERROR \<equiv> -2"
abbreviation (input) CRYPTO_NEED_MORE :: int where "CRYPTO_NEED_MORE \<equiv> -1"
abbreviation (input) CRYPTO_OK :: int where "CRYPTO_OK \<equiv> 0"
abbreviation (input) MAX_KEY_LENGTH :: nat where "MAX_KEY_LENGTH \<equiv> 64"
abbreviation (input) MAX_NONCE_LENGTH :: nat where "MAX_NONCE_LENGTH \<equiv> 32"
abbreviation (input) MBEDTLS_MD_MAX_SIZE :: nat where "MBEDTLS_MD_MAX_SIZE \<equiv> 64"

section \<open>Library structures\<close>

type_synonym evp_img = bytes
type_synonym gcm_img = bytes
type_synonym md_info = bytes
type_synonym md_img = bytes

text \<open>The fields of \<^verbatim>\<open>mbedtls_cipher_info_t\<close> that the code reads or writes.\<close>

record cipher_kt =
  kt_base :: "bytes option"
  kt_key_bitlen :: nat
  kt_iv_size :: nat

record crypto_lib =
  lib_heap :: heap
  randombytes_buf :: "nat \<Rightarrow> nat \<Rightarrow> bytes"  \<comment> \<open>the n-th draw of the process, of a given length\<close>
  sodium_increment :: "bytes \<Rightarrow> bytes"
  mbedtls_cipher_info_from_string :: "string \<Rightarrow> cipher_kt option"
  mbedtls_cipher_init :: evp_img
  mbedtls_cipher_setup :: "evp_img \<Rightarrow> cipher_kt option \<Rightarrow> int \<times> evp_img"
  mbedtls_cipher_setkey :: "evp_img \<Rightarrow> bytes \<Rightarrow> nat \<Rightarrow> int \<Rightarrow> int \<times> evp_img"
  mbedtls_cipher_set_iv :: "evp_img \<Rightarrow> bytes \<Rightarrow> int \<times> evp_img"
  mbedtls_cipher_reset :: "evp_img \<Rightarrow> int \<times> evp_img"
  mbedtls_cipher_update :: "evp_img \<Rightarrow> bytes \<Rightarrow> int \<times> evp_img \<times> bytes"
  mbedtls_cipher_auth_encrypt ::
    "evp_img \<Rightarrow> bytes \<Rightarrow> bytes \<Rightarrow> bytes \<Rightarrow> nat \<Rightarrow> int \<times> evp_img \<times> bytes \<times> bytes"
  mbedtls_cipher_auth_decrypt ::
    "evp_img \<Rightarrow> bytes \<Rightarrow> bytes \<Rightarrow> bytes \<Rightarrow> bytes \<Rightarrow> int \<times> evp_img \<times> bytes"
  aes256gcm_is_available :: int
  aes256gcm_beforenm :: "bytes \<Rightarrow> int \<times> gcm_img"
  aes256gcm_encrypt_afternm :: "bytes \<Rightarrow> bytes \<Rightarrow> bytes \<Rightarrow> gcm_img \<Rightarrow> int \<times> bytes"
  aes256gcm_decrypt_afternm :: "bytes \<Rightarrow> bytes \<Rightarrow> bytes \<Rightarrow> gcm_img \<Rightarrow> int \<times> bytes"
  chacha20poly1305_ietf_encrypt :: "bytes \<Rightarrow> bytes \<Rightarrow> bytes \<Rightarrow> bytes \<Rightarrow> int \<times> bytes"
  chacha20poly1305_ietf_decrypt :: "bytes \<Rightarrow> bytes \<Rightarrow> bytes \<Rightarrow> bytes \<Rightarrow> int \<times> bytes"
  xchacha20poly1305_ietf_encrypt :: "bytes \<Rightarrow> bytes \<Rightarrow> bytes \<Rightarrow> bytes \<Rightarrow> int \<times> bytes"
  xchacha20poly1305_ietf_decrypt :: "bytes \<Rightarrow> bytes \<Rightarrow> bytes \<Rightarrow> bytes \<Rightarrow> int \<times> bytes"
  stream_salsa20_xor_ic :: "bytes \<Rightarrow> bytes \<Rightarrow> u64 \<Rightarrow> bytes \<Rightarrow> int \<times> bytes"
  stream_chacha20_xor_ic :: "bytes \<Rightarrow> bytes \<Rightarrow> u64 \<Rightarrow> bytes \<Rightarrow> int \<times> bytes"
  stream_chacha20_ietf_xor_ic :: "bytes \<Rightarrow> bytes \<Rightarrow> u32 \<Rightarrow> bytes \<Rightarrow> int \<times> bytes"
  mbedtls_md5_ret :: "bytes \<Rightarrow> int \<times> bytes"
  mbedtls_md_info_from_string :: "string \<Rightarrow> md_info option"
  mbedtls_md_get_size :: "md_info \<Rightarrow> nat"
  mbedtls_md_setup :: "md_info \<Rightarrow> int \<Rightarrow> int \<times> md_img"
  mbedtls_md_starts :: "md_img \<Rightarrow> md_img"
  mbedtls_md_update :: "md_img \<Rightarrow> bytes \<Rightarrow> md_img"
  mbedtls_md_finish :: "md_img \<Rightarrow> md_img \<times> bytes"
  mbedtls_md_hmac_starts :: "md_img \<Rightarrow> bytes \<Rightarrow> int \<times> md_img"
  mbedtls_md_hmac_upd :: "md_img \<Rightarrow> bytes \<Rightarrow> int \<times> md_img"
  mbedtls_md_hmac_finish :: "md_img \<Rightarrow> int \<times> md_img \<times> bytes"
  mbedtls_md_hmac :: "md_info \<Rightarrow> bytes \<Rightarrow> bytes \<Rightarrow> int \<times> bytes"
  sodium_init :: int
  sizeof_cipher_info :: nat  \<comment> \<open>the size of \<^verbatim>\<open>mbedtls_cipher_info_t\<close>\<close>

section \<open>Cipher structures\<close>

record cipher_t =
  ci_method :: int
  ci_skey :: int
  ci_info :: "cipher_kt option"
  ci_nonce_len :: nat
  ci_key_len :: nat
  ci_tag_len :: nat
  ci_key :: bytes

record cipher_ctx_t =
  cx_init :: nat
  cx_counter :: u64
  cx_evp :: "evp_img option"
  cx_gcm :: "gcm_img option"
  cx_cipher :: cipher_t
  cx_chunk :: "buffer_t option"
  cx_salt :: bytes
  cx_skey :: bytes
  cx_nonce :: bytes

section \<open>Static variables of the process\<close>

datatype tmp_id =
    Tmp_aead_encrypt_all | Tmp_aead_decrypt_all | Tmp_aead_encrypt | Tmp_aead_decrypt
  | Tmp_stream_encrypt_all | Tmp_stream_decrypt_all | Tmp_stream_encrypt | Tmp_stream_decrypt

record world =
  w_pp :: ppbloom_t
  w_draws :: nat
  w_tmp :: "tmp_id \<Rightarrow> buffer_t"
  w_md5 :: bytes

definition rand_bytes :: "crypto_lib \<Rightarrow> world \<Rightarrow> bytes \<Rightarrow> nat \<Rightarrow> (bytes \<times> world) res" where
  "rand_bytes L w out n =
     bnd (write_mem out 0 (randombytes_buf L (w_draws w) n)) (\<lambda>out. Inr (out, w\<lparr>w_draws := Suc (w_draws w)\<rparr>))"

text \<open>A context after \<^verbatim>\<open>sodium_memzero(cipher_ctx, sizeof(cipher_ctx_t))\<close>, with its cipher set.\<close>

definition zero_ctx :: "cipher_t \<Rightarrow> cipher_ctx_t" where
  "zero_ctx c = \<lparr>cx_init = 0, cx_counter = 0, cx_evp = None, cx_gcm = None, cx_cipher = c, cx_chunk = None,
     cx_salt = replicate MAX_KEY_LENGTH 0, cx_skey = replicate MAX_KEY_LENGTH 0,
     cx_nonce = replicate MAX_NONCE_LENGTH 0\<rparr>"

section \<open>Well-formedness\<close>

text \<open>The static buffers are only ever written through \<^verbatim>\<open>brealloc\<close>, so their capacity is the size of
  their block; the replay filter is initialised.\<close>

definition wf_world :: "world \<Rightarrow> bool" where
  "wf_world w \<longleftrightarrow> wf_pp (w_pp w) \<and> (\<forall>t. wf_block (w_tmp w t))"

definition lib_sizes_ok :: "crypto_lib \<Rightarrow> bool" where
  "lib_sizes_ok L \<longleftrightarrow> heap_ok (lib_heap L) \<and> (\<forall>d n. length (randombytes_buf L d n) = n) \<and>
     (\<forall>n. length (sodium_increment L n) = length n)"

text \<open>The documented effect of \<^verbatim>\<open>sodium_increment\<close>: plus one on a little-endian number.\<close>

definition increments :: "crypto_lib \<Rightarrow> bool" where
  "increments L \<longleftrightarrow> (\<forall>n. length (sodium_increment L n) = length n \<and>
     le_nat (sodium_increment L n) = (le_nat n + 1) mod 256 ^ length n)"

lemma wf_world_tmp: "wf_world w \<Longrightarrow> wf_block (w_tmp w t)"
  by (simp add: wf_world_def)

lemma wf_world_pp: "wf_world w \<Longrightarrow> wf_pp (w_pp w)"
  by (simp add: wf_world_def)

lemma wf_world_upd_tmp: "wf_world w \<Longrightarrow> wf_block b \<Longrightarrow> wf_world (w\<lparr>w_tmp := (w_tmp w)(t := b)\<rparr>)"
  by (simp add: wf_world_def)

lemma wf_world_upd_pp: "wf_world w \<Longrightarrow> wf_pp p \<Longrightarrow> wf_world (w\<lparr>w_pp := p\<rparr>)"
  by (simp add: wf_world_def)

lemma wf_world_upd_draws: "wf_world w \<Longrightarrow> wf_world (w\<lparr>w_draws := d\<rparr>)"
  by (simp add: wf_world_def)

end
