(* ===== verification/SS_Kdf.thy ===== *)
theory SS_Kdf
  imports SS_Lib
begin

text \<open>
  Key derivation in \<^verbatim>\<open>src/crypto.c\<close>: \<^verbatim>\<open>crypto_md5\<close>, \<^verbatim>\<open>crypto_derive_key\<close> (the password to a key by
  chained MD5) and the HKDF functions \<^verbatim>\<open>crypto_hkdf_extract\<close>, \<^verbatim>\<open>crypto_hkdf_expand\<close>,
  \<^verbatim>\<open>crypto_hkdf\<close>. Reference definitions (\<open>bytes_to_key\<close>, \<open>hkdf_T\<close>) state what the loops compute; the
  theorems prove that the code computes them, with every memory access in bounds, under the documented
  meaning of the incremental digest functions (\<open>md_incremental\<close>, \<open>hmac_incremental\<close>).
\<close>

section \<open>MD5\<close>

text \<open>\<^verbatim>\<open>crypto_md5(d, n, NULL)\<close>, the only way it is called: the digest goes to the static buffer.\<close>

definition crypto_md5 :: "crypto_lib \<Rightarrow> world \<Rightarrow> bytes \<Rightarrow> (bytes \<times> world) res" where
  "crypto_md5 L w d =
     (let (ret, out) = mbedtls_md5_ret L d in
      bnd (write_mem (w_md5 w) 0 out) (\<lambda>m.
        if ret \<noteq> 0 then Inl (FATAL ''Failed to calculate MD5'')
        else Inr (m, w\<lparr>w_md5 := m\<rparr>)))"

section \<open>crypto_derive_key\<close>

text \<open>The inner \<^verbatim>\<open>for\<close> loop: copy digest bytes from position \<open>i\<close> until the digest or the key ends.
  \<open>j\<close> is an \<^verbatim>\<open>unsigned int\<close> while \<^verbatim>\<open>key_len\<close> is a \<^verbatim>\<open>size_t\<close>: the increment that would take \<open>j\<close> to \<open>2 ^ 32\<close> wraps it to
  0, which happens only for a \<open>key_len\<close> that no value of \<open>j\<close> reaches, so from there the loops never end.\<close>

function copy_digest :: "bytes \<Rightarrow> nat \<Rightarrow> nat \<Rightarrow> bytes \<Rightarrow> nat \<Rightarrow> nat \<Rightarrow> (bytes \<times> nat) res" where
  "copy_digest md_buf mds i key j key_len =
     (if i < mds then
        (if j \<ge> key_len then Inr (key, j)
         else bnd (read_byte md_buf i) (\<lambda>b.
              bnd (write_byte key j b) (\<lambda>key.
                if j + 1 < 2 ^ 32 then copy_digest md_buf mds (i + 1) key (j + 1) key_len else Inl DIVERGES)))
      else Inr (key, j))"
  by pat_completeness auto
termination
  by (relation "measure (\<lambda>(md_buf, mds, i, key, j, key_len). mds - i)") auto

declare copy_digest.simps [simp del]

lemma copy_digest_progress:
  "copy_digest md_buf mds i key j key_len = Inr (key', j') \<Longrightarrow> i < mds \<Longrightarrow> j < key_len \<Longrightarrow> j < j'"
proof (induction md_buf mds i key j key_len rule: copy_digest.induct)
  case (1 md_buf mds i key j key_len)
  then obtain b key1 where "read_byte md_buf i = Inr b" "write_byte key j b = Inr key1"
    and w: "j + 1 < 2 ^ 32" and r: "copy_digest md_buf mds (i + 1) key1 (j + 1) key_len = Inr (key', j')"
    by (auto simp: copy_digest.simps [of md_buf mds i] bnd_Inr_iff split: if_splits)
  show ?case
  proof (cases "i + 1 < mds \<and> j + 1 < key_len")
    case True
    with "1.IH" [OF "1.prems"(2)] "1.prems" \<open>read_byte md_buf i = Inr b\<close> \<open>write_byte key j b = Inr key1\<close> w r
    show ?thesis by fastforce
  next
    case False
    with r show ?thesis by (auto simp: copy_digest.simps [of md_buf mds "Suc i"] split: if_splits)
  qed
qed

text \<open>The outer loop. A digest size of zero never advances \<open>j\<close>: the loop would not end. \<^verbatim>\<open>addmd\<close> is only tested
  against zero.\<close>

function derive_rounds ::
  "crypto_lib \<Rightarrow> md_img \<Rightarrow> bytes \<Rightarrow> nat \<Rightarrow> bytes \<Rightarrow> bool \<Rightarrow> bytes \<Rightarrow> nat \<Rightarrow> nat \<Rightarrow> bytes res" where
  "derive_rounds L c md_buf mds pass addmd key j key_len =
     (if j < key_len then
        (if mds = 0 then Inl DIVERGES
         else
           let c = mbedtls_md_starts L c in
           bnd (if addmd then bnd (read_mem md_buf 0 mds) (\<lambda>d. Inr (mbedtls_md_update L c d)) else Inr c) (\<lambda>c.
             let c = mbedtls_md_update L c pass;
                 (c, out) = mbedtls_md_finish L c
             in
             bnd (write_mem md_buf 0 out) (\<lambda>md_buf.
             bnd (copy_digest md_buf mds 0 key j key_len) (\<lambda>(key, j').
               derive_rounds L c md_buf mds pass True key j' key_len))))
      else Inr key)"
  by pat_completeness auto
termination
  by (relation "measure (\<lambda>(L, c, md_buf, mds, pass, addmd, key, j, key_len). key_len - j)")
    (auto dest: copy_digest_progress)

declare derive_rounds.simps [simp del]

text \<open>\<^verbatim>\<open>strlen(pass)\<close> runs before the null check, so a null password is a null dereference.\<close>

definition crypto_derive_key ::
  "crypto_lib \<Rightarrow> bytes option \<Rightarrow> bytes \<Rightarrow> nat \<Rightarrow> (int \<times> bytes) res" where
  "crypto_derive_key L pass key key_len =
     (case pass of None \<Rightarrow> Inl UB
      | Some p \<Rightarrow>
        (case mbedtls_md_info_from_string L ''MD5'' of
           None \<Rightarrow> Inl (FATAL ''MD5 Digest not found in crypto library'')
         | Some md \<Rightarrow>
             let mds = mbedtls_md_get_size L md;
                 (err, c) = mbedtls_md_setup L md 0
             in if err \<noteq> 0 then Inr (0, key)
                else bnd (derive_rounds L c (fresh (lib_heap L) MBEDTLS_MD_MAX_SIZE) mds p False key 0 key_len)
                       (\<lambda>key. Inr (int_of_size key_len, key))))"

section \<open>HKDF\<close>

definition crypto_hkdf_extract ::
  "crypto_lib \<Rightarrow> md_info \<Rightarrow> bytes option \<Rightarrow> int \<Rightarrow> bytes \<Rightarrow> int \<Rightarrow> (int \<times> bytes) res" where
  "crypto_hkdf_extract L md salt salt_len ikm ikm_len =
     (if salt_len < 0 then Inr (CRYPTO_ERROR, [])
      else
        let hash_len = mbedtls_md_get_size L md;
            (salt, salt_len) = (case salt of None \<Rightarrow> (replicate MBEDTLS_MD_MAX_SIZE 0, int hash_len)
                                | Some s \<Rightarrow> (s, salt_len))
        in bnd (read_mem salt 0 (nat salt_len)) (\<lambda>s.
           bnd (if 0 \<le> ikm_len then read_mem ikm 0 (nat ikm_len) else Inl UB) (\<lambda>k.
             Inr (mbedtls_md_hmac L md s k))))"

text \<open>One step of the short-circuit \<^verbatim>\<open>||\<close> chain of HMAC calls: a non-zero code ends it with 1.\<close>

definition or_else :: "int \<times> 'a \<Rightarrow> ('a \<Rightarrow> int \<times> 'a) \<Rightarrow> int \<times> 'a" where
  "or_else r f = (let (e, c) = r in if e \<noteq> 0 then (1, c) else f c)"

definition hmac_chain ::
  "crypto_lib \<Rightarrow> md_img \<Rightarrow> bytes \<Rightarrow> bytes \<Rightarrow> bytes \<Rightarrow> byte \<Rightarrow> int \<times> md_img \<times> bytes" where
  "hmac_chain L ctx prk T info c =
     (let (e, ctx) =
        or_else (mbedtls_md_hmac_starts L ctx prk) (\<lambda>ctx.
        or_else (mbedtls_md_hmac_upd L ctx T) (\<lambda>ctx.
        or_else (mbedtls_md_hmac_upd L ctx info) (\<lambda>ctx.
        or_else (mbedtls_md_hmac_upd L ctx [c]) (\<lambda>ctx. (0, ctx)))))
      in if e \<noteq> 0 then (1, ctx, [])
         else let (e, ctx, out) = mbedtls_md_hmac_finish L ctx in (if e \<noteq> 0 then 1 else 0, ctx, out))"

function hkdf_rounds ::
  "crypto_lib \<Rightarrow> md_img \<Rightarrow> bytes \<Rightarrow> bytes \<Rightarrow> nat \<Rightarrow> nat \<Rightarrow> nat \<Rightarrow> nat \<Rightarrow> bytes \<Rightarrow> nat \<Rightarrow> nat \<Rightarrow> bytes
   \<Rightarrow> (int \<times> bytes) res" where
  "hkdf_rounds L ctx prk info hash_len N i T_len T pos okm_len okm =
     (if i \<le> N then
        bnd (read_mem T 0 T_len) (\<lambda>t.
          let (ret, ctx, out) = hmac_chain L ctx prk t info (of_nat i) in
          bnd (write_mem T 0 out) (\<lambda>T.
            if ret \<noteq> 0 then Inr (ret, okm)
            else bnd (memcpy okm pos T 0 (if i \<noteq> N then hash_len else okm_len - pos)) (\<lambda>okm.
              hkdf_rounds L ctx prk info hash_len N (i + 1) hash_len T (pos + hash_len) okm_len okm)))
      else Inr (0, okm))"
  by pat_completeness auto
termination
  by (relation "measure (\<lambda>(L, ctx, prk, info, hash_len, N, i, T_len, T, pos, okm_len, okm). N + 1 - i)") auto

declare hkdf_rounds.simps [simp del]

definition crypto_hkdf_expand ::
  "crypto_lib \<Rightarrow> md_info \<Rightarrow> bytes \<Rightarrow> int \<Rightarrow> bytes option \<Rightarrow> int \<Rightarrow> bytes option \<Rightarrow> int
   \<Rightarrow> (int \<times> bytes) res" where
  "crypto_hkdf_expand L md prk prk_len info info_len okm okm_len =
     (case okm of None \<Rightarrow> Inr (CRYPTO_ERROR, [])
      | Some okm \<Rightarrow>
      if info_len < 0 \<or> okm_len < 0 then Inr (CRYPTO_ERROR, okm)
      else
        let hash_len = mbedtls_md_get_size L md in
        if prk_len < int hash_len then Inr (CRYPTO_ERROR, okm)
        else
          let info = (case info of None \<Rightarrow> [0] | Some s \<Rightarrow> s) in
          if hash_len = 0 then Inl UB
          else
            let N = nat okm_len div hash_len;
                N = (if nat okm_len mod hash_len \<noteq> 0 then N + 1 else N)
            in if N > 255 then Inr (CRYPTO_ERROR, okm)
               else
                 let (ret, ctx) = mbedtls_md_setup L md 1 in
                 if ret \<noteq> 0 then Inr (ret, okm)
                 else
                   bnd (read_mem prk 0 (nat prk_len)) (\<lambda>prk.
                   bnd (read_mem info 0 (nat info_len)) (\<lambda>info.
                     hkdf_rounds L ctx prk info hash_len N 1 0 (fresh (lib_heap L) MBEDTLS_MD_MAX_SIZE) 0
                       (nat okm_len) okm)))"

text \<open>\<^verbatim>\<open>extract(..) || expand(..)\<close>: the result is 0 or 1; the key block \<^verbatim>\<open>prk\<close> is a local array.\<close>

definition crypto_hkdf ::
  "crypto_lib \<Rightarrow> md_info \<Rightarrow> bytes option \<Rightarrow> int \<Rightarrow> bytes \<Rightarrow> int \<Rightarrow> bytes option \<Rightarrow> int \<Rightarrow> bytes option \<Rightarrow> int
   \<Rightarrow> (int \<times> bytes) res" where
  "crypto_hkdf L md salt salt_len ikm ikm_len info info_len okm okm_len =
     bnd (crypto_hkdf_extract L md salt salt_len ikm ikm_len) (\<lambda>(e, out).
     bnd (write_mem (fresh (lib_heap L) MBEDTLS_MD_MAX_SIZE) 0 out) (\<lambda>prk.
       if e \<noteq> 0 then Inr (1, case okm of None \<Rightarrow> [] | Some o' \<Rightarrow> o')
       else bnd (crypto_hkdf_expand L md prk (int (mbedtls_md_get_size L md)) info info_len okm okm_len)
              (\<lambda>(e, okm). Inr (if e \<noteq> 0 then 1 else 0, okm))))"

section \<open>What the digest functions promise\<close>

text \<open>Contexts the code can hold: after set-up, between digests, and with some data absorbed.\<close>

inductive md_live :: "crypto_lib \<Rightarrow> md_info \<Rightarrow> md_img \<Rightarrow> bool"
  and md_run :: "crypto_lib \<Rightarrow> md_info \<Rightarrow> md_img \<Rightarrow> bytes \<Rightarrow> bool" for L md where
  md_setup: "mbedtls_md_setup L md 0 = (0, c) \<Longrightarrow> md_live L md c"
| md_starts: "md_live L md c \<Longrightarrow> md_run L md (mbedtls_md_starts L c) []"
| md_update: "md_run L md c d \<Longrightarrow> md_run L md (mbedtls_md_update L c x) (d @ x)"
| md_finish: "md_run L md c d \<Longrightarrow> mbedtls_md_finish L c = (c', out) \<Longrightarrow> md_live L md c'"

inductive hmac_live :: "crypto_lib \<Rightarrow> md_info \<Rightarrow> md_img \<Rightarrow> bool"
  and hmac_run :: "crypto_lib \<Rightarrow> md_info \<Rightarrow> md_img \<Rightarrow> bytes \<Rightarrow> bytes \<Rightarrow> bool" for L md where
  hmac_setup: "mbedtls_md_setup L md 1 = (0, c) \<Longrightarrow> hmac_live L md c"
| hmac_starts: "hmac_live L md c \<Longrightarrow> mbedtls_md_hmac_starts L c k = (e, c') \<Longrightarrow> hmac_run L md c' k []"
| hmac_update: "hmac_run L md c k d \<Longrightarrow> mbedtls_md_hmac_upd L c x = (e, c') \<Longrightarrow> hmac_run L md c' k (d @ x)"
| hmac_finish: "hmac_run L md c k d \<Longrightarrow> mbedtls_md_hmac_finish L c = (e, c', out) \<Longrightarrow> hmac_live L md c'"

definition md_incremental :: "crypto_lib \<Rightarrow> md_info \<Rightarrow> (bytes \<Rightarrow> bytes) \<Rightarrow> bool" where
  "md_incremental L md D \<longleftrightarrow>
     (\<exists>c. mbedtls_md_setup L md 0 = (0, c)) \<and>
     (\<forall>c d. md_run L md c d \<longrightarrow> snd (mbedtls_md_finish L c) = D d) \<and>
     (\<forall>d. length (D d) = mbedtls_md_get_size L md) \<and>
     0 < mbedtls_md_get_size L md \<and> mbedtls_md_get_size L md \<le> MBEDTLS_MD_MAX_SIZE"

definition hmac_incremental :: "crypto_lib \<Rightarrow> md_info \<Rightarrow> (bytes \<Rightarrow> bytes \<Rightarrow> bytes) \<Rightarrow> bool" where
  "hmac_incremental L md HM \<longleftrightarrow>
     (\<exists>c. mbedtls_md_setup L md 1 = (0, c)) \<and>
     (\<forall>c k. hmac_live L md c \<longrightarrow> fst (mbedtls_md_hmac_starts L c k) = 0) \<and>
     (\<forall>c k d x. hmac_run L md c k d \<longrightarrow> fst (mbedtls_md_hmac_upd L c x) = 0) \<and>
     (\<forall>c k d. hmac_run L md c k d \<longrightarrow> (\<exists>c'. mbedtls_md_hmac_finish L c = (0, c', HM k d))) \<and>
     (\<forall>k d. mbedtls_md_hmac L md k d = (0, HM k d)) \<and>
     (\<forall>k d. length (HM k d) = mbedtls_md_get_size L md) \<and>
     0 < mbedtls_md_get_size L md \<and> mbedtls_md_get_size L md \<le> MBEDTLS_MD_MAX_SIZE"

section \<open>Reference definitions\<close>

fun bytes_to_key :: "(bytes \<Rightarrow> bytes) \<Rightarrow> bytes \<Rightarrow> bytes \<Rightarrow> nat \<Rightarrow> bytes" where
  "bytes_to_key D pass prev 0 = []"
| "bytes_to_key D pass prev (Suc n) =
     (let d = D (prev @ pass) in d @ bytes_to_key D pass d n)"

fun hkdf_T :: "(bytes \<Rightarrow> bytes \<Rightarrow> bytes) \<Rightarrow> bytes \<Rightarrow> bytes \<Rightarrow> nat \<Rightarrow> bytes" where
  "hkdf_T HM prk info 0 = []"
| "hkdf_T HM prk info (Suc i) = HM prk (hkdf_T HM prk info i @ info @ [of_nat (Suc i)])"

definition hkdf_stream :: "(bytes \<Rightarrow> bytes \<Rightarrow> bytes) \<Rightarrow> bytes \<Rightarrow> bytes \<Rightarrow> nat \<Rightarrow> bytes" where
  "hkdf_stream HM prk info n = concat (map (hkdf_T HM prk info) [1..<Suc n])"

lemma length_bytes_to_key:
  "(\<And>d. length (D d) = m) \<Longrightarrow> length (bytes_to_key D pass prev n) = n * m"
  by (induction n arbitrary: prev) (auto simp: Let_def)

lemma length_hkdf_T: "(\<And>k d. length (HM k d) = m) \<Longrightarrow> 0 < i \<Longrightarrow> length (hkdf_T HM prk info i) = m"
  by (cases i) auto

lemma length_hkdf_stream:
  "(\<And>k d. length (HM k d) = m) \<Longrightarrow> length (hkdf_stream HM prk info n) = n * m"
  by (induction n) (auto simp: hkdf_stream_def length_hkdf_T)

lemma hkdf_stream_Suc: "hkdf_stream HM prk info (Suc n) = hkdf_stream HM prk info n @ hkdf_T HM prk info (Suc n)"
  by (simp add: hkdf_stream_def)

section \<open>The loops compute the references\<close>

lemma copy_digest_spec:
  assumes "i \<le> mds" and "mds \<le> length md_buf" and "j \<le> key_len" and "key_len \<le> length key"
    and "key_len < 2 ^ 32"
  shows "copy_digest md_buf mds i key j key_len =
    (let n = min (mds - i) (key_len - j) in Inr (take j key @ take n (drop i md_buf) @ drop (j + n) key, j + n))"
  using assms
proof (induction md_buf mds i key j key_len rule: copy_digest.induct)
  case (1 md_buf mds i key j key_len)
  show ?case
  proof (cases "i < mds \<and> j < key_len")
    case True
    let ?key = "key[j := md_buf ! i]"
    let ?m = "min (mds - (i + 1)) (key_len - (j + 1))"
    have m: "min (mds - i) (key_len - j) = Suc ?m"
      using True by auto
    have rd: "read_byte md_buf i = Inr (md_buf ! i)" and wr: "write_byte key j (md_buf ! i) = Inr ?key"
      using True "1.prems" by (simp_all add: mem_simps)
    have w: "j + 1 < 2 ^ 32"
      using True "1.prems"(5) by linarith
    have "copy_digest md_buf mds i key j key_len = copy_digest md_buf mds (i + 1) ?key (j + 1) key_len"
      using True rd wr w by (simp add: copy_digest.simps [of md_buf mds i])
    also have "\<dots> = Inr (take (j + 1) ?key @ take ?m (drop (i + 1) md_buf) @ drop (j + 1 + ?m) ?key, j + 1 + ?m)"
      using "1.IH" [OF _ _ rd wr w] True "1.prems" by (simp add: Let_def)
    also have "take (j + 1) ?key = take j key @ [md_buf ! i]"
      using True "1.prems" by (simp add: take_Suc_conv_app_nth)
    also have "drop (j + 1 + ?m) ?key = drop (j + Suc ?m) key"
      by (simp add: drop_update_swap)
    also have "(take j key @ [md_buf ! i]) @ take ?m (drop (i + 1) md_buf) @ drop (j + Suc ?m) key =
        take j key @ take (Suc ?m) (drop i md_buf) @ drop (j + Suc ?m) key"
      using True "1.prems" by (simp add: take_Suc_conv_app_nth Cons_nth_drop_Suc [symmetric])
    finally show ?thesis
      using m by (simp add: Let_def)
  next
    case False
    with "1.prems" show ?thesis
      by (auto simp: copy_digest.simps [of md_buf mds i] Let_def)
  qed
qed

lemma derive_rounds_spec:
  assumes "md_incremental L md D" and "mds = mbedtls_md_get_size L md"
    and "md_live L md c" and "length md_buf = MBEDTLS_MD_MAX_SIZE"
    and "prev = (if addmd then take mds md_buf else [])"
    and "j \<le> key_len" and "key_len \<le> length key" and "key_len - j \<le> n" and "key_len < 2 ^ 32"
  shows "derive_rounds L c md_buf mds pass addmd key j key_len =
    Inr (take j key @ take (key_len - j) (bytes_to_key D pass prev n) @ drop key_len key)"
  using assms
proof (induction L c md_buf mds pass addmd key j key_len arbitrary: prev n rule: derive_rounds.induct)
  case (1 L c md_buf mds pass addmd key j key_len)
  note unf = derive_rounds.simps [of L c md_buf mds pass addmd key j key_len]
  show ?case
  proof (cases "j < key_len")
    case False
    then have "derive_rounds L c md_buf mds pass addmd key j key_len = Inr key"
      by (subst unf) simp
    moreover have "j = key_len"
      using False "1.prems"(6) by simp
    ultimately show ?thesis by simp
  next
    case True
    have size: "0 < mds" "mds \<le> MBEDTLS_MD_MAX_SIZE" "\<And>d. length (D d) = mds"
      and fin: "\<And>c d. md_run L md c d \<Longrightarrow> snd (mbedtls_md_finish L c) = D d"
      using "1.prems"(1,2) by (auto simp: md_incremental_def)
    obtain n' where n': "n = Suc n'"
      using True "1.prems"(8) by (cases n) auto
    let ?c0 = "mbedtls_md_starts L c"
    let ?c1 = "if addmd then mbedtls_md_update L ?c0 (take mds md_buf) else ?c0"
    let ?c2 = "mbedtls_md_update L ?c1 pass"
    obtain c3 out where f: "mbedtls_md_finish L ?c2 = (c3, out)"
      by (cases "mbedtls_md_finish L ?c2")
    have r0: "md_run L md ?c0 []"
      using "1.prems"(3) by (rule md_starts)
    then have "md_run L md ?c1 prev"
      using md_update [OF r0, of "take mds md_buf"] "1.prems"(5) by simp
    then have run: "md_run L md ?c2 (prev @ pass)"
      by (rule md_update)
    let ?d = "D (prev @ pass)"
    have out: "out = ?d"
      using fin [OF run] f by simp
    have live: "md_live L md c3"
      using run f by (rule md_finish)
    have rd: "(if addmd then bnd (read_mem md_buf 0 mds) (\<lambda>d. Inr (mbedtls_md_update L ?c0 d)) else Inr ?c0)
        = Inr ?c1"
      using size "1.prems"(4) by (simp add: mem_simps)
    let ?buf = "?d @ drop mds md_buf"
    have wr: "write_mem md_buf 0 out = Inr ?buf"
      using size "1.prems"(4) by (simp add: out mem_simps)
    let ?k = "min mds (key_len - j)"
    let ?key = "take j key @ take ?k ?d @ drop (j + ?k) key"
    have cp: "copy_digest ?buf mds 0 key j key_len = Inr (?key, j + ?k)"
      using copy_digest_spec [of 0 mds ?buf j key_len key] size "1.prems"(4,6,7,9) True
      by (simp add: Let_def)
    have "derive_rounds L c md_buf mds pass addmd key j key_len =
        derive_rounds L c3 ?buf mds pass True ?key (j + ?k) key_len"
      using True size(1) rd wr cp f by (simp add: unf Let_def)
    also have "\<dots> = Inr (take (j + ?k) ?key @ take (key_len - (j + ?k)) (bytes_to_key D pass ?d n') @ drop key_len ?key)"
      using size True "1.prems" n' live
      by (intro "1.IH" [OF True _ refl rd refl f [symmetric] refl wr cp refl]) (auto simp: min_def)
    also have "take (j + ?k) ?key = take j key @ take ?k ?d"
      using "1.prems" True size(3) by simp
    also have "drop key_len ?key = drop key_len key"
      using "1.prems" True size(3) by simp
    also have "(take j key @ take ?k ?d) @ take (key_len - (j + ?k)) (bytes_to_key D pass ?d n') @ drop key_len key =
        take j key @ take (key_len - j) (bytes_to_key D pass prev n) @ drop key_len key"
      using size(3) by (simp add: n' Let_def min_def)
    finally show ?thesis .
  qed
qed

lemma hmac_chain_ok:
  assumes "hmac_incremental L md HM" and "hmac_live L md ctx"
  shows "\<exists>ctx'. hmac_chain L ctx prk T info c = (0, ctx', HM prk (T @ info @ [c])) \<and> hmac_live L md ctx'"
proof -
  have "\<forall>c k. hmac_live L md c \<longrightarrow> fst (mbedtls_md_hmac_starts L c k) = 0"
      "\<forall>c k d x. hmac_run L md c k d \<longrightarrow> fst (mbedtls_md_hmac_upd L c x) = 0"
      "\<forall>c k d. hmac_run L md c k d \<longrightarrow> (\<exists>c'. mbedtls_md_hmac_finish L c = (0, c', HM k d))"
    using assms(1) unfolding hmac_incremental_def by blast+
  note ok = this(1) [rule_format, OF assms(2), of prk] this(2) [rule_format] this(3) [rule_format]
  have upd: "\<exists>c'. mbedtls_md_hmac_upd L c x = (0, c') \<and> hmac_run L md c' k (d @ x)"
    if "hmac_run L md c k d" for c k d x
    using ok(2) [OF that, of x] hmac_update [OF that] by (cases "mbedtls_md_hmac_upd L c x") auto
  obtain c0 where c0: "mbedtls_md_hmac_starts L ctx prk = (0, c0)" "hmac_run L md c0 prk []"
    using ok(1) hmac_starts [OF assms(2)] by (cases "mbedtls_md_hmac_starts L ctx prk") auto
  obtain c1 where c1: "mbedtls_md_hmac_upd L c0 T = (0, c1)" "hmac_run L md c1 prk T"
    using upd [OF c0(2)] by auto
  obtain c2 where c2: "mbedtls_md_hmac_upd L c1 info = (0, c2)" "hmac_run L md c2 prk (T @ info)"
    using upd [OF c1(2)] by blast
  obtain c3 where c3: "mbedtls_md_hmac_upd L c2 [c] = (0, c3)" "hmac_run L md c3 prk ((T @ info) @ [c])"
    using upd [OF c2(2)] by blast
  obtain c4 where c4: "mbedtls_md_hmac_finish L c3 = (0, c4, HM prk ((T @ info) @ [c]))"
    using ok(3) [OF c3(2)] by blast
  have "hmac_live L md c4"
    using c3(2) c4 by (rule hmac_finish)
  with c0 c1 c2 c3 c4 show ?thesis
    by (simp add: hmac_chain_def or_else_def)
qed

lemma hkdf_rounds_spec:
  assumes "hmac_incremental L md HM" and "hash_len = mbedtls_md_get_size L md"
    and "hmac_live L md ctx" and "length T = MBEDTLS_MD_MAX_SIZE"
    and "T_len \<le> MBEDTLS_MD_MAX_SIZE" and "take T_len T = hkdf_T HM prk info i" and "i \<le> N"
    and "pos = i * hash_len" and "okm_len \<le> N * hash_len" and "N = 0 \<or> (N - 1) * hash_len < okm_len"
    and "okm = take okm_len (hkdf_stream HM prk info i) @ drop (min okm_len pos) okm0"
    and "okm_len \<le> length okm0"
  shows "hkdf_rounds L ctx prk info hash_len N (Suc i) T_len T pos okm_len okm =
    Inr (0, take okm_len (hkdf_stream HM prk info N) @ drop okm_len okm0)"
  using assms
proof (induction "N - i" arbitrary: i ctx T T_len pos okm)
  case 0
  then have "i = N" by simp
  then have "hkdf_rounds L ctx prk info hash_len N (Suc i) T_len T pos okm_len okm = Inr (0, okm)"
    by (subst hkdf_rounds.simps) simp
  moreover have "min okm_len pos = okm_len"
    using \<open>i = N\<close> 0 by simp
  ultimately show ?case
    using 0 \<open>i = N\<close> by simp
next
  case (Suc m)
  then have i: "i < N" by simp
  let ?i = "Suc i" and ?T = "hkdf_T HM prk info (Suc i)" and ?h = hash_len
  have size: "?h \<le> MBEDTLS_MD_MAX_SIZE" "\<And>k d. length (HM k d) = ?h"
    using Suc.prems(1,2) by (auto simp: hmac_incremental_def)
  have lenT: "length ?T = ?h"
    using size(2) by simp
  have lenS: "length (hkdf_stream HM prk info i) = pos"
    using length_hkdf_stream [of HM ?h] size(2) Suc.prems(8) by blast
  obtain ctx' where ch: "hmac_chain L ctx prk (hkdf_T HM prk info i) info (of_nat ?i) = (0, ctx', ?T)"
    and live: "hmac_live L md ctx'"
    using hmac_chain_ok [OF Suc.prems(1,3), of prk "hkdf_T HM prk info i" info "of_nat ?i"] by auto
  have pos_lt: "pos < okm_len"
  proof -
    have "pos \<le> (N - 1) * ?h"
      unfolding Suc.prems(8) by (rule mult_le_mono1) (use i in simp)
    with i Suc.prems(10) show ?thesis by auto
  qed
  let ?n = "if ?i \<noteq> N then ?h else okm_len - pos"
  have n: "?n = min ?h (okm_len - pos)"
  proof (cases "?i = N")
    case True
    with Suc.prems(8,9) have "okm_len \<le> pos + ?h" by auto
    with True show ?thesis by auto
  next
    case False
    with i have "?i * ?h \<le> (N - 1) * ?h"
      by (intro mult_le_mono1) simp
    with False i Suc.prems(8,10) show ?thesis by auto
  qed
  let ?T' = "?T @ drop ?h T"
  have rd: "read_mem T 0 T_len = Inr (hkdf_T HM prk info i)"
    using Suc.prems(4,5,6) by (simp add: mem_simps)
  have wr: "write_mem T 0 ?T = Inr ?T'"
    using Suc.prems(4) size(1) lenT by (simp add: mem_simps del: hkdf_T.simps)
  have lenO: "length okm = length okm0"
    using Suc.prems(11,12) lenS pos_lt by simp
  let ?okm = "take pos okm @ take ?n ?T @ drop (pos + ?n) okm"
  have cp: "memcpy okm pos ?T' 0 ?n = Inr ?okm"
    using lenO Suc.prems(4,12) size(1) lenT pos_lt n
    by (simp add: mem_simps del: hkdf_T.simps)
  have okm: "?okm = take okm_len (hkdf_stream HM prk info ?i) @ drop (min okm_len (pos + ?h)) okm0"
  proof -
    have dr: "pos + ?n = min okm_len (pos + ?h)"
      using n pos_lt by simp
    have "drop (pos + ?n) okm = drop (min okm_len (pos + ?h)) okm0"
      using Suc.prems(11) lenS pos_lt unfolding dr by simp
    moreover have "take ?n ?T = take (okm_len - pos) ?T"
      unfolding n using lenT by (simp add: min_def del: hkdf_T.simps)
    ultimately show ?thesis
      using Suc.prems(11) lenS pos_lt by (simp add: hkdf_stream_Suc del: hkdf_T.simps)
  qed
  have "hkdf_rounds L ctx prk info ?h N ?i T_len T pos okm_len okm =
      hkdf_rounds L ctx' prk info ?h N (Suc ?i) ?h ?T' (pos + ?h) okm_len ?okm"
    using i rd ch wr cp by (simp add: hkdf_rounds.simps [of L ctx prk info ?h N ?i] del: hkdf_T.simps)
  also have "\<dots> = Inr (0, take okm_len (hkdf_stream HM prk info N) @ drop okm_len okm0)"
    by (rule Suc.hyps(1)) (use Suc.hyps(2) Suc.prems i live size lenT okm in \<open>simp_all del: hkdf_T.simps\<close>)
  finally show ?case .
qed


lemma crypto_derive_key_spec:
  assumes "md_incremental L md D" and "mbedtls_md_info_from_string L ''MD5'' = Some md"
    and "key_len \<le> length key" and "key_len < 2 ^ 32"
  shows "crypto_derive_key L (Some pass) key key_len =
    Inr (int_of_size key_len, take key_len (bytes_to_key D pass [] key_len) @ drop key_len key)"
proof -
  obtain c where c: "mbedtls_md_setup L md 0 = (0, c)"
    using assms(1) by (auto simp: md_incremental_def)
  have "derive_rounds L c (fresh (lib_heap L) MBEDTLS_MD_MAX_SIZE) (mbedtls_md_get_size L md) pass False key 0 key_len =
      Inr (take 0 key @ take (key_len - 0) (bytes_to_key D pass [] key_len) @ drop key_len key)"
    by (rule derive_rounds_spec [OF assms(1) refl md_setup [OF c]]) (use assms(3,4) in simp_all)
  with assms(2) c show ?thesis
    by (simp add: crypto_derive_key_def Let_def)
qed

text \<open>The number of blocks, rounded up, is the least one that covers the output.\<close>

lemma ceil_div_bounds:
  fixes n h :: nat
  assumes "0 < h"
  defines "N \<equiv> if n mod h \<noteq> 0 then n div h + 1 else n div h"
  shows "n \<le> N * h" and "N = 0 \<or> (N - 1) * h < n"
proof -
  have d: "n div h * h + n mod h = n"
    by simp
  have m: "n mod h < h"
    using assms(1) by simp
  show "n \<le> N * h"
  proof (cases "n mod h = 0")
    case True
    then show ?thesis
      using d by (simp add: N_def)
  next
    case False
    have "n \<le> n div h * h + h"
      using d m by linarith
    with False show ?thesis
      by (simp add: N_def)
  qed
  show "N = 0 \<or> (N - 1) * h < n"
  proof (cases "n mod h = 0")
    case True
    then have n: "n = n div h * h"
      using d by linarith
    with True show ?thesis
      using assms(1) by (cases "n div h") (auto simp: N_def)
  next
    case False
    with d have "n div h * h < n" by linarith
    with False show ?thesis by (simp add: N_def)
  qed
qed

lemma crypto_hkdf_expand_spec:
  assumes "hmac_incremental L md HM" and "hash_len = mbedtls_md_get_size L md"
    and "length prk = hash_len" and "okm_len \<le> length okm" and "okm_len \<le> 255 * hash_len"
    and "hash_len + length rest = MBEDTLS_MD_MAX_SIZE"
  shows "crypto_hkdf_expand L md (prk @ rest) (int hash_len) (Some info) (int (length info)) (Some okm) (int okm_len) =
    Inr (0, take okm_len (hkdf_stream HM prk info 255) @ drop okm_len okm)"
proof -
  define N where "N = (if okm_len mod hash_len \<noteq> 0 then okm_len div hash_len + 1 else okm_len div hash_len)"
  have h: "0 < hash_len" "hash_len \<le> MBEDTLS_MD_MAX_SIZE" "\<And>k d. length (HM k d) = hash_len"
    using assms(1,2) by (auto simp: hmac_incremental_def)
  obtain c where c: "mbedtls_md_setup L md 1 = (0, c)"
    using assms(1) by (auto simp: hmac_incremental_def)
  note N = ceil_div_bounds [OF h(1), of okm_len, folded N_def]
  have N255: "N \<le> 255"
  proof (rule ccontr)
    assume "\<not> N \<le> 255"
    then have "255 * hash_len \<le> (N - 1) * hash_len"
      by (intro mult_le_mono1) simp
    with N(2) \<open>\<not> N \<le> 255\<close> assms(5) show False by linarith
  qed
  have "hkdf_rounds L c prk info hash_len N (Suc 0) 0 (fresh (lib_heap L) MBEDTLS_MD_MAX_SIZE) 0 okm_len okm =
      Inr (0, take okm_len (hkdf_stream HM prk info N) @ drop okm_len okm)"
    by (rule hkdf_rounds_spec [OF assms(1,2) hmac_setup [OF c]])
      (use N assms(4) in \<open>simp_all add: hkdf_stream_def\<close>)
  moreover have "take okm_len (hkdf_stream HM prk info N) = take okm_len (hkdf_stream HM prk info 255)"
  proof -
    have "[1..<Suc 255] = [1..<Suc N] @ [Suc N..<Suc 255]"
      using N255 upt_add_eq_append [of 1 "Suc N" "255 - N"] by simp
    then have "hkdf_stream HM prk info 255 =
        hkdf_stream HM prk info N @ concat (map (hkdf_T HM prk info) [Suc N..<Suc 255])"
      unfolding hkdf_stream_def by (metis concat_append map_append)
    moreover have "okm_len \<le> length (hkdf_stream HM prk info N)"
      using N(1) length_hkdf_stream [of HM hash_len] h(3) by simp
    ultimately show ?thesis by simp
  qed
  ultimately show ?thesis
    using c h(1,2) N255 assms(3,6)
    by (cases "okm_len mod hash_len = 0")
      (simp_all add: crypto_hkdf_expand_def Let_def mem_simps assms(2) [symmetric] N_def)
qed

lemma crypto_hkdf_spec:
  assumes "hmac_incremental L md HM" and "okm_len \<le> length okm" and "okm_len \<le> 255 * mbedtls_md_get_size L md"
    and "salt_len \<le> length salt" and "ikm_len \<le> length ikm"
  shows "crypto_hkdf L md (Some salt) (int salt_len) ikm (int ikm_len) (Some info) (int (length info))
      (Some okm) (int okm_len) =
    Inr (0, take okm_len (hkdf_stream HM (HM (take salt_len salt) (take ikm_len ikm)) info 255) @ drop okm_len okm)"
proof -
  let ?h = "mbedtls_md_get_size L md" and ?prk = "HM (take salt_len salt) (take ikm_len ikm)"
  have h: "?h \<le> MBEDTLS_MD_MAX_SIZE" "\<And>k d. length (HM k d) = ?h"
    "\<And>k d. mbedtls_md_hmac L md k d = (0, HM k d)"
    using assms(1) by (auto simp: hmac_incremental_def)
  have ex: "crypto_hkdf_extract L md (Some salt) (int salt_len) ikm (int ikm_len) = Inr (0, ?prk)"
    using assms(4,5) h(3) by (simp add: crypto_hkdf_extract_def mem_simps)
  let ?rest = "drop ?h (fresh (lib_heap L) MBEDTLS_MD_MAX_SIZE)"
  have wr: "write_mem (fresh (lib_heap L) MBEDTLS_MD_MAX_SIZE) 0 ?prk = Inr (?prk @ ?rest)"
    using h(1,2) by (simp add: mem_simps)
  note ep = crypto_hkdf_expand_spec [OF assms(1) refl h(2) assms(2,3), of ?rest]
  show ?thesis
    using h(1) by (simp add: crypto_hkdf_def ex wr ep)
qed

section \<open>Properties\<close>

text \<open>C24: \<^verbatim>\<open>crypto_derive_key\<close> computes OpenSSL's \<^verbatim>\<open>EVP_BytesToKey\<close> with one iteration and no salt: the key is
  the prefix of D(pass), D(D(pass) pass), D(previous digest, pass), and so on. For every password and every
  key length below \<open>2 ^ 32\<close> (the range of the loop's \<^verbatim>\<open>unsigned int\<close> counter) the loop ends, writes the first
  \<^verbatim>\<open>key_len\<close> bytes only and returns \<^verbatim>\<open>key_len\<close>.\<close>

theorem derive_key_is_bytes_to_key:
  assumes "md_incremental L md D" and "mbedtls_md_info_from_string L ''MD5'' = Some md" and "key_len \<le> length key"
    and "key_len < 2 ^ 32"
  shows "crypto_derive_key L (Some pass) key key_len =
    Inr (int_of_size key_len, take key_len (bytes_to_key D pass [] key_len) @ drop key_len key)"
  using assms by (rule crypto_derive_key_spec)

text \<open>C23: \<^verbatim>\<open>crypto_hkdf\<close> is HKDF of RFC 5869: with PRK = HMAC(salt, ikm), the output is the prefix of
  T(1) T(2) ... where T(i) = HMAC(PRK, T(i-1) info i), for every output length of at most 255 digests, and
  nothing after it is written.\<close>

theorem hkdf_is_rfc5869:
  assumes "hmac_incremental L md HM" and "okm_len \<le> length okm" and "okm_len \<le> 255 * mbedtls_md_get_size L md"
    and "salt_len \<le> length salt" and "ikm_len \<le> length ikm"
  shows "crypto_hkdf L md (Some salt) (int salt_len) ikm (int ikm_len) (Some info) (int (length info))
      (Some okm) (int okm_len) =
    Inr (0, take okm_len (hkdf_stream HM (HM (take salt_len salt) (take ikm_len ikm)) info 255) @ drop okm_len okm)"
  using assms by (rule crypto_hkdf_spec)

text \<open>HKDF refuses an output of more than 255 digests: \<^verbatim>\<open>crypto_hkdf\<close> returns 1 and leaves the output block
  alone.\<close>

theorem hkdf_too_long:
  assumes "hmac_incremental L md HM" and "255 * mbedtls_md_get_size L md < okm_len"
    and "salt_len \<le> length salt" and "ikm_len \<le> length ikm"
  shows "crypto_hkdf L md (Some salt) (int salt_len) ikm (int ikm_len) (Some info) (int (length info))
      (Some okm) (int okm_len) = Inr (1, okm)"
proof -
  let ?h = "mbedtls_md_get_size L md" and ?prk = "HM (take salt_len salt) (take ikm_len ikm)"
  have h: "0 < ?h" "?h \<le> MBEDTLS_MD_MAX_SIZE" "\<And>k d. length (HM k d) = ?h" "\<And>k d. mbedtls_md_hmac L md k d = (0, HM k d)"
    using assms(1) by (auto simp: hmac_incremental_def)
  define N where "N = (if okm_len mod ?h \<noteq> 0 then okm_len div ?h + 1 else okm_len div ?h)"
  have "okm_len \<le> N * ?h"
    using ceil_div_bounds(1) [OF h(1), of okm_len] by (simp add: N_def)
  then have "255 * ?h < N * ?h"
    using assms(2) by linarith
  then have N: "255 < N"
    by simp
  have "crypto_hkdf_expand L md prk (int ?h) (Some info) (int (length info)) (Some okm) (int okm_len) =
      Inr (CRYPTO_ERROR, okm)" for prk
    using h(1) N by (cases "okm_len mod ?h = 0") (simp_all add: crypto_hkdf_expand_def Let_def N_def)
  moreover have "crypto_hkdf_extract L md (Some salt) (int salt_len) ikm (int ikm_len) = Inr (0, ?prk)"
    using assms(3,4) h(4) by (simp add: crypto_hkdf_extract_def mem_simps)
  ultimately show ?thesis
    using h(2,3) by (simp add: crypto_hkdf_def mem_simps)
qed

end
