(* ===== verification/SS_Aead.thy ===== *)
theory SS_Aead
  imports SS_Kdf
begin

text \<open>
  The AEAD ciphers of \<^verbatim>\<open>src/aead.c\<close>: the cipher tables, the dispatch to libsodium or mbed TLS, subkey
  derivation, packet encryption (\<^verbatim>\<open>aead_encrypt_all\<close>, \<^verbatim>\<open>aead_decrypt_all\<close>) and the chunked stream
  (\<^verbatim>\<open>aead_encrypt\<close>, \<^verbatim>\<open>aead_decrypt\<close>). Definitions follow the C functions statement by statement; every
  pointer argument that is written is returned. The configuration is the one the build uses with a
  current libsodium: \<^verbatim>\<open>FS_HAVE_XCHACHA20IETF\<close> defined, assertions enabled.
\<close>

section \<open>Tables\<close>

abbreviation (input) AES128GCM :: int where "AES128GCM \<equiv> 0"
abbreviation (input) AES192GCM :: int where "AES192GCM \<equiv> 1"
abbreviation (input) AES256GCM :: int where "AES256GCM \<equiv> 2"
abbreviation (input) CHACHA20POLY1305IETF :: int where "CHACHA20POLY1305IETF \<equiv> 3"
abbreviation (input) XCHACHA20POLY1305IETF :: int where "XCHACHA20POLY1305IETF \<equiv> 4"
abbreviation (input) AEAD_CIPHER_NUM :: int where "AEAD_CIPHER_NUM \<equiv> 5"
abbreviation (input) CHUNK_SIZE_LEN :: nat where "CHUNK_SIZE_LEN \<equiv> 2"
abbreviation (input) CHUNK_SIZE_MASK :: nat where "CHUNK_SIZE_MASK \<equiv> 0x3FFF"
abbreviation (input) AES256GCM_STATEBYTES :: nat where "AES256GCM_STATEBYTES \<equiv> 512"

definition load16_be :: "bytes \<Rightarrow> u16 res" where
  "load16_be s = bnd (read_byte s 0) (\<lambda>b0. bnd (read_byte s 1) (\<lambda>b1.
     Inr (push_bit 8 (ucast b0) OR ucast b1)))"

definition supported_aead_ciphers :: "string list" where
  "supported_aead_ciphers =
     [''aes-128-gcm'', ''aes-192-gcm'', ''aes-256-gcm'', ''chacha20-ietf-poly1305'', ''xchacha20-ietf-poly1305'']"

definition supported_aead_ciphers_mbedtls :: "string list" where
  "supported_aead_ciphers_mbedtls =
     [''AES-128-GCM'', ''AES-192-GCM'', ''AES-256-GCM'', ''unsupported'', ''unsupported'']"

definition supported_aead_ciphers_nonce_size :: "nat list" where
  "supported_aead_ciphers_nonce_size = [12, 12, 12, 12, 24]"

definition supported_aead_ciphers_key_size :: "nat list" where
  "supported_aead_ciphers_key_size = [16, 24, 32, 32, 32]"

definition supported_aead_ciphers_tag_size :: "nat list" where
  "supported_aead_ciphers_tag_size = [16, 16, 16, 16, 16]"

definition SUBKEY_INFO :: bytes where
  "SUBKEY_INFO = map of_char ''ss-subkey''"

section \<open>One AEAD operation\<close>

text \<open>
  Encryption writes at offset \<open>coff\<close> of the block \<open>c\<close> and yields the error code, the context, the block and
  the output length. libsodium reads a key of 32 bytes and a nonce of the algorithm's size.
\<close>

definition sodium_seal ::
  "int \<times> bytes \<Rightarrow> cipher_ctx_t \<Rightarrow> bytes \<Rightarrow> nat \<Rightarrow> (int \<times> cipher_ctx_t \<times> bytes \<times> nat) res" where
  "sodium_seal r ctx c coff =
     (let (err, out) = r in bnd (write_mem c coff out) (\<lambda>c. Inr (err, ctx, c, length out)))"

definition mbedtls_seal ::
  "crypto_lib \<Rightarrow> cipher_ctx_t \<Rightarrow> bytes \<Rightarrow> nat \<Rightarrow> bytes \<Rightarrow> bytes \<Rightarrow> bytes
   \<Rightarrow> (int \<times> cipher_ctx_t \<times> bytes \<times> nat) res" where
  "mbedtls_seal L ctx c coff m ad n =
     (let nlen = ci_nonce_len (cx_cipher ctx); tlen = ci_tag_len (cx_cipher ctx) in
      case cx_evp ctx of None \<Rightarrow> Inl UB
      | Some evp \<Rightarrow>
          bnd (read_mem n 0 nlen) (\<lambda>iv.
            let (err, evp, out, tag) = mbedtls_cipher_auth_encrypt L evp iv ad m tlen in
            bnd (write_mem c coff out) (\<lambda>c.
            bnd (write_mem c (coff + length m) tag) (\<lambda>c.
              Inr (err, ctx\<lparr>cx_evp := Some evp\<rparr>, c, length out + tlen)))))"

definition aead_cipher_encrypt ::
  "crypto_lib \<Rightarrow> cipher_ctx_t \<Rightarrow> bytes \<Rightarrow> nat \<Rightarrow> nat \<Rightarrow> bytes \<Rightarrow> bytes \<Rightarrow> bytes \<Rightarrow> bytes
   \<Rightarrow> (int \<times> cipher_ctx_t \<times> bytes \<times> nat) res" where
  "aead_cipher_encrypt L ctx c coff clen m ad n k =
     (let method = ci_method (cx_cipher ctx) in
      if method = AES256GCM \<and> cx_gcm ctx \<noteq> None then
        bnd (read_mem n 0 12) (\<lambda>iv. sodium_seal (aes256gcm_encrypt_afternm L m ad iv (the (cx_gcm ctx))) ctx c coff)
      else if method = AES256GCM \<or> method = AES192GCM \<or> method = AES128GCM then
        mbedtls_seal L ctx c coff m ad n
      else if method = CHACHA20POLY1305IETF then
        bnd (read_mem n 0 12) (\<lambda>iv. bnd (read_mem k 0 32) (\<lambda>key.
          sodium_seal (chacha20poly1305_ietf_encrypt L m ad iv key) ctx c coff))
      else if method = XCHACHA20POLY1305IETF then
        bnd (read_mem n 0 24) (\<lambda>iv. bnd (read_mem k 0 32) (\<lambda>key.
          sodium_seal (xchacha20poly1305_ietf_encrypt L m ad iv key) ctx c coff))
      else Inr (CRYPTO_ERROR, ctx, c, clen))"

definition sodium_open ::
  "int \<times> bytes \<Rightarrow> cipher_ctx_t \<Rightarrow> bytes \<Rightarrow> nat \<Rightarrow> (int \<times> cipher_ctx_t \<times> bytes \<times> nat) res" where
  "sodium_open r ctx p poff =
     (let (err, out) = r in
      bnd (write_mem p poff out) (\<lambda>p. Inr (err, ctx, p, if err = 0 then length out else 0)))"

definition mbedtls_open ::
  "crypto_lib \<Rightarrow> cipher_ctx_t \<Rightarrow> bytes \<Rightarrow> nat \<Rightarrow> bytes \<Rightarrow> bytes \<Rightarrow> bytes
   \<Rightarrow> (int \<times> cipher_ctx_t \<times> bytes \<times> nat) res" where
  "mbedtls_open L ctx p poff m ad n =
     (let nlen = ci_nonce_len (cx_cipher ctx); tlen = ci_tag_len (cx_cipher ctx) in
      if length m < tlen then Inl UB
      else case cx_evp ctx of None \<Rightarrow> Inl UB
      | Some evp \<Rightarrow>
          bnd (read_mem n 0 nlen) (\<lambda>iv.
            let (err, evp, out) = mbedtls_cipher_auth_decrypt L evp iv ad
                  (take (length m - tlen) m) (drop (length m - tlen) m) in
            bnd (write_mem p poff out) (\<lambda>p.
              Inr (err, ctx\<lparr>cx_evp := Some evp\<rparr>, p, length out))))"

definition aead_cipher_decrypt ::
  "crypto_lib \<Rightarrow> cipher_ctx_t \<Rightarrow> bytes \<Rightarrow> nat \<Rightarrow> nat \<Rightarrow> bytes \<Rightarrow> bytes \<Rightarrow> bytes \<Rightarrow> bytes
   \<Rightarrow> (int \<times> cipher_ctx_t \<times> bytes \<times> nat) res" where
  "aead_cipher_decrypt L ctx p poff plen m ad n k =
     (let method = ci_method (cx_cipher ctx) in
      bnd (if method = AES256GCM \<and> cx_gcm ctx \<noteq> None then
             bnd (read_mem n 0 12) (\<lambda>iv. sodium_open (aes256gcm_decrypt_afternm L m ad iv (the (cx_gcm ctx))) ctx p poff)
           else if method = AES256GCM \<or> method = AES192GCM \<or> method = AES128GCM then
             mbedtls_open L ctx p poff m ad n
           else if method = CHACHA20POLY1305IETF then
             bnd (read_mem n 0 12) (\<lambda>iv. bnd (read_mem k 0 32) (\<lambda>key.
               sodium_open (chacha20poly1305_ietf_decrypt L m ad iv key) ctx p poff))
           else if method = XCHACHA20POLY1305IETF then
             bnd (read_mem n 0 24) (\<lambda>iv. bnd (read_mem k 0 32) (\<lambda>key.
               sodium_open (xchacha20poly1305_ietf_decrypt L m ad iv key) ctx p poff))
           else Inr (CRYPTO_ERROR, ctx, p, plen))
        (\<lambda>(err, ctx, p, plen). Inr (if err \<noteq> 0 then CRYPTO_ERROR else 0, ctx, p, plen)))"

section \<open>Contexts\<close>

definition aead_get_cipher_type :: "crypto_lib \<Rightarrow> int \<Rightarrow> cipher_kt option" where
  "aead_get_cipher_type L method =
     (if method < AES128GCM \<or> method \<ge> AEAD_CIPHER_NUM then None
      else if method \<ge> CHACHA20POLY1305IETF then None
      else
        let mbedtlsname = supported_aead_ciphers_mbedtls ! nat method in
        if mbedtlsname = ''unsupported'' then None
        else mbedtls_cipher_info_from_string L mbedtlsname)"

text \<open>The last part of \<^verbatim>\<open>aead_cipher_ctx_set_key\<close>: the subkey goes to the library context in use.\<close>

definition set_lib_key :: "crypto_lib \<Rightarrow> cipher_ctx_t \<Rightarrow> int \<Rightarrow> cipher_ctx_t res" where
  "set_lib_key L ctx enc =
     (if ci_method (cx_cipher ctx) \<ge> CHACHA20POLY1305IETF then Inr ctx
      else if cx_gcm ctx \<noteq> None then
        bnd (read_mem (cx_skey ctx) 0 32) (\<lambda>k.
          let (err, g) = aes256gcm_beforenm L k in
          if err \<noteq> 0 then Inl (FATAL ''Cannot set libsodium cipher key'')
          else Inr (ctx\<lparr>cx_gcm := Some g\<rparr>))
      else case cx_evp ctx of None \<Rightarrow> Inl UB
      | Some evp \<Rightarrow>
          let klen = ci_key_len (cx_cipher ctx) in
          bnd (read_mem (cx_skey ctx) 0 klen) (\<lambda>k.
            let (err, evp) = mbedtls_cipher_setkey L evp k (klen * 8) enc in
            if err \<noteq> 0 then Inl (FATAL ''Cannot set mbed TLS cipher key'')
            else let (err, evp) = mbedtls_cipher_reset L evp in
            if err \<noteq> 0 then Inl (FATAL ''Cannot finish preparation of mbed TLS cipher context'')
            else Inr (ctx\<lparr>cx_evp := Some evp\<rparr>)))"

definition aead_cipher_ctx_set_key :: "crypto_lib \<Rightarrow> cipher_ctx_t \<Rightarrow> int \<Rightarrow> cipher_ctx_t res" where
  "aead_cipher_ctx_set_key L ctx enc =
     (case mbedtls_md_info_from_string L ''SHA1'' of
        None \<Rightarrow> Inl (FATAL ''SHA1 Digest not found in crypto library'')
      | Some md \<Rightarrow>
          let c = cx_cipher ctx; klen = int (ci_key_len c) in
          bnd (crypto_hkdf L md (Some (cx_salt ctx)) klen (ci_key c) klen
                 (Some SUBKEY_INFO) (int (length SUBKEY_INFO)) (Some (cx_skey ctx)) klen) (\<lambda>(err, skey).
            if err \<noteq> 0 then Inl (FATAL ''Unable to generate subkey'')
            else bnd (memset (cx_nonce ctx) 0 0 (ci_nonce_len c)) (\<lambda>nonce.
              set_lib_key L (ctx\<lparr>cx_skey := skey, cx_nonce := nonce\<rparr>) enc)))"

text \<open>A new mbed TLS context is allocated, zeroed and initialised; its size is that of the image.\<close>

definition aead_cipher_ctx_init :: "crypto_lib \<Rightarrow> cipher_ctx_t \<Rightarrow> int \<Rightarrow> int \<Rightarrow> cipher_ctx_t res" where
  "aead_cipher_ctx_init L ctx method enc =
     (if method < AES128GCM \<or> method \<ge> AEAD_CIPHER_NUM then Inr ctx
      else if method \<ge> CHACHA20POLY1305IETF then Inr ctx
      else
        let cipher = aead_get_cipher_type L method in
        bnd (if method = AES256GCM \<and> aes256gcm_is_available L \<noteq> 0 then
               bnd (ss_aligned_malloc (lib_heap L) AES256GCM_STATEBYTES) (\<lambda>g.
               bnd (memset g 0 0 AES256GCM_STATEBYTES) (\<lambda>g.
                 Inr (ctx\<lparr>cx_gcm := Some g\<rparr>)))
             else
               bnd (ss_malloc (lib_heap L) (length (mbedtls_cipher_init L))) (\<lambda>_.
                 let (err, evp) = mbedtls_cipher_setup L (mbedtls_cipher_init L) cipher in
                 if err \<noteq> 0 then Inl (FATAL ''Cannot initialize mbed TLS cipher context'')
                 else Inr (ctx\<lparr>cx_gcm := None, cx_evp := Some evp\<rparr>)))
          (\<lambda>ctx. if cipher = None then Inl (FATAL ''Cannot initialize mbed TLS cipher'') else Inr ctx))"

definition aead_ctx_init :: "crypto_lib \<Rightarrow> world \<Rightarrow> cipher_t \<Rightarrow> int \<Rightarrow> (cipher_ctx_t \<times> world) res" where
  "aead_ctx_init L w cipher enc =
     bnd (aead_cipher_ctx_init L (zero_ctx cipher) (ci_method cipher) enc) (\<lambda>ctx.
       if enc \<noteq> 0 then
         bnd (rand_bytes L w (cx_salt ctx) (ci_key_len cipher)) (\<lambda>(salt, w).
           Inr (ctx\<lparr>cx_salt := salt\<rparr>, w))
       else Inr (ctx, w))"

definition aead_ctx_release :: "cipher_ctx_t \<Rightarrow> cipher_ctx_t" where
  "aead_ctx_release ctx =
     (let ctx = (if cx_chunk ctx \<noteq> None then ctx\<lparr>cx_chunk := None\<rparr> else ctx) in
      if ci_method (cx_cipher ctx) \<ge> CHACHA20POLY1305IETF then ctx
      else if cx_gcm ctx \<noteq> None then ctx\<lparr>cx_gcm := None\<rparr>
      else ctx\<lparr>cx_evp := None\<rparr>)"

section \<open>Packets\<close>

definition put_tmp :: "tmp_id \<Rightarrow> buffer_t \<Rightarrow> world \<Rightarrow> world" where
  "put_tmp t b w = w\<lparr>w_tmp := (w_tmp w)(t := b)\<rparr>"

definition aead_encrypt_all ::
  "crypto_lib \<Rightarrow> world \<Rightarrow> buffer_t \<Rightarrow> cipher_t \<Rightarrow> nat \<Rightarrow> (int \<times> buffer_t \<times> world) res" where
  "aead_encrypt_all L w plaintext cipher capacity =
     bnd (aead_ctx_init L w cipher 1) (\<lambda>(ctx, w).
       let salt_len = ci_key_len cipher; tag_len = ci_tag_len cipher in
       bnd (brealloc (lib_heap L) (w_tmp w Tmp_aead_encrypt_all) (salt_len + tag_len + b_len plaintext) capacity) (\<lambda>tmp.
       let tmp = tmp\<lparr>b_len := tag_len + b_len plaintext\<rparr> in
       bnd (memcpy (b_data tmp) 0 (cx_salt ctx) 0 salt_len) (\<lambda>d.
       bnd (ppbloom_add (w_pp w) (cx_salt ctx) (int salt_len)) (\<lambda>(_, pp).
       bnd (aead_cipher_ctx_set_key L ctx 1) (\<lambda>ctx.
       bnd (read_mem (b_data plaintext) 0 (b_len plaintext)) (\<lambda>m.
       bnd (aead_cipher_encrypt L ctx d salt_len (b_len tmp) m [] (cx_nonce ctx) (cx_skey ctx)) (\<lambda>(err, ctx, d, clen).
       let tmp = tmp\<lparr>b_data := d\<rparr>;
           w = put_tmp Tmp_aead_encrypt_all tmp (w\<lparr>w_pp := pp\<rparr>)
       in
       if err \<noteq> 0 then Inr (CRYPTO_ERROR, plaintext, w)
       else assertc (b_len tmp = clen)
         (bnd (buf_assign (lib_heap L) plaintext (b_data tmp) (salt_len + b_len tmp) capacity) (\<lambda>plaintext.
            Inr (CRYPTO_OK, plaintext, w))))))))))"

definition aead_decrypt_all ::
  "crypto_lib \<Rightarrow> world \<Rightarrow> buffer_t \<Rightarrow> cipher_t \<Rightarrow> nat \<Rightarrow> (int \<times> buffer_t \<times> world) res" where
  "aead_decrypt_all L w ciphertext cipher capacity =
     (let salt_len = ci_key_len cipher; tag_len = ci_tag_len cipher in
      if b_len ciphertext \<le> salt_len + tag_len then Inr (CRYPTO_ERROR, ciphertext, w)
      else
        bnd (aead_ctx_init L w cipher 0) (\<lambda>(ctx, w).
        bnd (brealloc (lib_heap L) (w_tmp w Tmp_aead_decrypt_all) (b_len ciphertext) capacity) (\<lambda>tmp.
        let tmp = tmp\<lparr>b_len := b_len ciphertext - salt_len - tag_len\<rparr>;
            w = put_tmp Tmp_aead_decrypt_all tmp w
        in
        bnd (memcpy (cx_salt ctx) 0 (b_data ciphertext) 0 salt_len) (\<lambda>salt.
        let ctx = ctx\<lparr>cx_salt := salt\<rparr> in
        bnd (ppbloom_check (w_pp w) (cx_salt ctx) (int salt_len)) (\<lambda>seen.
        if seen = 1 then Inr (CRYPTO_ERROR, ciphertext, w)
        else
          bnd (aead_cipher_ctx_set_key L ctx 0) (\<lambda>ctx.
          bnd (read_mem (b_data ciphertext) salt_len (b_len ciphertext - salt_len)) (\<lambda>m.
          bnd (aead_cipher_decrypt L ctx (b_data tmp) 0 (b_len tmp) m [] (cx_nonce ctx) (cx_skey ctx)) (\<lambda>(err, ctx, d, plen).
          let tmp = tmp\<lparr>b_data := d\<rparr>;
              w = put_tmp Tmp_aead_decrypt_all tmp w
          in
          if err \<noteq> 0 then Inr (CRYPTO_ERROR, ciphertext, w)
          else
            bnd (ppbloom_add (w_pp w) (cx_salt ctx) (int salt_len)) (\<lambda>(_, pp).
            bnd (buf_assign (lib_heap L) ciphertext (b_data tmp) (b_len tmp) capacity) (\<lambda>ciphertext.
              Inr (CRYPTO_OK, ciphertext, w\<lparr>w_pp := pp\<rparr>)))))))))))"

section \<open>The chunked stream\<close>

text \<open>\<^verbatim>\<open>n\<close> is always \<^verbatim>\<open>ctx->nonce\<close>, which \<^verbatim>\<open>sodium_increment(n, nlen)\<close> updates in place.\<close>

definition bump_nonce :: "crypto_lib \<Rightarrow> cipher_ctx_t \<Rightarrow> cipher_ctx_t res" where
  "bump_nonce L ctx =
     (let nlen = ci_nonce_len (cx_cipher ctx) in
      bnd (read_mem (cx_nonce ctx) 0 nlen) (\<lambda>n.
      bnd (write_mem (cx_nonce ctx) 0 (sodium_increment L n)) (\<lambda>n.
        Inr (ctx\<lparr>cx_nonce := n\<rparr>))))"

definition aead_chunk_encrypt ::
  "crypto_lib \<Rightarrow> cipher_ctx_t \<Rightarrow> bytes \<Rightarrow> bytes \<Rightarrow> nat \<Rightarrow> u16 \<Rightarrow> (int \<times> cipher_ctx_t \<times> bytes) res" where
  "aead_chunk_encrypt L ctx p c coff plen =
     (let tlen = ci_tag_len (cx_cipher ctx) in
      assertc (unat plen \<le> CHUNK_SIZE_MASK)
        (let len_buf = be16 (plen AND of_nat CHUNK_SIZE_MASK) in
         bnd (aead_cipher_encrypt L ctx c coff (CHUNK_SIZE_LEN + tlen) len_buf [] (cx_nonce ctx) (cx_skey ctx)) (\<lambda>(err, ctx, c, clen).
         if err \<noteq> 0 then Inr (CRYPTO_ERROR, ctx, c)
         else assertc (clen = CHUNK_SIZE_LEN + tlen)
           (bnd (bump_nonce L ctx) (\<lambda>ctx.
            bnd (read_mem p 0 (unat plen)) (\<lambda>m.
            bnd (aead_cipher_encrypt L ctx c (coff + CHUNK_SIZE_LEN + tlen) (unat plen + tlen) m [] (cx_nonce ctx) (cx_skey ctx)) (\<lambda>(err, ctx, c, clen).
            if err \<noteq> 0 then Inr (CRYPTO_ERROR, ctx, c)
            else assertc (clen = unat plen + tlen)
              (bnd (bump_nonce L ctx) (\<lambda>ctx. Inr (CRYPTO_OK, ctx, c))))))))))"

definition aead_encrypt ::
  "crypto_lib \<Rightarrow> world \<Rightarrow> buffer_t \<Rightarrow> cipher_ctx_t option \<Rightarrow> nat
   \<Rightarrow> (int \<times> buffer_t \<times> cipher_ctx_t option \<times> world) res" where
  "aead_encrypt L w plaintext cipher_ctx capacity =
     (case cipher_ctx of None \<Rightarrow> Inr (CRYPTO_ERROR, plaintext, None, w)
      | Some ctx \<Rightarrow>
      if b_len plaintext = 0 then Inr (CRYPTO_OK, plaintext, Some ctx, w)
      else
        let salt_len = ci_key_len (cx_cipher ctx); tag_len = ci_tag_len (cx_cipher ctx);
            salt_ofst = (if cx_init ctx = 0 then salt_len else 0);
            out_len = salt_ofst + 2 * tag_len + b_len plaintext + CHUNK_SIZE_LEN
        in
        bnd (brealloc (lib_heap L) (w_tmp w Tmp_aead_encrypt) out_len capacity) (\<lambda>tmp.
        let tmp = tmp\<lparr>b_len := out_len\<rparr> in
        bnd (if cx_init ctx = 0 then
               bnd (memcpy (b_data tmp) 0 (cx_salt ctx) 0 salt_len) (\<lambda>d.
               bnd (aead_cipher_ctx_set_key L ctx 1) (\<lambda>ctx.
               bnd (ppbloom_add (w_pp w) (cx_salt ctx) (int salt_len)) (\<lambda>(_, pp).
                 Inr (d, ctx\<lparr>cx_init := 1\<rparr>, pp))))
             else Inr (b_data tmp, ctx, w_pp w)) (\<lambda>(d, ctx, pp).
        bnd (aead_chunk_encrypt L ctx (b_data plaintext) d salt_ofst (of_nat (b_len plaintext))) (\<lambda>(err, ctx, d).
        let tmp = tmp\<lparr>b_data := d\<rparr>;
            w = put_tmp Tmp_aead_encrypt tmp (w\<lparr>w_pp := pp\<rparr>)
        in
        if err \<noteq> 0 then Inr (err, plaintext, Some ctx, w)
        else bnd (buf_assign (lib_heap L) plaintext (b_data tmp) (b_len tmp) capacity) (\<lambda>plaintext.
          Inr (0, plaintext, Some ctx, w))))))"

text \<open>
  The result is the error code, the context, the output block, \<^verbatim>\<open>*plen\<close> and \<^verbatim>\<open>*clen\<close>. \<open>c\<close> is the whole
  chunk block and \<open>coff\<close> the position \<^verbatim>\<open>cidx\<close> in it.
\<close>

definition aead_chunk_decrypt ::
  "crypto_lib \<Rightarrow> cipher_ctx_t \<Rightarrow> bytes \<Rightarrow> nat \<Rightarrow> bytes \<Rightarrow> nat \<Rightarrow> nat \<Rightarrow> nat
   \<Rightarrow> (int \<times> cipher_ctx_t \<times> bytes \<times> nat \<times> nat) res" where
  "aead_chunk_decrypt L ctx p poff c coff plen clen =
     (let tlen = ci_tag_len (cx_cipher ctx) in
      if clen \<le> 2 * tlen + CHUNK_SIZE_LEN then Inr (CRYPTO_NEED_MORE, ctx, p, plen, clen)
      else
        bnd (read_mem c coff (CHUNK_SIZE_LEN + tlen)) (\<lambda>m.
        bnd (aead_cipher_decrypt L ctx (fresh (lib_heap L) 2) 0 plen m [] (cx_nonce ctx) (cx_skey ctx)) (\<lambda>(err, ctx, len_buf, plen).
        if err \<noteq> 0 then Inr (CRYPTO_ERROR, ctx, p, plen, clen)
        else assertc (plen = CHUNK_SIZE_LEN)
          (bnd (load16_be len_buf) (\<lambda>v.
           let mlen = unat (v AND of_nat CHUNK_SIZE_MASK) in
           if mlen = 0 then Inr (CRYPTO_ERROR, ctx, p, plen, clen)
           else
             let chunk_len = 2 * tlen + CHUNK_SIZE_LEN + mlen in
             if clen < chunk_len then Inr (CRYPTO_NEED_MORE, ctx, p, plen, clen)
             else
               bnd (bump_nonce L ctx) (\<lambda>ctx.
               bnd (read_mem c (coff + CHUNK_SIZE_LEN + tlen) (mlen + tlen)) (\<lambda>m.
               bnd (aead_cipher_decrypt L ctx p poff plen m [] (cx_nonce ctx) (cx_skey ctx)) (\<lambda>(err, ctx, p, plen).
               if err \<noteq> 0 then Inr (CRYPTO_ERROR, ctx, p, plen, clen)
               else assertc (plen = mlen)
                 (bnd (bump_nonce L ctx) (\<lambda>ctx. Inr (CRYPTO_OK, ctx, p, plen, clen - chunk_len)))))))))))"

lemma aead_chunk_decrypt_progress:
  assumes "aead_chunk_decrypt L ctx p poff c coff plen clen = Inr (e, ctx', p', plen', clen')"
  shows "clen' \<le> clen" and "e \<noteq> CRYPTO_ERROR \<Longrightarrow> e \<noteq> CRYPTO_NEED_MORE \<Longrightarrow> clen' < clen"
  using assms
  by (auto simp: aead_chunk_decrypt_def Let_def assertc_def bnd_Inr_iff split: if_splits prod.splits)

text \<open>
  The decryption loop. \<open>None\<close> means that the loop ends and the function goes on, \<open>Some e\<close> is an early
  return. The buffered ciphertext \<open>ch\<close> is \<^verbatim>\<open>*cipher_ctx->chunk\<close>.
\<close>

function aead_decrypt_loop ::
  "crypto_lib \<Rightarrow> cipher_ctx_t \<Rightarrow> buffer_t \<Rightarrow> bytes \<Rightarrow> nat \<Rightarrow> nat
   \<Rightarrow> (int option \<times> cipher_ctx_t \<times> buffer_t \<times> bytes \<times> nat) res" where
  "aead_decrypt_loop L ctx ch d plen cidx =
     (if b_len ch > 0 then
        bnd (aead_chunk_decrypt L ctx d plen (b_data ch) cidx 0 (b_len ch)) (\<lambda>(err, ctx, d, chunk_plen, chunk_clen).
          if err = CRYPTO_ERROR then Inr (Some err, ctx, ch, d, plen)
          else if err = CRYPTO_NEED_MORE then
            (if plen = 0 then Inr (Some err, ctx, ch, d, plen)
             else bnd (memmove (b_data ch) 0 cidx chunk_clen) (\<lambda>b.
               Inr (None, ctx, ch\<lparr>b_data := b\<rparr>, d, plen)))
          else
            aead_decrypt_loop L ctx (ch\<lparr>b_len := chunk_clen\<rparr>) d (plen + chunk_plen)
              (cidx + (ci_tag_len (cx_cipher ctx) * 2 + CHUNK_SIZE_LEN + chunk_plen)))
      else Inr (None, ctx, ch, d, plen))"
  by pat_completeness auto
termination
  by (relation "measure (\<lambda>(L, ctx, ch, d, plen, cidx). b_len ch)")
    (auto dest: aead_chunk_decrypt_progress(2))

declare aead_decrypt_loop.simps [simp del]

text \<open>
  \<^verbatim>\<open>aead_decrypt\<close> in its four parts: the new bytes are appended to the buffered ones; a new session takes its
  salt off the front and is keyed; the loop decrypts; a new session's salt is recorded and the output
  handed over.
\<close>

definition aead_decrypt_append :: "crypto_lib \<Rightarrow> cipher_ctx_t \<Rightarrow> buffer_t \<Rightarrow> nat \<Rightarrow> buffer_t res" where
  "aead_decrypt_append L ctx ciphertext capacity =
     bnd (case cx_chunk ctx of Some ch \<Rightarrow> Inr ch
          | None \<Rightarrow> new_buffer (lib_heap L) capacity) (\<lambda>ch.
     bnd (brealloc (lib_heap L) ch (b_len ch + b_len ciphertext) capacity) (\<lambda>ch.
     bnd (memcpy (b_data ch) (b_len ch) (b_data ciphertext) 0 (b_len ciphertext)) (\<lambda>b.
       Inr (ch\<lparr>b_data := b, b_len := b_len ch + b_len ciphertext\<rparr>))))"

definition aead_decrypt_salt ::
  "crypto_lib \<Rightarrow> world \<Rightarrow> cipher_ctx_t \<Rightarrow> buffer_t \<Rightarrow> (int option \<times> cipher_ctx_t \<times> buffer_t) res" where
  "aead_decrypt_salt L w ctx ch =
     (let salt_len = ci_key_len (cx_cipher ctx) in
      if cx_init ctx = 0 then
        if b_len ch \<le> salt_len then Inr (Some CRYPTO_NEED_MORE, ctx, ch)
        else
          bnd (memcpy (cx_salt ctx) 0 (b_data ch) 0 salt_len) (\<lambda>salt.
          let ctx = ctx\<lparr>cx_salt := salt\<rparr> in
          bnd (ppbloom_check (w_pp w) (cx_salt ctx) (int salt_len)) (\<lambda>seen.
          if seen = 1 then Inr (Some CRYPTO_ERROR, ctx, ch)
          else
            bnd (aead_cipher_ctx_set_key L ctx 0) (\<lambda>ctx.
            bnd (memmove (b_data ch) 0 salt_len (b_len ch - salt_len)) (\<lambda>b.
              Inr (None, ctx\<lparr>cx_init := 1\<rparr>, ch\<lparr>b_data := b, b_len := b_len ch - salt_len\<rparr>)))))
      else Inr (None, ctx, ch))"

definition aead_decrypt_finish ::
  "crypto_lib \<Rightarrow> world \<Rightarrow> buffer_t \<Rightarrow> cipher_ctx_t \<Rightarrow> buffer_t \<Rightarrow> nat
   \<Rightarrow> (int \<times> buffer_t \<times> cipher_ctx_t \<times> world) res" where
  "aead_decrypt_finish L w ciphertext ctx plaintext capacity =
     (let salt_len = ci_key_len (cx_cipher ctx) in
      bnd (if cx_init ctx = 1 then
             bnd (ppbloom_check (w_pp w) (cx_salt ctx) (int salt_len)) (\<lambda>seen.
             if seen = 1 then Inr (True, ctx, w)
             else bnd (ppbloom_add (w_pp w) (cx_salt ctx) (int salt_len)) (\<lambda>(_, pp).
               Inr (False, ctx\<lparr>cx_init := 2\<rparr>, w\<lparr>w_pp := pp\<rparr>)))
           else Inr (False, ctx, w)) (\<lambda>(rejected, ctx, w).
      if rejected then Inr (CRYPTO_ERROR, ciphertext, ctx, w)
      else bnd (buf_assign (lib_heap L) ciphertext (b_data plaintext) (b_len plaintext) capacity) (\<lambda>ciphertext.
        Inr (CRYPTO_OK, ciphertext, ctx, w))))"

definition aead_decrypt ::
  "crypto_lib \<Rightarrow> world \<Rightarrow> buffer_t \<Rightarrow> cipher_ctx_t \<Rightarrow> nat
   \<Rightarrow> (int \<times> buffer_t \<times> cipher_ctx_t \<times> world) res" where
  "aead_decrypt L w ciphertext ctx capacity =
     bnd (aead_decrypt_append L ctx ciphertext capacity) (\<lambda>ch.
     bnd (brealloc (lib_heap L) (w_tmp w Tmp_aead_decrypt) (b_len ch) capacity) (\<lambda>tmp.
     let w = put_tmp Tmp_aead_decrypt tmp w in
     bnd (aead_decrypt_salt L w ctx ch) (\<lambda>(early, ctx, ch).
     case early of Some e \<Rightarrow> Inr (e, ciphertext, ctx\<lparr>cx_chunk := Some ch\<rparr>, w)
     | None \<Rightarrow>
       bnd (aead_decrypt_loop L ctx ch (b_data tmp) 0 0) (\<lambda>(early, ctx, ch, d, plen).
       let tmp = tmp\<lparr>b_data := d\<rparr>; ctx = ctx\<lparr>cx_chunk := Some ch\<rparr> in
       case early of Some e \<Rightarrow> Inr (e, ciphertext, ctx, put_tmp Tmp_aead_decrypt tmp w)
       | None \<Rightarrow>
         let tmp = tmp\<lparr>b_len := plen\<rparr> in
         aead_decrypt_finish L (put_tmp Tmp_aead_decrypt tmp w) ciphertext ctx tmp capacity))))"

end
