(* ===== verification/SS_AeadBox.thy ===== *)
theory SS_AeadBox
  imports SS_Aead
begin

text \<open>
  The documented behaviour of the AEAD primitives the code calls, as named hypotheses, and what one
  keyed context of \<^verbatim>\<open>src/aead.c\<close> does with it. \<open>S method key nonce message\<close> stands for the cipher itself
  (ciphertext followed by the tag); libsodium and mbed TLS both implement it, so that the two AES-256-GCM
  back ends are interchangeable. \<open>keyed\<close> describes a context after \<^verbatim>\<open>aead_cipher_ctx_set_key\<close>;
  packets and chunks rely on the lemmas about it.
\<close>

type_synonym aead_spec = "int \<Rightarrow> bytes \<Rightarrow> bytes \<Rightarrow> bytes \<Rightarrow> bytes"

section \<open>What the libraries promise\<close>

text \<open>Decryption returns the message of a genuine ciphertext, fails on everything else that
  has room for a tag, and never writes
  more than the ciphertext without its tag.\<close>

definition opens :: "(bytes \<Rightarrow> int \<times> bytes) \<Rightarrow> (bytes \<Rightarrow> bytes) \<Rightarrow> bool" where
  "opens dec enc \<longleftrightarrow> (\<forall>m. dec (enc m) = (0, m)) \<and>
     (\<forall>c out. 16 \<le> length c \<longrightarrow> dec c = (0, out) \<longrightarrow> c = enc out) \<and>
     (\<forall>c. 16 \<le> length c \<longrightarrow> length (snd (dec c)) + 16 \<le> length c)"

definition sodium_box ::
  "(bytes \<Rightarrow> bytes \<Rightarrow> bytes \<Rightarrow> bytes \<Rightarrow> int \<times> bytes) \<Rightarrow> (bytes \<Rightarrow> bytes \<Rightarrow> bytes \<Rightarrow> bytes \<Rightarrow> int \<times> bytes)
   \<Rightarrow> bytes \<Rightarrow> nat \<Rightarrow> (bytes \<Rightarrow> bytes \<Rightarrow> bytes) \<Rightarrow> bool" where
  "sodium_box enc dec st nlen E \<longleftrightarrow>
     (\<forall>n. length n = nlen \<longrightarrow> (\<forall>m. enc m [] n st = (0, E n m)) \<and> opens (\<lambda>c. dec c [] n st) (E n))"

text \<open>An mbed TLS context keyed with \<open>k\<close>, through any number of further operations.\<close>

inductive evp_keyed :: "crypto_lib \<Rightarrow> int \<Rightarrow> bytes \<Rightarrow> evp_img \<Rightarrow> bool" for L meth k where
  evp_key: "mbedtls_cipher_setup L (mbedtls_cipher_init L) (aead_get_cipher_type L meth) = (0, e0) \<Longrightarrow>
     enc \<in> {0, 1} \<Longrightarrow> mbedtls_cipher_setkey L e0 k (length k * 8) enc = (0, e1) \<Longrightarrow> mbedtls_cipher_reset L e1 = (0, e) \<Longrightarrow>
     evp_keyed L meth k e"
| evp_enc: "evp_keyed L meth k e \<Longrightarrow> mbedtls_cipher_auth_encrypt L e iv ad m tlen = (r, e', out, tag) \<Longrightarrow>
     evp_keyed L meth k e'"
| evp_dec: "evp_keyed L meth k e \<Longrightarrow> mbedtls_cipher_auth_decrypt L e iv ad c tag = (r, e', out) \<Longrightarrow>
     evp_keyed L meth k e'"

definition mbedtls_box :: "crypto_lib \<Rightarrow> int \<Rightarrow> evp_img \<Rightarrow> (bytes \<Rightarrow> bytes \<Rightarrow> bytes) \<Rightarrow> bool" where
  "mbedtls_box L meth e E \<longleftrightarrow>
     (\<forall>n. length n = 12 \<longrightarrow>
       (\<forall>m. \<exists>e' out tag. mbedtls_cipher_auth_encrypt L e n [] m 16 = (0, e', out, tag) \<and>
          out @ tag = E n m \<and> length tag = 16) \<and>
       opens (\<lambda>c. let (r, e', out) = mbedtls_cipher_auth_decrypt L e n [] (take (length c - 16) c)
                      (drop (length c - 16) c) in (r, out)) (E n))"

definition mbedtls_gcm_ok :: "crypto_lib \<Rightarrow> aead_spec \<Rightarrow> int \<Rightarrow> nat \<Rightarrow> bool" where
  "mbedtls_gcm_ok L S meth klen \<longleftrightarrow>
     aead_get_cipher_type L meth \<noteq> None \<and>
     (\<exists>e0. mbedtls_cipher_setup L (mbedtls_cipher_init L) (aead_get_cipher_type L meth) = (0, e0) \<and>
       (\<forall>k. \<forall>enc\<in>{0, 1}. length k = klen \<longrightarrow> (\<exists>e1. mbedtls_cipher_setkey L e0 k (klen * 8) enc = (0, e1) \<and>
          (\<exists>e. mbedtls_cipher_reset L e1 = (0, e))))) \<and>
     (\<forall>k e. length k = klen \<longrightarrow> evp_keyed L meth k e \<longrightarrow> mbedtls_box L meth e (S meth k))"

definition aead_laws :: "crypto_lib \<Rightarrow> aead_spec \<Rightarrow> bool" where
  "aead_laws L S \<longleftrightarrow>
     (\<forall>meth k n m. length (S meth k n m) = length m + 16) \<and>
     (\<forall>k. length k = 32 \<longrightarrow>
       sodium_box (chacha20poly1305_ietf_encrypt L) (chacha20poly1305_ietf_decrypt L) k 12 (S 3 k) \<and>
       sodium_box (xchacha20poly1305_ietf_encrypt L) (xchacha20poly1305_ietf_decrypt L) k 24 (S 4 k) \<and>
       (\<exists>g. aes256gcm_beforenm L k = (0, g) \<and>
          sodium_box (aes256gcm_encrypt_afternm L) (aes256gcm_decrypt_afternm L) g 12 (S 2 k))) \<and>
     mbedtls_gcm_ok L S 0 16 \<and> mbedtls_gcm_ok L S 1 24 \<and> mbedtls_gcm_ok L S 2 32"

definition kdf_laws :: "crypto_lib \<Rightarrow> (bytes \<Rightarrow> bytes \<Rightarrow> bytes) \<Rightarrow> bool" where
  "kdf_laws L HM \<longleftrightarrow>
     (\<exists>md. mbedtls_md_info_from_string L ''SHA1'' = Some md \<and> hmac_incremental L md HM \<and>
        mbedtls_md_get_size L md = 20)"

definition lib_laws :: "crypto_lib \<Rightarrow> (bytes \<Rightarrow> bytes \<Rightarrow> bytes) \<Rightarrow> aead_spec \<Rightarrow> bool" where
  "lib_laws L HM S \<longleftrightarrow> lib_sizes_ok L \<and> increments L \<and> kdf_laws L HM \<and> aead_laws L S"

section \<open>Ciphers and contexts\<close>

text \<open>A cipher as \<^verbatim>\<open>aead_key_init\<close> makes it.\<close>

definition wf_cipher :: "cipher_t \<Rightarrow> bool" where
  "wf_cipher c \<longleftrightarrow> 0 \<le> ci_method c \<and> ci_method c < AEAD_CIPHER_NUM \<and>
     ci_key_len c = supported_aead_ciphers_key_size ! nat (ci_method c) \<and>
     ci_nonce_len c = supported_aead_ciphers_nonce_size ! nat (ci_method c) \<and>
     ci_tag_len c = supported_aead_ciphers_tag_size ! nat (ci_method c) \<and>
     length (ci_key c) = MAX_KEY_LENGTH"

definition wf_ctx :: "cipher_ctx_t \<Rightarrow> bool" where
  "wf_ctx ctx \<longleftrightarrow> wf_cipher (cx_cipher ctx) \<and> length (cx_salt ctx) = MAX_KEY_LENGTH \<and>
     length (cx_skey ctx) = MAX_KEY_LENGTH \<and> length (cx_nonce ctx) = MAX_NONCE_LENGTH"

text \<open>A context between \<^verbatim>\<open>aead_ctx_init\<close> and the first use, and one that holds the subkey \<open>k\<close>.\<close>

definition unkeyed :: "crypto_lib \<Rightarrow> cipher_ctx_t \<Rightarrow> bool" where
  "unkeyed L ctx \<longleftrightarrow> wf_ctx ctx \<and>
     (let meth = ci_method (cx_cipher ctx) in
      meth \<ge> 3 \<or> (meth = 2 \<and> cx_gcm ctx \<noteq> None) \<or>
      (cx_gcm ctx = None \<and> (\<exists>e. cx_evp ctx = Some e \<and>
         mbedtls_cipher_setup L (mbedtls_cipher_init L) (aead_get_cipher_type L meth) = (0, e))))"

definition keyed :: "crypto_lib \<Rightarrow> cipher_ctx_t \<Rightarrow> bytes \<Rightarrow> bool" where
  "keyed L ctx k \<longleftrightarrow> wf_ctx ctx \<and>
     (let meth = ci_method (cx_cipher ctx) in
      take (ci_key_len (cx_cipher ctx)) (cx_skey ctx) = k \<and>
      (meth \<ge> 3 \<or> (meth = 2 \<and> (\<exists>g. cx_gcm ctx = Some g \<and> aes256gcm_beforenm L k = (0, g))) \<or>
       (cx_gcm ctx = None \<and> (\<exists>e. cx_evp ctx = Some e \<and> evp_keyed L meth k e))))"

text \<open>The nonce in use, and the ciphertext of a message in this context.\<close>

definition nonce_of :: "cipher_ctx_t \<Rightarrow> bytes" where
  "nonce_of ctx = take (ci_nonce_len (cx_cipher ctx)) (cx_nonce ctx)"

definition box_of :: "aead_spec \<Rightarrow> cipher_ctx_t \<Rightarrow> bytes \<Rightarrow> bytes \<Rightarrow> bytes" where
  "box_of S ctx k m = S (ci_method (cx_cipher ctx)) k (nonce_of ctx) m"

definition subkey :: "(bytes \<Rightarrow> bytes \<Rightarrow> bytes) \<Rightarrow> cipher_t \<Rightarrow> bytes \<Rightarrow> bytes" where
  "subkey HM c salt = take (ci_key_len c)
     (hkdf_stream HM (HM (take (ci_key_len c) salt) (take (ci_key_len c) (ci_key c))) SUBKEY_INFO 255)"

lemma wf_cipher_cases:
  assumes "wf_cipher c"
  obtains
    (aes128) "ci_method c = 0" "ci_key_len c = 16" "ci_nonce_len c = 12" "ci_tag_len c = 16"
  | (aes192) "ci_method c = 1" "ci_key_len c = 24" "ci_nonce_len c = 12" "ci_tag_len c = 16"
  | (aes256) "ci_method c = 2" "ci_key_len c = 32" "ci_nonce_len c = 12" "ci_tag_len c = 16"
  | (chacha) "ci_method c = 3" "ci_key_len c = 32" "ci_nonce_len c = 12" "ci_tag_len c = 16"
  | (xchacha) "ci_method c = 4" "ci_key_len c = 32" "ci_nonce_len c = 24" "ci_tag_len c = 16"
proof -
  have "ci_method c = 0 \<or> ci_method c = 1 \<or> ci_method c = 2 \<or> ci_method c = 3 \<or> ci_method c = 4"
    using assms by (auto simp: wf_cipher_def)
  then show ?thesis
    using assms that by (auto simp: wf_cipher_def supported_aead_ciphers_key_size_def
        supported_aead_ciphers_nonce_size_def supported_aead_ciphers_tag_size_def)
qed

lemma wf_cipher_sizes:
  assumes "wf_cipher c"
  shows "ci_tag_len c = 16" and "0 < ci_key_len c" and "ci_key_len c \<le> 32" and "ci_nonce_len c \<le> 24"
    and "12 \<le> ci_nonce_len c" and "length (ci_key c) = 64"
  using assms by (cases rule: wf_cipher_cases; simp add: wf_cipher_def)+

section \<open>One operation of a keyed context\<close>

lemma opensD:
  assumes "opens dec enc"
  shows "dec (enc m) = (0, m)" and "16 \<le> length c \<Longrightarrow> dec c = (0, out) \<Longrightarrow> c = enc out"
    and "16 \<le> length c \<Longrightarrow> length (snd (dec c)) + 16 \<le> length c"
  using assms by (auto simp: opens_def)

text \<open>How the two kinds of back end end a call, in terms of the bytes the cipher produces.\<close>

lemma sodium_seal_ok:
  "length out = n \<Longrightarrow> off + n \<le> length c \<Longrightarrow>
   sodium_seal (0, out) ctx c off = Inr (0, ctx, take off c @ out @ drop (off + n) c, n)"
  by (simp add: sodium_seal_def mem_simps)

definition open_result ::
  "(int \<times> cipher_ctx_t \<times> bytes \<times> nat) res \<Rightarrow> (int \<times> cipher_ctx_t \<times> bytes \<times> nat) res" where
  "open_result r = bnd r (\<lambda>(err, ctx, p, plen). Inr (if err \<noteq> 0 then CRYPTO_ERROR else 0, ctx, p, plen))"

lemma keyed_key:
  assumes "keyed L ctx k"
  shows "length k = ci_key_len (cx_cipher ctx)" and "read_mem (cx_skey ctx) 0 (ci_key_len (cx_cipher ctx)) = Inr k"
    and "read_mem (cx_nonce ctx) 0 (ci_nonce_len (cx_cipher ctx)) = Inr (nonce_of ctx)"
    and "length (nonce_of ctx) = ci_nonce_len (cx_cipher ctx)" and "wf_ctx ctx" and "wf_cipher (cx_cipher ctx)"
proof -
  show wf: "wf_ctx ctx" and "wf_cipher (cx_cipher ctx)"
    using assms by (auto simp: keyed_def wf_ctx_def)
  then have "ci_key_len (cx_cipher ctx) \<le> 32" "ci_nonce_len (cx_cipher ctx) \<le> 24"
    using wf_cipher_sizes by auto
  then show "length k = ci_key_len (cx_cipher ctx)" "read_mem (cx_skey ctx) 0 (ci_key_len (cx_cipher ctx)) = Inr k"
    "read_mem (cx_nonce ctx) 0 (ci_nonce_len (cx_cipher ctx)) = Inr (nonce_of ctx)"
    "length (nonce_of ctx) = ci_nonce_len (cx_cipher ctx)"
    using assms wf by (auto simp: keyed_def wf_ctx_def nonce_of_def mem_simps Let_def)
qed

text \<open>Which back end a keyed context uses, and what the two dispatching functions then do.\<close>

lemma keyed_backend:
  assumes "aead_laws L S" and "keyed L ctx k"
  obtains
    (sodium) enc dec st where
      "sodium_box enc dec st (ci_nonce_len (cx_cipher ctx)) (S (ci_method (cx_cipher ctx)) k)"
      and "\<And>c off clen m. aead_cipher_encrypt L ctx c off clen m [] (cx_nonce ctx) (cx_skey ctx) =
        sodium_seal (enc m [] (nonce_of ctx) st) ctx c off"
      and "\<And>p off plen m. aead_cipher_decrypt L ctx p off plen m [] (cx_nonce ctx) (cx_skey ctx) =
        open_result (sodium_open (dec m [] (nonce_of ctx) st) ctx p off)"
  | (mbedtls) e where "cx_evp ctx = Some e" and "evp_keyed L (ci_method (cx_cipher ctx)) k e"
      and "mbedtls_box L (ci_method (cx_cipher ctx)) e (S (ci_method (cx_cipher ctx)) k)"
      and "cx_gcm ctx = None" and "ci_nonce_len (cx_cipher ctx) = 12"
      and "\<And>c off clen m. aead_cipher_encrypt L ctx c off clen m [] (cx_nonce ctx) (cx_skey ctx) =
        mbedtls_seal L ctx c off m [] (cx_nonce ctx)"
      and "\<And>p off plen m. aead_cipher_decrypt L ctx p off plen m [] (cx_nonce ctx) (cx_skey ctx) =
        open_result (mbedtls_open L ctx p off m [] (cx_nonce ctx))"
proof -
  note key = keyed_key [OF assms(2)]
  note defs = aead_cipher_encrypt_def aead_cipher_decrypt_def open_result_def Let_def
  have mb: ?thesis
    if g: "mbedtls_gcm_ok L S (ci_method (cx_cipher ctx)) (ci_key_len (cx_cipher ctx))" "cx_gcm ctx = None"
      "ci_method (cx_cipher ctx) = 0 \<or> ci_method (cx_cipher ctx) = 1 \<or> ci_method (cx_cipher ctx) = 2"
      "ci_nonce_len (cx_cipher ctx) = 12"
  proof -
    obtain e where e: "cx_evp ctx = Some e" "evp_keyed L (ci_method (cx_cipher ctx)) k e"
      using assms(2) g by (auto simp: keyed_def Let_def)
    have "mbedtls_box L (ci_method (cx_cipher ctx)) e (S (ci_method (cx_cipher ctx)) k)"
      using g(1) e(2) key(1) by (simp add: mbedtls_gcm_ok_def)
    then show ?thesis
      by (rule mbedtls [OF e]) (use g in \<open>auto simp: defs\<close>)
  qed
  have gcm_none: "cx_gcm ctx = None" if "ci_method (cx_cipher ctx) < 2"
    using assms(2) that by (auto simp: keyed_def Let_def)
  show ?thesis
    using key(6)
  proof (cases rule: wf_cipher_cases)
    case aes256
    show ?thesis
    proof (cases "cx_gcm ctx")
      case (Some g)
      with assms(2) aes256 have "aes256gcm_beforenm L k = (0, g)"
        by (auto simp: keyed_def Let_def)
      then have "sodium_box (aes256gcm_encrypt_afternm L) (aes256gcm_decrypt_afternm L) g 12 (S 2 k)"
        using assms(1) key aes256 by (auto simp: aead_laws_def)
      then show ?thesis
        using key aes256 Some by (intro sodium) (simp_all add: defs)
    qed (use mb aes256 assms(1) in \<open>simp add: aead_laws_def\<close>)
  next
    case chacha
    have "sodium_box (chacha20poly1305_ietf_encrypt L) (chacha20poly1305_ietf_decrypt L) k 12 (S 3 k)"
      using assms(1) key chacha by (auto simp: aead_laws_def)
    then show ?thesis
      using key chacha by (intro sodium) (simp_all add: defs)
  next
    case xchacha
    have "sodium_box (xchacha20poly1305_ietf_encrypt L) (xchacha20poly1305_ietf_decrypt L) k 24 (S 4 k)"
      using assms(1) key xchacha by (auto simp: aead_laws_def)
    then show ?thesis
      using key xchacha by (intro sodium) (simp_all add: defs)
  qed (use mb gcm_none assms(1) in \<open>simp_all add: aead_laws_def\<close>)
qed

lemma mbedtls_seal_ok:
  assumes "mbedtls_box L meth e (S meth k)" and "cx_evp ctx = Some e" and "keyed L ctx k"
    and "ci_nonce_len (cx_cipher ctx) = 12" and "meth = ci_method (cx_cipher ctx)"
    and "length (box_of S ctx k m) = length m + 16" and "off + length m + 16 \<le> length c"
  obtains e' out tag where "mbedtls_cipher_auth_encrypt L e (nonce_of ctx) [] m 16 = (0, e', out, tag)"
    and "mbedtls_seal L ctx c off m [] (cx_nonce ctx) = Inr (0, ctx\<lparr>cx_evp := Some e'\<rparr>,
       take off c @ box_of S ctx k m @ drop (off + length m + 16) c, length m + 16)"
proof -
  note key = keyed_key [OF assms(3)]
  have "\<exists>e' out tg. mbedtls_cipher_auth_encrypt L e (nonce_of ctx) [] m 16 = (0, e', out, tg) \<and>
      out @ tg = box_of S ctx k m \<and> length tg = 16"
    using assms(1,4,5) key(4) by (simp add: mbedtls_box_def box_of_def)
  then obtain e' out tg where r: "mbedtls_cipher_auth_encrypt L e (nonce_of ctx) [] m 16 = (0, e', out, tg)"
    "out @ tg = box_of S ctx k m" "length tg = 16"
    by blast
  have lo: "length out = length m"
    using arg_cong [OF r(2), of length] r(3) assms(6) by simp
  have "write_mem c off out = Inr (take off c @ out @ drop (off + length m) c)"
    using assms(7) lo by (simp add: mem_simps)
  moreover have "write_mem (take off c @ out @ drop (off + length m) c) (off + length m) tg =
      Inr (take off c @ (out @ tg) @ drop (off + length m + 16) c)"
    using assms(7) lo r(3) by (simp add: mem_simps add.commute add.left_commute)
  ultimately have "mbedtls_seal L ctx c off m [] (cx_nonce ctx) = Inr (0, ctx\<lparr>cx_evp := Some e'\<rparr>,
       take off c @ box_of S ctx k m @ drop (off + length m + 16) c, length m + 16)"
    using assms(2) key(3) wf_cipher_sizes(1) [OF key(6)] r lo by (simp add: mbedtls_seal_def Let_def)
  with r(1) show ?thesis by (rule that)
qed

lemma keyed_upd_evp:
  "keyed L ctx k \<Longrightarrow> cx_gcm ctx = None \<Longrightarrow> evp_keyed L (ci_method (cx_cipher ctx)) k e \<Longrightarrow>
   keyed L (ctx\<lparr>cx_evp := Some e\<rparr>) k"
  by (auto simp: keyed_def wf_ctx_def Let_def)

lemma box_length: "aead_laws L S \<Longrightarrow> length (box_of S ctx k m) = length m + 16"
  by (simp add: aead_laws_def box_of_def)

text \<open>Encryption writes exactly the cipher's output and keeps the context keyed.\<close>

lemma aead_cipher_encrypt_keyed:
  assumes "aead_laws L S" and "keyed L ctx k" and "off + length m + 16 \<le> length c"
  shows "\<exists>e. aead_cipher_encrypt L ctx c off clen m [] (cx_nonce ctx) (cx_skey ctx) =
      Inr (0, ctx\<lparr>cx_evp := e\<rparr>, take off c @ box_of S ctx k m @ drop (off + length m + 16) c, length m + 16) \<and>
    keyed L (ctx\<lparr>cx_evp := e\<rparr>) k"
  using assms(1,2)
proof (cases rule: keyed_backend)
  case (sodium enc dec st)
  then have "enc m [] (nonce_of ctx) st = (0, box_of S ctx k m)"
    using keyed_key(4) [OF assms(2)] by (simp add: sodium_box_def box_of_def)
  then show ?thesis
    using assms(2,3) box_length [OF assms(1)] sodium
    by (intro exI [of _ "cx_evp ctx"]) (simp add: sodium_seal_ok add.assoc)
next
  case (mbedtls e)
  then obtain e' out tg where r: "mbedtls_cipher_auth_encrypt L e (nonce_of ctx) [] m 16 = (0, e', out, tg)"
    "mbedtls_seal L ctx c off m [] (cx_nonce ctx) = Inr (0, ctx\<lparr>cx_evp := Some e'\<rparr>,
       take off c @ box_of S ctx k m @ drop (off + length m + 16) c, length m + 16)"
    using mbedtls_seal_ok [OF mbedtls(3,1) assms(2) mbedtls(5) refl box_length [OF assms(1)] assms(3)] by blast
  have "keyed L (ctx\<lparr>cx_evp := Some e'\<rparr>) k"
    using assms(2) mbedtls(4) evp_enc [OF mbedtls(2) r(1)] by (rule keyed_upd_evp)
  with r(2) mbedtls(6) show ?thesis by auto
qed

text \<open>Decryption of any message with room for a tag: the error code is 0 exactly on the cipher's output, and
  then the message is written; otherwise at most as many bytes are overwritten as a message would have.\<close>

lemma sodium_open_cases:
  assumes "opens dec E" and "16 \<le> length c" and "off + length c \<le> length p + 16"
  shows "(\<exists>m. c = E m \<and> length m + 16 \<le> length c \<and> open_result (sodium_open (dec c) ctx p off) =
      Inr (0, ctx, take off p @ m @ drop (off + length m) p, length m)) \<or>
    ((\<nexists>m. c = E m) \<and> (\<exists>p' plen. open_result (sodium_open (dec c) ctx p off) =
      Inr (CRYPTO_ERROR, ctx, p', plen) \<and> length p' = length p))"
proof -
  obtain err out where r: "dec c = (err, out)"
    by (cases "dec c")
  have len: "length out + 16 \<le> length c"
    using opensD(3) [OF assms(1,2)] r by simp
  show ?thesis
  proof (cases "err = 0")
    case True
    then have "c = E out"
      using opensD(2) [OF assms(1,2)] r by simp
    moreover have "open_result (sodium_open (dec c) ctx p off) =
      Inr (0, ctx, take off p @ out @ drop (off + length out) p, length out)"
      using r True len assms(3) by (simp add: open_result_def sodium_open_def mem_simps)
    ultimately show ?thesis
      using len by blast
  next
    case False
    then have "\<nexists>m. c = E m"
      using opensD(1) [OF assms(1)] r by auto
    moreover have "open_result (sodium_open (dec c) ctx p off) =
      Inr (CRYPTO_ERROR, ctx, take off p @ out @ drop (off + length out) p, 0)"
      using r False len assms(3) by (simp add: open_result_def sodium_open_def mem_simps)
    ultimately show ?thesis
      using len assms(3) by simp
  qed
qed

lemma box_of_eta: "box_of S ctx k = S (ci_method (cx_cipher ctx)) k (nonce_of ctx)"
  by (simp add: box_of_def fun_eq_iff)

lemma keyed_opens:
  assumes "aead_laws L S" and "keyed L ctx k"
  shows "\<exists>dec. opens dec (box_of S ctx k)"
  using assms
proof (cases rule: keyed_backend)
  case (sodium enc dec st)
  then show ?thesis
    using keyed_key(4) [OF assms(2)] unfolding sodium_box_def box_of_eta by blast
next
  case (mbedtls e)
  then show ?thesis
    using keyed_key(4) [OF assms(2)] unfolding mbedtls_box_def box_of_eta by auto
qed

lemma box_inj:
  assumes "aead_laws L S" and "keyed L ctx k" and "box_of S ctx k m = box_of S ctx k m'"
  shows "m = m'"
  using keyed_opens [OF assms(1,2)] opensD(1) assms(3) by (metis prod.inject)

lemma aead_cipher_decrypt_keyed:
  assumes "aead_laws L S" and "keyed L ctx k" and "16 \<le> length c" and "off + length c \<le> length p + 16"
  shows "(\<exists>m e. c = box_of S ctx k m \<and> aead_cipher_decrypt L ctx p off plen c [] (cx_nonce ctx) (cx_skey ctx) =
        Inr (0, ctx\<lparr>cx_evp := e\<rparr>, take off p @ m @ drop (off + length m) p, length m) \<and>
        keyed L (ctx\<lparr>cx_evp := e\<rparr>) k) \<or>
    ((\<nexists>m. c = box_of S ctx k m) \<and> (\<exists>e p' plen'. aead_cipher_decrypt L ctx p off plen c [] (cx_nonce ctx) (cx_skey ctx) =
        Inr (CRYPTO_ERROR, ctx\<lparr>cx_evp := e\<rparr>, p', plen') \<and> keyed L (ctx\<lparr>cx_evp := e\<rparr>) k \<and> length p' = length p))"
  using assms(1,2)
proof (cases rule: keyed_backend)
  case (sodium enc dec st)
  then have "opens (\<lambda>c. dec c [] (nonce_of ctx) st) (S (ci_method (cx_cipher ctx)) k (nonce_of ctx))"
    using keyed_key(4) [OF assms(2)] by (simp add: sodium_box_def)
  then have op: "opens (\<lambda>c. dec c [] (nonce_of ctx) st) (box_of S ctx k)"
    by (simp add: box_of_eta)
  have "ctx\<lparr>cx_evp := cx_evp ctx\<rparr> = ctx" by simp
  with sodium_open_cases [where ctx = ctx, OF op assms(3,4)] assms(2) show ?thesis
    unfolding sodium(3) by metis
next
  case (mbedtls e)
  let ?n = "length c - 16"
  obtain r e' out where d: "mbedtls_cipher_auth_decrypt L e (nonce_of ctx) [] (take ?n c) (drop ?n c) = (r, e', out)"
    by (metis prod_cases3)
  have op: "opens (\<lambda>c. let (r, e', out) = mbedtls_cipher_auth_decrypt L e (nonce_of ctx) []
      (take (length c - 16) c) (drop (length c - 16) c) in (r, out)) (box_of S ctx k)"
    using mbedtls(3,5) keyed_key(4) [OF assms(2)] by (simp add: mbedtls_box_def box_of_eta)
  have len: "length out + 16 \<le> length c"
    using opensD(3) [OF op assms(3)] d by simp
  have tag: "ci_tag_len (cx_cipher ctx) = 16"
    using keyed_key(6) [OF assms(2)] by (rule wf_cipher_sizes)
  have res: "aead_cipher_decrypt L ctx p off plen c [] (cx_nonce ctx) (cx_skey ctx) =
      Inr (if r \<noteq> 0 then CRYPTO_ERROR else 0, ctx\<lparr>cx_evp := Some e'\<rparr>,
        take off p @ out @ drop (off + length out) p, length out)"
    using mbedtls(1,7) keyed_key(3) [OF assms(2)] tag d len assms(3,4)
    by (simp add: open_result_def mbedtls_open_def Let_def mem_simps)
  have kd: "keyed L (ctx\<lparr>cx_evp := Some e'\<rparr>) k"
    using assms(2) mbedtls(4) evp_dec [OF mbedtls(2) d] by (rule keyed_upd_evp)
  show ?thesis
  proof (cases "r = 0")
    case True
    then have "c = box_of S ctx k out"
      using opensD(2) [OF op assms(3)] d by simp
    with True res kd show ?thesis by auto
  next
    case False
    have "\<nexists>m. c = box_of S ctx k m"
    proof
      assume "\<exists>m. c = box_of S ctx k m"
      then obtain m where "c = box_of S ctx k m" by blast
      with opensD(1) [OF op, of m] d False show False by simp
    qed
    moreover have "length (take off p @ out @ drop (off + length out) p) = length p"
      using len assms(4) by simp
    ultimately show ?thesis
      using False res kd by (intro disjI2 conjI exI [of _ "Some e'"]
          exI [of _ "take off p @ out @ drop (off + length out) p"] exI [of _ "length out"]) simp_all
  qed
qed

text \<open>The two outcomes in the form the framing proofs use.\<close>

lemma aead_cipher_decrypt_genuine:
  assumes "aead_laws L S" and "keyed L ctx k" and "off + length m \<le> length p"
  shows "\<exists>e. aead_cipher_decrypt L ctx p off plen (box_of S ctx k m) [] (cx_nonce ctx) (cx_skey ctx) =
      Inr (0, ctx\<lparr>cx_evp := e\<rparr>, take off p @ m @ drop (off + length m) p, length m) \<and>
    keyed L (ctx\<lparr>cx_evp := e\<rparr>) k"
proof -
  note len = box_length [OF assms(1), of ctx k]
  have inj: "m' = m" if "box_of S ctx k m = box_of S ctx k m'" for m'
    using box_inj [OF assms(1,2) that] by simp
  show ?thesis
    using aead_cipher_decrypt_keyed [OF assms(1,2), of "box_of S ctx k m" off p plen] len assms(3)
    by (auto dest: inj)
qed

section \<open>Initialising and keying a context\<close>

lemma lib_lawsD:
  assumes "lib_laws L HM S"
  shows "heap_ok (lib_heap L)" and "length (randombytes_buf L d n) = n" and "increments L"
    and "aead_laws L S" and "kdf_laws L HM"
  using assms by (simp_all add: lib_laws_def lib_sizes_ok_def)

lemma gcm_ok_of_cipher:
  assumes "aead_laws L S" and "wf_cipher c" and "ci_method c < 3"
  shows "mbedtls_gcm_ok L S (ci_method c) (ci_key_len c)"
  using assms(2) by (cases rule: wf_cipher_cases) (use assms(1,3) in \<open>simp_all add: aead_laws_def\<close>)

lemma wf_zero_ctx: "wf_cipher c \<Longrightarrow> wf_ctx (zero_ctx c)"
  by (simp add: wf_ctx_def zero_ctx_def)

lemma aead_cipher_ctx_init_ok:
  assumes "lib_laws L HM S" and "wf_cipher c"
  shows "\<exists>e g. aead_cipher_ctx_init L (zero_ctx c) (ci_method c) enc = Inr ((zero_ctx c)\<lparr>cx_evp := e, cx_gcm := g\<rparr>) \<and>
    unkeyed L ((zero_ctx c)\<lparr>cx_evp := e, cx_gcm := g\<rparr>)"
proof (cases "ci_method c < 3")
  case False
  with assms(2) show ?thesis
    by (intro exI [of _ None])
      (auto simp: aead_cipher_ctx_init_def unkeyed_def Let_def wf_ctx_def zero_ctx_def wf_cipher_def)
next
  case True
  have h: "heap_ok (lib_heap L)"
    using assms(1) by (rule lib_lawsD)
  have ok: "mbedtls_gcm_ok L S (ci_method c) (ci_key_len c)"
    using lib_lawsD(4) [OF assms(1)] assms(2) True by (rule gcm_ok_of_cipher)
  then obtain e where e: "mbedtls_cipher_setup L (mbedtls_cipher_init L) (aead_get_cipher_type L (ci_method c)) = (0, e)"
    and kt: "aead_get_cipher_type L (ci_method c) \<noteq> None"
    by (auto simp: mbedtls_gcm_ok_def)
  have m: "0 \<le> ci_method c"
    using assms(2) by (simp add: wf_cipher_def)
  show ?thesis
  proof (cases "ci_method c = AES256GCM \<and> aes256gcm_is_available L \<noteq> 0")
    case g: True
    have "aead_cipher_ctx_init L (zero_ctx c) (ci_method c) enc =
        Inr ((zero_ctx c)\<lparr>cx_evp := None, cx_gcm := Some (replicate AES256GCM_STATEBYTES 0)\<rparr>)"
      using g h kt by (auto simp: aead_cipher_ctx_init_def ss_aligned_malloc_def ss_malloc_def mem_simps Let_def zero_ctx_def)
    moreover have "unkeyed L ((zero_ctx c)\<lparr>cx_evp := None, cx_gcm := Some (replicate AES256GCM_STATEBYTES 0)\<rparr>)"
      using g assms(2) by (simp add: unkeyed_def wf_ctx_def zero_ctx_def)
    ultimately show ?thesis by blast
  next
    case False
    have "aead_cipher_ctx_init L (zero_ctx c) (ci_method c) enc =
        Inr ((zero_ctx c)\<lparr>cx_evp := Some e, cx_gcm := None\<rparr>)"
      using False True m h e kt by (auto simp: aead_cipher_ctx_init_def ss_malloc_def Let_def zero_ctx_def)
    moreover have "unkeyed L ((zero_ctx c)\<lparr>cx_evp := Some e, cx_gcm := None\<rparr>)"
      using e assms(2) by (simp add: unkeyed_def wf_ctx_def zero_ctx_def)
    ultimately show ?thesis by blast
  qed
qed

lemma unkeyed_salt: "unkeyed L ctx \<Longrightarrow> length s = MAX_KEY_LENGTH \<Longrightarrow> unkeyed L (ctx\<lparr>cx_salt := s\<rparr>)"
  by (simp add: unkeyed_def wf_ctx_def Let_def)

text \<open>A fresh encryption context draws its salt; a fresh decryption context draws nothing.\<close>

lemma aead_ctx_init_enc:
  assumes "lib_laws L HM S" and "wf_cipher c" and "enc \<noteq> 0"
  obtains ctx where "aead_ctx_init L w c enc = Inr (ctx, w\<lparr>w_draws := Suc (w_draws w)\<rparr>)"
    and "unkeyed L ctx" and "cx_cipher ctx = c" and "cx_init ctx = 0" and "cx_chunk ctx = None"
    and "take (ci_key_len c) (cx_salt ctx) = randombytes_buf L (w_draws w) (ci_key_len c)"
proof -
  obtain e g where i: "aead_cipher_ctx_init L (zero_ctx c) (ci_method c) enc = Inr ((zero_ctx c)\<lparr>cx_evp := e, cx_gcm := g\<rparr>)"
    "unkeyed L ((zero_ctx c)\<lparr>cx_evp := e, cx_gcm := g\<rparr>)"
    using aead_cipher_ctx_init_ok [OF assms(1,2)] by blast
  let ?r = "randombytes_buf L (w_draws w) (ci_key_len c)"
  let ?s = "?r @ drop (ci_key_len c) (replicate MAX_KEY_LENGTH 0)"
  have len: "length ?r = ci_key_len c" "ci_key_len c \<le> 32"
    using lib_lawsD(2) [OF assms(1)] wf_cipher_sizes [OF assms(2)] by simp_all
  have "rand_bytes L w (cx_salt ((zero_ctx c)\<lparr>cx_evp := e, cx_gcm := g\<rparr>)) (ci_key_len c) =
      Inr (?s, w\<lparr>w_draws := Suc (w_draws w)\<rparr>)"
    using len by (simp add: rand_bytes_def zero_ctx_def mem_simps)
  with i assms(3) have "aead_ctx_init L w c enc =
      Inr ((zero_ctx c)\<lparr>cx_evp := e, cx_gcm := g, cx_salt := ?s\<rparr>, w\<lparr>w_draws := Suc (w_draws w)\<rparr>)"
    by (simp add: aead_ctx_init_def)
  then show ?thesis
    by (rule that) (use unkeyed_salt [OF i(2), of ?s] len in \<open>simp_all add: zero_ctx_def\<close>)
qed

lemma aead_ctx_init_dec:
  assumes "lib_laws L HM S" and "wf_cipher c"
  obtains ctx where "aead_ctx_init L w c 0 = Inr (ctx, w)"
    and "unkeyed L ctx" and "cx_cipher ctx = c" and "cx_init ctx = 0" and "cx_chunk ctx = None"
proof -
  obtain e g where i: "aead_cipher_ctx_init L (zero_ctx c) (ci_method c) 0 = Inr ((zero_ctx c)\<lparr>cx_evp := e, cx_gcm := g\<rparr>)"
    "unkeyed L ((zero_ctx c)\<lparr>cx_evp := e, cx_gcm := g\<rparr>)"
    using aead_cipher_ctx_init_ok [OF assms(1,2)] by blast
  then have "aead_ctx_init L w c 0 = Inr ((zero_ctx c)\<lparr>cx_evp := e, cx_gcm := g\<rparr>, w)"
    by (simp add: aead_ctx_init_def)
  then show ?thesis
    by (rule that) (use i(2) in \<open>simp_all add: zero_ctx_def\<close>)
qed

text \<open>The operation is \<^verbatim>\<open>MBEDTLS_DECRYPT\<close> or \<^verbatim>\<open>MBEDTLS_ENCRYPT\<close>.\<close>

lemma enc_ok: "(0 :: int) \<in> {0, 1}" "(1 :: int) \<in> {0, 1}"
  by simp_all

lemma set_lib_key_ok:
  assumes "aead_laws L S" and "unkeyed L ctx"
    and "k = take (ci_key_len (cx_cipher ctx)) (cx_skey ctx)" and "enc \<in> {0, 1}"
  shows "\<exists>e g. set_lib_key L ctx enc = Inr (ctx\<lparr>cx_evp := e, cx_gcm := g\<rparr>) \<and>
    keyed L (ctx\<lparr>cx_evp := e, cx_gcm := g\<rparr>) k"
proof -
  let ?c = "cx_cipher ctx"
  have wf: "wf_ctx ctx" "wf_cipher ?c"
    using assms(2) by (auto simp: unkeyed_def wf_ctx_def)
  have k: "length k = ci_key_len ?c" "read_mem (cx_skey ctx) 0 (ci_key_len ?c) = Inr k"
    using wf wf_cipher_sizes(3) [OF wf(2)] assms(3) by (auto simp: wf_ctx_def mem_simps)
  consider (none) "ci_method ?c \<ge> 3" | (gcm) "ci_method ?c = 2" "cx_gcm ctx \<noteq> None"
    | (evp) e where "ci_method ?c < 3" "cx_gcm ctx = None" "cx_evp ctx = Some e"
        "mbedtls_cipher_setup L (mbedtls_cipher_init L) (aead_get_cipher_type L (ci_method ?c)) = (0, e)"
    using assms(2) by (fastforce simp: unkeyed_def Let_def)
  then show ?thesis
  proof cases
    case none
    then show ?thesis
      using wf assms(3) by (intro exI [of _ "cx_evp ctx"] exI [of _ "cx_gcm ctx"])
        (simp add: set_lib_key_def keyed_def)
  next
    case gcm
    then have kl: "ci_key_len ?c = 32"
      using wf(2) by (auto elim: wf_cipher_cases)
    then obtain g where g: "aes256gcm_beforenm L k = (0, g)"
      using assms(1) k(1) by (auto simp: aead_laws_def)
    then show ?thesis
      using gcm kl k wf assms(3)
      by (intro exI [of _ "cx_evp ctx"] exI [of _ "Some g"]) (auto simp: set_lib_key_def keyed_def wf_ctx_def)
  next
    case (evp e)
    have "mbedtls_gcm_ok L S (ci_method ?c) (ci_key_len ?c)"
      using assms(1) wf(2) evp(1) by (rule gcm_ok_of_cipher)
    then have "\<forall>k. \<forall>enc\<in>{0, 1}. length k = ci_key_len ?c \<longrightarrow> (\<exists>e1. mbedtls_cipher_setkey L e k (ci_key_len ?c * 8) enc = (0, e1) \<and>
        (\<exists>e. mbedtls_cipher_reset L e1 = (0, e)))"
      using evp(4) by (simp add: mbedtls_gcm_ok_def)
    then obtain e1 e2 where e: "mbedtls_cipher_setkey L e k (ci_key_len ?c * 8) enc = (0, e1)"
      "mbedtls_cipher_reset L e1 = (0, e2)"
      using k(1) assms(4) by blast
    have "evp_keyed L (ci_method ?c) k e2"
      by (rule evp_key [OF evp(4) assms(4)]) (use e k(1) in auto)
    then show ?thesis
      using evp e k wf assms(3)
      by (intro exI [of _ "Some e2"] exI [of _ "cx_gcm ctx"]) (auto simp: set_lib_key_def keyed_def wf_ctx_def Let_def)
  qed
qed

text \<open>\<^verbatim>\<open>aead_cipher_ctx_set_key\<close> derives the session subkey from the salt and zeroes the nonce.\<close>

lemma aead_cipher_ctx_set_key_ok:
  assumes "lib_laws L HM S" and "unkeyed L ctx" and "enc \<in> {0, 1}"
  obtains ctx' where "aead_cipher_ctx_set_key L ctx enc = Inr ctx'"
    and "keyed L ctx' (subkey HM (cx_cipher ctx) (cx_salt ctx))"
    and "nonce_of ctx' = replicate (ci_nonce_len (cx_cipher ctx)) 0"
    and "cx_cipher ctx' = cx_cipher ctx" and "cx_salt ctx' = cx_salt ctx"
    and "cx_chunk ctx' = cx_chunk ctx" and "cx_init ctx' = cx_init ctx"
proof -
  let ?c = "cx_cipher ctx" and ?n = "ci_key_len (cx_cipher ctx)" and ?nl = "ci_nonce_len (cx_cipher ctx)"
  let ?k = "subkey HM ?c (cx_salt ctx)"
  obtain md where md: "mbedtls_md_info_from_string L ''SHA1'' = Some md" "hmac_incremental L md HM"
    "mbedtls_md_get_size L md = 20"
    using lib_lawsD(5) [OF assms(1)] by (auto simp: kdf_laws_def)
  have wf: "wf_cipher ?c" "length (cx_salt ctx) = 64" "length (cx_skey ctx) = 64" "length (cx_nonce ctx) = 32"
    using assms(2) by (auto simp: unkeyed_def wf_ctx_def)
  note sz = wf_cipher_sizes [OF wf(1)]
  let ?sk = "?k @ drop ?n (cx_skey ctx)" and ?nn = "replicate ?nl 0 @ drop ?nl (cx_nonce ctx)"
  have "length (hkdf_stream HM (HM (take ?n (cx_salt ctx)) (take ?n (ci_key ?c))) SUBKEY_INFO 255) = 255 * 20"
    using length_hkdf_stream [of HM 20] md(2,3) by (simp add: hmac_incremental_def)
  then have lk: "length ?k = ?n"
    using sz by (simp add: subkey_def)
  have hk: "crypto_hkdf L md (Some (cx_salt ctx)) (int ?n) (ci_key ?c) (int ?n)
      (Some SUBKEY_INFO) (int (length SUBKEY_INFO)) (Some (cx_skey ctx)) (int ?n) = Inr (0, ?sk)"
    using crypto_hkdf_spec [OF md(2), of ?n "cx_skey ctx" ?n "cx_salt ctx" ?n "ci_key ?c" SUBKEY_INFO] md(3) sz wf
    by (simp add: subkey_def)
  have ms: "memset (cx_nonce ctx) 0 0 ?nl = Inr ?nn"
    using wf(4) sz by (simp add: mem_simps)
  let ?ctx = "ctx\<lparr>cx_skey := ?sk, cx_nonce := ?nn\<rparr>"
  have un: "unkeyed L ?ctx"
    using assms(2) wf sz lk by (simp add: unkeyed_def wf_ctx_def Let_def)
  have kk: "?k = take (ci_key_len (cx_cipher ?ctx)) (cx_skey ?ctx)"
    using lk by simp
  obtain e g where "set_lib_key L ?ctx enc = Inr (?ctx\<lparr>cx_evp := e, cx_gcm := g\<rparr>)"
    "keyed L (?ctx\<lparr>cx_evp := e, cx_gcm := g\<rparr>) ?k"
    using set_lib_key_ok [OF lib_lawsD(4) [OF assms(1)] un kk assms(3)] by blast
  with md(1) hk ms show ?thesis
    by (intro that [of "?ctx\<lparr>cx_evp := e, cx_gcm := g\<rparr>"])
      (simp_all add: aead_cipher_ctx_set_key_def Let_def nonce_of_def)
qed

section \<open>The counting nonce\<close>

fun le_bytes :: "nat \<Rightarrow> nat \<Rightarrow> bytes" where
  "le_bytes 0 i = []"
| "le_bytes (Suc n) i = of_nat (i mod 256) # le_bytes n (i div 256)"

lemma length_le_bytes [simp]: "length (le_bytes n i) = n"
  by (induction n arbitrary: i) auto

lemma le_nat_le_bytes: "le_nat (le_bytes n i) = i mod 256 ^ n"
proof (induction n arbitrary: i)
  case (Suc n)
  have "unat (of_nat (i mod 256) :: byte) = i mod 256"
    by (simp add: unsigned_of_nat take_bit_eq_mod)
  with Suc show ?case
    by (simp add: mod_mult2_eq)
qed simp

lemma le_bytes_zero: "le_bytes n 0 = replicate n 0"
  by (induction n) auto

lemma le_bytes_inj: "le_bytes n i = le_bytes n j \<Longrightarrow> i < 256 ^ n \<Longrightarrow> j < 256 ^ n \<Longrightarrow> i = j"
  by (metis le_nat_le_bytes mod_less)

lemma increment_le_bytes:
  assumes "increments L"
  shows "sodium_increment L (le_bytes n i) = le_bytes n (Suc i)"
proof (rule le_nat_inj)
  show "length (sodium_increment L (le_bytes n i)) = length (le_bytes n (Suc i))"
    using assms by (simp add: increments_def)
  show "le_nat (sodium_increment L (le_bytes n i)) = le_nat (le_bytes n (Suc i))"
    using assms by (simp add: increments_def le_nat_le_bytes mod_Suc_eq)
qed

text \<open>A context that has performed \<open>i\<close> operations since it was keyed.\<close>

definition at_nonce :: "crypto_lib \<Rightarrow> cipher_ctx_t \<Rightarrow> bytes \<Rightarrow> nat \<Rightarrow> bool" where
  "at_nonce L ctx k i \<longleftrightarrow> keyed L ctx k \<and> nonce_of ctx = le_bytes (ci_nonce_len (cx_cipher ctx)) i"

text \<open>\<open>seal_at S c k i m\<close> is the output of the i-th operation of a session.\<close>

definition seal_at :: "aead_spec \<Rightarrow> cipher_t \<Rightarrow> bytes \<Rightarrow> nat \<Rightarrow> bytes \<Rightarrow> bytes" where
  "seal_at S c k i m = S (ci_method c) k (le_bytes (ci_nonce_len c) i) m"

lemma box_of_at: "at_nonce L ctx k i \<Longrightarrow> box_of S ctx k m = seal_at S (cx_cipher ctx) k i m"
  by (simp add: at_nonce_def box_of_def seal_at_def)

lemma at_nonce_keyed: "at_nonce L ctx k i \<Longrightarrow> keyed L ctx k"
  by (simp add: at_nonce_def)

lemma at_nonce_upd:
  "at_nonce L ctx k i \<Longrightarrow> keyed L (ctx\<lparr>cx_evp := e\<rparr>) k \<Longrightarrow> at_nonce L (ctx\<lparr>cx_evp := e\<rparr>) k i"
  "at_nonce L (ctx\<lparr>cx_init := n\<rparr>) k i \<longleftrightarrow> at_nonce L ctx k i"
  "at_nonce L (ctx\<lparr>cx_chunk := ch\<rparr>) k i \<longleftrightarrow> at_nonce L ctx k i"
  by (simp_all add: at_nonce_def nonce_of_def keyed_def wf_ctx_def)

lemma bump_nonce_ok:
  assumes "increments L" and "at_nonce L ctx k i"
  shows "\<exists>n. bump_nonce L ctx = Inr (ctx\<lparr>cx_nonce := n\<rparr>) \<and> at_nonce L (ctx\<lparr>cx_nonce := n\<rparr>) k (Suc i)"
proof -
  let ?nl = "ci_nonce_len (cx_cipher ctx)"
  have kd: "keyed L ctx k" and n: "nonce_of ctx = le_bytes ?nl i"
    using assms(2) by (auto simp: at_nonce_def)
  note key = keyed_key [OF kd]
  have sz: "?nl \<le> 24" "length (cx_nonce ctx) = 32"
    using key(5) wf_cipher_sizes(4) [OF key(6)] by (auto simp: wf_ctx_def)
  let ?n = "le_bytes ?nl (Suc i) @ drop ?nl (cx_nonce ctx)"
  have "bump_nonce L ctx = Inr (ctx\<lparr>cx_nonce := ?n\<rparr>)"
    using key(3) sz n increment_le_bytes [OF assms(1)] by (simp add: bump_nonce_def mem_simps)
  moreover have "at_nonce L (ctx\<lparr>cx_nonce := ?n\<rparr>) k (Suc i)"
    using kd sz by (simp add: at_nonce_def keyed_def wf_ctx_def nonce_of_def)
  ultimately show ?thesis by blast
qed

end
