(* ===== verification/SS_AeadPacket.thy ===== *)
theory SS_AeadPacket
  imports SS_AeadBox
begin

text \<open>
  Packets (UDP): \<^verbatim>\<open>aead_encrypt_all\<close> produces the packet format of the comment in \<^verbatim>\<open>src/aead.c\<close>, and
  \<^verbatim>\<open>aead_decrypt_all\<close> accepts exactly the packets of that format whose salt is new, in any state of the
  static buffers and of the replay filter.
\<close>

section \<open>Salts in the replay filter\<close>

definition seen :: "world \<Rightarrow> bytes \<Rightarrow> bool" where
  "seen w salt \<longleftrightarrow> pp_found (w_pp w) (salt, int (length salt))"

definition recorded :: "world \<Rightarrow> ppbloom_t \<Rightarrow> bytes \<Rightarrow> bool" where
  "recorded w pp salt \<longleftrightarrow> wf_pp pp \<and> pp_entries pp = pp_entries (w_pp w) \<and>
     survives pp (salt, int (length salt)) (nat (pp_entries (w_pp w) - 1))"

lemma bloom_found_take: "n \<le> length buf \<Longrightarrow> bloom_found f (take n buf, int n) = bloom_found f (buf, int n)"
  by (simp add: bloom_found_def positions_take)

lemma salt_check:
  assumes "wf_world w" and "n \<le> length buf"
  shows "ppbloom_check (w_pp w) buf (int n) = Inr (if seen w (take n buf) then 1 else 0)"
  using ppbloom_check_spec [OF wf_world_pp [OF assms(1)], of buf "int n"] assms(2)
  by (simp add: elem_ok_def seen_def pp_found_def bloom_found_take)

lemma salt_add:
  assumes "wf_world w" and "n \<le> length buf"
  obtains pp where "ppbloom_add (w_pp w) buf (int n) = Inr (0, pp)" and "recorded w pp (take n buf)"
proof -
  obtain pp where pp: "ppbloom_add (w_pp w) buf (int n) = Inr (0, pp)" "wf_pp pp"
    "pp_entries pp = pp_entries (w_pp w)" "survives pp (buf, int n) (nat (pp_entries (w_pp w) - 1))"
    using ppbloom_add_spec [OF wf_world_pp [OF assms(1)], of buf "int n"] assms(2) by (auto simp: elem_ok_def)
  have "recorded w pp (take n buf)"
    using pp(2-4) assms(2) by (simp add: recorded_def survives_def bloom_found_take)
  with pp(1) show ?thesis by (rule that)
qed

lemma recorded_seen: "recorded w pp salt \<Longrightarrow> w_pp w' = pp \<Longrightarrow> seen w' salt"
  using survives_found by (auto simp: recorded_def seen_def)

lemma recorded_wf: "recorded w pp salt \<Longrightarrow> wf_pp pp"
  by (simp add: recorded_def)

section \<open>The packet format\<close>

definition packet :: "(bytes \<Rightarrow> bytes \<Rightarrow> bytes) \<Rightarrow> aead_spec \<Rightarrow> cipher_t \<Rightarrow> bytes \<Rightarrow> bytes \<Rightarrow> bytes" where
  "packet HM S c salt m = salt @ seal_at S c (subkey HM c salt) 0 m"

lemma subkey_take: "subkey HM c (take (ci_key_len c) s) = subkey HM c s"
  by (simp add: subkey_def)

lemma seal_length: "aead_laws L S \<Longrightarrow> length (seal_at S c k i m) = length m + 16"
  by (simp add: aead_laws_def seal_at_def)

lemma fresh_keyed_at_0:
  "keyed L ctx k \<Longrightarrow> nonce_of ctx = replicate (ci_nonce_len (cx_cipher ctx)) 0 \<Longrightarrow> at_nonce L ctx k 0"
  by (simp add: at_nonce_def le_bytes_zero)

text \<open>Keying a context: afterwards it is at operation 0 of the session of its salt.\<close>

lemma set_key_session:
  assumes "lib_laws L HM S" and "unkeyed L ctx" and "cx_cipher ctx = c"
    and "take (ci_key_len c) (cx_salt ctx) = salt" and "enc \<in> {0, 1}"
  obtains ctx' where "aead_cipher_ctx_set_key L ctx enc = Inr ctx'" and "at_nonce L ctx' (subkey HM c salt) 0"
    and "cx_cipher ctx' = c" and "cx_salt ctx' = cx_salt ctx" and "cx_chunk ctx' = cx_chunk ctx"
    and "cx_init ctx' = cx_init ctx"
proof -
  obtain ctx' where ctx': "aead_cipher_ctx_set_key L ctx enc = Inr ctx'"
    "keyed L ctx' (subkey HM (cx_cipher ctx) (cx_salt ctx))"
    "nonce_of ctx' = replicate (ci_nonce_len (cx_cipher ctx)) 0" "cx_cipher ctx' = cx_cipher ctx"
    "cx_salt ctx' = cx_salt ctx" "cx_chunk ctx' = cx_chunk ctx" "cx_init ctx' = cx_init ctx"
    using aead_cipher_ctx_set_key_ok [OF assms(1,2,5)] by metis
  have "subkey HM c salt = subkey HM (cx_cipher ctx) (cx_salt ctx)"
    using subkey_take [of HM c "cx_salt ctx"] assms(3,4) by simp
  with ctx' assms(3) show ?thesis
    by (intro that [of ctx']) (simp_all add: fresh_keyed_at_0)
qed

section \<open>Encryption\<close>

lemma aead_encrypt_all_spec:
  assumes "lib_laws L HM S" and "wf_cipher c" and "wf_world w" and "wf_buffer b"
  defines "salt \<equiv> randombytes_buf L (w_draws w) (ci_key_len c)"
  shows "\<exists>b' w'. aead_encrypt_all L w b c cap = Inr (CRYPTO_OK, b', w') \<and> wf_buffer b' \<and>
    contents b' = packet HM S c salt (contents b) \<and> wf_world w' \<and>
    w_draws w' = Suc (w_draws w) \<and> recorded w (w_pp w') salt"
proof -
  let ?n = "ci_key_len c" and ?k = "subkey HM c salt"
  let ?w = "w\<lparr>w_draws := Suc (w_draws w)\<rparr>"
  note h = lib_lawsD(1) [OF assms(1)] and al = lib_lawsD(4) [OF assms(1)]
  note sz = wf_cipher_sizes [OF assms(2)]
  obtain ctx where ctx: "aead_ctx_init L w c 1 = Inr (ctx, ?w)" "unkeyed L ctx" "cx_cipher ctx = c"
    "take ?n (cx_salt ctx) = salt"
    using aead_ctx_init_enc [OF assms(1,2), of 1 w] unfolding salt_def by auto
  have ls: "length (cx_salt ctx) = 64" "length salt = ?n"
    using ctx(2) lib_lawsD(2) [OF assms(1)] by (auto simp: unkeyed_def wf_ctx_def salt_def)
  obtain tmp where tmp: "brealloc (lib_heap L) (w_tmp w Tmp_aead_encrypt_all) (?n + 16 + b_len b) cap = Inr tmp"
    "wf_block tmp" "max (?n + 16 + b_len b) cap \<le> b_cap tmp"
    using brealloc_ok [OF h wf_world_tmp [OF assms(3)]] by metis
  let ?d = "salt @ drop ?n (b_data tmp)"
  have ld: "length (b_data tmp) = b_cap tmp"
    using tmp(2) by (simp add: wf_block_def)
  have cp: "memcpy (b_data tmp) 0 (cx_salt ctx) 0 ?n = Inr ?d"
    using ls sz ld tmp(3) ctx(4) by (simp add: mem_simps)
  obtain pp where pp: "ppbloom_add (w_pp w) (cx_salt ctx) (int ?n) = Inr (0, pp)" "recorded w pp salt"
    using salt_add [OF assms(3), of ?n "cx_salt ctx"] ls sz ctx(4) by auto
  obtain ctx1 where ctx1: "aead_cipher_ctx_set_key L ctx 1 = Inr ctx1" "at_nonce L ctx1 ?k 0" "cx_cipher ctx1 = c"
    using set_key_session [OF assms(1) ctx(2,3,4) enc_ok(2)] by metis
  let ?m = "contents b" and ?box = "seal_at S c ?k 0 (contents b)"
  have rm: "read_mem (b_data b) 0 (b_len b) = Inr ?m"
    using assms(4) by (simp add: wf_bufferD mem_simps contents_def)
  have lb: "length ?box = b_len b + 16"
    using seal_length [OF al] assms(4) by simp
  let ?d2 = "salt @ ?box @ drop (?n + b_len b + 16) (b_data tmp)"
  obtain e where en: "aead_cipher_encrypt L ctx1 ?d ?n (16 + b_len b) ?m [] (cx_nonce ctx1) (cx_skey ctx1) =
      Inr (0, ctx1\<lparr>cx_evp := e\<rparr>, ?d2, b_len b + 16)"
    using aead_cipher_encrypt_keyed [OF al at_nonce_keyed [OF ctx1(2)], of ?n ?m ?d "16 + b_len b"]
      box_of_at [OF ctx1(2), of S ?m] ctx1(3) ls tmp(3) ld assms(4) by (auto simp: add_ac)
  let ?w1 = "put_tmp Tmp_aead_encrypt_all (tmp\<lparr>b_len := 16 + b_len b, b_data := ?d2\<rparr>) (?w\<lparr>w_pp := pp\<rparr>)"
  obtain b' where b': "buf_assign (lib_heap L) b ?d2 (?n + (16 + b_len b)) cap = Inr b'" "wf_buffer b'"
    "contents b' = take (?n + (16 + b_len b)) ?d2"
    using buf_assign_ok [OF h wf_buffer_block [OF assms(4)], of "?n + (16 + b_len b)" ?d2 cap] lb ls by auto
  have "aead_encrypt_all L w b c cap = Inr (0, b', ?w1)"
    using ctx(1) tmp(1) cp pp(1) ctx1(1) rm en b'(1) sz(1)
    by (simp add: aead_encrypt_all_def Let_def put_tmp_def)
  moreover have "contents b' = packet HM S c salt ?m"
    using b'(3) lb ls by (simp add: packet_def)
  moreover have "wf_world ?w1"
    using assms(3) recorded_wf [OF pp(2)] tmp(2,3) ld ls lb
    by (simp add: wf_world_def put_tmp_def wf_block_def)
  moreover have "w_draws ?w1 = Suc (w_draws w)" "recorded w (w_pp ?w1) salt"
    using pp(2) by (simp_all add: put_tmp_def)
  ultimately show ?thesis
    using b'(2) by blast
qed

section \<open>Decryption\<close>

text \<open>The part of the context that a received salt fills in.\<close>

lemma take_salt:
  assumes "unkeyed L ctx" and "cx_cipher ctx = c" and "ci_key_len c \<le> length src"
  obtains s where "memcpy (cx_salt ctx) 0 src 0 (ci_key_len c) = Inr s" and "length s = MAX_KEY_LENGTH"
    and "take (ci_key_len c) s = take (ci_key_len c) src" and "unkeyed L (ctx\<lparr>cx_salt := s\<rparr>)"
proof -
  have wf: "wf_cipher c" "length (cx_salt ctx) = 64"
    using assms(1,2) by (auto simp: unkeyed_def wf_ctx_def)
  then have le: "ci_key_len c \<le> 64"
    using wf_cipher_sizes(3) by fastforce
  let ?s = "take (ci_key_len c) src @ drop (ci_key_len c) (cx_salt ctx)"
  have "memcpy (cx_salt ctx) 0 src 0 (ci_key_len c) = Inr ?s"
    using le wf(2) assms(3) by (simp add: mem_simps)
  then show ?thesis
    by (rule that) (use le wf(2) assms(3) unkeyed_salt [OF assms(1)] in simp_all)
qed

lemma aead_decrypt_all_short:
  "b_len b \<le> ci_key_len c + ci_tag_len c \<Longrightarrow> aead_decrypt_all L w b c cap = Inr (CRYPTO_ERROR, b, w)"
  by (simp add: aead_decrypt_all_def)

text \<open>A long enough packet, up to the one AEAD operation: the salt decides whether it is reached.\<close>

lemma aead_decrypt_all_run:
  assumes "lib_laws L HM S" and "wf_cipher c" and "wf_world w" and "wf_buffer b"
    and "ci_key_len c + 16 < b_len b"
  defines "salt \<equiv> take (ci_key_len c) (contents b)"
  obtains tmp ctx where "wf_block tmp" and "b_len b \<le> b_cap tmp" and "b_len tmp = b_len b - ci_key_len c - 16"
    and "at_nonce L ctx (subkey HM c salt) 0" and "cx_cipher ctx = c" and "ci_key_len c \<le> length (cx_salt ctx)"
    and "take (ci_key_len c) (cx_salt ctx) = salt"
    and "aead_decrypt_all L w b c cap =
      (if seen w salt then Inr (CRYPTO_ERROR, b, put_tmp Tmp_aead_decrypt_all tmp w)
       else bnd (aead_cipher_decrypt L ctx (b_data tmp) 0 (b_len tmp) (drop (ci_key_len c) (contents b)) []
                   (cx_nonce ctx) (cx_skey ctx)) (\<lambda>(err, ctx, d, plen).
         let w = put_tmp Tmp_aead_decrypt_all (tmp\<lparr>b_data := d\<rparr>) w in
         if err \<noteq> 0 then Inr (CRYPTO_ERROR, b, w)
         else bnd (ppbloom_add (w_pp w) (cx_salt ctx) (int (ci_key_len c))) (\<lambda>(_, pp).
           bnd (buf_assign (lib_heap L) b d (b_len tmp) cap) (\<lambda>b. Inr (CRYPTO_OK, b, w\<lparr>w_pp := pp\<rparr>)))))"
proof -
  let ?n = "ci_key_len c" and ?t = Tmp_aead_decrypt_all
  note sz = wf_cipher_sizes [OF assms(2)]
  have ld: "length (b_data b) = b_cap b" "b_len b \<le> b_cap b" and short: "\<not> b_len b \<le> ?n + ci_tag_len c"
    using assms(4,5) sz(1) by (simp_all add: wf_bufferD)
  obtain ctx where ctx: "aead_ctx_init L w c 0 = Inr (ctx, w)" "unkeyed L ctx" "cx_cipher ctx = c"
    using aead_ctx_init_dec [OF assms(1,2)] by metis
  obtain tmp where tmp: "brealloc (lib_heap L) (w_tmp w ?t) (b_len b) cap = Inr tmp"
    "wf_block tmp" "max (b_len b) cap \<le> b_cap tmp"
    using brealloc_ok [OF lib_lawsD(1) [OF assms(1)] wf_world_tmp [OF assms(3)]] by metis
  obtain s where s: "memcpy (cx_salt ctx) 0 (b_data b) 0 ?n = Inr s" "length s = 64"
    "take ?n s = take ?n (b_data b)" "unkeyed L (ctx\<lparr>cx_salt := s\<rparr>)"
    using take_salt [OF ctx(2,3), of "b_data b"] ld assms(5) by auto
  have salt: "take ?n s = salt"
    using s(3) assms(5) by (simp add: salt_def contents_def take_take_le)
  have n64: "?n \<le> length s"
    using s(2) sz by simp
  obtain ctx1 where ctx1: "aead_cipher_ctx_set_key L (ctx\<lparr>cx_salt := s\<rparr>) 0 = Inr ctx1"
    "at_nonce L ctx1 (subkey HM c salt) 0" "cx_cipher ctx1 = c" "cx_salt ctx1 = s"
    using set_key_session [OF assms(1) s(4), of c salt 0] ctx(3) salt by auto
  have rm: "read_mem (b_data b) ?n (b_len b - ?n) = Inr (drop ?n (contents b))"
    using ld assms(5) by (simp add: mem_simps contents_def drop_take)
  show ?thesis
    by (rule that [of "tmp\<lparr>b_len := b_len b - ?n - 16\<rparr>" ctx1])
      (use short ctx(1) tmp s(1,2) salt_check [OF assms(3) n64, unfolded salt] ctx1 rm sz salt n64 in
        \<open>simp_all add: aead_decrypt_all_def Let_def put_tmp_def wf_block_def cong: if_cong\<close>)
qed

text \<open>Hence a long enough packet is rejected when its salt was seen, accepted when it has the packet format,
  and rejected otherwise; a rejection leaves the buffer and the replay filter alone.\<close>

lemma aead_decrypt_all_long:
  assumes "lib_laws L HM S" and "wf_cipher c" and "wf_world w" and "wf_buffer b"
    and "ci_key_len c + 16 < b_len b"
  defines "salt \<equiv> take (ci_key_len c) (contents b)"
  obtains
    (replay) w' where "seen w salt" and "aead_decrypt_all L w b c cap = Inr (CRYPTO_ERROR, b, w')"
      and "wf_world w'" and "w_pp w' = w_pp w"
  | (accept) m b' w' where "\<not> seen w salt" and "contents b = packet HM S c salt m"
      and "aead_decrypt_all L w b c cap = Inr (CRYPTO_OK, b', w')" and "wf_buffer b'" and "contents b' = m"
      and "wf_world w'" and "recorded w (w_pp w') salt"
  | (forged) w' where "\<not> seen w salt" and "\<nexists>m. contents b = packet HM S c salt m"
      and "aead_decrypt_all L w b c cap = Inr (CRYPTO_ERROR, b, w')" and "wf_world w'" and "w_pp w' = w_pp w"
proof -
  let ?n = "ci_key_len c" and ?k = "subkey HM c salt" and ?t = Tmp_aead_decrypt_all
  let ?m = "drop ?n (contents b)"
  note h = lib_lawsD(1) [OF assms(1)] and al = lib_lawsD(4) [OF assms(1)]
  obtain tmp ctx where tmp: "wf_block tmp" "b_len b \<le> b_cap tmp" "b_len tmp = b_len b - ?n - 16"
    and ctx: "at_nonce L ctx ?k 0" "cx_cipher ctx = c" "?n \<le> length (cx_salt ctx)" "take ?n (cx_salt ctx) = salt"
    and run: "aead_decrypt_all L w b c cap =
      (if seen w salt then Inr (CRYPTO_ERROR, b, put_tmp ?t tmp w)
       else bnd (aead_cipher_decrypt L ctx (b_data tmp) 0 (b_len tmp) ?m [] (cx_nonce ctx) (cx_skey ctx)) (\<lambda>(err, ctx, d, plen).
         let w = put_tmp ?t (tmp\<lparr>b_data := d\<rparr>) w in
         if err \<noteq> 0 then Inr (CRYPTO_ERROR, b, w)
         else bnd (ppbloom_add (w_pp w) (cx_salt ctx) (int ?n)) (\<lambda>(_, pp).
           bnd (buf_assign (lib_heap L) b d (b_len tmp) cap) (\<lambda>b. Inr (CRYPTO_OK, b, w\<lparr>w_pp := pp\<rparr>)))))"
    by (rule aead_decrypt_all_run [OF assms(1-5), of cap, folded salt_def]) (rule that; assumption)
  have wft: "wf_world (put_tmp ?t (tmp\<lparr>b_data := d\<rparr>) w)" if "length d = length (b_data tmp)" for d
    using that assms(3) tmp(1) by (simp add: wf_world_def put_tmp_def wf_block_def)
  have pk: "contents b = packet HM S c salt m \<longleftrightarrow> ?m = seal_at S c ?k 0 m" for m
    using append_take_drop_id [of ?n "contents b"] unfolding packet_def salt_def by (metis same_append_eq)
  have room: "16 \<le> length ?m" "0 + length ?m \<le> length (b_data tmp) + 16" "length ?m = b_len tmp + 16"
    using assms(4,5) tmp by (simp_all add: wf_block_def)
  note dec = aead_cipher_decrypt_keyed [OF al at_nonce_keyed [OF ctx(1)] room(1,2), of "b_len tmp",
      unfolded box_of_at [OF ctx(1)] ctx(2)]
  consider (seen) "seen w salt"
    | (good) m e where "\<not> seen w salt" "?m = seal_at S c ?k 0 m"
      "aead_cipher_decrypt L ctx (b_data tmp) 0 (b_len tmp) ?m [] (cx_nonce ctx) (cx_skey ctx) =
        Inr (0, ctx\<lparr>cx_evp := e\<rparr>, take 0 (b_data tmp) @ m @ drop (0 + length m) (b_data tmp), length m)"
    | (bad) e d plen where "\<not> seen w salt" "\<nexists>m. ?m = seal_at S c ?k 0 m" "length d = length (b_data tmp)"
      "aead_cipher_decrypt L ctx (b_data tmp) 0 (b_len tmp) ?m [] (cx_nonce ctx) (cx_skey ctx) =
        Inr (CRYPTO_ERROR, ctx\<lparr>cx_evp := e\<rparr>, d, plen)"
    using dec by blast
  then show ?thesis
  proof cases
    case seen
    then show ?thesis
      using run wft [of "b_data tmp"] by (intro replay [of "put_tmp ?t tmp w"]) (simp_all add: put_tmp_def)
  next
    case (good m e)
    have lenm: "b_len tmp = length m"
      using arg_cong [OF good(2), of length] room(3) seal_length [OF al] by simp
    let ?d = "m @ drop (length m) (b_data tmp)"
    let ?w = "put_tmp ?t (tmp\<lparr>b_data := ?d\<rparr>) w"
    obtain pp where pp: "ppbloom_add (w_pp w) (cx_salt ctx) (int ?n) = Inr (0, pp)" "recorded w pp salt"
      using salt_add [OF assms(3) ctx(3)] ctx(4) by auto
    obtain b' where b': "buf_assign (lib_heap L) b ?d (length m) cap = Inr b'" "wf_buffer b'" "contents b' = m"
      using buf_assign_ok [OF h wf_buffer_block [OF assms(4)], of "length m" ?d cap] by auto
    have wfw: "wf_world (?w\<lparr>w_pp := pp\<rparr>)"
      by (rule wf_world_upd_pp [OF wft recorded_wf [OF pp(2)]]) (use room lenm in simp)
    have "aead_decrypt_all L w b c cap = Inr (CRYPTO_OK, b', ?w\<lparr>w_pp := pp\<rparr>)"
      using run good(1,3) pp(1) b'(1) lenm by (simp add: put_tmp_def)
    then show ?thesis
      by (rule accept [OF good(1) _ _ b'(2,3) wfw, rotated]) (use pk good(2) pp(2) in simp_all)
  next
    case (bad e d plen)
    then show ?thesis
      using run wft [OF bad(3)] pk by (intro forged [of "put_tmp ?t (tmp\<lparr>b_data := d\<rparr>) w"]) (simp_all add: put_tmp_def)
  qed
qed

section \<open>Properties\<close>

lemma packet_parts:
  assumes "length salt = ci_key_len c" and "aead_laws L S"
  shows "take (ci_key_len c) (packet HM S c salt m) = salt"
    and "length (packet HM S c salt m) = ci_key_len c + length m + 16"
  using assms by (simp_all add: packet_def seal_length)

lemma packet_inj:
  assumes "lib_laws L HM S" and "wf_cipher c" and "length salt = ci_key_len c"
    and "packet HM S c salt m = packet HM S c salt m'"
  shows "m = m'"
proof -
  obtain ctx where ctx: "unkeyed L ctx" "cx_cipher ctx = c"
    using aead_ctx_init_dec [OF assms(1,2)] by metis
  let ?s = "salt @ replicate (MAX_KEY_LENGTH - ci_key_len c) 0"
  have "unkeyed L (ctx\<lparr>cx_salt := ?s\<rparr>)"
    using ctx(1) by (rule unkeyed_salt) (use assms(3) wf_cipher_sizes(3) [OF assms(2)] in simp)
  then obtain ctx' where at: "at_nonce L ctx' (subkey HM c salt) 0" "cx_cipher ctx' = c"
    using set_key_session [OF assms(1), of "ctx\<lparr>cx_salt := ?s\<rparr>" c salt 0] ctx(2) assms(3) by auto
  show ?thesis
    by (rule box_inj [OF lib_lawsD(4) [OF assms(1)] at_nonce_keyed [OF at(1)]])
      (use assms(4) box_of_at [OF at(1)] at(2) in \<open>simp add: packet_def\<close>)
qed

text \<open>C12: a UDP payload survives the trip. Whatever the state of the two processes, a non-empty payload
  encrypted by \<^verbatim>\<open>aead_encrypt_all\<close> in one of them is returned by \<^verbatim>\<open>aead_decrypt_all\<close> in another one that has the
  same key and has not seen the salt, also when the two use different back ends (libsodium or mbed TLS).\<close>

theorem aead_packet_roundtrip:
  assumes "lib_laws L HM S" and "lib_laws L' HM S" and "wf_cipher c"
    and "wf_world w" and "wf_world w'" and "wf_buffer b" and "0 < b_len b"
    and "\<not> seen w' (randombytes_buf L (w_draws w) (ci_key_len c))"
  shows "\<exists>b1 w1. aead_encrypt_all L w b c cap = Inr (CRYPTO_OK, b1, w1) \<and> wf_buffer b1 \<and>
    (\<forall>r. wf_buffer r \<longrightarrow> contents r = contents b1 \<longrightarrow>
      (\<exists>b2 w2. aead_decrypt_all L' w' r c cap' = Inr (CRYPTO_OK, b2, w2) \<and> wf_buffer b2 \<and> wf_world w2 \<and>
        contents b2 = contents b))"
proof -
  let ?salt = "randombytes_buf L (w_draws w) (ci_key_len c)"
  note al = lib_lawsD(4) [OF assms(1)]
  have ls: "length ?salt = ci_key_len c"
    using assms(1) by (rule lib_lawsD)
  obtain b1 w1 where b1: "aead_encrypt_all L w b c cap = Inr (CRYPTO_OK, b1, w1)" "wf_buffer b1"
    "contents b1 = packet HM S c ?salt (contents b)"
    using aead_encrypt_all_spec [OF assms(1,3,4,6)] by blast
  have "\<exists>b2 w2. aead_decrypt_all L' w' r c cap' = Inr (CRYPTO_OK, b2, w2) \<and> wf_buffer b2 \<and> wf_world w2 \<and>
      contents b2 = contents b" if r: "wf_buffer r" "contents r = contents b1" for r
  proof -
    have salt: "take (ci_key_len c) (contents r) = ?salt"
      using r(2) b1(3) packet_parts(1) [OF ls al] by simp
    have len: "b_len r = ci_key_len c + b_len b + 16"
      using r packet_parts(2) [OF ls al, of HM "contents b"] b1(3) length_contents assms(6) by metis
    have "ci_key_len c + 16 < b_len r"
      using len assms(7) by simp
    with assms(2,3,5) r(1) show ?thesis
    proof (cases rule: aead_decrypt_all_long [where cap = cap'])
      case (accept m b' w2)
      have "packet HM S c ?salt m = packet HM S c ?salt (contents b)"
        using accept(2) r(2) b1(3) salt by simp
      then have "m = contents b"
        by (rule packet_inj [OF assms(1,3) ls])
      with accept show ?thesis by blast
    qed (use assms(8) salt r(2) b1(3) in auto)
  qed
  with b1(1,2) show ?thesis by blast
qed

lemma packet_result:
  assumes "lib_laws L HM S" and "wf_cipher c" and "wf_world w" and "wf_buffer b"
  shows "\<exists>e b' w'. aead_decrypt_all L w b c cap = Inr (e, b', w') \<and> wf_world w' \<and>
    (let salt = take (ci_key_len c) (contents b) in
     if (\<exists>m. m \<noteq> [] \<and> contents b = packet HM S c salt m) \<and> length salt = ci_key_len c \<and> \<not> seen w salt
     then e = CRYPTO_OK \<and> contents b = packet HM S c salt (contents b') \<and> recorded w (w_pp w') salt
     else e = CRYPTO_ERROR \<and> b' = b \<and> w_pp w' = w_pp w)"
proof (cases "ci_key_len c + 16 < b_len b")
  case False
  have "\<nexists>m. m \<noteq> [] \<and> contents b = packet HM S c (take (ci_key_len c) (contents b)) m"
    if "length (take (ci_key_len c) (contents b)) = ci_key_len c"
  proof
    assume "\<exists>m. m \<noteq> [] \<and> contents b = packet HM S c (take (ci_key_len c) (contents b)) m"
    then obtain m where "m \<noteq> []" "contents b = packet HM S c (take (ci_key_len c) (contents b)) m"
      by blast
    then have "b_len b = ci_key_len c + length m + 16"
      using packet_parts(2) [OF that lib_lawsD(4) [OF assms(1)]] length_contents [OF assms(4)] by metis
    with False \<open>m \<noteq> []\<close> show False by simp
  qed
  moreover have "aead_decrypt_all L w b c cap = Inr (CRYPTO_ERROR, b, w)"
    using False wf_cipher_sizes(1) [OF assms(2)] by (intro aead_decrypt_all_short) simp
  ultimately show ?thesis
    using assms(3) unfolding Let_def by auto
next
  case True
  have ls: "length (take (ci_key_len c) (contents b)) = ci_key_len c"
    using True assms(4) by simp
  from assms(1-4) True show ?thesis
  proof (cases rule: aead_decrypt_all_long [where cap = cap])
    case (replay w')
    then show ?thesis by (simp add: Let_def)
  next
    case (accept m b' w')
    have "b_len b = ci_key_len c + length m + 16"
      using packet_parts(2) [OF ls lib_lawsD(4) [OF assms(1)]] accept(2) length_contents [OF assms(4)] by metis
    with True have "m \<noteq> []" by auto
    then show ?thesis
      unfolding Let_def using accept ls by (subst if_P) auto
  next
    case (forged w')
    then show ?thesis by (auto simp: Let_def)
  qed
qed

text \<open>C13: \<^verbatim>\<open>aead_decrypt_all\<close> accepts exactly the genuine packets. It always returns; the result is
  \<^verbatim>\<open>CRYPTO_OK\<close> if and only if the buffer holds a packet of the format \<^verbatim>\<open>[salt][encrypted payload][tag]\<close> with a
  non-empty payload under the subkey of its salt and the salt is new, and then the buffer holds the payload.
  Any other input gives \<^verbatim>\<open>CRYPTO_ERROR\<close> and leaves the buffer and the replay filter untouched.\<close>

theorem aead_packet_acceptance:
  assumes "lib_laws L HM S" and "wf_cipher c" and "wf_world w" and "wf_buffer b"
  shows "\<exists>e b' w'. aead_decrypt_all L w b c cap = Inr (e, b', w') \<and> wf_world w' \<and>
    (let salt = take (ci_key_len c) (contents b) in
     if (\<exists>m. m \<noteq> [] \<and> contents b = packet HM S c salt m) \<and> length salt = ci_key_len c \<and> \<not> seen w salt
     then e = CRYPTO_OK \<and> contents b = packet HM S c salt (contents b') \<and> recorded w (w_pp w') salt
     else e = CRYPTO_ERROR \<and> b' = b \<and> w_pp w' = w_pp w)"
  using assms by (rule packet_result)

lemma adds_seen:
  assumes "wf_world w" and "recorded w pp salt" and "\<forall>y\<in>set ys. elem_ok y"
    and "length ys < nat (pp_entries (w_pp w))" and "ppbloom_adds pp ys = Inr pp'"
  shows "wf_pp pp'" and "pp_found pp' (salt, int (length salt))"
proof -
  have "survives pp (salt, int (length salt)) (0 + length ys)"
    by (rule ppg.lasts_mono [where k = "nat (pp_entries (w_pp w) - 1)"])
      (use assms(2,4) in \<open>auto simp: recorded_def\<close>)
  then obtain s' where "ppg.insert_all pp ys = Inr s'" "wf_pp s'" "survives s' (salt, int (length salt)) 0"
    using ppg.insert_all_lasts [OF recorded_wf [OF assms(2)] assms(3)] by blast
  then show "wf_pp pp'" "pp_found pp' (salt, int (length salt))"
    using assms(5) survives_found by (auto simp: ppbloom_adds_eq)
qed

text \<open>C15: a captured packet cannot be replayed. Once \<^verbatim>\<open>aead_decrypt_all\<close> has accepted a packet, the same
  bytes are rejected with \<^verbatim>\<open>CRYPTO_ERROR\<close> for as long as fewer than \<^verbatim>\<open>entries\<close> other salts or IVs have been
  recorded in between.\<close>

theorem aead_packet_replay:
  assumes "lib_laws L HM S" and "wf_cipher c" and "wf_world w" and "wf_buffer b"
    and "aead_decrypt_all L w b c cap = Inr (CRYPTO_OK, b1, w1)"
    and "\<forall>y\<in>set ys. elem_ok y" and "length ys < nat (pp_entries (w_pp w))"
    and "ppbloom_adds (w_pp w1) ys = Inr pp" and "wf_buffer r" and "contents r = contents b"
  shows "\<exists>w2. aead_decrypt_all L (w1\<lparr>w_pp := pp\<rparr>) r c cap' = Inr (CRYPTO_ERROR, r, w2) \<and> w_pp w2 = pp"
proof -
  let ?salt = "take (ci_key_len c) (contents b)"
  obtain e b' w' where "aead_decrypt_all L w b c cap = Inr (e, b', w')" "wf_world w'"
    "if (\<exists>m. m \<noteq> [] \<and> contents b = packet HM S c ?salt m) \<and> length ?salt = ci_key_len c \<and> \<not> seen w ?salt
     then e = CRYPTO_OK \<and> contents b = packet HM S c ?salt (contents b') \<and> recorded w (w_pp w') ?salt
     else e = CRYPTO_ERROR \<and> b' = b \<and> w_pp w' = w_pp w"
    using packet_result [OF assms(1-4), of cap] unfolding Let_def by blast
  with assms(5) have w1: "wf_world w1" "recorded w (w_pp w1) ?salt"
    by (auto split: if_splits)
  have pp: "wf_pp pp" "pp_found pp (?salt, int (length ?salt))"
    using adds_seen [OF assms(3) w1(2) assms(6,7,8)] by simp_all
  have wf: "wf_world (w1\<lparr>w_pp := pp\<rparr>)"
    using w1(1) pp(1) by (rule wf_world_upd_pp)
  have sn: "seen (w1\<lparr>w_pp := pp\<rparr>) (take (ci_key_len c) (contents r))"
    using pp(2) assms(10) by (simp add: seen_def)
  show ?thesis
  proof (cases "ci_key_len c + 16 < b_len r")
    case True
    with assms(1,2) wf assms(9) show ?thesis
      by (cases rule: aead_decrypt_all_long [where cap = cap']) (use sn in auto)
  next
    case False
    then show ?thesis
      using aead_decrypt_all_short [of r c L "w1\<lparr>w_pp := pp\<rparr>" cap'] wf_cipher_sizes(1) [OF assms(2)] by auto
  qed
qed

end
