(* ===== verification/SS_AeadStream.thy ===== *)
theory SS_AeadStream
  imports SS_AeadPacket
begin

text \<open>
  The chunked stream (TCP): \<^verbatim>\<open>aead_encrypt\<close> emits the salt once and then one frame per call; \<^verbatim>\<open>aead_decrypt\<close>
  reassembles frames from arbitrary fragments. \<open>wire\<close> is the byte stream of a session. The receiver's
  invariant \<open>receiving\<close> relates a context to the bytes received so far; one call of \<^verbatim>\<open>aead_decrypt\<close> keeps it and
  delivers exactly the frames that have become complete.
\<close>

section \<open>Frames\<close>

definition hdr :: "bytes \<Rightarrow> bytes" where
  "hdr m = be16 (of_nat (length m) AND of_nat CHUNK_SIZE_MASK)"

definition hdr_len :: "bytes \<Rightarrow> nat" where
  "hdr_len h = (case load16_be h of Inl _ \<Rightarrow> 0 | Inr v \<Rightarrow> unat (v AND of_nat CHUNK_SIZE_MASK))"

definition frame :: "aead_spec \<Rightarrow> cipher_t \<Rightarrow> bytes \<Rightarrow> nat \<Rightarrow> bytes \<Rightarrow> bytes" where
  "frame S c k j m = seal_at S c k (2 * j) (hdr m) @ seal_at S c k (Suc (2 * j)) m"

fun wire :: "aead_spec \<Rightarrow> cipher_t \<Rightarrow> bytes \<Rightarrow> nat \<Rightarrow> bytes list \<Rightarrow> bytes" where
  "wire S c k j [] = []"
| "wire S c k j (m # ms) = frame S c k j m @ wire S c k (Suc j) ms"

definition payload_ok :: "bytes \<Rightarrow> bool" where
  "payload_ok m \<longleftrightarrow> m \<noteq> [] \<and> length m \<le> CHUNK_SIZE_MASK"

lemma load16_be_ok: "length h = 2 \<Longrightarrow> load16_be h = Inr (push_bit 8 (ucast (h ! 0)) OR ucast (h ! 1))"
  by (simp add: load16_be_def mem_simps)

lemma load16_be_be16: "load16_be (be16 v) = Inr v"
proof -
  have "push_bit 8 (ucast (ucast (drop_bit 8 v) :: byte)) OR ucast (ucast v :: byte) = v"
    by (rule bit_word_eqI) (auto simp: bit_simps)
  then show ?thesis
    by (simp add: load16_be_def be16_def mem_simps)
qed

lemma and_mask14: "n \<le> CHUNK_SIZE_MASK \<Longrightarrow> unat ((of_nat n :: u16) AND of_nat CHUNK_SIZE_MASK) = n"
proof -
  assume n: "n \<le> CHUNK_SIZE_MASK"
  have m: "(of_nat CHUNK_SIZE_MASK :: u16) = mask 14"
    by (simp add: mask_eq_exp_minus_1)
  have "unat ((of_nat n :: u16) AND mask 14) = take_bit 14 (unat (of_nat n :: u16))"
    by (simp only: take_bit_eq_mask [symmetric] unsigned_take_bit_eq)
  also have "\<dots> = n"
    using n by (simp add: unat_u16_small take_bit_nat_eq_self)
  finally show ?thesis
    by (simp only: m)
qed

lemma length_hdr [simp]: "length (hdr m) = 2"
  by (simp add: hdr_def)

lemma hdr_len_hdr: "length m \<le> CHUNK_SIZE_MASK \<Longrightarrow> hdr_len (hdr m) = length m"
  by (simp add: hdr_len_def hdr_def load16_be_be16 and.assoc and_mask14 del: of_nat_numeral)

lemma frame_length: "aead_laws L S \<Longrightarrow> length (frame S c k j m) = length m + 34"
  by (simp add: frame_def seal_length)

lemma wire_append: "wire S c k j (xs @ ys) = wire S c k j xs @ wire S c k (j + length xs) ys"
  by (induction xs arbitrary: j) auto

section \<open>What a call leaves alone\<close>

definition same_session :: "cipher_ctx_t \<Rightarrow> cipher_ctx_t \<Rightarrow> bool" where
  "same_session a b \<longleftrightarrow> cx_cipher a = cx_cipher b \<and> cx_salt a = cx_salt b \<and> cx_chunk a = cx_chunk b \<and>
     cx_init a = cx_init b"

lemma same_session_refl [simp]: "same_session a a"
  by (simp add: same_session_def)

lemma same_session_trans: "same_session a b \<Longrightarrow> same_session b c \<Longrightarrow> same_session a c"
  by (simp add: same_session_def)

lemma same_session_upd [simp]:
  "same_session a (b\<lparr>cx_evp := e\<rparr>) = same_session a b" "same_session a (b\<lparr>cx_nonce := n\<rparr>) = same_session a b"
  by (simp_all add: same_session_def)

text \<open>One AEAD operation of a session followed by the nonce increment.\<close>

lemma seal_and_bump:
  assumes "lib_laws L HM S" and "at_nonce L ctx k i" and "off + length m + 16 \<le> length c"
  obtains ctx1 ctx2 where "aead_cipher_encrypt L ctx c off clen m [] (cx_nonce ctx) (cx_skey ctx) =
      Inr (0, ctx1, take off c @ seal_at S (cx_cipher ctx) k i m @ drop (off + (length m + 16)) c, length m + 16)"
    and "bump_nonce L ctx1 = Inr ctx2" and "at_nonce L ctx2 k (Suc i)" and "same_session ctx ctx2"
proof -
  obtain e where e: "aead_cipher_encrypt L ctx c off clen m [] (cx_nonce ctx) (cx_skey ctx) =
      Inr (0, ctx\<lparr>cx_evp := e\<rparr>, take off c @ seal_at S (cx_cipher ctx) k i m @ drop (off + (length m + 16)) c, length m + 16)"
    "keyed L (ctx\<lparr>cx_evp := e\<rparr>) k"
    using aead_cipher_encrypt_keyed [OF lib_lawsD(4) [OF assms(1)] at_nonce_keyed [OF assms(2)] assms(3)]
    unfolding box_of_at [OF assms(2)] by (auto simp: add.assoc)
  obtain n where n: "bump_nonce L (ctx\<lparr>cx_evp := e\<rparr>) = Inr (ctx\<lparr>cx_evp := e, cx_nonce := n\<rparr>)"
    "at_nonce L (ctx\<lparr>cx_evp := e, cx_nonce := n\<rparr>) k (Suc i)"
    using bump_nonce_ok [OF lib_lawsD(3) [OF assms(1)] at_nonce_upd(1) [OF assms(2) e(2)]] by blast
  show ?thesis
    using e(1) n by (rule that) simp
qed

lemma aead_chunk_encrypt_ok:
  assumes "lib_laws L HM S" and "at_nonce L ctx k (2 * j)" and "payload_ok m"
    and "take (length m) p = m" and "off + length m + 34 \<le> length c"
  obtains ctx' where "aead_chunk_encrypt L ctx p c off (of_nat (length m)) =
      Inr (CRYPTO_OK, ctx', take off c @ frame S (cx_cipher ctx) k j m @ drop (off + (length m + 34)) c)"
    and "at_nonce L ctx' k (2 * Suc j)" and "same_session ctx ctx'"
proof -
  have tl: "ci_tag_len (cx_cipher ctx) = 16"
    using keyed_key(6) [OF at_nonce_keyed [OF assms(2)]] by (rule wf_cipher_sizes)
  have m: "length m \<le> CHUNK_SIZE_MASK" "unat (of_nat (length m) :: u16) = length m"
    using assms(3) by (auto simp: payload_ok_def unat_u16_small)
  let ?h = "seal_at S (cx_cipher ctx) k (2 * j) (hdr m)"
  let ?c1 = "take off c @ ?h @ drop (off + 18) c"
  have lh: "length ?h = 18"
    using seal_length [OF lib_lawsD(4) [OF assms(1)]] by simp
  obtain ctx1 ctx2 where 1: "aead_cipher_encrypt L ctx c off 18 (hdr m) [] (cx_nonce ctx) (cx_skey ctx) = Inr (0, ctx1, ?c1, 18)"
    "bump_nonce L ctx1 = Inr ctx2" "at_nonce L ctx2 k (Suc (2 * j))" "same_session ctx ctx2"
    using seal_and_bump [OF assms(1,2), of off "hdr m" c 18] assms(5) by auto
  have lc: "length ?c1 = length c"
    using lh assms(5) by simp
  then have room: "off + 18 + length m + 16 \<le> length ?c1"
    using assms(5) by simp
  have cxc: "cx_cipher ctx2 = cx_cipher ctx"
    using 1(4) by (simp add: same_session_def)
  obtain ctx3 ctx4 where 2: "aead_cipher_encrypt L ctx2 ?c1 (off + 18) (length m + 16) m [] (cx_nonce ctx2) (cx_skey ctx2) =
      Inr (0, ctx3, take (off + 18) ?c1 @ seal_at S (cx_cipher ctx) k (Suc (2 * j)) m @ drop (off + 18 + (length m + 16)) ?c1, length m + 16)"
    "bump_nonce L ctx3 = Inr ctx4" "at_nonce L ctx4 k (Suc (Suc (2 * j)))" "same_session ctx2 ctx4"
    by (rule seal_and_bump [OF assms(1) 1(3) room, of "length m + 16", unfolded cxc]) (rule that; assumption)
  have blk: "take (off + 18) ?c1 @ seal_at S (cx_cipher ctx) k (Suc (2 * j)) m @ drop (off + 18 + (length m + 16)) ?c1 =
      take off c @ frame S (cx_cipher ctx) k j m @ drop (off + (length m + 34)) c"
  proof -
    have "length (take off c) = off"
      using assms(5) by simp
    with lh show ?thesis
      by (simp add: frame_def add.commute add.left_commute)
  qed
  have rm: "read_mem p 0 (length m) = Inr m"
  proof -
    have "length m \<le> length p"
      using arg_cong [OF assms(4), of length] by simp
    with assms(4) show ?thesis by (simp add: read_mem_def)
  qed
  have "aead_chunk_encrypt L ctx p c off (of_nat (length m)) =
      Inr (CRYPTO_OK, ctx4, take off c @ frame S (cx_cipher ctx) k j m @ drop (off + (length m + 34)) c)"
    using 1(1,2) 2(1,2) m tl rm unfolding blk
    by (simp add: aead_chunk_encrypt_def Let_def hdr_def [symmetric] add.assoc
        add.commute [of off 18] del: of_nat_numeral)
  then show ?thesis
    by (rule that) (use 2(3,4) 1(4) in \<open>auto intro: same_session_trans\<close>)
qed

section \<open>Sending\<close>

text \<open>A sender's context before and after its first call.\<close>

definition sending ::
  "crypto_lib \<Rightarrow> (bytes \<Rightarrow> bytes \<Rightarrow> bytes) \<Rightarrow> cipher_t \<Rightarrow> bytes \<Rightarrow> cipher_ctx_t \<Rightarrow> nat \<Rightarrow> bool" where
  "sending L HM c salt ctx j \<longleftrightarrow> cx_cipher ctx = c \<and> wf_cipher c \<and> length (cx_salt ctx) = MAX_KEY_LENGTH \<and>
     take (ci_key_len c) (cx_salt ctx) = salt \<and>
     (if cx_init ctx = 0 then j = 0 \<and> unkeyed L ctx else at_nonce L ctx (subkey HM c salt) (2 * j))"

lemma sending_init:
  assumes "lib_laws L HM S" and "wf_cipher c" and "wf_world w"
  shows "\<exists>ctx w'. aead_ctx_init L w c 1 = Inr (ctx, w') \<and> wf_world w' \<and>
    sending L HM c (randombytes_buf L (w_draws w) (ci_key_len c)) ctx 0 \<and> cx_init ctx = 0"
proof -
  obtain ctx where "aead_ctx_init L w c 1 = Inr (ctx, w\<lparr>w_draws := Suc (w_draws w)\<rparr>)" "unkeyed L ctx"
    "cx_cipher ctx = c" "cx_init ctx = 0"
    "take (ci_key_len c) (cx_salt ctx) = randombytes_buf L (w_draws w) (ci_key_len c)"
    using aead_ctx_init_enc [OF assms(1,2), of 1 w] by auto
  then show ?thesis
    using wf_world_upd_draws [OF assms(3)] assms(2) by (simp add: sending_def unkeyed_def wf_ctx_def)
qed

text \<open>Before the first frame the salt is written, the subkey derived and the salt recorded.\<close>

lemma aead_encrypt_prepare:
  assumes "lib_laws L HM S" and "sending L HM c salt ctx j" and "wf_world w"
    and "ci_key_len c \<le> length d"
  obtains d' ctx' pp where
    "(if cx_init ctx = 0 then
        bnd (memcpy d 0 (cx_salt ctx) 0 (ci_key_len c)) (\<lambda>d.
        bnd (aead_cipher_ctx_set_key L ctx 1) (\<lambda>ctx.
        bnd (ppbloom_add (w_pp w) (cx_salt ctx) (int (ci_key_len c))) (\<lambda>(_, pp). Inr (d, ctx\<lparr>cx_init := 1\<rparr>, pp))))
      else Inr (d, ctx, w_pp w)) = Inr (d', ctx', pp)"
    and "length d' = length d" and "take (if cx_init ctx = 0 then ci_key_len c else 0) d' = (if cx_init ctx = 0 then salt else [])"
    and "at_nonce L ctx' (subkey HM c salt) (2 * j)" and "cx_init ctx' \<noteq> 0" and "cx_cipher ctx' = c"
    and "cx_salt ctx' = cx_salt ctx" and "wf_pp pp"
proof (cases "cx_init ctx = 0")
  case False
  show ?thesis
    by (rule that) (use False assms(2) wf_world_pp [OF assms(3)] in \<open>simp_all add: sending_def\<close>)
next
  case True
  have snd: "cx_cipher ctx = c" "wf_cipher c" "length (cx_salt ctx) = 64" "take (ci_key_len c) (cx_salt ctx) = salt"
    "j = 0" "unkeyed L ctx"
    using assms(2) True by (simp_all add: sending_def)
  have n: "ci_key_len c \<le> 64"
    using wf_cipher_sizes(3) [OF snd(2)] by simp
  obtain ctx1 where ctx1: "aead_cipher_ctx_set_key L ctx 1 = Inr ctx1" "at_nonce L ctx1 (subkey HM c salt) 0"
    "cx_cipher ctx1 = c" "cx_salt ctx1 = cx_salt ctx"
    using set_key_session [OF assms(1) snd(6,1,4) enc_ok(2)] by metis
  obtain pp where pp: "ppbloom_add (w_pp w) (cx_salt ctx) (int (ci_key_len c)) = Inr (0, pp)" "recorded w pp salt"
    using salt_add [OF assms(3), of "ci_key_len c" "cx_salt ctx"] snd(3,4) n by auto
  have cp: "memcpy d 0 (cx_salt ctx) 0 (ci_key_len c) = Inr (salt @ drop (ci_key_len c) d)"
    using snd(3,4) n assms(4) by (simp add: mem_simps)
  have ls: "length salt = ci_key_len c"
    using snd(3,4) n by auto
  show ?thesis
    by (rule that [of "salt @ drop (ci_key_len c) d" "ctx1\<lparr>cx_init := 1\<rparr>" pp])
      (use True cp ctx1 pp(1) recorded_wf [OF pp(2)] snd(5) ls assms(4) in \<open>simp_all add: at_nonce_upd(2)\<close>)
qed

lemma aead_encrypt_ok:
  assumes "lib_laws L HM S" and "sending L HM c salt ctx j" and "wf_world w" and "wf_buffer b"
    and "payload_ok (contents b)"
  shows "\<exists>b' ctx' w'. aead_encrypt L w b (Some ctx) cap = Inr (0, b', Some ctx', w') \<and> wf_buffer b' \<and>
    contents b' = (if cx_init ctx = 0 then salt else []) @ frame S c (subkey HM c salt) j (contents b) \<and>
    sending L HM c salt ctx' (Suc j) \<and> cx_init ctx' \<noteq> 0 \<and> wf_world w'"
proof -
  let ?n = "ci_key_len c" and ?k = "subkey HM c salt" and ?m = "contents b" and ?t = Tmp_aead_encrypt
  let ?off = "if cx_init ctx = 0 then ?n else 0"
  let ?pre = "if cx_init ctx = 0 then salt else []"
  let ?fr = "frame S c ?k j ?m" and ?out = "?off + 2 * 16 + b_len b + 2"
  note h = lib_lawsD(1) [OF assms(1)]
  have c: "cx_cipher ctx = c" "wf_cipher c" "length (cx_salt ctx) = 64" "take ?n (cx_salt ctx) = salt"
    using assms(2) by (simp_all add: sending_def)
  note sz = wf_cipher_sizes [OF c(2)]
  have lm: "length ?m = b_len b" "b_len b \<noteq> 0" "take (length ?m) (b_data b) = ?m"
    using assms(4,5) by (auto simp: payload_ok_def contents_def wf_bufferD)
  obtain tmp where tmp: "brealloc (lib_heap L) (w_tmp w ?t) ?out cap = Inr tmp" "wf_block tmp" "max ?out cap \<le> b_cap tmp"
    using brealloc_ok [OF h wf_world_tmp [OF assms(3)]] by metis
  have lt: "length (b_data tmp) = b_cap tmp" "?out \<le> b_cap tmp"
    using tmp(2,3) by (simp_all add: wf_block_def)
  obtain d ctx1 pp where prep: "(if cx_init ctx = 0 then
        bnd (memcpy (b_data tmp) 0 (cx_salt ctx) 0 ?n) (\<lambda>d.
        bnd (aead_cipher_ctx_set_key L ctx 1) (\<lambda>ctx.
        bnd (ppbloom_add (w_pp w) (cx_salt ctx) (int ?n)) (\<lambda>(_, pp). Inr (d, ctx\<lparr>cx_init := 1\<rparr>, pp))))
      else Inr (b_data tmp, ctx, w_pp w)) = Inr (d, ctx1, pp)"
    and d: "length d = length (b_data tmp)" "take ?off d = ?pre"
    and ctx1: "at_nonce L ctx1 ?k (2 * j)" "cx_init ctx1 \<noteq> 0" "cx_cipher ctx1 = c" "cx_salt ctx1 = cx_salt ctx"
    and pp: "wf_pp pp"
    by (rule aead_encrypt_prepare [OF assms(1-3), of "b_data tmp"]) (use lt lm(2) sz(3) in auto)
  have room: "?off + length ?m + 34 \<le> length d"
    using d(1) lt lm(1) by simp
  obtain ctx2 where enc: "aead_chunk_encrypt L ctx1 (b_data b) d ?off (of_nat (b_len b)) =
      Inr (CRYPTO_OK, ctx2, ?pre @ ?fr @ drop (?off + (b_len b + 34)) d)"
    and ctx2: "at_nonce L ctx2 ?k (2 * Suc j)" "same_session ctx1 ctx2"
    by (rule aead_chunk_encrypt_ok [OF assms(1) ctx1(1) assms(5) lm(3) room, unfolded lm(1) ctx1(3) d(2)])
      (rule that; assumption)
  let ?d2 = "?pre @ ?fr @ drop (?off + (b_len b + 34)) d"
  have lf: "length ?fr = b_len b + 34" "length ?pre = ?off"
    using frame_length [OF lib_lawsD(4) [OF assms(1)]] lm(1) c(3,4) sz(3) by auto
  obtain b' where b': "buf_assign (lib_heap L) b ?d2 ?out cap = Inr b'" "wf_buffer b'" "contents b' = take ?out ?d2"
    using buf_assign_ok [OF h wf_buffer_block [OF assms(4)], of ?out ?d2 cap] lf by auto
  let ?w = "put_tmp ?t (tmp\<lparr>b_len := ?out, b_data := ?d2\<rparr>) (w\<lparr>w_pp := pp\<rparr>)"
  have "aead_encrypt L w b (Some ctx) cap = Inr (0, b', Some ctx2, ?w)"
    using lm(2) c(1) sz(1) tmp(1) prep enc b'(1) by (cases "cx_init ctx = 0") (simp_all add: aead_encrypt_def Let_def)
  moreover have "contents b' = ?pre @ ?fr"
    using b'(3) lf by simp
  moreover have "wf_world ?w"
    using assms(3) pp lt d(1) lf by (auto simp: wf_world_def put_tmp_def wf_block_def)
  moreover have "sending L HM c salt ctx2 (Suc j)" "cx_init ctx2 \<noteq> 0"
    using ctx1 ctx2 c by (simp_all add: sending_def same_session_def)
  ultimately show ?thesis
    using b'(2) by blast
qed

text \<open>A sequence of calls on one connection.\<close>

fun send_all ::
  "crypto_lib \<Rightarrow> world \<Rightarrow> cipher_ctx_t \<Rightarrow> nat \<Rightarrow> buffer_t list \<Rightarrow> (bytes \<times> cipher_ctx_t \<times> world) res" where
  "send_all L w ctx cap [] = Inr ([], ctx, w)"
| "send_all L w ctx cap (b # bs) =
     bnd (aead_encrypt L w b (Some ctx) cap) (\<lambda>(e, b', ctx', w').
       if e \<noteq> 0 then Inl UB
       else case ctx' of None \<Rightarrow> Inl UB
       | Some ctx' \<Rightarrow> bnd (send_all L w' ctx' cap bs) (\<lambda>(out, r). Inr (contents b' @ out, r)))"

lemma send_all_wire:
  assumes "lib_laws L HM S" and "sending L HM c salt ctx j" and "wf_world w"
    and "\<forall>b\<in>set bs. wf_buffer b \<and> payload_ok (contents b)"
  shows "\<exists>ctx' w'. send_all L w ctx cap bs = Inr ((if cx_init ctx = 0 \<and> bs \<noteq> [] then salt else []) @
      wire S c (subkey HM c salt) j (map contents bs), ctx', w') \<and>
    sending L HM c salt ctx' (j + length bs) \<and> wf_world w'"
  using assms(2-4)
proof (induction bs arbitrary: ctx j w)
  case (Cons b bs)
  obtain b' ctx1 w1 where 1: "aead_encrypt L w b (Some ctx) cap = Inr (0, b', Some ctx1, w1)"
    "contents b' = (if cx_init ctx = 0 then salt else []) @ frame S c (subkey HM c salt) j (contents b)"
    "sending L HM c salt ctx1 (Suc j)" "cx_init ctx1 \<noteq> 0" "wf_world w1"
    using aead_encrypt_ok [OF assms(1) Cons.prems(1,2), of b cap] Cons.prems(3) by auto
  from Cons.IH [OF 1(3,5)] Cons.prems(3) 1 show ?case by auto
qed simp

end
