(* ===== verification/SS_AeadRecv.thy ===== *)
theory SS_AeadRecv
  imports SS_AeadStream
begin

text \<open>
  The receiving side of the chunked stream: what one \<^verbatim>\<open>aead_chunk_decrypt\<close>, the loop of \<^verbatim>\<open>aead_decrypt\<close> and a
  whole call do, first on arbitrary input (the call returns, stays in its buffers, and accepts only
  genuine frames), then on the bytes of an honest sender cut at arbitrary positions.
\<close>

section \<open>One chunk\<close>

lemma open_at:
  assumes "lib_laws L HM S" and "at_nonce L ctx k i" and "16 \<le> length c" and "off + length c \<le> length p + 16"
  obtains
    (good) m ctx' where "c = seal_at S (cx_cipher ctx) k i m"
      and "aead_cipher_decrypt L ctx p off plen c [] (cx_nonce ctx) (cx_skey ctx) =
        Inr (0, ctx', take off p @ m @ drop (off + length m) p, length m)"
      and "at_nonce L ctx' k i" and "same_session ctx ctx'"
  | (bad) ctx' p' plen' where "\<nexists>m. c = seal_at S (cx_cipher ctx) k i m"
      and "aead_cipher_decrypt L ctx p off plen c [] (cx_nonce ctx) (cx_skey ctx) = Inr (CRYPTO_ERROR, ctx', p', plen')"
      and "at_nonce L ctx' k i" and "same_session ctx ctx'" and "length p' = length p"
proof -
  note dec = aead_cipher_decrypt_keyed [OF lib_lawsD(4) [OF assms(1)] at_nonce_keyed [OF assms(2)] assms(3,4), of plen,
      unfolded box_of_at [OF assms(2)]]
  note at = at_nonce_upd(1) [OF assms(2)]
  from dec show ?thesis
  proof (elim disjE exE conjE)
    fix m e
    assume "c = seal_at S (cx_cipher ctx) k i m" "keyed L (ctx\<lparr>cx_evp := e\<rparr>) k"
      "aead_cipher_decrypt L ctx p off plen c [] (cx_nonce ctx) (cx_skey ctx) =
        Inr (0, ctx\<lparr>cx_evp := e\<rparr>, take off p @ m @ drop (off + length m) p, length m)"
    then show ?thesis
      using at by (intro good [of m "ctx\<lparr>cx_evp := e\<rparr>"]) simp_all
  next
    fix e p' plen'
    assume "\<nexists>m. c = seal_at S (cx_cipher ctx) k i m" "keyed L (ctx\<lparr>cx_evp := e\<rparr>) k" "length p' = length p"
      "aead_cipher_decrypt L ctx p off plen c [] (cx_nonce ctx) (cx_skey ctx) = Inr (CRYPTO_ERROR, ctx\<lparr>cx_evp := e\<rparr>, p', plen')"
    then show ?thesis
      using at by (intro bad [of "ctx\<lparr>cx_evp := e\<rparr>" p' plen']) simp_all
  qed
qed

text \<open>The bytes a chunk call looks at, and when they start with a header or with a whole frame.\<close>

definition header_at :: "aead_spec \<Rightarrow> cipher_t \<Rightarrow> bytes \<Rightarrow> nat \<Rightarrow> bytes \<Rightarrow> bytes \<Rightarrow> bool" where
  "header_at S c k i D h \<longleftrightarrow> length h = 2 \<and> take 18 D = seal_at S c k i h"

definition frame_at :: "aead_spec \<Rightarrow> cipher_t \<Rightarrow> bytes \<Rightarrow> nat \<Rightarrow> bytes \<Rightarrow> bytes \<Rightarrow> bool" where
  "frame_at S c k i D m \<longleftrightarrow> m \<noteq> [] \<and> length m + 34 \<le> length D \<and>
     (\<exists>h. header_at S c k i D h \<and> hdr_len h = length m) \<and>
     take (length m + 16) (drop 18 D) = seal_at S c k (Suc i) m"

definition chunk_result ::
  "crypto_lib \<Rightarrow> aead_spec \<Rightarrow> cipher_ctx_t \<Rightarrow> bytes \<Rightarrow> nat \<Rightarrow> bytes \<Rightarrow> bytes \<Rightarrow> nat
   \<Rightarrow> int \<times> cipher_ctx_t \<times> bytes \<times> nat \<times> nat \<Rightarrow> bool" where
  "chunk_result L S ctx k i D p poff r \<longleftrightarrow>
     (let (e, ctx', p', plen', clen') = r; c = cx_cipher ctx in
      same_session ctx ctx' \<and> length p' = length p \<and> keyed L ctx' k \<and>
      (if length D \<le> 34 \<or> (\<exists>h. header_at S c k i D h \<and> 0 < hdr_len h \<and> length D < hdr_len h + 34)
       then e = CRYPTO_NEED_MORE \<and> at_nonce L ctx' k i \<and> p' = p \<and> clen' = length D
       else if \<exists>m. frame_at S c k i D m
       then e = CRYPTO_OK \<and> at_nonce L ctx' k (Suc (Suc i)) \<and> frame_at S c k i D (take plen' (drop poff p')) \<and>
         p' = take poff p @ take plen' (drop poff p') @ drop (poff + plen') p \<and>
         plen' + 34 \<le> length D \<and> clen' = length D - (plen' + 34)
       else e = CRYPTO_ERROR))"

lemma header_unique:
  assumes "aead_laws L S" and "at_nonce L ctx k i" and "header_at S (cx_cipher ctx) k i D h"
    and "header_at S (cx_cipher ctx) k i D h'"
  shows "h = h'"
  using assms(3,4) box_inj [OF assms(1) at_nonce_keyed [OF assms(2)]] box_of_at [OF assms(2)]
  by (simp add: header_at_def)

text \<open>The second half of \<^verbatim>\<open>aead_chunk_decrypt\<close>, once the payload length \<open>n\<close> is known and the payload is there.\<close>

definition chunk_payload ::
  "crypto_lib \<Rightarrow> cipher_ctx_t \<Rightarrow> bytes \<Rightarrow> nat \<Rightarrow> bytes \<Rightarrow> nat \<Rightarrow> nat \<Rightarrow> nat \<Rightarrow> nat
   \<Rightarrow> (int \<times> cipher_ctx_t \<times> bytes \<times> nat \<times> nat) res" where
  "chunk_payload L ctx p poff c coff plen clen n =
     bnd (bump_nonce L ctx) (\<lambda>ctx.
     bnd (read_mem c (coff + 18) (n + 16)) (\<lambda>m.
     bnd (aead_cipher_decrypt L ctx p poff plen m [] (cx_nonce ctx) (cx_skey ctx)) (\<lambda>(err, ctx, p, plen).
       if err \<noteq> 0 then Inr (CRYPTO_ERROR, ctx, p, plen, clen)
       else assertc (plen = n)
         (bnd (bump_nonce L ctx) (\<lambda>ctx. Inr (CRYPTO_OK, ctx, p, plen, clen - (34 + n)))))))"

lemma chunk_payload_cases:
  assumes "lib_laws L HM S" and "at_nonce L ctx k i" and "coff + 34 + n \<le> length c" and "poff + n \<le> length p"
  shows "\<exists>e ctx' p' plen' clen'. chunk_payload L ctx p poff c coff plen clen n = Inr (e, ctx', p', plen', clen') \<and>
    same_session ctx ctx' \<and> length p' = length p \<and> keyed L ctx' k \<and>
    (let P = take (n + 16) (drop (coff + 18) c) in
     (\<exists>m. P = seal_at S (cx_cipher ctx) k (Suc i) m \<and> length m = n \<and> e = CRYPTO_OK \<and> at_nonce L ctx' k (Suc (Suc i)) \<and>
        p' = take poff p @ m @ drop (poff + n) p \<and> plen' = n \<and> clen' = clen - (n + 34)) \<or>
     ((\<nexists>m. P = seal_at S (cx_cipher ctx) k (Suc i) m) \<and> e = CRYPTO_ERROR))"
proof -
  let ?P = "take (n + 16) (drop (coff + 18) c)"
  obtain nn where b1: "bump_nonce L ctx = Inr (ctx\<lparr>cx_nonce := nn\<rparr>)" "at_nonce L (ctx\<lparr>cx_nonce := nn\<rparr>) k (Suc i)"
    using bump_nonce_ok [OF lib_lawsD(3) [OF assms(1)] assms(2)] by blast
  let ?ctx = "ctx\<lparr>cx_nonce := nn\<rparr>"
  have cc: "cx_cipher ?ctx = cx_cipher ctx" and ss: "same_session ctx ctx' \<longleftrightarrow> same_session ?ctx ctx'" for ctx'
    by (simp_all add: same_session_def)
  have rm: "read_mem c (coff + 18) (n + 16) = Inr ?P" and lP: "length ?P = n + 16"
    using assms(3) by (simp_all add: mem_simps)
  have room: "16 \<le> length ?P" "poff + length ?P \<le> length p + 16"
    using lP assms(4) by simp_all
  from assms(1) b1(2) room show ?thesis
  proof (cases rule: open_at [where plen = plen])
    case (good m ctx1)
    have lm: "length m = n"
      using arg_cong [OF good(1), of length] lP seal_length [OF lib_lawsD(4) [OF assms(1)]] by simp
    obtain n2 where b2: "bump_nonce L ctx1 = Inr (ctx1\<lparr>cx_nonce := n2\<rparr>)" "at_nonce L (ctx1\<lparr>cx_nonce := n2\<rparr>) k (Suc (Suc i))"
      using bump_nonce_ok [OF lib_lawsD(3) [OF assms(1)] good(3)] by blast
    have "chunk_payload L ctx p poff c coff plen clen n =
        Inr (CRYPTO_OK, ctx1\<lparr>cx_nonce := n2\<rparr>, take poff p @ m @ drop (poff + n) p, n, clen - (n + 34))"
      using b1(1) rm good(2) lm b2(1) by (simp add: chunk_payload_def add.commute [of 34])
    then show ?thesis
      using good(1,4) ss b2(2) lm assms(4) cc at_nonce_keyed [OF b2(2)] by (auto simp: Let_def)
  next
    case (bad ctx1 p1 plen1)
    have "chunk_payload L ctx p poff c coff plen clen n = Inr (CRYPTO_ERROR, ctx1, p1, plen1, clen)"
      using b1(1) rm bad(2) by (simp add: chunk_payload_def)
    then show ?thesis
      using bad(1,4,5) ss cc at_nonce_keyed [OF bad(3)] by (auto simp: Let_def)
  qed
qed

text \<open>The first half, by what the header turns out to be.\<close>

lemma aead_chunk_decrypt_header:
  assumes "lib_laws L HM S" and "at_nonce L ctx k i" and "coff + clen \<le> length c" and "34 < clen"
    and "D = take clen (drop coff c)"
  obtains
    (none) ctx' plen' where "\<nexists>h. header_at S (cx_cipher ctx) k i D h"
      and "aead_chunk_decrypt L ctx p poff c coff plen clen = Inr (CRYPTO_ERROR, ctx', p, plen', clen)"
      and "at_nonce L ctx' k i" and "same_session ctx ctx'"
  | (header) h ctx' where "header_at S (cx_cipher ctx) k i D h" and "at_nonce L ctx' k i" and "same_session ctx ctx'"
      and "aead_chunk_decrypt L ctx p poff c coff plen clen =
        (if hdr_len h = 0 then Inr (CRYPTO_ERROR, ctx', p, 2, clen)
         else if clen < hdr_len h + 34 then Inr (CRYPTO_NEED_MORE, ctx', p, 2, clen)
         else chunk_payload L ctx' p poff c coff 2 clen (hdr_len h))"
proof -
  have tl: "ci_tag_len (cx_cipher ctx) = 16"
    using keyed_key(6) [OF at_nonce_keyed [OF assms(2)]] by (rule wf_cipher_sizes)
  have rm: "read_mem c coff 18 = Inr (take 18 D)" and lD: "length (take 18 D) = 18"
    using assms(3,4,5) by (simp_all add: mem_simps take_take_le)
  have room: "16 \<le> length (take 18 D)" "0 + length (take 18 D) \<le> length (fresh (lib_heap L) 2) + 16"
    using lD by simp_all
  from assms(1,2) room show ?thesis
  proof (cases rule: open_at [where plen = plen])
    case (good h ctx1)
    have lh: "length h = 2"
      using arg_cong [OF good(1), of length] lD seal_length [OF lib_lawsD(4) [OF assms(1)]] by simp
    then obtain v where v: "load16_be h = Inr v"
      using load16_be_ok by blast
    have c1: "cx_cipher ctx1 = cx_cipher ctx"
      using good(4) by (simp add: same_session_def)
    show ?thesis
      by (rule header [of h ctx1])
        (use good lh v rm tl assms(4) in \<open>simp_all add: header_at_def aead_chunk_decrypt_def chunk_payload_def
          Let_def hdr_len_def add.commute\<close>)
  next
    case (bad ctx1 p1 plen1)
    show ?thesis
      by (rule none [of ctx1 plen1])
        (use bad rm tl assms(4) in \<open>simp_all add: header_at_def aead_chunk_decrypt_def Let_def\<close>)
  qed
qed

text \<open>The whole call, as \<open>chunk_result\<close> says: first a complete frame, then all the other cases.\<close>

lemma chunk_payload_result:
  assumes "lib_laws L HM S" and "at_nonce L ctx' k i" and "same_session ctx ctx'"
    and "coff + clen \<le> length c" and "poff + clen \<le> length p" and D: "D = take clen (drop coff c)"
    and uniq: "\<And>h'. header_at S (cx_cipher ctx) k i D h' \<longleftrightarrow> h' = h"
    and full: "0 < hdr_len h" "hdr_len h + 34 \<le> clen"
  shows "\<exists>r. chunk_payload L ctx' p poff c coff 2 clen (hdr_len h) = Inr r \<and> chunk_result L S ctx k i D p poff r"
proof -
  let ?n = "hdr_len h" and ?c = "cx_cipher ctx"
  have lD: "length D = clen"
    using D assms(4) by simp
  have fr: "frame_at S ?c k i D m \<longleftrightarrow> ?n = length m \<and> take (?n + 16) (drop 18 D) = seal_at S ?c k (Suc i) m" for m
    using full by (auto simp: frame_at_def uniq lD)
  have nm: "\<not> (length D \<le> 34 \<or> (\<exists>h. header_at S ?c k i D h \<and> 0 < hdr_len h \<and> length D < hdr_len h + 34))"
    using full lD by (simp add: uniq)
  have P: "take (?n + 16) (drop (coff + 18) c) = take (?n + 16) (drop 18 D)"
    using full D by (simp add: drop_take min_def add.commute)
  have c': "cx_cipher ctx' = ?c"
    using assms(3) by (simp add: same_session_def)
  obtain e ctx'' p' plen' clen' where r: "chunk_payload L ctx' p poff c coff 2 clen ?n = Inr (e, ctx'', p', plen', clen')"
    "same_session ctx' ctx''" "length p' = length p" "keyed L ctx'' k"
    and alt: "(\<exists>m. take (?n + 16) (drop 18 D) = seal_at S ?c k (Suc i) m \<and> length m = ?n \<and> e = CRYPTO_OK \<and>
        at_nonce L ctx'' k (Suc (Suc i)) \<and> p' = take poff p @ m @ drop (poff + ?n) p \<and> plen' = ?n \<and> clen' = clen - (?n + 34)) \<or>
      ((\<nexists>m. take (?n + 16) (drop 18 D) = seal_at S ?c k (Suc i) m) \<and> e = CRYPTO_ERROR)"
    using chunk_payload_cases [OF assms(1,2), of coff ?n c poff p 2 clen] full assms(4,5)
    unfolding P Let_def c' by auto
  have ss: "same_session ctx ctx''"
    using assms(3) r(2) by (rule same_session_trans)
  have "chunk_result L S ctx k i D p poff (e, ctx'', p', plen', clen')"
    using alt
  proof (elim disjE exE conjE)
    fix m
    assume m: "take (?n + 16) (drop 18 D) = seal_at S ?c k (Suc i) m" "length m = ?n" "e = CRYPTO_OK"
      "at_nonce L ctx'' k (Suc (Suc i))" "p' = take poff p @ m @ drop (poff + ?n) p" "plen' = ?n" "clen' = clen - (?n + 34)"
    have "take plen' (drop poff p') = m" "frame_at S ?c k i D m"
      using m(1,2,5,6) assms(5) full by (simp_all add: fr)
    then show ?thesis
      using nm ss r(3,4) m full lD unfolding chunk_result_def by auto
  next
    assume "\<nexists>m. take (?n + 16) (drop 18 D) = seal_at S ?c k (Suc i) m" "e = CRYPTO_ERROR"
    then show ?thesis
      using nm ss r(3,4) fr unfolding chunk_result_def by auto
  qed
  with r(1) show ?thesis by blast
qed

lemma aead_chunk_decrypt_result:
  assumes "lib_laws L HM S" and "at_nonce L ctx k i" and "coff + clen \<le> length c" and "poff + clen \<le> length p"
    and D: "D = take clen (drop coff c)"
  shows "\<exists>r. aead_chunk_decrypt L ctx p poff c coff plen clen = Inr r \<and> chunk_result L S ctx k i D p poff r"
proof (cases "34 < clen")
  case False
  have "ci_tag_len (cx_cipher ctx) = 16"
    using keyed_key(6) [OF at_nonce_keyed [OF assms(2)]] by (rule wf_cipher_sizes)
  then have "aead_chunk_decrypt L ctx p poff c coff plen clen = Inr (CRYPTO_NEED_MORE, ctx, p, plen, clen)"
    using False by (simp add: aead_chunk_decrypt_def)
  then show ?thesis
    using False assms(2,3) D at_nonce_keyed [OF assms(2)] by (simp add: chunk_result_def)
next
  case True
  have lD: "length D = clen"
    using D assms(3) by simp
  from assms(1-3) True D show ?thesis
  proof (cases rule: aead_chunk_decrypt_header [where p = p and poff = poff and plen = plen])
    case (none ctx' plen')
    then have "chunk_result L S ctx k i D p poff (CRYPTO_ERROR, ctx', p, plen', clen)"
      using True lD at_nonce_keyed [OF none(3)] by (auto simp: chunk_result_def frame_at_def)
    with none(2) show ?thesis by blast
  next
    case (header h ctx')
    have uniq: "header_at S (cx_cipher ctx) k i D h' \<longleftrightarrow> h' = h" for h'
      using header_unique [OF lib_lawsD(4) [OF assms(1)] assms(2)] header(1) by blast
    note kd = at_nonce_keyed [OF header(2)]
    consider (zero) "hdr_len h = 0" | (more) "0 < hdr_len h" "clen < hdr_len h + 34"
      | (full) "0 < hdr_len h" "hdr_len h + 34 \<le> clen" by linarith
    then show ?thesis
    proof cases
      case zero
      then have "chunk_result L S ctx k i D p poff (CRYPTO_ERROR, ctx', p, 2, clen)"
        using header(3) kd True lD by (auto simp: chunk_result_def frame_at_def uniq)
      with zero header(4) show ?thesis by auto
    next
      case more
      then have "chunk_result L S ctx k i D p poff (CRYPTO_NEED_MORE, ctx', p, 2, clen)"
        using header(2,3) kd True lD by (auto simp: chunk_result_def uniq)
      with more header(4) show ?thesis by auto
    next
      case full
      then show ?thesis
        using chunk_payload_result [OF assms(1) header(2,3) assms(3,4) D uniq full] header(4) by simp
    qed
  qed
qed

section \<open>The loop\<close>

text \<open>Which frames a byte string starts with, what is left over, and whether more input can help.\<close>

definition waiting :: "aead_spec \<Rightarrow> cipher_t \<Rightarrow> bytes \<Rightarrow> nat \<Rightarrow> bytes \<Rightarrow> bool" where
  "waiting S c k i D \<longleftrightarrow>
     length D \<le> 34 \<or> (\<exists>h. header_at S c k i D h \<and> 0 < hdr_len h \<and> length D < hdr_len h + 34)"

inductive unframe :: "aead_spec \<Rightarrow> cipher_t \<Rightarrow> bytes \<Rightarrow> nat \<Rightarrow> bytes \<Rightarrow> bytes list \<Rightarrow> bytes \<Rightarrow> int \<Rightarrow> bool"
  for S c k where
  unframe_done: "unframe S c k i [] [] [] CRYPTO_OK"
| unframe_wait: "D \<noteq> [] \<Longrightarrow> waiting S c k i D \<Longrightarrow> unframe S c k i D [] D CRYPTO_NEED_MORE"
| unframe_bad: "\<not> waiting S c k i D \<Longrightarrow> (\<nexists>m. frame_at S c k i D m) \<Longrightarrow> unframe S c k i D [] D CRYPTO_ERROR"
| unframe_step: "\<not> waiting S c k i D \<Longrightarrow> frame_at S c k i D m \<Longrightarrow>
     unframe S c k (Suc (Suc i)) (drop (length m + 34) D) ms rest st \<Longrightarrow> unframe S c k i D (m # ms) rest st"

definition loop_result ::
  "crypto_lib \<Rightarrow> aead_spec \<Rightarrow> cipher_ctx_t \<Rightarrow> bytes \<Rightarrow> nat \<Rightarrow> bytes \<Rightarrow> buffer_t \<Rightarrow> bytes \<Rightarrow> nat
   \<Rightarrow> int option \<times> cipher_ctx_t \<times> buffer_t \<times> bytes \<times> nat \<Rightarrow> bytes list \<Rightarrow> bytes \<Rightarrow> int \<Rightarrow> bool" where
  "loop_result L S ctx k i D ch d plen r ms rest st \<longleftrightarrow>
     (let (early, ctx', ch', d', plen') = r in
      unframe S (cx_cipher ctx) k i D ms rest st \<and> same_session ctx ctx' \<and> keyed L ctx' k \<and>
      length (b_data ch') = length (b_data ch) \<and> b_cap ch' = b_cap ch \<and> b_len ch' \<le> b_len ch \<and>
      length d' = length d \<and> plen' = plen + length (concat ms) \<and> plen' \<le> length d \<and>
      early = (if st = CRYPTO_ERROR \<or> st = CRYPTO_NEED_MORE \<and> plen' = 0 then Some st else None) \<and>
      (st \<noteq> CRYPTO_ERROR \<longrightarrow> at_nonce L ctx' k (i + 2 * length ms) \<and> contents ch' = rest \<and>
         b_len ch' = length rest \<and> take plen' d' = take plen d @ concat ms))"

lemma unframe_bounds: "unframe S c k i D ms rest st \<Longrightarrow> length (concat ms) + length rest \<le> length D"
  by (induction rule: unframe.induct) (auto simp: frame_at_def)

text \<open>One turn of the loop, case by case.\<close>

lemma loop_stop:
  assumes "aead_chunk_decrypt L ctx d plen (b_data ch) cidx 0 (b_len ch) = Inr (e, ctx', d', plen', clen')"
    and "0 < b_len ch" and "e = CRYPTO_ERROR \<or> e = CRYPTO_NEED_MORE"
  shows "aead_decrypt_loop L ctx ch d plen cidx =
    (if e = CRYPTO_ERROR \<or> plen = 0 then Inr (Some e, ctx', ch, d', plen)
     else bnd (memmove (b_data ch) 0 cidx clen') (\<lambda>b. Inr (None, ctx', ch\<lparr>b_data := b\<rparr>, d', plen)))"
  using assms by (subst aead_decrypt_loop.simps) auto

lemma loop_next:
  assumes "aead_chunk_decrypt L ctx d plen (b_data ch) cidx 0 (b_len ch) = Inr (CRYPTO_OK, ctx', d', n, clen')"
    and "0 < b_len ch" and "ci_tag_len (cx_cipher ctx') = 16"
  shows "aead_decrypt_loop L ctx ch d plen cidx =
    aead_decrypt_loop L ctx' (ch\<lparr>b_len := clen'\<rparr>) d' (plen + n) (cidx + (n + 34))"
  using assms by (subst aead_decrypt_loop.simps) (simp add: ac_simps)

lemma loop_result_step:
  assumes "\<not> waiting S (cx_cipher ctx) k i D" and "frame_at S (cx_cipher ctx) k i D m"
    and "loop_result L S ctx1 k (Suc (Suc i)) (drop (length m + 34) D) ch1 d1 (plen + length m) r ms rest st"
    and "same_session ctx ctx1" and "b_data ch1 = b_data ch" and "b_cap ch1 = b_cap ch" and "b_len ch1 \<le> b_len ch"
    and "d1 = take plen d @ m @ drop (plen + length m) d" and "plen + length m \<le> length d"
  shows "loop_result L S ctx k i D ch d plen r (m # ms) rest st"
proof -
  have c: "cx_cipher ctx1 = cx_cipher ctx"
    using assms(4) by (simp add: same_session_def)
  have "length d1 = length d" "take (plen + length m) d1 = take plen d @ m"
    using assms(8,9) by simp_all
  then show ?thesis
    using assms(3-7) unframe_step [OF assms(1,2)] c
    by (auto simp: loop_result_def Let_def intro: same_session_trans)
qed

lemma chunk_result_cases:
  assumes "chunk_result L S ctx k i D p poff (e, ctx', p', plen', clen')" and "poff + length D \<le> length p"
  obtains
    (wait) "e = CRYPTO_NEED_MORE" "waiting S (cx_cipher ctx) k i D" "at_nonce L ctx' k i" "p' = p" "clen' = length D"
      "same_session ctx ctx'"
  | (frame) m where "e = CRYPTO_OK" "\<not> waiting S (cx_cipher ctx) k i D" "frame_at S (cx_cipher ctx) k i D m"
      "at_nonce L ctx' k (Suc (Suc i))" "p' = take poff p @ m @ drop (poff + length m) p" "plen' = length m"
      "clen' = length D - (length m + 34)" "same_session ctx ctx'"
  | (bad) "e = CRYPTO_ERROR" "\<not> waiting S (cx_cipher ctx) k i D" "\<nexists>m. frame_at S (cx_cipher ctx) k i D m"
      "same_session ctx ctx'" "keyed L ctx' k" "length p' = length p"
proof -
  consider (w) "waiting S (cx_cipher ctx) k i D"
    | (f) m where "\<not> waiting S (cx_cipher ctx) k i D" "frame_at S (cx_cipher ctx) k i D m"
    | (b) "\<not> waiting S (cx_cipher ctx) k i D" "\<nexists>m. frame_at S (cx_cipher ctx) k i D m"
    by blast
  then show ?thesis
  proof cases
    case w
    then show ?thesis
      using assms(1) by (intro wait) (auto simp: chunk_result_def waiting_def)
  next
    case (f m)
    let ?m = "take plen' (drop poff p')"
    have r: "e = CRYPTO_OK" "frame_at S (cx_cipher ctx) k i D ?m" "at_nonce L ctx' k (Suc (Suc i))"
      "p' = take poff p @ ?m @ drop (poff + plen') p" "clen' = length D - (plen' + 34)" "same_session ctx ctx'"
      "length p' = length p" "plen' + 34 \<le> length D"
      using assms(1) f unfolding chunk_result_def Let_def waiting_def by (auto split: if_splits)
    have "length ?m = plen'"
      using r(7,8) assms(2) by simp
    then show ?thesis
      using r f by (intro frame [of ?m]) simp_all
  next
    case b
    then have "same_session ctx ctx' \<and> keyed L ctx' k \<and> length p' = length p \<and> e = CRYPTO_ERROR"
      using assms(1) unfolding chunk_result_def Let_def waiting_def by simp
    with b show ?thesis
      by (intro bad) simp_all
  qed
qed

lemma aead_decrypt_loop_result:
  assumes "lib_laws L HM S"
  shows "at_nonce L ctx k i \<Longrightarrow> cidx + b_len ch \<le> length (b_data ch) \<Longrightarrow> plen + b_len ch \<le> length d \<Longrightarrow>
    (plen = 0 \<longrightarrow> cidx = 0) \<Longrightarrow>
    \<exists>r ms rest st. aead_decrypt_loop L ctx ch d plen cidx = Inr r \<and>
      loop_result L S ctx k i (take (b_len ch) (drop cidx (b_data ch))) ch d plen r ms rest st"
proof (induction "b_len ch" arbitrary: ctx i ch d plen cidx rule: less_induct)
  case less
  note at = less.prems(1)
  let ?D = "take (b_len ch) (drop cidx (b_data ch))"
  have lD: "length ?D = b_len ch"
    using less.prems(2) by simp
  show ?case
  proof (cases "b_len ch = 0")
    case True
    then have "aead_decrypt_loop L ctx ch d plen cidx = Inr (None, ctx, ch, d, plen)"
      by (subst aead_decrypt_loop.simps) simp
    moreover have "loop_result L S ctx k i ?D ch d plen (None, ctx, ch, d, plen) [] [] CRYPTO_OK"
      using True at at_nonce_keyed [OF at] less.prems(3) unframe_done
      by (simp add: loop_result_def contents_def)
    ultimately show ?thesis by blast
  next
    case False
    then have pos: "0 < b_len ch" and Dne: "?D \<noteq> []"
      using lD by auto
    obtain e ctx' d' n clen' where ch: "aead_chunk_decrypt L ctx d plen (b_data ch) cidx 0 (b_len ch) = Inr (e, ctx', d', n, clen')"
      and r: "chunk_result L S ctx k i ?D d plen (e, ctx', d', n, clen')"
      using aead_chunk_decrypt_result [OF assms at less.prems(2,3) refl] by (metis prod_cases5)
    have room: "plen + length ?D \<le> length d"
      using lD less.prems(3) by simp
    from r room show ?thesis
    proof (cases rule: chunk_result_cases)
      case wait
      note uf = unframe_wait [OF Dne wait(2)]
      show ?thesis
      proof (cases "plen = 0")
        case True
        have "contents ch = ?D"
          using True less.prems(4) by (simp add: contents_def)
        then have "loop_result L S ctx k i ?D ch d plen (Some CRYPTO_NEED_MORE, ctx', ch, d, plen) [] ?D CRYPTO_NEED_MORE"
          using uf wait lD True at_nonce_keyed [OF wait(3)] by (simp add: loop_result_def)
        with loop_stop [OF ch pos] wait(1,4) True show ?thesis by auto
      next
        case nz: False
        let ?b = "?D @ drop (b_len ch) (b_data ch)"
        have mm: "memmove (b_data ch) 0 cidx clen' = Inr ?b"
          using wait(5) lD less.prems(2) by (simp add: mem_simps)
        have "loop_result L S ctx k i ?D ch d plen (None, ctx', ch\<lparr>b_data := ?b\<rparr>, d, plen) [] ?D CRYPTO_NEED_MORE"
          using uf wait lD nz at_nonce_keyed [OF wait(3)] less.prems(2,3)
          by (simp add: loop_result_def contents_def)
        with loop_stop [OF ch pos] wait(1,4) nz mm show ?thesis by auto
      qed
    next
      case (frame m)
      have m: "m \<noteq> []" "length m + 34 \<le> b_len ch"
        using frame(3) lD by (auto simp: frame_at_def)
      have c': "ci_tag_len (cx_cipher ctx') = 16"
        using keyed_key(6) [OF at_nonce_keyed [OF frame(4)]] by (rule wf_cipher_sizes)
      let ?ch = "ch\<lparr>b_len := clen'\<rparr>" and ?cidx = "cidx + (length m + 34)"
      have D1: "take (b_len ?ch) (drop ?cidx (b_data ?ch)) = drop (length m + 34) ?D"
        using frame(7) lD by (simp add: drop_take add.commute)
      have ld: "length d' = length d"
        using frame(5) m(2) less.prems(3) by simp
      have "b_len ?ch < b_len ch" "?cidx + b_len ?ch \<le> length (b_data ?ch)" "plen + length m + b_len ?ch \<le> length d'"
        "plen + length m = 0 \<longrightarrow> ?cidx = 0"
        using frame(7) lD m less.prems(2,3) ld by simp_all
      from less.hyps [OF this(1) frame(4) this(2-)] obtain r ms rest st
        where rec: "aead_decrypt_loop L ctx' ?ch d' (plen + length m) ?cidx = Inr r"
        and res: "loop_result L S ctx' k (Suc (Suc i)) (drop (length m + 34) ?D) ?ch d' (plen + length m) r ms rest st"
        unfolding D1 by blast
      have "loop_result L S ctx k i ?D ch d plen r (m # ms) rest st"
        by (rule loop_result_step [OF frame(2,3) res frame(8)]) (use frame(5,7) lD m less.prems(3) in simp_all)
      moreover have "aead_decrypt_loop L ctx ch d plen cidx = Inr r"
        using loop_next [OF ch [unfolded frame(1)] pos c'] rec frame(6) by simp
      ultimately show ?thesis by blast
    next
      case bad
      have "loop_result L S ctx k i ?D ch d plen (Some CRYPTO_ERROR, ctx', ch, d', plen) [] ?D CRYPTO_ERROR"
        using unframe_bad [OF bad(2,3)] bad less.prems(3) by (simp add: loop_result_def)
      with loop_stop [OF ch pos] bad(1) show ?thesis by auto
    qed
  qed
qed

section \<open>One call\<close>

definition chunk_bytes :: "cipher_ctx_t \<Rightarrow> bytes" where
  "chunk_bytes ctx = (case cx_chunk ctx of None \<Rightarrow> [] | Some ch \<Rightarrow> contents ch)"

definition chunk_ok :: "cipher_ctx_t \<Rightarrow> bool" where
  "chunk_ok ctx \<longleftrightarrow> (\<forall>ch. cx_chunk ctx = Some ch \<longrightarrow> wf_buffer ch)"

lemma aead_decrypt_append_ok:
  assumes "lib_laws L HM S" and "chunk_ok ctx" and "wf_buffer b"
  obtains ch where "aead_decrypt_append L ctx b cap = Inr ch" and "wf_buffer ch"
    and "contents ch = chunk_bytes ctx @ contents b"
proof -
  note h = lib_lawsD(1) [OF assms(1)]
  obtain ch0 where ch0: "(case cx_chunk ctx of Some ch \<Rightarrow> Inr ch
      | None \<Rightarrow> new_buffer (lib_heap L) cap) = Inr ch0" "wf_buffer ch0" "contents ch0 = chunk_bytes ctx"
  proof (cases "cx_chunk ctx")
    case None
    obtain ch where "new_buffer (lib_heap L) cap = Inr (ch)" "wf_buffer ch" "b_len ch = 0"
      using new_buffer_ok [OF h] by metis
    with None show ?thesis
      by (intro that [of ch]) (simp_all add: chunk_bytes_def contents_def)
  next
    case (Some ch)
    then show ?thesis
      using assms(2) that by (simp add: chunk_ok_def chunk_bytes_def)
  qed
  obtain ch1 where ch1: "brealloc (lib_heap L) ch0 (b_len ch0 + b_len b) cap = Inr ch1" "wf_buffer ch1"
    "contents ch1 = contents ch0" "max (b_len ch0 + b_len b) cap \<le> b_cap ch1" "b_len ch1 = b_len ch0"
    using brealloc_contents [OF h ch0(2)] by blast
  let ?d = "contents ch1 @ contents b @ drop (b_len ch1 + b_len b) (b_data ch1)"
  have "memcpy (b_data ch1) (b_len ch1) (b_data b) 0 (b_len b) = Inr ?d"
    using ch1(2,4,5) assms(3) by (simp add: mem_simps wf_bufferD contents_def)
  then have "aead_decrypt_append L ctx b cap = Inr (ch1\<lparr>b_data := ?d, b_len := b_len ch1 + b_len b\<rparr>)"
    using ch0(1) ch1(1) by (simp add: aead_decrypt_append_def)
  then show ?thesis
  proof (rule that)
    have l: "length (contents ch1) = b_len ch1" "length (contents b) = b_len b"
      using ch1(2) assms(3) by simp_all
    then show "wf_buffer (ch1\<lparr>b_data := ?d, b_len := b_len ch1 + b_len b\<rparr>)"
      using ch1(2,4,5) by (simp add: wf_buffer_def wf_block_def)
    show "contents (ch1\<lparr>b_data := ?d, b_len := b_len ch1 + b_len b\<rparr>) = chunk_bytes ctx @ contents b"
      using l ch0(3) ch1(3) by simp
  qed
qed

text \<open>The receiver's context: before the salt is complete, and inside a session after \<open>i\<close> operations.\<close>

definition receiver :: "crypto_lib \<Rightarrow> (bytes \<Rightarrow> bytes \<Rightarrow> bytes) \<Rightarrow> cipher_t \<Rightarrow> cipher_ctx_t \<Rightarrow> nat \<Rightarrow> bool" where
  "receiver L HM c ctx i \<longleftrightarrow> cx_cipher ctx = c \<and> wf_cipher c \<and> chunk_ok ctx \<and> length (cx_salt ctx) = MAX_KEY_LENGTH \<and>
     (if cx_init ctx = 0 then unkeyed L ctx \<and> i = 0
      else at_nonce L ctx (subkey HM c (take (ci_key_len c) (cx_salt ctx))) i)"

text \<open>The salt and the ciphertext that the call works on, given all buffered bytes \<open>D\<close>.\<close>

definition salt_of :: "cipher_ctx_t \<Rightarrow> bytes \<Rightarrow> bytes" where
  "salt_of ctx D = take (ci_key_len (cx_cipher ctx)) (if cx_init ctx = 0 then D else cx_salt ctx)"

definition body_of :: "cipher_ctx_t \<Rightarrow> bytes \<Rightarrow> bytes" where
  "body_of ctx D = (if cx_init ctx = 0 then drop (ci_key_len (cx_cipher ctx)) D else D)"

lemma aead_decrypt_salt_result:
  assumes "lib_laws L HM S" and "receiver L HM c ctx i" and "wf_world w" and "wf_buffer ch" and "D = contents ch"
  obtains
    (short) "cx_init ctx = 0" "length D \<le> ci_key_len c" "aead_decrypt_salt L w ctx ch = Inr (Some CRYPTO_NEED_MORE, ctx, ch)"
  | (replay) s where "cx_init ctx = 0" "ci_key_len c < length D" "seen w (salt_of ctx D)" "length s = MAX_KEY_LENGTH"
      "take (ci_key_len c) s = salt_of ctx D" "aead_decrypt_salt L w ctx ch = Inr (Some CRYPTO_ERROR, ctx\<lparr>cx_salt := s\<rparr>, ch)"
  | (go) ctx' ch' where "cx_init ctx = 0 \<Longrightarrow> ci_key_len c < length D \<and> \<not> seen w (salt_of ctx D)"
      "aead_decrypt_salt L w ctx ch = Inr (None, ctx', ch')" "wf_buffer ch'" "contents ch' = body_of ctx D"
      "b_len ch' \<le> b_len ch" "at_nonce L ctx' (subkey HM c (salt_of ctx D)) i" "cx_cipher ctx' = c"
      "length (cx_salt ctx') = MAX_KEY_LENGTH" "take (ci_key_len c) (cx_salt ctx') = salt_of ctx D"
      "cx_init ctx' = (if cx_init ctx = 0 then 1 else cx_init ctx)"
proof -
  have c: "cx_cipher ctx = c" "wf_cipher c" "length (cx_salt ctx) = 64"
    using assms(2) by (auto simp: receiver_def)
  have lD: "length D = b_len ch" and ld: "length (b_data ch) = b_cap ch" "b_len ch \<le> b_cap ch"
    using assms(4,5) by (simp_all add: wf_bufferD)
  have n64: "ci_key_len c \<le> 64"
    using wf_cipher_sizes(3) [OF c(2)] by simp
  consider (old) "cx_init ctx \<noteq> 0" | (few) "cx_init ctx = 0" "length D \<le> ci_key_len c"
    | (new) "cx_init ctx = 0" "ci_key_len c < length D" by linarith
  then show ?thesis
  proof cases
    case old
    then have "aead_decrypt_salt L w ctx ch = Inr (None, ctx, ch)"
      by (simp add: aead_decrypt_salt_def)
    then show ?thesis
      by (rule go [rotated]) (use old assms c in \<open>auto simp: receiver_def salt_of_def body_of_def\<close>)
  next
    case few
    then show ?thesis
      using c(1) lD by (intro short) (simp_all add: aead_decrypt_salt_def)
  next
    case new
    have un: "unkeyed L ctx" "i = 0"
      using assms(2) new by (simp_all add: receiver_def)
    obtain s where s: "memcpy (cx_salt ctx) 0 (b_data ch) 0 (ci_key_len c) = Inr s" "length s = 64"
      "take (ci_key_len c) s = take (ci_key_len c) (b_data ch)" "unkeyed L (ctx\<lparr>cx_salt := s\<rparr>)"
      using take_salt [OF un(1) c(1), of "b_data ch"] ld lD new(2) by auto
    have salt: "take (ci_key_len c) s = salt_of ctx D"
      using s(3) new assms(5) lD c(1) by (simp add: salt_of_def contents_def take_take_le)
    have chk: "ppbloom_check (w_pp w) s (int (ci_key_len c)) = Inr (if seen w (salt_of ctx D) then 1 else 0)"
      using salt_check [OF assms(3), of "ci_key_len c" s] salt s(2) n64 by simp
    show ?thesis
    proof (cases "seen w (salt_of ctx D)")
      case True
      then show ?thesis
        using new lD c(1) s(1) chk by (intro replay [OF new True s(2) salt]) (simp add: aead_decrypt_salt_def)
    next
      case False
      obtain ctx1 where ctx1: "aead_cipher_ctx_set_key L (ctx\<lparr>cx_salt := s\<rparr>) 0 = Inr ctx1"
        "at_nonce L ctx1 (subkey HM c (salt_of ctx D)) 0" "cx_cipher ctx1 = c" "cx_salt ctx1 = s"
        using set_key_session [OF assms(1) s(4), of c "salt_of ctx D" 0] c(1) salt by auto
      let ?n = "ci_key_len c"
      let ?b = "drop ?n D @ drop (b_len ch - ?n) (b_data ch)"
      have mm: "memmove (b_data ch) 0 ?n (b_len ch - ?n) = Inr ?b"
        using ld lD new(2) assms(5) by (simp add: mem_simps contents_def drop_take)
      have "aead_decrypt_salt L w ctx ch = Inr (None, ctx1\<lparr>cx_init := 1\<rparr>, ch\<lparr>b_data := ?b, b_len := b_len ch - ?n\<rparr>)"
        using new lD c(1) s(1) chk False ctx1(1) mm by (simp add: aead_decrypt_salt_def Let_def)
      then show ?thesis
        by (rule go [rotated]) (use new False ctx1 un(2) s(2) salt lD ld c(1) in
          \<open>auto simp: at_nonce_upd(2) wf_buffer_def wf_block_def contents_def body_of_def\<close>)
    qed
  qed
qed

lemma aead_decrypt_finish_result:
  assumes "lib_laws L HM S" and "wf_cipher (cx_cipher ctx)" and "length (cx_salt ctx) = MAX_KEY_LENGTH"
    and "wf_world w" and "wf_buffer b" and "b_len pt \<le> length (b_data pt)"
  defines "salt \<equiv> take (ci_key_len (cx_cipher ctx)) (cx_salt ctx)"
  obtains
    (rejected) "cx_init ctx = 1" "seen w salt" "aead_decrypt_finish L w b ctx pt cap = Inr (CRYPTO_ERROR, b, ctx, w)"
  | (finished) b' ctx' w' where "cx_init ctx = 1 \<Longrightarrow> \<not> seen w salt \<and> recorded w (w_pp w') salt \<and> cx_init ctx' = 2"
      "cx_init ctx \<noteq> 1 \<Longrightarrow> w' = w" "cx_init ctx \<noteq> 1 \<Longrightarrow> cx_init ctx' = cx_init ctx"
      "aead_decrypt_finish L w b ctx pt cap = Inr (CRYPTO_OK, b', ctx', w')" "wf_buffer b'"
      "contents b' = contents pt" "ctx' = ctx\<lparr>cx_init := cx_init ctx'\<rparr>" "wf_world w'"
proof -
  let ?n = "ci_key_len (cx_cipher ctx)"
  have n: "?n \<le> length (cx_salt ctx)"
    using wf_cipher_sizes(3) [OF assms(2)] assms(3) by simp
  note chk = salt_check [OF assms(4) n, folded salt_def]
  obtain pp where pp: "ppbloom_add (w_pp w) (cx_salt ctx) (int ?n) = Inr (0, pp)" "recorded w pp salt"
    using salt_add [OF assms(4) n] unfolding salt_def by blast
  obtain b' where b': "buf_assign (lib_heap L) b (b_data pt) (b_len pt) cap = Inr b'" "wf_buffer b'" "contents b' = contents pt"
    by (rule buf_assign_ok [OF lib_lawsD(1) [OF assms(1)] wf_buffer_block [OF assms(5)] assms(6), of cap,
          folded contents_def]) (rule that; assumption)
  consider (r) "cx_init ctx = 1" "seen w salt" | (f) "cx_init ctx = 1" "\<not> seen w salt" | (o) "cx_init ctx \<noteq> 1"
    by blast
  then show ?thesis
  proof cases
    case r
    then show ?thesis
      using chk by (intro rejected) (simp_all add: aead_decrypt_finish_def)
  next
    case f
    then have "aead_decrypt_finish L w b ctx pt cap = Inr (CRYPTO_OK, b', ctx\<lparr>cx_init := 2\<rparr>, w\<lparr>w_pp := pp\<rparr>)"
      using chk pp(1) b'(1) by (simp add: aead_decrypt_finish_def)
    then show ?thesis
      by (rule finished [rotated 3]) (use f pp(2) b' wf_world_upd_pp [OF assms(4) recorded_wf [OF pp(2)]] in simp_all)
  next
    case o
    then have "aead_decrypt_finish L w b ctx pt cap = Inr (CRYPTO_OK, b', ctx, w)"
      using b'(1) by (simp add: aead_decrypt_finish_def)
    then show ?thesis
      by (rule finished [rotated 3]) (use o b' assms(4) in simp_all)
  qed
qed

lemma unframe_nonempty: "unframe S c k i D ms rest st \<Longrightarrow> \<forall>m\<in>set ms. m \<noteq> []"
  by (induction rule: unframe.induct) (auto simp: frame_at_def)

lemma unframe_concat_empty: "unframe S c k i D ms rest st \<Longrightarrow> concat ms = [] \<longleftrightarrow> ms = []"
  using unframe_nonempty by fastforce

text \<open>What one call does with the buffered and the new bytes \<open>D\<close>: once the salt is there and new, it takes off
  the complete frames \<open>ms\<close>.\<close>

definition frames_result ::
  "crypto_lib \<Rightarrow> (bytes \<Rightarrow> bytes \<Rightarrow> bytes) \<Rightarrow> aead_spec \<Rightarrow> cipher_t \<Rightarrow> nat \<Rightarrow> world \<Rightarrow> cipher_ctx_t \<Rightarrow> bytes
   \<Rightarrow> int \<times> buffer_t \<times> cipher_ctx_t \<times> world \<Rightarrow> bytes list \<Rightarrow> bytes \<Rightarrow> int \<Rightarrow> bool" where
  "frames_result L HM S c i w ctx D r ms rest st \<longleftrightarrow>
     (let (e, b', ctx', w') = r; salt = salt_of ctx D in
      unframe S c (subkey HM c salt) i (body_of ctx D) ms rest st \<and>
      e = (if st = CRYPTO_ERROR \<or> st = CRYPTO_NEED_MORE \<and> ms = [] then st
           else if cx_init ctx = 1 \<and> seen w salt then CRYPTO_ERROR else CRYPTO_OK) \<and>
      (e \<noteq> CRYPTO_ERROR \<longrightarrow> receiver L HM c ctx' (i + 2 * length ms) \<and> chunk_bytes ctx' = rest \<and>
         take (ci_key_len c) (cx_salt ctx') = salt) \<and>
      (e = CRYPTO_NEED_MORE \<longrightarrow> cx_init ctx' = max 1 (cx_init ctx)) \<and>
      (e = CRYPTO_OK \<longrightarrow> wf_buffer b' \<and> contents b' = concat ms \<and> cx_init ctx' = max 2 (cx_init ctx) \<and>
         (if cx_init ctx \<le> 1 then recorded w (w_pp w') salt else w_pp w' = w_pp w)))"

definition call_result ::
  "crypto_lib \<Rightarrow> (bytes \<Rightarrow> bytes \<Rightarrow> bytes) \<Rightarrow> aead_spec \<Rightarrow> cipher_t \<Rightarrow> nat \<Rightarrow> world \<Rightarrow> cipher_ctx_t \<Rightarrow> bytes \<Rightarrow> buffer_t
   \<Rightarrow> int \<times> buffer_t \<times> cipher_ctx_t \<times> world \<Rightarrow> bool" where
  "call_result L HM S c i w ctx D b r \<longleftrightarrow>
     (let (e, b', ctx', w') = r in
      wf_world w' \<and> cx_cipher ctx' = c \<and>
      (e \<noteq> CRYPTO_OK \<longrightarrow> b' = b \<and> w_pp w' = w_pp w) \<and>
      (if cx_init ctx = 0 \<and> length D \<le> ci_key_len c
       then e = CRYPTO_NEED_MORE \<and> receiver L HM c ctx' 0 \<and> chunk_bytes ctx' = D \<and> cx_init ctx' = 0
       else if cx_init ctx = 0 \<and> seen w (salt_of ctx D) then e = CRYPTO_ERROR
       else \<exists>ms rest st. frames_result L HM S c i w ctx D r ms rest st))"

lemma call_result_frames:
  assumes "cx_init ctx = 0 \<Longrightarrow> ci_key_len c < length D \<and> \<not> seen w (salt_of ctx D)"
    and "wf_world w'" and "cx_cipher ctx' = c" and "e \<noteq> CRYPTO_OK \<Longrightarrow> b' = b \<and> w_pp w' = w_pp w"
    and "frames_result L HM S c i w ctx D (e, b', ctx', w') ms rest st"
  shows "call_result L HM S c i w ctx D b (e, b', ctx', w')"
  using assms unfolding call_result_def by auto

lemma seen_put_tmp [simp]: "seen (put_tmp t b w) s = seen w s"
  by (simp add: seen_def put_tmp_def)

lemma recorded_put_tmp [simp]: "recorded (put_tmp t b w) pp s = recorded w pp s"
  by (simp add: recorded_def put_tmp_def)

lemma w_pp_put_tmp [simp]: "w_pp (put_tmp t b w) = w_pp w"
  by (simp add: put_tmp_def)

lemma wf_world_put_tmp: "wf_world w \<Longrightarrow> length (b_data b) = b_cap b \<Longrightarrow> wf_world (put_tmp t b w)"
  by (simp add: put_tmp_def wf_world_def wf_block_def)

lemma receiver_session:
  assumes "cx_cipher ctx = c" and "wf_cipher c" and "cx_chunk ctx = Some ch" and "wf_buffer ch"
    and "length (cx_salt ctx) = MAX_KEY_LENGTH" and "cx_init ctx \<noteq> 0"
    and "at_nonce L ctx (subkey HM c (take (ci_key_len c) (cx_salt ctx))) i"
  shows "receiver L HM c ctx i"
  using assms by (simp add: receiver_def chunk_ok_def)

text \<open>The part of the call after the loop.\<close>

lemma after_loop_result:
  assumes "lib_laws L HM S" and "wf_cipher c" and "wf_world w1" and "w_pp w1 = w_pp w" and "wf_buffer b"
    and new: "cx_init ctx = 0 \<Longrightarrow> ci_key_len c < length D \<and> \<not> seen w (salt_of ctx D)"
    and ctx1: "cx_cipher ctx1 = c" "length (cx_salt ctx1) = MAX_KEY_LENGTH"
      "take (ci_key_len c) (cx_salt ctx1) = salt_of ctx D" "cx_init ctx1 = (if cx_init ctx = 0 then 1 else cx_init ctx)"
    and "wf_buffer ch1" and tmp: "length (b_data tmp) = b_cap tmp"
    and lr: "loop_result L S ctx1 (subkey HM c (salt_of ctx D)) i (body_of ctx D) ch1 (b_data tmp) 0
          (early, ctx2, ch2, d, plen) ms rest st"
  shows "\<exists>r. (case early of Some e \<Rightarrow> Inr (e, b, ctx2\<lparr>cx_chunk := Some ch2\<rparr>, put_tmp t (tmp\<lparr>b_data := d\<rparr>) w1)
         | None \<Rightarrow> aead_decrypt_finish L (put_tmp t (tmp\<lparr>b_data := d, b_len := plen\<rparr>) w1) b
             (ctx2\<lparr>cx_chunk := Some ch2\<rparr>) (tmp\<lparr>b_data := d, b_len := plen\<rparr>) cap) = Inr r \<and>
    call_result L HM S c i w ctx D b r"
proof -
  let ?ctx = "ctx2\<lparr>cx_chunk := Some ch2\<rparr>" and ?k = "subkey HM c (salt_of ctx D)"
  let ?pt = "tmp\<lparr>b_data := d, b_len := plen\<rparr>"
  have uf: "unframe S c ?k i (body_of ctx D) ms rest st" and ss: "same_session ctx1 ctx2"
    and ld: "length d = length (b_data tmp)" "plen = length (concat ms)" "plen \<le> length d"
    and early: "early = (if st = CRYPTO_ERROR \<or> st = CRYPTO_NEED_MORE \<and> plen = 0 then Some st else None)"
    and ok: "st \<noteq> CRYPTO_ERROR \<Longrightarrow> at_nonce L ctx2 ?k (i + 2 * length ms) \<and> contents ch2 = rest \<and> take plen d = concat ms"
    and ch2: "length (b_data ch2) = length (b_data ch1)" "b_cap ch2 = b_cap ch1" "b_len ch2 \<le> b_len ch1"
    using lr ctx1(1) by (auto simp: loop_result_def)
  have wfc: "wf_buffer ch2"
    using ch2 \<open>wf_buffer ch1\<close> by (simp add: wf_buffer_def wf_block_def)
  have c2: "cx_cipher ctx2 = c" "length (cx_salt ctx2) = 64" "take (ci_key_len c) (cx_salt ctx2) = salt_of ctx D"
    "cx_init ctx2 = (if cx_init ctx = 0 then 1 else cx_init ctx)"
    using ss ctx1 by (simp_all add: same_session_def)
  have rcv: "receiver L HM c (?ctx\<lparr>cx_init := n\<rparr>) (i + 2 * length ms)" if "st \<noteq> CRYPTO_ERROR" "n \<noteq> 0" for n
    by (rule receiver_session [OF _ assms(2) _ wfc]) (use ok [OF that(1)] that(2) c2 in \<open>simp_all add: at_nonce_upd\<close>)
  have plen0: "plen = 0 \<longleftrightarrow> ms = []"
    using ld(2) unframe_concat_empty [OF uf] by (metis length_0_conv)
  have sn: "seen w1 = seen w" "recorded w1 = recorded w"
    using assms(4) by (simp_all add: seen_def recorded_def fun_eq_iff)
  show ?thesis
  proof (cases early)
    case (Some e)
    then have e: "e = st" "st = CRYPTO_ERROR \<or> st = CRYPTO_NEED_MORE \<and> ms = []"
      using early plen0 by (auto split: if_splits)
    have wfw: "wf_world (put_tmp t (tmp\<lparr>b_data := d\<rparr>) w1)"
      using assms(3) by (rule wf_world_put_tmp) (use ld tmp in simp)
    have "receiver L HM c ?ctx (i + 2 * length ms)" if "st \<noteq> CRYPTO_ERROR"
    proof -
      have "?ctx\<lparr>cx_init := cx_init ctx2\<rparr> = ?ctx" by simp
      moreover have "cx_init ctx2 \<noteq> 0"
        using c2(4) by simp
      ultimately show ?thesis
        using rcv [OF that] by metis
    qed
    then have "frames_result L HM S c i w ctx D (e, b, ?ctx, put_tmp t (tmp\<lparr>b_data := d\<rparr>) w1) ms rest st"
      using e uf c2 ok by (auto simp: frames_result_def chunk_bytes_def)
    then have "call_result L HM S c i w ctx D b (e, b, ?ctx, put_tmp t (tmp\<lparr>b_data := d\<rparr>) w1)"
      by (rule call_result_frames [rotated -1]) (use new wfw c2(1) assms(4) in simp_all)
    with Some show ?thesis by auto
  next
    case None
    then have st: "st \<noteq> CRYPTO_ERROR" "\<not> (st = CRYPTO_NEED_MORE \<and> ms = [])"
      using early plen0 by (auto split: if_splits)
    let ?w = "put_tmp t ?pt w1"
    have wfw: "wf_world ?w"
      using assms(3) by (rule wf_world_put_tmp) (use ld tmp in simp)
    have pre: "wf_cipher (cx_cipher ?ctx)" "length (cx_salt ?ctx) = 64" "b_len ?pt \<le> length (b_data ?pt)"
      using assms(2) c2 ld by simp_all
    from assms(1) pre(1,2) wfw assms(5) pre(3) show ?thesis
    proof (cases rule: aead_decrypt_finish_result [where cap = cap])
      case rejected
      have sw: "seen w (salt_of ctx D)"
        using rejected(2) c2(1,3) sn(1) by simp
      moreover have "cx_init ctx = 1"
        using rejected(1) c2(4) new sw by (cases "cx_init ctx = 0") simp_all
      ultimately have "frames_result L HM S c i w ctx D (CRYPTO_ERROR, b, ?ctx, ?w) ms rest st"
        using uf st by (simp add: frames_result_def)
      then have "call_result L HM S c i w ctx D b (CRYPTO_ERROR, b, ?ctx, ?w)"
        by (rule call_result_frames [rotated -1]) (use new wfw c2(1) assms(4) in simp_all)
      with None rejected(3) show ?thesis by auto
    next
      case (finished b' ctx' w')
      have i0: "cx_init ctx2 = 1 \<longleftrightarrow> cx_init ctx \<le> 1" "cx_init ctx2 \<noteq> 1 \<Longrightarrow> cx_init ctx' = cx_init ctx"
        using c2(4) finished(3) by (simp_all split: if_splits) linarith
      have i1: "\<not> seen w (salt_of ctx D) \<and> recorded w (w_pp w') (salt_of ctx D) \<and> cx_init ctx' = 2" if "cx_init ctx2 = 1"
        using finished(1) that c2(1,3) sn by simp
      have i2: "cx_init ctx' = max 2 (cx_init ctx)"
        using i1 i0 by (cases "cx_init ctx2 = 1") auto
      have eq: "ctx' = ?ctx\<lparr>cx_init := cx_init ctx'\<rparr>"
        by (rule finished(7))
      have "receiver L HM c ctx' (i + 2 * length ms)"
        by (subst eq, rule rcv) (use st i2 in simp_all)
      moreover have cc: "cx_cipher ctx' = c"
        using c2 by (subst eq) simp
      moreover have "chunk_bytes ctx' = rest" "take (ci_key_len c) (cx_salt ctx') = salt_of ctx D"
        using ok [OF st(1)] c2 by (subst eq, simp add: chunk_bytes_def)+
      moreover have "contents b' = concat ms"
        using finished(6) ok [OF st(1)] by simp
      moreover have "if cx_init ctx \<le> 1 then recorded w (w_pp w') (salt_of ctx D) else w_pp w' = w_pp w"
        using i1 i0 assms(4) finished(2) by (cases "cx_init ctx2 = 1") auto
      moreover have "\<not> (cx_init ctx = 1 \<and> seen w (salt_of ctx D))"
        using i1 i0 by auto
      ultimately have "frames_result L HM S c i w ctx D (CRYPTO_OK, b', ctx', w') ms rest st"
        using uf st finished(5) i2 by (simp add: frames_result_def)
      then have "call_result L HM S c i w ctx D b (CRYPTO_OK, b', ctx', w')"
        by (rule call_result_frames [rotated -1]) (use new finished(8) cc in simp_all)
      with None finished(4) show ?thesis by auto
    qed
  qed
qed

lemma aead_decrypt_result:
  assumes "lib_laws L HM S" and "receiver L HM c ctx i" and "wf_world w" and "wf_buffer b"
  defines "D \<equiv> chunk_bytes ctx @ contents b"
  shows "\<exists>r. aead_decrypt L w b ctx cap = Inr r \<and> call_result L HM S c i w ctx D b r"
proof -
  let ?t = Tmp_aead_decrypt
  have c: "cx_cipher ctx = c" "wf_cipher c" "chunk_ok ctx" "length (cx_salt ctx) = 64"
    using assms(2) by (auto simp: receiver_def)
  obtain ch where ch: "aead_decrypt_append L ctx b cap = Inr ch" "wf_buffer ch" "contents ch = D"
    using aead_decrypt_append_ok [OF assms(1) c(3) assms(4)] unfolding D_def by blast
  obtain tmp where tmp: "brealloc (lib_heap L) (w_tmp w ?t) (b_len ch) cap = Inr tmp" "wf_block tmp"
    "max (b_len ch) cap \<le> b_cap tmp"
    using brealloc_ok [OF lib_lawsD(1) [OF assms(1)] wf_world_tmp [OF assms(3)]] by metis
  have lt: "length (b_data tmp) = b_cap tmp"
    using tmp(2) by (simp add: wf_block_def)
  let ?w = "put_tmp ?t tmp w"
  have wf: "wf_world ?w"
    using assms(3) lt by (rule wf_world_put_tmp)
  have rc: "receiver L HM c (ctx\<lparr>cx_chunk := Some ch\<rparr>) i"
    using assms(2) ch(2) by (auto simp: receiver_def chunk_ok_def unkeyed_def wf_ctx_def at_nonce_upd(3))
  from assms(1,2) wf ch(2) ch(3) [symmetric] show ?thesis
  proof (cases rule: aead_decrypt_salt_result)
    case short
    then have "aead_decrypt L w b ctx cap = Inr (CRYPTO_NEED_MORE, b, ctx\<lparr>cx_chunk := Some ch\<rparr>, ?w)"
      using ch(1) tmp(1) by (simp add: aead_decrypt_def)
    moreover have "call_result L HM S c i w ctx D b (CRYPTO_NEED_MORE, b, ctx\<lparr>cx_chunk := Some ch\<rparr>, ?w)"
      using short wf rc assms(2) c(1) ch(3) by (simp add: call_result_def receiver_def chunk_bytes_def)
    ultimately show ?thesis by blast
  next
    case (replay s)
    then have "aead_decrypt L w b ctx cap = Inr (CRYPTO_ERROR, b, ctx\<lparr>cx_salt := s, cx_chunk := Some ch\<rparr>, ?w)"
      using ch(1) tmp(1) by (simp add: aead_decrypt_def)
    moreover have "call_result L HM S c i w ctx D b (CRYPTO_ERROR, b, ctx\<lparr>cx_salt := s, cx_chunk := Some ch\<rparr>, ?w)"
      using replay wf c(1) by (simp add: call_result_def)
    ultimately show ?thesis by blast
  next
    case (go ctx1 ch1)
    have room: "0 + b_len ch1 \<le> length (b_data ch1)" "0 + b_len ch1 \<le> length (b_data tmp)" "(0::nat) = 0 \<longrightarrow> (0::nat) = 0"
      using go(3,5) lt tmp(3) by (simp_all add: wf_bufferD)
    obtain early ctx2 ch2 d plen ms rest st
      where lp: "aead_decrypt_loop L ctx1 ch1 (b_data tmp) 0 0 = Inr (early, ctx2, ch2, d, plen)"
        and lr: "loop_result L S ctx1 (subkey HM c (salt_of ctx D)) i (body_of ctx D) ch1 (b_data tmp) 0
          (early, ctx2, ch2, d, plen) ms rest st"
      using aead_decrypt_loop_result [OF assms(1) go(6) room] go(4) by (auto simp: contents_def)
    have run: "aead_decrypt L w b ctx cap =
        (case early of Some e \<Rightarrow> Inr (e, b, ctx2\<lparr>cx_chunk := Some ch2\<rparr>, put_tmp ?t (tmp\<lparr>b_data := d\<rparr>) ?w)
         | None \<Rightarrow> aead_decrypt_finish L (put_tmp ?t (tmp\<lparr>b_data := d, b_len := plen\<rparr>) ?w) b
             (ctx2\<lparr>cx_chunk := Some ch2\<rparr>) (tmp\<lparr>b_data := d, b_len := plen\<rparr>) cap)"
      using ch(1) tmp(1) go(2) lp by (simp add: aead_decrypt_def Let_def split: option.split)
    show ?thesis
      unfolding run
      by (rule after_loop_result [OF assms(1) c(2) wf w_pp_put_tmp assms(4) _ go(7-10) go(3) lt lr])
        (use go(1) in simp)
  qed
qed

end
