(* ===== verification/SS_AeadSession.thy ===== *)
theory SS_AeadSession
  imports SS_AeadRecv
begin

text \<open>
  A whole TCP session: the messages one process sends with \<^verbatim>\<open>aead_encrypt\<close>, cut into fragments at arbitrary
  positions, are delivered by \<^verbatim>\<open>aead_decrypt\<close> in the other process, in order, complete and as early as
  possible. Here stand the properties of the stream: round trip, authenticity, replay, nonces.
\<close>

section \<open>An honest stream\<close>

definition seals_inj :: "aead_spec \<Rightarrow> cipher_t \<Rightarrow> bytes \<Rightarrow> bool" where
  "seals_inj S c k \<longleftrightarrow> (\<forall>i x y. seal_at S c k i x = seal_at S c k i y \<longrightarrow> x = y)"

lemma seal_at_inj:
  assumes "aead_laws L S" and "at_nonce L ctx k i0" and "seal_at S (cx_cipher ctx) k i m = seal_at S (cx_cipher ctx) k i m'"
  shows "m = m'"
proof -
  let ?nl = "ci_nonce_len (cx_cipher ctx)"
  let ?ctx = "ctx\<lparr>cx_nonce := le_bytes ?nl i @ drop ?nl (cx_nonce ctx)\<rparr>"
  have kd: "keyed L ctx k"
    using assms(2) by (rule at_nonce_keyed)
  have "?nl \<le> 32"
    using wf_cipher_sizes(4) [OF keyed_key(6) [OF kd]] by simp
  then have at: "at_nonce L ?ctx k i"
    using kd by (simp add: at_nonce_def keyed_def wf_ctx_def nonce_of_def)
  show ?thesis
    by (rule box_inj [OF assms(1) at_nonce_keyed [OF at]]) (use assms(3) box_of_at [OF at] in simp)
qed

lemma session_inj: "aead_laws L S \<Longrightarrow> at_nonce L ctx k i \<Longrightarrow> cx_cipher ctx = c \<Longrightarrow> seals_inj S c k"
  using seal_at_inj unfolding seals_inj_def by blast

lemma frame_prefix:
  assumes "aead_laws L S" and "D @ tail = frame S c k j m @ mor"
  shows "18 \<le> length D \<Longrightarrow> take 18 D = seal_at S c k (2 * j) (hdr m)"
    and "length m + 34 \<le> length D \<Longrightarrow> take (length m + 16) (drop 18 D) = seal_at S c k (Suc (2 * j)) m"
    and "length m + 34 \<le> length D \<Longrightarrow> drop (length m + 34) D @ tail = mor"
proof -
  let ?h = "seal_at S c k (2 * j) (hdr m)" and ?p = "seal_at S c k (Suc (2 * j)) m"
  have len: "length ?h = 18" "length ?p = length m + 16"
    using seal_length [OF assms(1)] by simp_all
  have eq: "D @ tail = ?h @ ?p @ mor"
    using assms(2) by (simp add: frame_def)
  show "18 \<le> length D \<Longrightarrow> take 18 D = ?h"
    using arg_cong [OF eq, of "take 18"] len by simp
  show "length m + 34 \<le> length D \<Longrightarrow> take (length m + 16) (drop 18 D) = ?p"
    using arg_cong [OF eq, of "\<lambda>x. take (length m + 16) (drop 18 x)"] len by simp
  show "length m + 34 \<le> length D \<Longrightarrow> drop (length m + 34) D @ tail = mor"
    using arg_cong [OF eq, of "drop (length m + 34)"] len by simp
qed

lemma honest_frame:
  assumes "aead_laws L S" and "D @ tail = frame S c k j m @ mor" and "payload_ok m"
    and inj: "seals_inj S c k"
  shows "length D < length m + 34 \<Longrightarrow> waiting S c k (2 * j) D"
    and "length m + 34 \<le> length D \<Longrightarrow> \<not> waiting S c k (2 * j) D \<and> (frame_at S c k (2 * j) D m' \<longleftrightarrow> m' = m)"
proof -
  note fp = frame_prefix [OF assms(1,2)]
  have m: "m \<noteq> []" "hdr_len (hdr m) = length m"
    using assms(3) hdr_len_hdr by (auto simp: payload_ok_def)
  have hd: "header_at S c k (2 * j) D h \<longleftrightarrow> h = hdr m" if "18 \<le> length D" for h
    using fp(1) [OF that] inj by (auto simp: header_at_def seals_inj_def)
  show "waiting S c k (2 * j) D" if "length D < length m + 34"
    using that hd m by (cases "length D \<le> 34") (auto simp: waiting_def)
  show "\<not> waiting S c k (2 * j) D \<and> (frame_at S c k (2 * j) D m' \<longleftrightarrow> m' = m)" if "length m + 34 \<le> length D"
  proof -
    have "0 < length m"
      using m(1) by simp
    then have "34 < length D"
      using that by linarith
    then show ?thesis
      using that hd m fp(2) inj by (auto simp: waiting_def frame_at_def seals_inj_def)
  qed
qed

text \<open>Applied to a prefix of an honest stream, \<open>unframe\<close> finds the messages that are complete.\<close>

lemma unframe_wire:
  assumes "aead_laws L S" and inj: "seals_inj S c k"
  shows "unframe S c k i D ms rest st \<Longrightarrow> i = 2 * j \<Longrightarrow> D @ tail = wire S c k j msgs \<Longrightarrow> \<forall>m\<in>set msgs. payload_ok m \<Longrightarrow>
    \<exists>n\<le>length msgs. ms = take n msgs \<and> D = wire S c k j ms @ rest \<and> (st = CRYPTO_OK \<longleftrightarrow> rest = []) \<and>
      (st = CRYPTO_OK \<or> st = CRYPTO_NEED_MORE \<and> n < length msgs \<and> length rest < length (msgs ! n) + 34)"
proof (induction arbitrary: j msgs rule: unframe.induct)
  case (unframe_done i)
  then show ?case by (intro exI [of _ 0]) simp
next
  case (unframe_wait D i)
  then obtain m ms' where ms': "msgs = m # ms'"
    by (cases msgs) auto
  have pre: "D @ tail = frame S c k j m @ wire S c k (Suc j) ms'" "payload_ok m"
    using unframe_wait.prems ms' by simp_all
  have "length D < length m + 34"
  proof (rule ccontr)
    assume "\<not> length D < length m + 34"
    then have "length m + 34 \<le> length D" by simp
    from honest_frame(2) [OF assms(1) pre inj this] unframe_wait.hyps(2) unframe_wait.prems(1) show False by simp
  qed
  then show ?case
    using unframe_wait(1) ms' by (intro exI [of _ 0]) simp
next
  case (unframe_bad i D)
  then obtain m ms' where ms': "msgs = m # ms'"
    by (cases msgs) (auto simp: waiting_def)
  have "D @ tail = frame S c k j m @ wire S c k (Suc j) ms'" "payload_ok m"
    using unframe_bad.prems ms' by simp_all
  note hf = honest_frame [OF assms(1) this inj]
  show ?case
  proof (cases "length D < length m + 34")
    case True
    with hf(1) unframe_bad.hyps(1) unframe_bad.prems(1) show ?thesis by simp
  next
    case False
    with hf(2) [where m' = m] unframe_bad.hyps(2) unframe_bad.prems(1) show ?thesis by simp
  qed
next
  case (unframe_step i D m ms rest st)
  then obtain m0 ms' where ms': "msgs = m0 # ms'"
    by (cases msgs) (auto simp: waiting_def)
  have pre: "D @ tail = frame S c k j m0 @ wire S c k (Suc j) ms'" "payload_ok m0"
    using unframe_step.prems ms' by simp_all
  note hf = honest_frame [OF assms(1) pre inj]
  have len: "length m0 + 34 \<le> length D"
    using hf(1) unframe_step.hyps(1) unframe_step.prems(1) by (cases "length D < length m0 + 34") simp_all
  have m: "m = m0"
    using hf(2) [OF len, where m' = m] unframe_step.hyps(2) unframe_step.prems(1) by simp
  have nx: "drop (length m + 34) D @ tail = wire S c k (Suc j) ms'"
    using frame_prefix(3) [OF assms(1) pre(1) len] m by simp
  obtain n where n: "n \<le> length ms'" "ms = take n ms'" "drop (length m + 34) D = wire S c k (Suc j) ms @ rest"
    "st = CRYPTO_OK \<longleftrightarrow> rest = []"
    "st = CRYPTO_OK \<or> st = CRYPTO_NEED_MORE \<and> n < length ms' \<and> length rest < length (ms' ! n) + 34"
    using unframe_step.IH [of "Suc j" ms'] nx unframe_step.prems ms' by auto
  have "take (length m + 34) D = frame S c k j m"
    using arg_cong [OF pre(1), of "take (length m + 34)"] len m frame_length [OF assms(1), of c k j m] by simp
  then have "D = frame S c k j m @ wire S c k (Suc j) ms @ rest"
    using n(3) append_take_drop_id [of "length m + 34" D] by simp
  with n m ms' show ?case
    by (intro exI [of _ "Suc n"]) simp
qed

section \<open>The receiver's invariant\<close>

text \<open>After the bytes \<open>B\<close> of the stream of \<open>salt\<close> and \<open>msgs\<close>, \<open>n\<close> messages have been delivered and the context
  holds the rest, which is shorter than the next frame.\<close>

definition receiving ::
  "crypto_lib \<Rightarrow> (bytes \<Rightarrow> bytes \<Rightarrow> bytes) \<Rightarrow> aead_spec \<Rightarrow> cipher_t \<Rightarrow> bytes \<Rightarrow> bytes list \<Rightarrow> world \<Rightarrow> cipher_ctx_t \<Rightarrow> bytes \<Rightarrow> nat
   \<Rightarrow> bool" where
  "receiving L HM S c salt msgs w ctx B n \<longleftrightarrow> wf_world w \<and> n \<le> length msgs \<and> receiver L HM c ctx (2 * n) \<and>
     (cx_init ctx \<le> 1 \<longrightarrow> \<not> seen w salt) \<and>
     (if cx_init ctx = 0 then n = 0 \<and> chunk_bytes ctx = B \<and> length B \<le> ci_key_len c
      else take (ci_key_len c) (cx_salt ctx) = salt \<and>
        B = salt @ wire S c (subkey HM c salt) 0 (take n msgs) @ chunk_bytes ctx \<and>
        (chunk_bytes ctx \<noteq> [] \<longrightarrow> n < length msgs \<and> length (chunk_bytes ctx) < length (msgs ! n) + 34))"

lemma receiving_init:
  assumes "lib_laws L HM S" and "wf_cipher c" and "wf_world w" and "\<not> seen w salt"
  shows "\<exists>ctx. aead_ctx_init L w c 0 = Inr (ctx, w) \<and> receiving L HM S c salt msgs w ctx [] 0"
proof -
  obtain ctx where "aead_ctx_init L w c 0 = Inr (ctx, w)" "unkeyed L ctx" "cx_cipher ctx = c" "cx_init ctx = 0"
    "cx_chunk ctx = None"
    using aead_ctx_init_dec [OF assms(1,2)] by metis
  then show ?thesis
    using assms(2-4) by (auto simp: receiving_def receiver_def chunk_ok_def chunk_bytes_def unkeyed_def wf_ctx_def)
qed

lemma wire_take_drop: "n \<le> length ms \<Longrightarrow> wire S c k 0 ms = wire S c k 0 (take n ms) @ wire S c k n (drop n ms)"
  using wire_append [of S c k 0 "take n ms" "drop n ms"] by simp

text \<open>The salt and the ciphertext a call works on, for an honest stream.\<close>

lemma honest_parts:
  assumes "receiving L HM S c salt msgs w ctx B n" and "length salt = ci_key_len c"
    and "B @ x @ tail = salt @ wire S c (subkey HM c salt) 0 msgs"
    and "cx_init ctx = 0 \<Longrightarrow> ci_key_len c < length (chunk_bytes ctx @ x)"
  shows "salt_of ctx (chunk_bytes ctx @ x) = salt"
    and "body_of ctx (chunk_bytes ctx @ x) @ tail = wire S c (subkey HM c salt) n (drop n msgs)"
    and "B @ x = salt @ wire S c (subkey HM c salt) 0 (take n msgs) @ body_of ctx (chunk_bytes ctx @ x)"
proof -
  let ?D = "chunk_bytes ctx @ x" and ?k = "subkey HM c salt"
  have c: "cx_cipher ctx = c" "n \<le> length msgs"
    using assms(1) by (auto simp: receiving_def receiver_def)
  have "salt_of ctx ?D = salt \<and> body_of ctx ?D @ tail = wire S c ?k n (drop n msgs) \<and>
      B @ x = salt @ wire S c ?k 0 (take n msgs) @ body_of ctx ?D"
  proof (cases "cx_init ctx = 0")
    case True
    then have B: "B = chunk_bytes ctx" "n = 0" and len: "ci_key_len c \<le> length ?D"
      using assms(1,4) by (auto simp: receiving_def)
    have eq: "?D @ tail = salt @ wire S c ?k 0 msgs"
      using assms(3) B by simp
    have "take (ci_key_len c) ?D = salt" "drop (ci_key_len c) ?D @ tail = wire S c ?k 0 msgs"
      using arg_cong [OF eq, of "take (ci_key_len c)"] arg_cong [OF eq, of "drop (ci_key_len c)"] len assms(2)
      by simp_all
    then show ?thesis
      using True B c append_take_drop_id [of "ci_key_len c" ?D] by (simp add: salt_of_def body_of_def)
  next
    case False
    then have B: "B = salt @ wire S c ?k 0 (take n msgs) @ chunk_bytes ctx" "take (ci_key_len c) (cx_salt ctx) = salt"
      using assms(1) by (auto simp: receiving_def)
    have "?D @ tail = wire S c ?k n (drop n msgs)"
      using assms(3) B(1) wire_take_drop [OF c(2), of S c ?k] by simp
    then show ?thesis
      using False B c by (simp add: salt_of_def body_of_def)
  qed
  then show "salt_of ctx ?D = salt" "body_of ctx ?D @ tail = wire S c ?k n (drop n msgs)"
    "B @ x = salt @ wire S c ?k 0 (take n msgs) @ body_of ctx ?D"
    by blast+
qed

lemma receiver_key:
  assumes "lib_laws L HM S" and "wf_cipher c" and "length salt = ci_key_len c"
  shows "seals_inj S c (subkey HM c salt)"
proof -
  obtain ctx where ctx: "unkeyed L ctx" "cx_cipher ctx = c"
    using aead_ctx_init_dec [OF assms(1,2)] by metis
  let ?s = "salt @ replicate (MAX_KEY_LENGTH - ci_key_len c) 0"
  have "unkeyed L (ctx\<lparr>cx_salt := ?s\<rparr>)"
    using ctx(1) by (rule unkeyed_salt) (use assms(3) wf_cipher_sizes(3) [OF assms(2)] in simp)
  then obtain ctx' where at: "at_nonce L ctx' (subkey HM c salt) 0" "cx_cipher ctx' = c"
    using set_key_session [OF assms(1), of "ctx\<lparr>cx_salt := ?s\<rparr>" c salt 0] ctx(2) assms(3) by auto
  then show ?thesis
    using session_inj [OF lib_lawsD(4) [OF assms(1)]] by blast
qed

lemma call_result_framesD:
  assumes "call_result L HM S c i w ctx D b r" and "\<not> (cx_init ctx = 0 \<and> length D \<le> ci_key_len c)"
    and "\<not> (cx_init ctx = 0 \<and> seen w (salt_of ctx D))"
  shows "\<exists>ms rest st. frames_result L HM S c i w ctx D r ms rest st"
  using assms(1) unfolding call_result_def by (cases r) (simp only: Let_def prod.case if_not_P [OF assms(2)] if_not_P [OF assms(3)])

text \<open>One call on honest bytes: never an error, exactly the completed messages.\<close>

lemma receiving_step:
  assumes "lib_laws L HM S" and "receiving L HM S c salt msgs w ctx B n" and "wf_buffer b"
    and "length salt = ci_key_len c" and "\<forall>m\<in>set msgs. payload_ok m"
    and "B @ contents b @ tail = salt @ wire S c (subkey HM c salt) 0 msgs"
  shows "\<exists>e b' ctx' w' n'. aead_decrypt L w b ctx cap = Inr (e, b', ctx', w') \<and> n \<le> n' \<and>
    receiving L HM S c salt msgs w' ctx' (B @ contents b) n' \<and>
    (e = CRYPTO_OK \<and> contents b' = concat (take (n' - n) (drop n msgs)) \<or> e = CRYPTO_NEED_MORE \<and> n' = n)"
proof -
  let ?k = "subkey HM c salt" and ?D = "chunk_bytes ctx @ contents b"
  have rc: "receiver L HM c ctx (2 * n)" "wf_world w" "n \<le> length msgs" "wf_cipher c"
    using assms(2) by (auto simp: receiving_def receiver_def)
  obtain e b' ctx' w' where run: "aead_decrypt L w b ctx cap = Inr (e, b', ctx', w')"
    and res: "call_result L HM S c (2 * n) w ctx ?D b (e, b', ctx', w')"
    using aead_decrypt_result [OF assms(1) rc(1,2) assms(3)] by (metis prod_cases4)
  show ?thesis
  proof (cases "cx_init ctx = 0 \<and> length ?D \<le> ci_key_len c")
    case True
    then have r: "e = CRYPTO_NEED_MORE" "receiver L HM c ctx' 0" "chunk_bytes ctx' = ?D" "cx_init ctx' = 0" "wf_world w'"
      "w_pp w' = w_pp w"
      using res by (auto simp: call_result_def)
    have "receiving L HM S c salt msgs w' ctx' (B @ contents b) n"
      using True r assms(2) by (simp add: receiving_def seen_def)
    with run r(1) show ?thesis by blast
  next
    case False
    then have "cx_init ctx = 0 \<Longrightarrow> ci_key_len c < length ?D" by simp
    note hp = honest_parts [OF assms(2,4,6) this]
    have ns: "cx_init ctx \<le> 1 \<Longrightarrow> \<not> seen w salt"
      using assms(2) by (simp add: receiving_def)
    then have "\<not> (cx_init ctx = 0 \<and> seen w (salt_of ctx ?D))"
      using hp(1) by auto
    then obtain ms rest st where fr: "frames_result L HM S c (2 * n) w ctx ?D (e, b', ctx', w') ms rest st"
      using call_result_framesD [OF res False] by blast
    have wf: "wf_world w'" "e \<noteq> CRYPTO_OK \<Longrightarrow> w_pp w' = w_pp w"
      using res by (auto simp: call_result_def)
    have uf: "unframe S c ?k (2 * n) (body_of ctx ?D) ms rest st"
      using fr hp(1) by (simp add: frames_result_def)
    have "\<forall>m\<in>set (drop n msgs). payload_ok m"
      using assms(5) by (meson in_set_dropD)
    then obtain q where q: "q \<le> length (drop n msgs)" "ms = take q (drop n msgs)"
      "body_of ctx ?D = wire S c ?k n ms @ rest" "st = CRYPTO_OK \<longleftrightarrow> rest = []"
      "st = CRYPTO_OK \<or> st = CRYPTO_NEED_MORE \<and> q < length (drop n msgs) \<and> length rest < length (drop n msgs ! q) + 34"
      using unframe_wire [OF lib_lawsD(4) [OF assms(1)] receiver_key [OF assms(1) rc(4) assms(4)] uf refl hp(2)] by blast
    have lm: "length ms = q" "n + q \<le> length msgs"
      using q(1,2) rc(3) by simp_all
    have e: "e = CRYPTO_OK \<or> e = CRYPTO_NEED_MORE \<and> q = 0"
      using fr q(4,5) lm ns hp(1) by (auto simp: frames_result_def)
    then have ne: "e \<noteq> CRYPTO_ERROR" by auto
    have r: "receiver L HM c ctx' (2 * (n + q))" "chunk_bytes ctx' = rest" "take (ci_key_len c) (cx_salt ctx') = salt"
      using fr ne lm hp(1) by (auto simp: frames_result_def)
    have i: "e = CRYPTO_OK \<Longrightarrow> cx_init ctx' \<ge> 2 \<and> contents b' = concat ms" "e = CRYPTO_NEED_MORE \<Longrightarrow> cx_init ctx' = max 1 (cx_init ctx)"
      using fr by (auto simp: frames_result_def Let_def)
    have tk: "take n msgs @ ms = take (n + q) msgs"
      using q(2) by (simp add: take_add)
    have B: "B @ contents b = salt @ wire S c ?k 0 (take (n + q) msgs) @ rest"
      using hp(3) q(3) wire_append [of S c ?k 0 "take n msgs" ms] rc(3) tk by simp
    have "cx_init ctx' \<noteq> 0" "cx_init ctx' \<le> 1 \<longrightarrow> \<not> seen w' salt"
      using e i ns wf(2) by (auto simp: seen_def)
    then have "receiving L HM S c salt msgs w' ctx' (B @ contents b) (n + q)"
      using wf(1) lm(2) r B q(4,5) by (auto simp: receiving_def)
    moreover have "e = CRYPTO_OK \<and> contents b' = concat (take (n + q - n) (drop n msgs)) \<or> e = CRYPTO_NEED_MORE \<and> n + q = n"
      using e i(1) q(2) by auto
    ultimately show ?thesis
      using run by (intro exI [of _ e] exI [of _ b'] exI [of _ ctx'] exI [of _ w'] exI [of _ "n + q"]) simp
  qed
qed

section \<open>Whole sessions\<close>

text \<open>The calls a process makes as fragments arrive; an error ends the connection.\<close>

fun receive_all ::
  "crypto_lib \<Rightarrow> world \<Rightarrow> cipher_ctx_t \<Rightarrow> nat \<Rightarrow> buffer_t list \<Rightarrow> (int list \<times> bytes \<times> cipher_ctx_t \<times> world) res" where
  "receive_all L w ctx cap [] = Inr ([], [], ctx, w)"
| "receive_all L w ctx cap (b # bs) =
     bnd (aead_decrypt L w b ctx cap) (\<lambda>(e, b', ctx', w').
       if e = CRYPTO_ERROR then Inr ([e], [], ctx', w')
       else bnd (receive_all L w' ctx' cap bs) (\<lambda>(es, out, r).
         Inr (e # es, (if e = CRYPTO_OK then contents b' else []) @ out, r)))"

lemma receive_all_honest:
  assumes "lib_laws L HM S" and "length salt = ci_key_len c" and "\<forall>m\<in>set msgs. payload_ok m"
  shows "receiving L HM S c salt msgs w ctx B n \<Longrightarrow> \<forall>b\<in>set bs. wf_buffer b \<Longrightarrow>
    B @ concat (map contents bs) @ tail = salt @ wire S c (subkey HM c salt) 0 msgs \<Longrightarrow>
    \<exists>es out ctx' w' n'. receive_all L w ctx cap bs = Inr (es, out, ctx', w') \<and> n \<le> n' \<and> CRYPTO_ERROR \<notin> set es \<and>
      receiving L HM S c salt msgs w' ctx' (B @ concat (map contents bs)) n' \<and> out = concat (take (n' - n) (drop n msgs))"
proof (induction bs arbitrary: w ctx B n)
  case Nil
  then show ?case by auto
next
  case (Cons b bs)
  obtain e b' ctx1 w1 n1 where 1: "aead_decrypt L w b ctx cap = Inr (e, b', ctx1, w1)" "n \<le> n1"
    "receiving L HM S c salt msgs w1 ctx1 (B @ contents b) n1"
    "e = CRYPTO_OK \<and> contents b' = concat (take (n1 - n) (drop n msgs)) \<or> e = CRYPTO_NEED_MORE \<and> n1 = n"
    using receiving_step [OF assms(1) Cons.prems(1) _ assms(2,3), of b "concat (map contents bs) @ tail" cap] Cons.prems(2,3)
    by auto
  obtain es out ctx2 w2 n2 where 2: "receive_all L w1 ctx1 cap bs = Inr (es, out, ctx2, w2)" "n1 \<le> n2" "CRYPTO_ERROR \<notin> set es"
    "receiving L HM S c salt msgs w2 ctx2 ((B @ contents b) @ concat (map contents bs)) n2"
    "out = concat (take (n2 - n1) (drop n1 msgs))"
    using Cons.IH [OF 1(3)] Cons.prems(2,3) by auto
  have "take (n2 - n) (drop n msgs) = take (n1 - n) (drop n msgs) @ take (n2 - n1) (drop n1 msgs)"
    using 1(2) 2(2) take_add [of "n1 - n" "n2 - n1" "drop n msgs"] by simp
  then have "(if e = CRYPTO_OK then contents b' else []) @ out = concat (take (n2 - n) (drop n msgs))"
    using 1(4) 2(5) by auto
  moreover have "receive_all L w ctx cap (b # bs) =
      Inr (e # es, (if e = CRYPTO_OK then contents b' else []) @ out, ctx2, w2)"
    using 1(1,4) 2(1) by auto
  moreover have "CRYPTO_ERROR \<notin> set (e # es)"
    using 1(4) 2(3) by auto
  ultimately show ?case
    using 1(2) 2(2,4) by (intro exI [of _ "e # es"] exI [of _ "concat (take (n2 - n) (drop n msgs))"]
        exI [of _ ctx2] exI [of _ w2] exI [of _ n2]) simp
qed

text \<open>The whole stream leaves nothing buffered and delivers every message.\<close>

lemma receiving_all:
  assumes "aead_laws L S" and "receiving L HM S c salt msgs w ctx (salt @ wire S c (subkey HM c salt) 0 msgs) n"
    and "length salt = ci_key_len c" and "msgs \<noteq> []"
  shows "n = length msgs"
proof (rule ccontr)
  let ?k = "subkey HM c salt"
  assume "n \<noteq> length msgs"
  then have n: "n < length msgs"
    using assms(2) by (simp add: receiving_def)
  then have dr: "drop n msgs = msgs ! n # drop (Suc n) msgs"
    by (simp add: Cons_nth_drop_Suc)
  have "0 < length (wire S c ?k 0 msgs)"
    using assms(1,4) by (cases msgs) (simp_all add: frame_length)
  then have i: "cx_init ctx \<noteq> 0"
    using assms(2,3) by (auto simp: receiving_def split: if_splits)
  then have "wire S c ?k 0 msgs = wire S c ?k 0 (take n msgs) @ chunk_bytes ctx"
    using assms(2) by (simp add: receiving_def)
  then have "chunk_bytes ctx = frame S c ?k n (msgs ! n) @ wire S c ?k (Suc n) (drop (Suc n) msgs)"
    using wire_take_drop [of n msgs S c ?k] n dr by simp
  then have "length (msgs ! n) + 34 \<le> length (chunk_bytes ctx)" "chunk_bytes ctx \<noteq> []"
    using frame_length [OF assms(1), of c ?k n "msgs ! n"] by auto
  then show False
    using assms(2) i by (simp add: receiving_def)
qed

section \<open>Properties\<close>

lemma receive_wire:
  assumes "lib_laws L HM S" and "wf_cipher c" and "wf_world w" and "\<not> seen w salt" and "length salt = ci_key_len c"
    and "\<forall>m\<in>set msgs. payload_ok m" and "msgs \<noteq> []"
    and "\<forall>f\<in>set frags. wf_buffer f" and "concat (map contents frags) = salt @ wire S c (subkey HM c salt) 0 msgs"
  shows "\<exists>ctx es ctx2 w2. aead_ctx_init L w c 0 = Inr (ctx, w) \<and>
    receive_all L w ctx cap frags = Inr (es, concat msgs, ctx2, w2) \<and> CRYPTO_ERROR \<notin> set es"
proof -
  obtain ctx where r: "aead_ctx_init L w c 0 = Inr (ctx, w)" "receiving L HM S c salt msgs w ctx [] 0"
    using receiving_init [OF assms(1-4)] by blast
  obtain es out ctx2 w2 n where "receive_all L w ctx cap frags = Inr (es, out, ctx2, w2)" "CRYPTO_ERROR \<notin> set es"
    "receiving L HM S c salt msgs w2 ctx2 ([] @ salt @ wire S c (subkey HM c salt) 0 msgs) n"
    "out = concat (take (n - 0) (drop 0 msgs))"
    using receive_all_honest [OF assms(1,5,6) r(2) assms(8), of "[]" cap] assms(9) by auto
  moreover from this(3) have "n = length msgs"
    by (intro receiving_all [OF lib_lawsD(4) [OF assms(1)] _ assms(5)]) (use assms(7) in simp_all)
  ultimately show ?thesis
    using r(1) by auto
qed

lemma aead_session:
  assumes "lib_laws L HM S" and "lib_laws L' HM S" and "wf_cipher c" and "wf_world w" and "wf_world w'"
    and "\<forall>b\<in>set bs. wf_buffer b \<and> payload_ok (contents b)" and "bs \<noteq> []"
    and "\<not> seen w' (randombytes_buf L (w_draws w) (ci_key_len c))"
  shows "\<exists>ctx w1 sent ctx2 w2. aead_ctx_init L w c 1 = Inr (ctx, w1) \<and> send_all L w1 ctx cap bs = Inr (sent, ctx2, w2) \<and>
    (\<forall>frags. (\<forall>f\<in>set frags. wf_buffer f) \<longrightarrow> concat (map contents frags) = sent \<longrightarrow>
      (\<exists>rctx es rctx2 w3. aead_ctx_init L' w' c 0 = Inr (rctx, w') \<and>
         receive_all L' w' rctx cap' frags = Inr (es, concat (map contents bs), rctx2, w3) \<and>
         CRYPTO_ERROR \<notin> set es))"
proof -
  let ?salt = "randombytes_buf L (w_draws w) (ci_key_len c)" and ?ms = "map contents bs"
  let ?sent = "?salt @ wire S c (subkey HM c ?salt) 0 ?ms"
  have ls: "length ?salt = ci_key_len c"
    using assms(1) by (rule lib_lawsD)
  obtain ctx w1 where i: "aead_ctx_init L w c 1 = Inr (ctx, w1)" "wf_world w1" "sending L HM c ?salt ctx 0" "cx_init ctx = 0"
    using sending_init [OF assms(1,3,4)] by blast
  obtain ctx2 w2 where snd: "send_all L w1 ctx cap bs = Inr (?sent, ctx2, w2)"
    using send_all_wire [OF assms(1) i(3,2), of bs cap] assms(6,7) i(4) by auto
  have ok: "\<forall>m\<in>set ?ms. payload_ok m" "?ms \<noteq> []"
    using assms(6,7) by simp_all
  note rw = receive_wire [OF assms(2,3,5,8) ls ok]
  show ?thesis
    by (rule exI [of _ ctx], rule exI [of _ w1], rule exI [of _ ?sent], rule exI [of _ ctx2], rule exI [of _ w2])
      (intro conjI allI impI i(1) snd rw)
qed

text \<open>C10: a TCP session survives any fragmentation. A fresh sender encrypts the messages \<open>bs\<close> (each of 1 to
  0x3FFF bytes) one call after the other; however the network cuts the resulting bytes into fragments, a
  fresh receiver in another process, with the same key and a replay filter that has not seen the salt,
  never reports \<^verbatim>\<open>CRYPTO_ERROR\<close> and delivers exactly the messages in order. The two sides may use different
  back ends and capacities.\<close>

theorem aead_stream_roundtrip:
  assumes "lib_laws L HM S" and "lib_laws L' HM S" and "wf_cipher c" and "wf_world w" and "wf_world w'"
    and "\<forall>b\<in>set bs. wf_buffer b \<and> payload_ok (contents b)" and "bs \<noteq> []"
    and "\<not> seen w' (randombytes_buf L (w_draws w) (ci_key_len c))"
  shows "\<exists>ctx w1 sent ctx2 w2. aead_ctx_init L w c 1 = Inr (ctx, w1) \<and> send_all L w1 ctx cap bs = Inr (sent, ctx2, w2) \<and>
    (\<forall>frags. (\<forall>f\<in>set frags. wf_buffer f) \<longrightarrow> concat (map contents frags) = sent \<longrightarrow>
      (\<exists>rctx es rctx2 w3. aead_ctx_init L' w' c 0 = Inr (rctx, w') \<and>
         receive_all L' w' rctx cap' frags = Inr (es, concat (map contents bs), rctx2, w3) \<and>
         CRYPTO_ERROR \<notin> set es))"
  by (rule aead_session [OF assms])

text \<open>C11: every call of \<^verbatim>\<open>aead_decrypt\<close> refines the abstract receiver. For any bytes, honest or not, the call
  returns within its buffers, and the result is the one \<open>call_result\<close> specifies: more input is asked for while
  the salt or the next frame is incomplete, a seen salt or a byte that no sender with the key produced is
  \<^verbatim>\<open>CRYPTO_ERROR\<close> with the buffer and the replay filter untouched, and otherwise exactly the payloads of the
  complete genuine frames are delivered, the rest stays buffered and the salt is recorded once.\<close>

theorem aead_decrypt_refines:
  assumes "lib_laws L HM S" and "receiver L HM c ctx i" and "wf_world w" and "wf_buffer b"
  shows "\<exists>r. aead_decrypt L w b ctx cap = Inr r \<and>
    call_result L HM S c i w ctx (chunk_bytes ctx @ contents b) b r"
  using assms by (rule aead_decrypt_result)

text \<open>C16: a replayed TCP session is refused. A fresh context whose first fragment holds a salt that the
  replay filter knows gives \<^verbatim>\<open>CRYPTO_ERROR\<close>, whatever follows the salt.\<close>

theorem aead_stream_replay:
  assumes "lib_laws L HM S" and "wf_cipher c" and "wf_world w" and "wf_buffer b"
    and "ci_key_len c < b_len b" and "seen w (take (ci_key_len c) (contents b))"
  shows "\<exists>ctx ctx' w'. aead_ctx_init L w c 0 = Inr (ctx, w) \<and>
    aead_decrypt L w b ctx cap = Inr (CRYPTO_ERROR, b, ctx', w') \<and> w_pp w' = w_pp w"
proof -
  obtain ctx where ctx: "aead_ctx_init L w c 0 = Inr (ctx, w)" "unkeyed L ctx" "cx_cipher ctx = c" "cx_init ctx = 0"
    "cx_chunk ctx = None"
    using aead_ctx_init_dec [OF assms(1,2)] by metis
  then have rc: "receiver L HM c ctx 0" and D: "chunk_bytes ctx @ contents b = contents b"
    using assms(2) by (auto simp: receiver_def chunk_ok_def chunk_bytes_def unkeyed_def wf_ctx_def)
  obtain e b' ctx' w' where run: "aead_decrypt L w b ctx cap = Inr (e, b', ctx', w')"
    and res: "call_result L HM S c 0 w ctx (contents b) b (e, b', ctx', w')"
    using aead_decrypt_result [OF assms(1) rc assms(3,4)] unfolding D by (metis prod_cases4)
  have "e = CRYPTO_ERROR"
    using res assms(4,5,6) ctx(3,4) by (simp add: call_result_def salt_of_def)
  with run res ctx(1) show ?thesis
    by (auto simp: call_result_def)
qed

lemma wire_concat:
  "wire S c k j ms = concat (map (\<lambda>i. frame S c k (j + i) (ms ! i)) [0..<length ms])"
proof (induction ms arbitrary: j)
  case (Cons m ms)
  have "map (\<lambda>i. frame S c k (j + i) ((m # ms) ! i)) [0..<length (m # ms)] =
      frame S c k j m # map (\<lambda>i. frame S c k (Suc j + i) (ms ! i)) [0..<length ms]"
    by (simp add: upt_conv_Cons map_Suc_upt [symmetric] del: upt_Suc)
  with Cons.IH [of "Suc j"] show ?case by simp
qed simp

lemma distinct_nonces: "n \<le> 256 ^ nl \<Longrightarrow> distinct (map (le_bytes nl) [0..<n])"
  using le_bytes_inj by (fastforce simp: distinct_map inj_on_def)

text \<open>C17: no nonce is used twice. The bytes a fresh sender emits for the messages \<open>bs\<close> are the salt followed, for
  each message, by its length header sealed under one nonce and the message sealed under another; the nonces of
  all these operations, in order, are the list \<open>nonces\<close> of the little-endian numbers 0, 1, 2 and so on, two per
  message, and they are pairwise different as long as there are fewer than \<^verbatim>\<open>256 ^ nonce_len\<close> operations. The nonce
  left in the context is the next one.\<close>

theorem aead_stream_nonce:
  assumes "lib_laws L HM S" and "wf_cipher c" and "wf_world w"
    and "\<forall>b\<in>set bs. wf_buffer b \<and> payload_ok (contents b)" and "bs \<noteq> []"
    and "2 * length bs < 256 ^ ci_nonce_len c"
  shows "\<exists>ctx w1 ctx2 w2 salt nonces. aead_ctx_init L w c 1 = Inr (ctx, w1) \<and> salt = take (ci_key_len c) (cx_salt ctx) \<and>
    nonces = map (le_bytes (ci_nonce_len c)) [0..<2 * length bs] \<and> distinct nonces \<and>
    send_all L w1 ctx cap bs = Inr (salt @ concat (map (\<lambda>i.
        S (ci_method c) (subkey HM c salt) (nonces ! (2 * i)) (hdr (contents (bs ! i))) @
        S (ci_method c) (subkey HM c salt) (nonces ! (2 * i + 1)) (contents (bs ! i))) [0..<length bs]), ctx2, w2) \<and>
    nonce_of ctx2 = le_bytes (ci_nonce_len c) (2 * length bs) \<and> nonce_of ctx2 \<notin> set nonces"
proof -
  let ?salt = "randombytes_buf L (w_draws w) (ci_key_len c)" and ?nl = "ci_nonce_len c"
  let ?nonces = "map (le_bytes ?nl) [0..<2 * length bs]" and ?k = "subkey HM c ?salt"
  obtain ctx w1 where i: "aead_ctx_init L w c 1 = Inr (ctx, w1)" "wf_world w1" "sending L HM c ?salt ctx 0" "cx_init ctx = 0"
    using sending_init [OF assms(1-3)] by blast
  obtain ctx2 w2 where run: "send_all L w1 ctx cap bs = Inr (?salt @ wire S c ?k 0 (map contents bs), ctx2, w2)"
    and snd: "sending L HM c ?salt ctx2 (length bs)"
    using send_all_wire [OF assms(1) i(3,2) assms(4), of cap] i(4) assms(5) by auto
  have "map (\<lambda>i. frame S c ?k (0 + i) (map contents bs ! i)) [0..<length bs] =
      map (\<lambda>i. S (ci_method c) ?k (?nonces ! (2 * i)) (hdr (contents (bs ! i))) @
        S (ci_method c) ?k (?nonces ! (2 * i + 1)) (contents (bs ! i))) [0..<length bs]"
    by (rule map_cong) (simp_all add: frame_def seal_at_def)
  note run [unfolded wire_concat length_map this]
  moreover have "take (ci_key_len c) (cx_salt ctx) = ?salt"
    using i(3) by (simp add: sending_def)
  moreover have "distinct ?nonces"
    using assms(6) by (intro distinct_nonces) simp
  moreover have "nonce_of ctx2 = le_bytes ?nl (2 * length bs)"
    using snd assms(5) by (auto simp: sending_def at_nonce_def split: if_splits)
  moreover have "le_bytes ?nl (2 * length bs) \<notin> set ?nonces"
    using assms(6) le_bytes_inj [of ?nl "2 * length bs"] by fastforce
  ultimately show ?thesis
    using i(1) by (intro exI conjI) (assumption | simp)+
qed

end
