(* ===== verification/SS_Stream.thy ===== *)
theory SS_Stream
  imports SS_Aead
begin

text \<open>
  The stream ciphers of \<^verbatim>\<open>src/stream.c\<close>: tables, dispatch to libsodium (whose functions take a block
  counter) or to an mbed TLS context, contexts, packets (\<^verbatim>\<open>stream_encrypt_all\<close>, \<^verbatim>\<open>stream_decrypt_all\<close>) and
  TCP streams (\<^verbatim>\<open>stream_encrypt\<close>, \<^verbatim>\<open>stream_decrypt\<close>). \<^verbatim>\<open>SS_DEBUG\<close> and \<^verbatim>\<open>MODULE_REMOTE\<close> are not defined, as in
  the build of the client. Every pointer argument that is written is returned.
\<close>

section \<open>Tables\<close>

abbreviation (input) TABLE :: int where "TABLE \<equiv> 0"
abbreviation (input) RC4 :: int where "RC4 \<equiv> 1"
abbreviation (input) RC4_MD5 :: int where "RC4_MD5 \<equiv> 2"
abbreviation (input) SALSA20 :: int where "SALSA20 \<equiv> 18"
abbreviation (input) CHACHA20 :: int where "CHACHA20 \<equiv> 19"
abbreviation (input) CHACHA20IETF :: int where "CHACHA20IETF \<equiv> 20"
abbreviation (input) STREAM_CIPHER_NUM :: int where "STREAM_CIPHER_NUM \<equiv> 21"
abbreviation (input) SODIUM_BLOCK_SIZE :: nat where "SODIUM_BLOCK_SIZE \<equiv> 64"

definition supported_stream_ciphers :: "string list" where
  "supported_stream_ciphers =
     [''table'', ''rc4'', ''rc4-md5'', ''aes-128-cfb'', ''aes-192-cfb'', ''aes-256-cfb'', ''aes-128-ctr'',
      ''aes-192-ctr'', ''aes-256-ctr'', ''bf-cfb'', ''camellia-128-cfb'', ''camellia-192-cfb'',
      ''camellia-256-cfb'', ''cast5-cfb'', ''des-cfb'', ''idea-cfb'', ''rc2-cfb'', ''seed-cfb'', ''salsa20'',
      ''chacha20'', ''chacha20-ietf'']"

definition supported_stream_ciphers_mbedtls :: "string list" where
  "supported_stream_ciphers_mbedtls =
     [''table'', ''ARC4-128'', ''ARC4-128'', ''AES-128-CFB128'', ''AES-192-CFB128'', ''AES-256-CFB128'',
      ''AES-128-CTR'', ''AES-192-CTR'', ''AES-256-CTR'', ''BLOWFISH-CFB64'', ''CAMELLIA-128-CFB128'',
      ''CAMELLIA-192-CFB128'', ''CAMELLIA-256-CFB128'', ''unsupported'', ''unsupported'', ''unsupported'',
      ''unsupported'', ''unsupported'', ''salsa20'', ''chacha20'', ''chacha20-ietf'']"

definition supported_stream_ciphers_nonce_size :: "nat list" where
  "supported_stream_ciphers_nonce_size =
     [0, 0, 16, 16, 16, 16, 16, 16, 16, 8, 16, 16, 16, 8, 8, 8, 8, 16, 8, 8, 12]"

definition supported_stream_ciphers_key_size :: "nat list" where
  "supported_stream_ciphers_key_size =
     [0, 16, 16, 16, 24, 32, 16, 24, 32, 16, 16, 24, 32, 16, 8, 16, 16, 16, 32, 32, 32]"

section \<open>The primitives\<close>

text \<open>The library functions take the message, the nonce, the block counter and the key; libsodium reads a
  key of 32 bytes and a nonce of 8, or 12 for the IETF variant, whose counter has 32 bits.\<close>

definition crypto_stream_xor_ic ::
  "crypto_lib \<Rightarrow> bytes \<Rightarrow> nat \<Rightarrow> bytes \<Rightarrow> bytes \<Rightarrow> u64 \<Rightarrow> bytes \<Rightarrow> int \<Rightarrow> (int \<times> bytes) res" where
  "crypto_stream_xor_ic L c coff m n ic k method =
     (if method = SALSA20 then
        bnd (read_mem n 0 8) (\<lambda>iv. bnd (read_mem k 0 32) (\<lambda>key.
          let (r, out) = stream_salsa20_xor_ic L m iv ic key in bnd (write_mem c coff out) (\<lambda>c. Inr (r, c))))
      else if method = CHACHA20 then
        bnd (read_mem n 0 8) (\<lambda>iv. bnd (read_mem k 0 32) (\<lambda>key.
          let (r, out) = stream_chacha20_xor_ic L m iv ic key in bnd (write_mem c coff out) (\<lambda>c. Inr (r, c))))
      else if method = CHACHA20IETF then
        bnd (read_mem n 0 12) (\<lambda>iv. bnd (read_mem k 0 32) (\<lambda>key.
          let (r, out) = stream_chacha20_ietf_xor_ic L m iv (ucast ic) key in
          bnd (write_mem c coff out) (\<lambda>c. Inr (r, c))))
      else Inr (0, c))"

definition cipher_nonce_size :: "cipher_t option \<Rightarrow> nat res" where
  "cipher_nonce_size c =
     (case c of None \<Rightarrow> Inr 0
      | Some cipher \<Rightarrow> (case ci_info cipher of None \<Rightarrow> Inl UB | Some kt \<Rightarrow> Inr (kt_iv_size kt)))"

definition cipher_key_size :: "cipher_t option \<Rightarrow> nat res" where
  "cipher_key_size c =
     (case c of None \<Rightarrow> Inr 0
      | Some cipher \<Rightarrow> (case ci_info cipher of None \<Rightarrow> Inl UB | Some kt \<Rightarrow> Inr (kt_key_bitlen kt div 8)))"

definition stream_get_cipher_type :: "crypto_lib \<Rightarrow> int \<Rightarrow> cipher_kt option" where
  "stream_get_cipher_type L method =
     (if method \<le> TABLE \<or> method \<ge> STREAM_CIPHER_NUM then None
      else
        let method = (if method = RC4_MD5 then RC4 else method) in
        if method \<ge> SALSA20 then None
        else
          let mbedtlsname = supported_stream_ciphers_mbedtls ! nat method in
          if mbedtlsname = ''unsupported'' then None
          else mbedtls_cipher_info_from_string L mbedtlsname)"

section \<open>Contexts\<close>

definition stream_cipher_ctx_init :: "crypto_lib \<Rightarrow> cipher_ctx_t \<Rightarrow> int \<Rightarrow> int \<Rightarrow> cipher_ctx_t res" where
  "stream_cipher_ctx_init L ctx method enc =
     (if method \<le> TABLE \<or> method \<ge> STREAM_CIPHER_NUM then Inr ctx
      else if method \<ge> SALSA20 then Inr ctx
      else
        let cipher = stream_get_cipher_type L method in
        bnd (ss_malloc (lib_heap L) (length (mbedtls_cipher_init L))) (\<lambda>_.
        if cipher = None then Inl (FATAL ''Cannot initialize mbed TLS cipher'')
        else
          let (err, evp) = mbedtls_cipher_setup L (mbedtls_cipher_init L) cipher in
          if err \<noteq> 0 then Inl (FATAL ''Cannot initialize mbed TLS cipher context'')
          else Inr (ctx\<lparr>cx_evp := Some evp\<rparr>)))"

definition stream_ctx_release :: "cipher_ctx_t \<Rightarrow> cipher_ctx_t" where
  "stream_ctx_release ctx =
     (let ctx = (if cx_chunk ctx \<noteq> None then ctx\<lparr>cx_chunk := None\<rparr> else ctx) in
      if ci_method (cx_cipher ctx) \<ge> SALSA20 then ctx else ctx\<lparr>cx_evp := None\<rparr>)"

text \<open>For RC4-MD5 the key of the library context is the digest of key and nonce, in the static buffer of
  \<^verbatim>\<open>crypto_md5\<close>, and no nonce is set.\<close>

definition cipher_ctx_set_nonce ::
  "crypto_lib \<Rightarrow> world \<Rightarrow> cipher_ctx_t \<Rightarrow> bytes option \<Rightarrow> nat \<Rightarrow> int \<Rightarrow> (cipher_ctx_t \<times> world) res" where
  "cipher_ctx_set_nonce L w ctx nonce nonce_len enc =
     (let cipher = cx_cipher ctx in
      case nonce of None \<Rightarrow> Inr (ctx, w)
      | Some n \<Rightarrow>
      if ci_method cipher \<ge> SALSA20 then Inr (ctx, w)
      else
        bnd (if ci_method cipher = RC4_MD5 then
               bnd (read_mem (ci_key cipher) 0 16) (\<lambda>k. bnd (read_mem n 0 16) (\<lambda>iv.
               bnd (crypto_md5 L w (k @ iv)) (\<lambda>(md, w). Inr (md, 0, w))))
             else Inr (ci_key cipher, nonce_len, w)) (\<lambda>(true_key, nonce_len, w).
        case cx_evp ctx of None \<Rightarrow> Inr (ctx, w)
        | Some evp \<Rightarrow>
          bnd (read_mem true_key 0 (ci_key_len cipher)) (\<lambda>k.
          let (err, evp) = mbedtls_cipher_setkey L evp k (ci_key_len cipher * 8) enc in
          if err \<noteq> 0 then Inl (FATAL ''Cannot set mbed TLS cipher key'')
          else
            bnd (read_mem n 0 nonce_len) (\<lambda>iv.
            let (err, evp) = mbedtls_cipher_set_iv L evp iv in
            if err \<noteq> 0 then Inl (FATAL ''Cannot set mbed TLS cipher NONCE'')
            else
              let (err, evp) = mbedtls_cipher_reset L evp in
              if err \<noteq> 0 then Inl (FATAL ''Cannot finalize mbed TLS cipher context'')
              else Inr (ctx\<lparr>cx_evp := Some evp\<rparr>, w)))))"

text \<open>The output goes to offset \<open>off\<close> of the block \<open>out\<close>; the last component is \<^verbatim>\<open>*olen\<close>.\<close>

definition cipher_ctx_update ::
  "crypto_lib \<Rightarrow> cipher_ctx_t \<Rightarrow> bytes \<Rightarrow> nat \<Rightarrow> bytes \<Rightarrow> (int \<times> cipher_ctx_t \<times> bytes \<times> nat) res" where
  "cipher_ctx_update L ctx out off inp =
     (case cx_evp ctx of None \<Rightarrow> Inl UB
      | Some evp \<Rightarrow>
          let (err, evp, bs) = mbedtls_cipher_update L evp inp in
          bnd (write_mem out off bs) (\<lambda>out. Inr (err, ctx\<lparr>cx_evp := Some evp\<rparr>, out, length bs)))"

definition stream_ctx_init :: "crypto_lib \<Rightarrow> world \<Rightarrow> cipher_t \<Rightarrow> int \<Rightarrow> (cipher_ctx_t \<times> world) res" where
  "stream_ctx_init L w cipher enc =
     bnd (stream_cipher_ctx_init L (zero_ctx cipher) (ci_method cipher) enc) (\<lambda>ctx.
       if enc \<noteq> 0 then
         bnd (rand_bytes L w (cx_nonce ctx) (ci_nonce_len cipher)) (\<lambda>(nonce, w).
           Inr (ctx\<lparr>cx_nonce := nonce\<rparr>, w))
       else Inr (ctx, w))"

section \<open>Packets\<close>

text \<open>One pass over a message from its start, to offset \<open>off\<close> of the block \<open>d\<close>: error code, context, block and
  output length. \<^verbatim>\<open>len\<close> is the length recorded beforehand, which only mbed TLS overwrites.\<close>

definition stream_pass ::
  "crypto_lib \<Rightarrow> cipher_ctx_t \<Rightarrow> bytes \<Rightarrow> bytes \<Rightarrow> nat \<Rightarrow> nat \<Rightarrow> (int \<times> cipher_ctx_t \<times> bytes \<times> nat) res" where
  "stream_pass L ctx m d off len =
     (let cipher = cx_cipher ctx in
      if ci_method cipher \<ge> SALSA20 then
        bnd (crypto_stream_xor_ic L d off m (cx_nonce ctx) 0 (ci_key cipher) (ci_method cipher)) (\<lambda>(_, d).
          Inr (CRYPTO_OK, ctx, d, len))
      else cipher_ctx_update L ctx d off m)"

definition stream_encrypt_all ::
  "crypto_lib \<Rightarrow> world \<Rightarrow> buffer_t \<Rightarrow> cipher_t \<Rightarrow> nat \<Rightarrow> (int \<times> buffer_t \<times> world) res" where
  "stream_encrypt_all L w plaintext cipher capacity =
     bnd (stream_ctx_init L w cipher 1) (\<lambda>(ctx, w).
       let nonce_len = ci_nonce_len cipher in
       bnd (brealloc (lib_heap L) (w_tmp w Tmp_stream_encrypt_all) (nonce_len + b_len plaintext) capacity) (\<lambda>tmp.
       bnd (cipher_ctx_set_nonce L w ctx (Some (cx_nonce ctx)) nonce_len 1) (\<lambda>(ctx, w).
       bnd (memcpy (b_data tmp) 0 (cx_nonce ctx) 0 nonce_len) (\<lambda>d.
       bnd (read_mem (b_data plaintext) 0 (b_len plaintext)) (\<lambda>m.
       bnd (stream_pass L ctx m d nonce_len (b_len plaintext)) (\<lambda>(err, ctx, d, clen).
       let tmp = tmp\<lparr>b_data := d, b_len := clen\<rparr>;
           w = put_tmp Tmp_stream_encrypt_all tmp w
       in
       if err \<noteq> 0 then Inr (CRYPTO_ERROR, plaintext, w)
       else bnd (buf_assign (lib_heap L) plaintext (b_data tmp) (nonce_len + b_len tmp) capacity) (\<lambda>plaintext.
         Inr (CRYPTO_OK, plaintext, w))))))))"

definition stream_decrypt_all ::
  "crypto_lib \<Rightarrow> world \<Rightarrow> buffer_t \<Rightarrow> cipher_t \<Rightarrow> nat \<Rightarrow> (int \<times> buffer_t \<times> world) res" where
  "stream_decrypt_all L w ciphertext cipher capacity =
     (let nonce_len = ci_nonce_len cipher in
      if b_len ciphertext \<le> nonce_len then Inr (CRYPTO_ERROR, ciphertext, w)
      else
        bnd (stream_ctx_init L w cipher 0) (\<lambda>(ctx, w).
        bnd (brealloc (lib_heap L) (w_tmp w Tmp_stream_decrypt_all) (b_len ciphertext) capacity) (\<lambda>tmp.
        let tmp = tmp\<lparr>b_len := b_len ciphertext - nonce_len\<rparr>;
            w = put_tmp Tmp_stream_decrypt_all tmp w
        in
        bnd (memcpy (cx_nonce ctx) 0 (b_data ciphertext) 0 nonce_len) (\<lambda>nonce.
        let ctx = ctx\<lparr>cx_nonce := nonce\<rparr> in
        bnd (ppbloom_check (w_pp w) (cx_nonce ctx) (int nonce_len)) (\<lambda>seen.
        if seen = 1 then Inr (CRYPTO_ERROR, ciphertext, w)
        else
          bnd (cipher_ctx_set_nonce L w ctx (Some (cx_nonce ctx)) nonce_len 0) (\<lambda>(ctx, w).
          bnd (read_mem (b_data ciphertext) nonce_len (b_len ciphertext - nonce_len)) (\<lambda>m.
          bnd (stream_pass L ctx m (b_data tmp) 0 (b_len tmp)) (\<lambda>(err, ctx, d, plen).
          let tmp = tmp\<lparr>b_data := d, b_len := plen\<rparr>;
              w = put_tmp Tmp_stream_decrypt_all tmp w
          in
          if err \<noteq> 0 then Inr (CRYPTO_ERROR, ciphertext, w)
          else
            bnd (ppbloom_add (w_pp w) (cx_nonce ctx) (int nonce_len)) (\<lambda>(_, pp).
            bnd (buf_assign (lib_heap L) ciphertext (b_data tmp) (b_len tmp) capacity) (\<lambda>ciphertext.
              Inr (CRYPTO_OK, ciphertext, w\<lparr>w_pp := pp\<rparr>)))))))))))"

section \<open>Streams\<close>

text \<open>
  The libsodium branch of \<^verbatim>\<open>stream_encrypt\<close> and \<^verbatim>\<open>stream_decrypt\<close>: the library only starts at whole blocks of the
  key stream, so the source is shifted right by the bytes of the current block that are already used.
  \<open>off\<close> is where the output starts in \<open>dst\<close>.
\<close>

definition stream_sodium ::
  "crypto_lib \<Rightarrow> cipher_ctx_t \<Rightarrow> buffer_t \<Rightarrow> buffer_t \<Rightarrow> nat \<Rightarrow> nat \<Rightarrow> (cipher_ctx_t \<times> buffer_t \<times> buffer_t) res" where
  "stream_sodium L ctx src dst off capacity =
     (let cipher = cx_cipher ctx; padding = unat (cx_counter ctx mod of_nat SODIUM_BLOCK_SIZE) in
      bnd (brealloc (lib_heap L) dst (off + (padding + b_len dst) * 2) capacity) (\<lambda>dst.
      bnd (if padding \<noteq> 0 then
             bnd (brealloc (lib_heap L) src (b_len src + padding) capacity) (\<lambda>src.
             bnd (memmove (b_data src) padding 0 (b_len src)) (\<lambda>d.
             bnd (memset d 0 0 padding) (\<lambda>d. Inr (src\<lparr>b_data := d\<rparr>))))
           else Inr src) (\<lambda>src.
      bnd (read_mem (b_data src) 0 (b_len src + padding)) (\<lambda>m.
      bnd (crypto_stream_xor_ic L (b_data dst) off m (cx_nonce ctx) (cx_counter ctx div of_nat SODIUM_BLOCK_SIZE)
             (ci_key cipher) (ci_method cipher)) (\<lambda>(_, d).
      let ctx = ctx\<lparr>cx_counter := cx_counter ctx + of_nat (b_len src)\<rparr> in
      bnd (if padding \<noteq> 0 then memmove d off (off + padding) (b_len dst) else Inr d) (\<lambda>d.
        Inr (ctx, src, dst\<lparr>b_data := d\<rparr>)))))))"

text \<open>The branch of \<^verbatim>\<open>stream_encrypt\<close> and \<^verbatim>\<open>stream_decrypt\<close> between the two libraries: error code, context, source and
  destination.\<close>

definition stream_step ::
  "crypto_lib \<Rightarrow> cipher_ctx_t \<Rightarrow> buffer_t \<Rightarrow> buffer_t \<Rightarrow> nat \<Rightarrow> nat
   \<Rightarrow> (int \<times> cipher_ctx_t \<times> buffer_t \<times> buffer_t) res" where
  "stream_step L ctx src dst off capacity =
     (if ci_method (cx_cipher ctx) \<ge> SALSA20 then
        bnd (stream_sodium L ctx src dst off capacity) (\<lambda>(ctx, src, dst). Inr (CRYPTO_OK, ctx, src, dst))
      else
        bnd (read_mem (b_data src) 0 (b_len src)) (\<lambda>m.
        bnd (cipher_ctx_update L ctx (b_data dst) off m) (\<lambda>(err, ctx, d, len).
          Inr (err, ctx, src, dst\<lparr>b_data := d, b_len := len\<rparr>))))"

definition stream_encrypt ::
  "crypto_lib \<Rightarrow> world \<Rightarrow> buffer_t \<Rightarrow> cipher_ctx_t option \<Rightarrow> nat
   \<Rightarrow> (int \<times> buffer_t \<times> cipher_ctx_t option \<times> world) res" where
  "stream_encrypt L w plaintext cipher_ctx capacity =
     (case cipher_ctx of None \<Rightarrow> Inr (CRYPTO_ERROR, plaintext, None, w)
      | Some ctx \<Rightarrow>
        let cipher = cx_cipher ctx;
            nonce_len = (if cx_init ctx = 0 then ci_nonce_len cipher else 0)
        in
        bnd (brealloc (lib_heap L) (w_tmp w Tmp_stream_encrypt) (nonce_len + b_len plaintext) capacity) (\<lambda>tmp.
        let tmp = tmp\<lparr>b_len := b_len plaintext\<rparr> in
        bnd (if cx_init ctx = 0 then
               bnd (cipher_ctx_set_nonce L w ctx (Some (cx_nonce ctx)) nonce_len 1) (\<lambda>(ctx, w).
               bnd (memcpy (b_data tmp) 0 (cx_nonce ctx) 0 nonce_len) (\<lambda>d.
                 Inr (tmp\<lparr>b_data := d\<rparr>, ctx\<lparr>cx_counter := 0, cx_init := 1\<rparr>, w)))
             else Inr (tmp, ctx, w)) (\<lambda>(tmp, ctx, w).
        bnd (stream_step L ctx plaintext tmp nonce_len capacity) (\<lambda>(err, ctx, plaintext, tmp).
        let w = put_tmp Tmp_stream_encrypt tmp w in
        if err \<noteq> 0 then Inr (CRYPTO_ERROR, plaintext, Some ctx, w)
        else bnd (buf_assign (lib_heap L) plaintext (b_data tmp) (nonce_len + b_len tmp) capacity) (\<lambda>plaintext.
          Inr (CRYPTO_OK, plaintext, Some ctx, w))))))"

text \<open>
  \<^verbatim>\<open>stream_decrypt\<close> in parts: a new session collects its nonce, which may arrive in pieces, in the chunk
  buffer, and is keyed; the bytes behind it are decrypted; a new session's nonce is recorded and the output
  handed over. The second part yields \<open>Some e\<close> for an early return.
\<close>

definition stream_collect ::
  "crypto_lib \<Rightarrow> cipher_ctx_t \<Rightarrow> buffer_t \<Rightarrow> (nat \<times> buffer_t \<times> buffer_t) res" where
  "stream_collect L ctx ciphertext =
     (let nonce_len = ci_nonce_len (cx_cipher ctx) in
      bnd (case cx_chunk ctx of Some ch \<Rightarrow> Inr ch
           | None \<Rightarrow> new_buffer (lib_heap L) nonce_len) (\<lambda>ch.
      let left_len = min (nonce_len - b_len ch) (b_len ciphertext) in
      if left_len > 0 then
        bnd (memcpy (b_data ch) (b_len ch) (b_data ciphertext) 0 left_len) (\<lambda>cd.
        bnd (memmove (b_data ciphertext) 0 left_len (b_len ciphertext - left_len)) (\<lambda>d.
          Inr (left_len, ch\<lparr>b_data := cd, b_len := b_len ch + left_len\<rparr>,
               ciphertext\<lparr>b_data := d, b_len := b_len ciphertext - left_len\<rparr>)))
      else Inr (left_len, ch, ciphertext)))"

definition stream_decrypt_nonce ::
  "crypto_lib \<Rightarrow> world \<Rightarrow> cipher_ctx_t \<Rightarrow> buffer_t \<Rightarrow> buffer_t
   \<Rightarrow> (int option \<times> cipher_ctx_t \<times> buffer_t \<times> buffer_t \<times> world) res" where
  "stream_decrypt_nonce L w ctx ciphertext plaintext =
     (let cipher = cx_cipher ctx; nonce_len = ci_nonce_len cipher in
      if cx_init ctx \<noteq> 0 then Inr (None, ctx, ciphertext, plaintext, w)
      else
        bnd (stream_collect L ctx ciphertext) (\<lambda>(left_len, ch, ciphertext).
        let ctx = ctx\<lparr>cx_chunk := Some ch\<rparr> in
        if b_len ch < nonce_len then Inr (Some CRYPTO_NEED_MORE, ctx, ciphertext, plaintext, w)
        else
          let plaintext = plaintext\<lparr>b_len := b_len plaintext - left_len\<rparr> in
          bnd (memcpy (cx_nonce ctx) 0 (b_data ch) 0 nonce_len) (\<lambda>nonce.
          let ctx = ctx\<lparr>cx_nonce := nonce\<rparr> in
          bnd (cipher_ctx_set_nonce L w ctx (Some (cx_nonce ctx)) nonce_len 0) (\<lambda>(ctx, w).
          let ctx = ctx\<lparr>cx_counter := 0, cx_init := 1\<rparr> in
          if ci_method cipher \<ge> RC4_MD5 then
            bnd (ppbloom_check (w_pp w) (cx_nonce ctx) (int nonce_len)) (\<lambda>seen.
              Inr (if seen = 1 then Some CRYPTO_ERROR else None, ctx, ciphertext, plaintext, w))
          else Inr (None, ctx, ciphertext, plaintext, w)))))"

definition stream_decrypt_finish ::
  "crypto_lib \<Rightarrow> world \<Rightarrow> buffer_t \<Rightarrow> cipher_ctx_t \<Rightarrow> buffer_t \<Rightarrow> nat
   \<Rightarrow> (int \<times> buffer_t \<times> cipher_ctx_t \<times> world) res" where
  "stream_decrypt_finish L w ciphertext ctx plaintext capacity =
     (let cipher = cx_cipher ctx; nonce_len = ci_nonce_len cipher in
      bnd (if cx_init ctx = 1 \<and> ci_method cipher \<ge> RC4_MD5 then
             bnd (ppbloom_check (w_pp w) (cx_nonce ctx) (int nonce_len)) (\<lambda>seen.
             if seen = 1 then Inr (True, ctx, w)
             else bnd (ppbloom_add (w_pp w) (cx_nonce ctx) (int nonce_len)) (\<lambda>(_, pp).
               Inr (False, ctx\<lparr>cx_init := 2\<rparr>, w\<lparr>w_pp := pp\<rparr>)))
           else Inr (False, ctx, w)) (\<lambda>(rejected, ctx, w).
      if rejected then Inr (CRYPTO_ERROR, ciphertext, ctx, w)
      else bnd (buf_assign (lib_heap L) ciphertext (b_data plaintext) (b_len plaintext) capacity) (\<lambda>ciphertext.
        Inr (CRYPTO_OK, ciphertext, ctx, w))))"

definition stream_decrypt_data ::
  "crypto_lib \<Rightarrow> world \<Rightarrow> buffer_t \<Rightarrow> cipher_ctx_t \<Rightarrow> buffer_t \<Rightarrow> nat
   \<Rightarrow> (int \<times> buffer_t \<times> cipher_ctx_t \<times> world) res" where
  "stream_decrypt_data L w ciphertext ctx plaintext capacity =
     bnd (stream_step L ctx ciphertext plaintext 0 capacity) (\<lambda>(err, ctx, ciphertext, plaintext).
     let w = put_tmp Tmp_stream_decrypt plaintext w in
     if err \<noteq> 0 then Inr (CRYPTO_ERROR, ciphertext, ctx, w)
     else stream_decrypt_finish L w ciphertext ctx plaintext capacity)"

definition stream_decrypt_rest ::
  "crypto_lib \<Rightarrow> nat \<Rightarrow> int option \<times> cipher_ctx_t \<times> buffer_t \<times> buffer_t \<times> world
   \<Rightarrow> (int \<times> buffer_t \<times> cipher_ctx_t option \<times> world) res" where
  "stream_decrypt_rest L capacity = (\<lambda>(early, ctx, ciphertext, tmp, w).
     let w = put_tmp Tmp_stream_decrypt tmp w in
     case early of Some e \<Rightarrow> Inr (e, ciphertext, Some ctx, w)
     | None \<Rightarrow>
       if b_len ciphertext = 0 then Inr (CRYPTO_NEED_MORE, ciphertext, Some ctx, w)
       else bnd (stream_decrypt_data L w ciphertext ctx tmp capacity) (\<lambda>(e, ciphertext, ctx, w).
         Inr (e, ciphertext, Some ctx, w)))"

definition stream_decrypt ::
  "crypto_lib \<Rightarrow> world \<Rightarrow> buffer_t \<Rightarrow> cipher_ctx_t option \<Rightarrow> nat
   \<Rightarrow> (int \<times> buffer_t \<times> cipher_ctx_t option \<times> world) res" where
  "stream_decrypt L w ciphertext cipher_ctx capacity =
     (case cipher_ctx of None \<Rightarrow> Inr (CRYPTO_ERROR, ciphertext, None, w)
      | Some ctx \<Rightarrow>
        bnd (brealloc (lib_heap L) (w_tmp w Tmp_stream_decrypt) (b_len ciphertext) capacity) (\<lambda>tmp.
        let tmp = tmp\<lparr>b_len := b_len ciphertext\<rparr>; w = put_tmp Tmp_stream_decrypt tmp w in
        bnd (stream_decrypt_nonce L w ctx ciphertext tmp) (stream_decrypt_rest L capacity)))"

end
