(* ===== verification/SS_StreamBox.thy ===== *)
theory SS_StreamBox
  imports SS_Stream SS_AeadPacket
begin

text \<open>
  The documented behaviour of the stream primitives, as named hypotheses, and what one pass of a context
  does with it. \<open>KS method key nonce\<close> is the key stream of a libsodium cipher, byte by byte;
  \<open>C enc method key iv\<close> is what mbed TLS computes from all the bytes given to a context since its nonce
  was set. Both are incremental transformations: the output for a message so far does not change when
  more follows. The locale \<open>incremental\<close> is the contract of such a transformation.
\<close>

section \<open>Incremental transformations\<close>

locale incremental =
  fixes T :: "bytes \<Rightarrow> bytes"
  assumes len: "length (T x) = length x"
    and extend: "take (length x) (T (x @ y)) = T x"
begin

lemma split: "T (x @ y) = T x @ drop (length x) (T (x @ y))"
  using append_take_drop_id [of "length x" "T (x @ y)"] by (simp add: extend)

lemma prefix: "take n (T x) = T (take n x)"
  using extend [of "take n x" "drop n x"] by (cases "n \<le> length x") (simp_all add: len)

end

text \<open>Two such transformations of which one undoes the other.\<close>

locale incremental_pair = enc: incremental E + dec: incremental D for E D +
  assumes inverse: "D (E x) = x"
begin

lemma decrypts_prefix: "D (take n (E x)) = take n x"
proof -
  have "D (take n (E x)) = take n (D (E x))"
    by (rule dec.prefix [symmetric])
  then show ?thesis by (simp add: inverse)
qed

lemma decrypts_tail:
  assumes "take n (E x) = a @ b"
  shows "drop (length a) (D (a @ b)) = drop (length a) (take n x)"
  using decrypts_prefix [of n x] assms by simp

end

text \<open>The bytes a transformation gives for \<open>m\<close> when \<open>d\<close> went before.\<close>

definition tail_of :: "(bytes \<Rightarrow> bytes) \<Rightarrow> bytes \<Rightarrow> bytes \<Rightarrow> bytes" where
  "tail_of T d m = drop (length d) (T (d @ m))"

lemma length_tail_of: "incremental T \<Longrightarrow> length (tail_of T d m) = length m"
  by (simp add: tail_of_def incremental_def)

lemma append_tail_of: "incremental T \<Longrightarrow> T d @ tail_of T d m = T (d @ m)"
  using incremental.split [of T d m] by (simp add: tail_of_def)

section \<open>Key streams\<close>

fun xor_at :: "(nat \<Rightarrow> byte) \<Rightarrow> nat \<Rightarrow> bytes \<Rightarrow> bytes" where
  "xor_at ks i [] = []"
| "xor_at ks i (b # bs) = (b XOR ks i) # xor_at ks (Suc i) bs"

lemma length_xor_at [simp]: "length (xor_at ks i xs) = length xs"
  by (induction xs arbitrary: i) simp_all

lemma xor_at_append: "xor_at ks i (xs @ ys) = xor_at ks i xs @ xor_at ks (i + length xs) ys"
  by (induction xs arbitrary: i) simp_all

lemma xor_at_twice [simp]: "xor_at ks i (xor_at ks i xs) = xs"
  by (induction xs arbitrary: i) (simp_all add: xor.assoc)

interpretation ks: incremental_pair "xor_at ks 0" "xor_at ks 0" for ks
  by unfold_locales (simp_all add: xor_at_append)

lemma tail_of_xor_at: "tail_of (xor_at ks 0) d m = xor_at ks (length d) m"
  by (simp add: tail_of_def xor_at_append)

section \<open>What the libraries promise\<close>

type_synonym key_streams = "int \<Rightarrow> bytes \<Rightarrow> bytes \<Rightarrow> nat \<Rightarrow> byte"
type_synonym stream_fun = "int \<Rightarrow> int \<Rightarrow> bytes \<Rightarrow> bytes \<Rightarrow> bytes \<Rightarrow> bytes"

text \<open>libsodium, as long as its block counter does not overflow.\<close>

definition sodium_stream_laws :: "crypto_lib \<Rightarrow> key_streams \<Rightarrow> bool" where
  "sodium_stream_laws L KS \<longleftrightarrow>
     (\<forall>x iv ic key. length key = 32 \<longrightarrow>
       (length iv = 8 \<longrightarrow> unat ic * 64 + length x \<le> 2 ^ 64 * 64 \<longrightarrow>
         stream_salsa20_xor_ic L x iv ic key = (0, xor_at (KS 18 key iv) (unat ic * 64) x) \<and>
         stream_chacha20_xor_ic L x iv ic key = (0, xor_at (KS 19 key iv) (unat ic * 64) x))) \<and>
     (\<forall>x iv ic key. length key = 32 \<longrightarrow> length iv = 12 \<longrightarrow> unat ic * 64 + length x \<le> 2 ^ 32 * 64 \<longrightarrow>
       stream_chacha20_ietf_xor_ic L x iv ic key = (0, xor_at (KS 20 key iv) (unat ic * 64) x))"

text \<open>An mbed TLS context in a stream mode that has been given the bytes \<open>d\<close> since its nonce was set.\<close>

inductive evp_stream :: "crypto_lib \<Rightarrow> int \<Rightarrow> int \<Rightarrow> bytes \<Rightarrow> bytes \<Rightarrow> evp_img \<Rightarrow> bytes \<Rightarrow> bool"
  for L meth enc k iv where
  evp_start: "mbedtls_cipher_setup L (mbedtls_cipher_init L) (stream_get_cipher_type L meth) = (0, e0) \<Longrightarrow>
     mbedtls_cipher_setkey L e0 k (length k * 8) enc = (0, e1) \<Longrightarrow> mbedtls_cipher_set_iv L e1 iv = (0, e2) \<Longrightarrow>
     mbedtls_cipher_reset L e2 = (0, e) \<Longrightarrow> evp_stream L meth enc k iv e []"
| evp_more: "evp_stream L meth enc k iv e d \<Longrightarrow> mbedtls_cipher_update L e m = (0, e', out) \<Longrightarrow>
     evp_stream L meth enc k iv e' (d @ m)"

definition evp_starts :: "crypto_lib \<Rightarrow> int \<Rightarrow> int \<Rightarrow> bytes \<Rightarrow> bytes \<Rightarrow> bool" where
  "evp_starts L meth enc k iv \<longleftrightarrow>
     (\<exists>e0. mbedtls_cipher_setup L (mbedtls_cipher_init L) (stream_get_cipher_type L meth) = (0, e0) \<and>
       (\<exists>e1. mbedtls_cipher_setkey L e0 k (length k * 8) enc = (0, e1) \<and>
         (\<exists>e2. mbedtls_cipher_set_iv L e1 iv = (0, e2) \<and> (\<exists>e. mbedtls_cipher_reset L e2 = (0, e)))))"

definition mbedtls_stream_ok :: "crypto_lib \<Rightarrow> stream_fun \<Rightarrow> int \<Rightarrow> nat \<Rightarrow> nat \<Rightarrow> bool" where
  "mbedtls_stream_ok L C meth klen ivlen \<longleftrightarrow>
     stream_get_cipher_type L meth \<noteq> None \<and>
     (\<forall>k iv enc. length k = klen \<longrightarrow> length iv = ivlen \<longrightarrow> enc = 0 \<or> enc = 1 \<longrightarrow>
       evp_starts L meth enc k iv \<and>
       (\<forall>e d m. evp_stream L meth enc k iv e d \<longrightarrow> m \<noteq> [] \<longrightarrow>
         (\<exists>e'. mbedtls_cipher_update L e m = (0, e', tail_of (C enc meth k iv) d m))))"

lemma mbedtls_stream_okD:
  assumes "mbedtls_stream_ok L C meth klen ivlen" and "length k = klen" and "length iv = ivlen" and "enc = 0 \<or> enc = 1"
  shows "stream_get_cipher_type L meth \<noteq> None" "evp_starts L meth enc k iv"
  using assms by (auto simp: mbedtls_stream_ok_def)

text \<open>The nonce the library context gets: none for the two RC4 variants.\<close>

definition iv_size :: "int \<Rightarrow> nat" where
  "iv_size meth = (if meth \<le> RC4_MD5 then 0 else supported_stream_ciphers_nonce_size ! nat meth)"

definition stream_laws :: "crypto_lib \<Rightarrow> (bytes \<Rightarrow> bytes) \<Rightarrow> key_streams \<Rightarrow> stream_fun \<Rightarrow> bool" where
  "stream_laws L MD5 KS C \<longleftrightarrow> lib_sizes_ok L \<and> sodium_stream_laws L KS \<and>
     (\<forall>x. mbedtls_md5_ret L x = (0, MD5 x) \<and> length (MD5 x) = 16) \<and>
     (\<forall>meth k iv. incremental_pair (C 1 meth k iv) (C 0 meth k iv)) \<and>
     (\<forall>meth. 1 \<le> meth \<longrightarrow> meth \<le> 12 \<longrightarrow>
       mbedtls_stream_ok L C meth (supported_stream_ciphers_key_size ! nat meth) (iv_size meth))"

lemma stream_lawsD:
  assumes "stream_laws L MD5 KS C"
  shows "heap_ok (lib_heap L)" "\<And>d n. length (randombytes_buf L d n) = n" "sodium_stream_laws L KS"
    "\<And>x. mbedtls_md5_ret L x = (0, MD5 x)" "\<And>x. length (MD5 x) = 16"
    "\<And>meth k iv. incremental_pair (C 1 meth k iv) (C 0 meth k iv)"
  using assms by (auto simp: stream_laws_def lib_sizes_ok_def)

section \<open>Ciphers\<close>

text \<open>A cipher as \<^verbatim>\<open>stream_key_init\<close> makes it: methods 13 to 17 are not available with mbed TLS.\<close>

definition wf_stream_cipher :: "cipher_t \<Rightarrow> bool" where
  "wf_stream_cipher c \<longleftrightarrow> 1 \<le> ci_method c \<and> ci_method c < STREAM_CIPHER_NUM \<and> (ci_method c \<le> 12 \<or> SALSA20 \<le> ci_method c) \<and>
     ci_key_len c = supported_stream_ciphers_key_size ! nat (ci_method c) \<and>
     ci_nonce_len c = supported_stream_ciphers_nonce_size ! nat (ci_method c) \<and>
     length (ci_key c) = MAX_KEY_LENGTH"

lemma wf_stream_methods:
  "wf_stream_cipher c \<Longrightarrow> ci_method c \<in> {1, 2, 3, 4, 5, 6, 7, 8, 9, 10, 11, 12, 18, 19, 20}"
  by (simp add: wf_stream_cipher_def) presburger

lemmas stream_tables = supported_stream_ciphers_key_size_def supported_stream_ciphers_nonce_size_def

lemma wf_stream_sizes:
  assumes "wf_stream_cipher c"
  shows "ci_nonce_len c \<le> 16" "ci_key_len c \<le> 32" "length (ci_key c) = 64"
    "ci_method c = 2 \<Longrightarrow> ci_nonce_len c = 16 \<and> ci_key_len c = 16"
    "ci_method c \<ge> 18 \<Longrightarrow> ci_nonce_len c = (if ci_method c = 20 then 12 else 8) \<and> ci_key_len c = 32"
    "ci_method c = 1 \<Longrightarrow> ci_nonce_len c = 0"
  using wf_stream_methods [OF assms] assms by (auto simp: wf_stream_cipher_def stream_tables)

text \<open>Key and nonce of the library context, and the transformation a session computes.\<close>

definition eff_key :: "(bytes \<Rightarrow> bytes) \<Rightarrow> cipher_t \<Rightarrow> bytes \<Rightarrow> bytes" where
  "eff_key MD5 c n = (if ci_method c = RC4_MD5 then MD5 (take 16 (ci_key c) @ n) else take (ci_key_len c) (ci_key c))"

definition eff_iv :: "cipher_t \<Rightarrow> bytes \<Rightarrow> bytes" where
  "eff_iv c n = (if ci_method c = RC4_MD5 then [] else n)"

definition transform ::
  "(bytes \<Rightarrow> bytes) \<Rightarrow> key_streams \<Rightarrow> stream_fun \<Rightarrow> int \<Rightarrow> cipher_t \<Rightarrow> bytes \<Rightarrow> bytes \<Rightarrow> bytes" where
  "transform MD5 KS C enc c n =
     (if ci_method c \<ge> SALSA20 then xor_at (KS (ci_method c) (take 32 (ci_key c)) n) 0
      else C enc (ci_method c) (eff_key MD5 c n) (eff_iv c n))"

lemma transform_pair:
  assumes "stream_laws L MD5 KS C"
  shows "incremental_pair (transform MD5 KS C 1 c n) (transform MD5 KS C 0 c n)"
  using stream_lawsD(6) [OF assms] ks.incremental_pair_axioms by (simp add: transform_def)

lemma transform_incremental:
  assumes "stream_laws L MD5 KS C" and "enc = 0 \<or> enc = 1"
  shows "incremental (transform MD5 KS C enc c n)"
  using transform_pair [OF assms(1)] assms(2) by (auto simp: incremental_pair_def)

text \<open>How many bytes a session may carry before a block counter overflows.\<close>

definition stream_limit :: "cipher_t \<Rightarrow> nat" where
  "stream_limit c = (if ci_method c = CHACHA20IETF then 2 ^ 38 else 2 ^ 64)"

section \<open>One pass through libsodium\<close>

lemma crypto_stream_xor_ic_ok:
  assumes "stream_laws L MD5 KS C" and "wf_stream_cipher c" and "ci_method c \<ge> SALSA20"
    and "ci_nonce_len c \<le> length nonce" and "off + length m \<le> length d"
    and "unat ic * 64 + length m \<le> (if ci_method c = 20 then 2 ^ 32 * 64 else 2 ^ 64 * 64)"
    and "ci_method c = 20 \<Longrightarrow> unat ic < 2 ^ 32"
  shows "crypto_stream_xor_ic L d off m nonce ic (ci_key c) (ci_method c) =
    Inr (0, take off d @ xor_at (KS (ci_method c) (take 32 (ci_key c)) (take (ci_nonce_len c) nonce)) (unat ic * 64) m
      @ drop (off + length m) d)"
proof -
  let ?k = "take 32 (ci_key c)" and ?n = "take (ci_nonce_len c) nonce"
  note sz = wf_stream_sizes(3) [OF assms(2)] wf_stream_sizes(5) [OF assms(2,3)]
  have lk: "length ?k = 32" "read_mem (ci_key c) 0 32 = Inr ?k"
    using sz by (simp_all add: mem_simps)
  have ln: "length ?n = ci_nonce_len c" "read_mem nonce 0 (ci_nonce_len c) = Inr ?n"
    using assms(4) by (simp_all add: mem_simps)
  note law = stream_lawsD(3) [OF assms(1), unfolded sodium_stream_laws_def]
  consider "ci_method c = 18" | "ci_method c = 19" | "ci_method c = 20"
    using wf_stream_methods [OF assms(2)] assms(3) by auto
  then show ?thesis
  proof cases
    case 1
    then have "stream_salsa20_xor_ic L m ?n ic ?k = (0, xor_at (KS 18 ?k ?n) (unat ic * 64) m)"
      using law lk ln sz assms(6) by auto
    with 1 lk ln sz assms(5) show ?thesis
      by (simp add: crypto_stream_xor_ic_def mem_simps)
  next
    case 2
    then have "stream_chacha20_xor_ic L m ?n ic ?k = (0, xor_at (KS 19 ?k ?n) (unat ic * 64) m)"
      using law lk ln sz assms(6) by auto
    with 2 lk ln sz assms(5) show ?thesis
      by (simp add: crypto_stream_xor_ic_def mem_simps)
  next
    case 3
    have ic: "unat (ucast ic :: u32) = unat ic"
      using assms(7) 3 by (simp add: unsigned_ucast_eq take_bit_nat_eq_self)
    have "stream_chacha20_ietf_xor_ic L m ?n (ucast ic) ?k = (0, xor_at (KS 20 ?k ?n) (unat (ucast ic :: u32) * 64) m)"
      using law lk ln sz assms(6) 3 ic by auto
    with 3 lk ln sz assms(5) ic show ?thesis
      by (simp add: crypto_stream_xor_ic_def mem_simps)
  qed
qed

text \<open>A message in the middle of a block: the zero bytes in front of it absorb the used part of the block.\<close>

lemma xor_at_padded:
  "drop p (xor_at ks q (replicate p 0 @ m)) = xor_at ks (q + p) m"
  by (simp add: xor_at_append)

lemma u64_div_mod:
  fixes c :: u64
  shows "unat (c mod of_nat 64) = unat c mod 64" "unat (c div of_nat 64) = unat c div 64"
  by (simp_all add: unat_mod unat_div)

definition shifted :: "heap \<Rightarrow> buffer_t \<Rightarrow> nat \<Rightarrow> nat \<Rightarrow> buffer_t res" where
  "shifted h src padding cap =
     (if padding \<noteq> 0 then
        bnd (brealloc h src (b_len src + padding) cap) (\<lambda>src.
        bnd (memmove (b_data src) padding 0 (b_len src)) (\<lambda>d.
        bnd (memset d 0 0 padding) (\<lambda>d. Inr (src\<lparr>b_data := d\<rparr>))))
      else Inr src)"

lemma shifted_ok:
  assumes "heap_ok h" and "wf_buffer src"
  obtains src' where "shifted h src p cap = Inr src'" and "wf_block src'" and "b_len src' = b_len src"
    and "read_mem (b_data src') 0 (b_len src + p) = Inr (replicate p 0 @ contents src)"
proof (cases "p = 0")
  case True
  then show ?thesis
    using that [of src] assms(2) by (simp add: shifted_def wf_buffer_def wf_block_def mem_simps contents_def)
next
  case False
  obtain b where b: "brealloc h src (b_len src + p) cap = Inr b" "wf_buffer b" "contents b = contents src"
    "max (b_len src + p) cap \<le> b_cap b" "b_len b = b_len src"
    using brealloc_contents [OF assms, of "b_len src + p" cap] by metis
  let ?d = "replicate p 0 @ contents src @ drop (p + b_len src) (b_data b)"
  have l: "length (b_data b) = b_cap b"
    using b(2) by (simp add: wf_bufferD)
  have "take (b_len src) (b_data b) = contents src"
    using b(3,5) by (simp add: contents_def)
  then have "memmove (b_data b) p 0 (b_len b) = Inr (take p (b_data b) @ contents src @ drop (p + b_len src) (b_data b))"
    using b(4,5) l by (simp add: mem_simps)
  moreover have "memset (take p (b_data b) @ contents src @ drop (p + b_len src) (b_data b)) 0 0 p = Inr ?d"
    using b(4) l assms(2) by (simp add: mem_simps)
  ultimately have "shifted h src p cap = Inr (b\<lparr>b_data := ?d\<rparr>)"
    using False b(1) by (simp add: shifted_def)
  then show ?thesis
    by (rule that) (use b l assms(2) in \<open>simp_all add: wf_block_def mem_simps\<close>)
qed

lemma stream_sodium_ok:
  assumes "stream_laws L MD5 KS C" and "wf_stream_cipher (cx_cipher ctx)" and "ci_method (cx_cipher ctx) \<ge> SALSA20"
    and "wf_buffer src" and "wf_block dst" and "b_len dst = b_len src" and "off \<le> b_cap dst"
    and "length (cx_nonce ctx) = MAX_NONCE_LENGTH" and "unat (cx_counter ctx) = n"
    and "n + b_len src < stream_limit (cx_cipher ctx)"
  defines "ks \<equiv> KS (ci_method (cx_cipher ctx)) (take 32 (ci_key (cx_cipher ctx)))
      (take (ci_nonce_len (cx_cipher ctx)) (cx_nonce ctx))"
  shows "\<exists>c' src' dst'. stream_sodium L ctx src dst off cap = Inr (ctx\<lparr>cx_counter := c'\<rparr>, src', dst') \<and>
    unat c' = n + b_len src \<and> wf_block src' \<and> wf_block dst' \<and> b_len dst' = b_len src \<and>
    off + b_len src \<le> b_cap dst' \<and>
    take (off + b_len src) (b_data dst') = take off (b_data dst) @ xor_at ks n (contents src)"
proof -
  let ?c = "cx_cipher ctx" and ?p = "n mod 64" and ?m = "contents src"
  have h: "heap_ok (lib_heap L)"
    by (rule stream_lawsD(1) [OF assms(1)])
  have p: "unat (cx_counter ctx mod of_nat 64) = ?p" "unat (cx_counter ctx div of_nat 64) = n div 64"
    by (simp_all only: u64_div_mod assms(9))
  obtain b where b: "brealloc (lib_heap L) dst (off + (?p + b_len dst) * 2) cap = Inr b" "wf_block b"
    "b_len b = b_len dst" "max (off + (?p + b_len dst) * 2) cap \<le> b_cap b" "b_cap dst \<le> b_cap b"
    "take (b_cap dst) (b_data b) = b_data dst"
    using brealloc_ok [OF h assms(5), of "off + (?p + b_len dst) * 2" cap] by metis
  obtain src' where src': "shifted (lib_heap L) src ?p cap = Inr src'" "wf_block src'" "b_len src' = b_len src"
    "read_mem (b_data src') 0 (b_len src + ?p) = Inr (replicate ?p 0 @ ?m)"
    using shifted_ok [OF h assms(4), of ?p cap] by metis
  have lm: "length ?m = b_len src"
    using assms(4) by simp
  have lb: "length (b_data b) = b_cap b"
    using b(2) by (simp add: wf_block_def)
  have room: "off + (?p + b_len src) * 2 \<le> length (b_data b)"
    using b(4) lb assms(6) by simp
  have lim: "n + b_len src < 2 ^ 64" "ci_method ?c = 20 \<Longrightarrow> n + b_len src < 2 ^ 38"
    using assms(10) by (auto simp: stream_limit_def split: if_splits)
  have nn: "n div 64 * 64 + ?p = n"
    by simp
  have ov: "n + b_len src \<le> (if ci_method ?c = 20 then 2 ^ 32 * 64 else 2 ^ 64 * 64)"
    using lim by (cases "ci_method ?c = 20") auto
  have ic: "n div 64 < 2 ^ 32" if "ci_method ?c = 20"
    using lim(2) [OF that] by (simp add: less_mult_imp_div_less)
  let ?x = "xor_at ks (n div 64 * 64) (replicate ?p 0 @ ?m)"
  let ?d = "take off (b_data b) @ ?x @ drop (off + (?p + b_len src)) (b_data b)"
  have "crypto_stream_xor_ic L (b_data b) off (replicate ?p 0 @ ?m) (cx_nonce ctx) (cx_counter ctx div of_nat 64)
      (ci_key ?c) (ci_method ?c) = Inr (0, ?d)"
    using crypto_stream_xor_ic_ok [OF assms(1-3), of "cx_nonce ctx" off "replicate ?p 0 @ ?m" "b_data b"
        "cx_counter ctx div of_nat 64"] wf_stream_sizes(1) [OF assms(2)] assms(8) room ov ic nn lm
    unfolding p(2) by (simp add: ks_def)
  then have xor: "crypto_stream_xor_ic L (b_data b) off (replicate ?p 0 @ ?m) (cx_nonce ctx) (cx_counter ctx div 64)
      (ci_key ?c) (ci_method ?c) = Inr (0, ?d)"
    by simp
  obtain d' where d': "(if ?p \<noteq> 0 then memmove ?d off (off + ?p) (b_len b) else Inr ?d) = Inr d'"
    "length d' = b_cap b" "take (off + b_len src) d' = take off (b_data b) @ xor_at ks n ?m"
  proof -
    have x: "drop ?p ?x = xor_at ks n ?m"
      by (simp add: xor_at_padded)
    show ?thesis
    proof (cases "?p = 0")
      case True
      then have "?x = xor_at ks n ?m"
        using x by simp
      then show ?thesis
        using True room lb lm by (intro that [of ?d]) simp_all
    next
      case False
      have "memmove ?d off (off + ?p) (b_len b) =
          Inr (take off ?d @ take (b_len b) (drop (off + ?p) ?d) @ drop (off + b_len b) ?d)"
        using room lm b(3) assms(6) by (simp add: memmove_ok)
      moreover have "take (b_len b) (drop (off + ?p) ?d) = xor_at ks n ?m"
        using room lm b(3) assms(6) x by simp
      ultimately show ?thesis
        using False room lm b(3) lb assms(6)
        by (intro that [of "take off ?d @ xor_at ks n ?m @ drop (off + b_len b) ?d"]) simp_all
    qed
  qed
  let ?c' = "cx_counter ctx + of_nat (b_len src)"
  have "stream_sodium L ctx src dst off cap = Inr (ctx\<lparr>cx_counter := ?c'\<rparr>, src', b\<lparr>b_data := d'\<rparr>)"
    unfolding stream_sodium_def Let_def p(1) shifted_def [symmetric]
    using b(1) src'(1,3,4) xor d'(1) by simp
  moreover have "unat ?c' = n + b_len src"
    using lim(1) assms(9) by (simp add: unat_word_ariths unsigned_of_nat take_bit_nat_eq_self)
  moreover have "take off (b_data b) = take off (b_data dst)"
    using b(5,6) assms(7) by (metis take_take_le)
  ultimately show ?thesis
    using d'(2,3) src'(2) b(2-4) assms(6) room lb by (auto simp: wf_block_def)
qed

section \<open>One pass through mbed TLS\<close>

definition evp_session ::
  "crypto_lib \<Rightarrow> (bytes \<Rightarrow> bytes) \<Rightarrow> int \<Rightarrow> cipher_t \<Rightarrow> bytes \<Rightarrow> evp_img option \<Rightarrow> bytes \<Rightarrow> bool" where
  "evp_session L MD5 enc c n e d \<longleftrightarrow>
     (\<exists>evp. e = Some evp \<and> evp_stream L (ci_method c) enc (eff_key MD5 c n) (eff_iv c n) evp d)"

lemma eff_lengths:
  assumes "stream_laws L MD5 KS C" and "wf_stream_cipher c" and "length n = ci_nonce_len c" and "ci_method c < SALSA20"
  shows "length (eff_key MD5 c n) = supported_stream_ciphers_key_size ! nat (ci_method c)"
    "length (eff_iv c n) = iv_size (ci_method c)"
    "mbedtls_stream_ok L C (ci_method c) (length (eff_key MD5 c n)) (length (eff_iv c n))"
proof -
  have m: "1 \<le> ci_method c" "ci_method c \<le> 12"
    using assms(2,4) by (auto simp: wf_stream_cipher_def)
  show 1: "length (eff_key MD5 c n) = supported_stream_ciphers_key_size ! nat (ci_method c)"
    using wf_stream_sizes [OF assms(2)] stream_lawsD(5) [OF assms(1)] assms(2)
    by (auto simp: eff_key_def wf_stream_cipher_def stream_tables)
  show 2: "length (eff_iv c n) = iv_size (ci_method c)"
  proof (cases "ci_method c \<le> 2")
    case True
    then have "ci_method c = 1 \<or> ci_method c = 2"
      using m(1) by linarith
    then show ?thesis
      using assms(3) wf_stream_sizes(6) [OF assms(2)] by (auto simp: eff_iv_def iv_size_def)
  next
    case False
    then show ?thesis
      using assms(2,3) by (simp add: eff_iv_def iv_size_def wf_stream_cipher_def)
  qed
  show "mbedtls_stream_ok L C (ci_method c) (length (eff_key MD5 c n)) (length (eff_iv c n))"
    using assms(1) m unfolding 1 2 stream_laws_def by blast
qed

lemma cipher_ctx_update_ok:
  assumes "stream_laws L MD5 KS C" and "wf_stream_cipher c" and "length n = ci_nonce_len c" and "ci_method c < SALSA20"
    and "evp_session L MD5 enc c n (cx_evp ctx) d" and "enc = 0 \<or> enc = 1" and "m \<noteq> []" and "off + length m \<le> length out"
  obtains e where "cipher_ctx_update L ctx out off m =
      Inr (0, ctx\<lparr>cx_evp := e\<rparr>, take off out @ tail_of (transform MD5 KS C enc c n) d m @ drop (off + length m) out, length m)"
    and "evp_session L MD5 enc c n e (d @ m)"
proof -
  let ?k = "eff_key MD5 c n" and ?iv = "eff_iv c n" and ?T = "transform MD5 KS C enc c n"
  have T: "?T = C enc (ci_method c) ?k ?iv"
    using assms(4) by (simp add: transform_def)
  obtain evp where evp: "cx_evp ctx = Some evp" "evp_stream L (ci_method c) enc ?k ?iv evp d"
    using assms(5) by (auto simp: evp_session_def)
  obtain e' where e': "mbedtls_cipher_update L evp m = (0, e', tail_of ?T d m)"
    using eff_lengths(3) [OF assms(1-4)] evp(2) assms(6,7) unfolding mbedtls_stream_ok_def T by metis
  have "length (tail_of ?T d m) = length m"
    by (rule length_tail_of [OF transform_incremental [OF assms(1,6)]])
  then have "cipher_ctx_update L ctx out off m =
      Inr (0, ctx\<lparr>cx_evp := Some e'\<rparr>, take off out @ tail_of ?T d m @ drop (off + length m) out, length m)"
    using evp(1) e' assms(8) by (simp add: cipher_ctx_update_def mem_simps)
  moreover have "evp_session L MD5 enc c n (Some e') (d @ m)"
    using evp_more [OF evp(2) e'] by (simp add: evp_session_def)
  ultimately show ?thesis
    by (rule that)
qed

end
