(* ===== verification/SS_StreamSession.thy ===== *)
theory SS_StreamSession
  imports SS_StreamBox
begin

text \<open>
  Sessions of the stream ciphers: what contexts hold between calls, that \<^verbatim>\<open>stream_encrypt\<close> and
  \<^verbatim>\<open>stream_decrypt\<close> run the incremental transformation of \<open>SS_StreamBox\<close> over the bytes of the connection, and
  the properties of whole sessions and packets.
\<close>

section \<open>Contexts\<close>

definition wf_sworld :: "world \<Rightarrow> bool" where
  "wf_sworld w \<longleftrightarrow> wf_world w \<and> length (w_md5 w) = 16"

text \<open>A context whose nonce is not set yet, and one that has processed the bytes \<open>d\<close> under the nonce \<open>n\<close>.\<close>

definition s_fresh :: "crypto_lib \<Rightarrow> cipher_ctx_t \<Rightarrow> bool" where
  "s_fresh L ctx \<longleftrightarrow> wf_stream_cipher (cx_cipher ctx) \<and> length (cx_nonce ctx) = MAX_NONCE_LENGTH \<and>
     (ci_method (cx_cipher ctx) \<ge> SALSA20 \<or>
      (\<exists>e. cx_evp ctx = Some e \<and>
        mbedtls_cipher_setup L (mbedtls_cipher_init L) (stream_get_cipher_type L (ci_method (cx_cipher ctx))) = (0, e)))"

definition s_at :: "crypto_lib \<Rightarrow> (bytes \<Rightarrow> bytes) \<Rightarrow> int \<Rightarrow> cipher_ctx_t \<Rightarrow> bytes \<Rightarrow> bytes \<Rightarrow> bool" where
  "s_at L MD5 enc ctx n d \<longleftrightarrow> wf_stream_cipher (cx_cipher ctx) \<and> length (cx_nonce ctx) = MAX_NONCE_LENGTH \<and>
     n = take (ci_nonce_len (cx_cipher ctx)) (cx_nonce ctx) \<and>
     (if ci_method (cx_cipher ctx) \<ge> SALSA20 then unat (cx_counter ctx) = length d
      else evp_session L MD5 enc (cx_cipher ctx) n (cx_evp ctx) d)"

lemma s_at_init: "s_at L MD5 enc (ctx\<lparr>cx_init := i\<rparr>) n d = s_at L MD5 enc ctx n d"
  by (simp add: s_at_def)

lemma stream_ctx_init_ok:
  assumes "stream_laws L MD5 KS C" and "wf_stream_cipher c"
  obtains ctx where "stream_ctx_init L w c enc =
      Inr (ctx, if enc \<noteq> 0 then w\<lparr>w_draws := Suc (w_draws w)\<rparr> else w)"
    and "s_fresh L ctx" and "cx_cipher ctx = c" and "cx_init ctx = 0" and "cx_chunk ctx = None" and "cx_counter ctx = 0"
    and "enc \<noteq> 0 \<Longrightarrow> take (ci_nonce_len c) (cx_nonce ctx) = randombytes_buf L (w_draws w) (ci_nonce_len c)"
proof -
  note h = stream_lawsD(1) [OF assms(1)] and rl = stream_lawsD(2) [OF assms(1)]
  let ?z = "zero_ctx c"
  have z: "cx_cipher ?z = c" "cx_init ?z = 0" "cx_chunk ?z = None" "cx_counter ?z = 0" "length (cx_nonce ?z) = 32"
    by (simp_all add: zero_ctx_def)
  obtain e where e: "stream_cipher_ctx_init L ?z (ci_method c) enc = Inr (?z\<lparr>cx_evp := e\<rparr>)"
    "s_fresh L (?z\<lparr>cx_evp := e\<rparr>)"
  proof (cases "ci_method c \<ge> SALSA20")
    case True
    then have "stream_cipher_ctx_init L ?z (ci_method c) enc = Inr (?z\<lparr>cx_evp := None\<rparr>)"
      by (simp add: stream_cipher_ctx_init_def zero_ctx_def)
    then show ?thesis
      by (rule that) (use True assms(2) z in \<open>simp add: s_fresh_def\<close>)
  next
    case False
    then have m: "1 \<le> ci_method c" "ci_method c \<le> 12"
      using assms(2) by (auto simp: wf_stream_cipher_def)
    let ?kl = "supported_stream_ciphers_key_size ! nat (ci_method c)" and ?il = "iv_size (ci_method c)"
    have "mbedtls_stream_ok L C (ci_method c) ?kl ?il"
      using assms(1) m by (simp add: stream_laws_def)
    note ok = mbedtls_stream_okD [OF this, of "replicate ?kl 0" "replicate ?il 0" 0, simplified]
    then obtain e where "mbedtls_cipher_setup L (mbedtls_cipher_init L) (stream_get_cipher_type L (ci_method c)) = (0, e)"
      using ok(2) by (auto simp: evp_starts_def)
    then show ?thesis
      using False m ok(1) h assms(2) z
      by (intro that [of "Some e"]) (auto simp: stream_cipher_ctx_init_def ss_malloc_def s_fresh_def Let_def)
  qed
  show ?thesis
  proof (cases "enc = 0")
    case True
    then show ?thesis
      using e z by (intro that [of "?z\<lparr>cx_evp := e\<rparr>"]) (simp_all add: stream_ctx_init_def)
  next
    case False
    let ?r = "randombytes_buf L (w_draws w) (ci_nonce_len c)"
    let ?ctx = "?z\<lparr>cx_evp := e, cx_nonce := ?r @ drop (ci_nonce_len c) (cx_nonce ?z)\<rparr>"
    have n: "ci_nonce_len c \<le> 32"
      using wf_stream_sizes(1) [OF assms(2)] by simp
    have "stream_ctx_init L w c enc = Inr (?ctx, w\<lparr>w_draws := Suc (w_draws w)\<rparr>)"
      using False e(1) z n rl by (simp add: stream_ctx_init_def rand_bytes_def mem_simps)
    moreover have "s_fresh L ?ctx"
      using e(2) n rl z by (simp add: s_fresh_def)
    ultimately show ?thesis
      using False z rl by (intro that [of ?ctx]) simp_all
  qed
qed

lemma stream_ctx_init_enc:
  assumes "stream_laws L MD5 KS C" and "wf_stream_cipher c"
  obtains ctx where "stream_ctx_init L w c 1 = Inr (ctx, w\<lparr>w_draws := Suc (w_draws w)\<rparr>)"
    and "s_fresh L ctx" and "cx_cipher ctx = c" and "cx_init ctx = 0" and "cx_chunk ctx = None" and "cx_counter ctx = 0"
    and "take (ci_nonce_len c) (cx_nonce ctx) = randombytes_buf L (w_draws w) (ci_nonce_len c)"
  by (rule stream_ctx_init_ok [OF assms, where w = w and enc = 1]) (rule that, simp_all)

lemma stream_ctx_init_dec:
  assumes "stream_laws L MD5 KS C" and "wf_stream_cipher c"
  obtains ctx where "stream_ctx_init L w c 0 = Inr (ctx, w)"
    and "s_fresh L ctx" and "cx_cipher ctx = c" and "cx_init ctx = 0" and "cx_chunk ctx = None" and "cx_counter ctx = 0"
  by (rule stream_ctx_init_ok [OF assms, where w = w and enc = 0]) (rule that, simp_all)

lemma cipher_ctx_set_nonce_ok:
  assumes "stream_laws L MD5 KS C" and "s_fresh L ctx" and "wf_sworld w" and "enc = 0 \<or> enc = 1"
    and "n = take (ci_nonce_len (cx_cipher ctx)) (cx_nonce ctx)"
  obtains e m where "cipher_ctx_set_nonce L w ctx (Some (cx_nonce ctx)) (ci_nonce_len (cx_cipher ctx)) enc =
      Inr (ctx\<lparr>cx_evp := e\<rparr>, w\<lparr>w_md5 := m\<rparr>)"
    and "length m = 16" and "s_at L MD5 enc (ctx\<lparr>cx_evp := e, cx_counter := 0, cx_init := i\<rparr>) n []"
proof (cases "ci_method (cx_cipher ctx) \<ge> SALSA20")
  case True
  then have "cipher_ctx_set_nonce L w ctx (Some (cx_nonce ctx)) (ci_nonce_len (cx_cipher ctx)) enc =
      Inr (ctx\<lparr>cx_evp := cx_evp ctx\<rparr>, w\<lparr>w_md5 := w_md5 w\<rparr>)"
    by (simp add: cipher_ctx_set_nonce_def)
  then show ?thesis
    by (rule that) (use True assms(2,3,5) in \<open>simp_all add: s_at_def s_fresh_def wf_sworld_def\<close>)
next
  case False
  let ?c = "cx_cipher ctx" and ?nl = "ci_nonce_len (cx_cipher ctx)"
  have wf: "wf_stream_cipher ?c" "length (cx_nonce ctx) = 32"
    using assms(2) by (simp_all add: s_fresh_def)
  note sz = wf_stream_sizes [OF wf(1)]
  let ?k = "eff_key MD5 ?c n" and ?iv = "eff_iv ?c n"
  have ln: "length n = ?nl"
    using sz(1) wf(2) assms(5) by simp
  obtain e0 where e0: "cx_evp ctx = Some e0"
    "mbedtls_cipher_setup L (mbedtls_cipher_init L) (stream_get_cipher_type L (ci_method ?c)) = (0, e0)"
    using False assms(2) by (auto simp: s_fresh_def)
  obtain e1 e2 e where e: "mbedtls_cipher_setkey L e0 ?k (length ?k * 8) enc = (0, e1)"
    "mbedtls_cipher_set_iv L e1 ?iv = (0, e2)" "mbedtls_cipher_reset L e2 = (0, e)"
    using mbedtls_stream_okD(2) [OF eff_lengths(3) [OF assms(1) wf(1) ln] refl refl assms(4)] False e0(2)
    by (auto simp: evp_starts_def)
  have es: "evp_session L MD5 enc ?c n (Some e) []"
    using evp_start [OF e0(2) e] by (simp add: evp_session_def)
  have kl: "length ?k = ci_key_len ?c"
    using eff_lengths(1) [OF assms(1) wf(1) ln] False wf(1) by (simp add: wf_stream_cipher_def)
  define m where "m = (if ci_method ?c = RC4_MD5 then ?k else w_md5 w)"
  have "cipher_ctx_set_nonce L w ctx (Some (cx_nonce ctx)) ?nl enc = Inr (ctx\<lparr>cx_evp := Some e\<rparr>, w\<lparr>w_md5 := m\<rparr>)"
  proof (cases "ci_method ?c = RC4_MD5")
    case True
    have k: "?k = MD5 (take 16 (ci_key ?c) @ take 16 (cx_nonce ctx))" "?iv = []" "m = ?k"
      using True sz(4) assms(5) by (simp_all add: eff_key_def eff_iv_def m_def)
    have "crypto_md5 L w (take 16 (ci_key ?c) @ take 16 (cx_nonce ctx)) = Inr (?k, w\<lparr>w_md5 := ?k\<rparr>)"
      using stream_lawsD(4,5) [OF assms(1)] assms(3) k(1) by (simp add: crypto_md5_def mem_simps wf_sworld_def)
    then show ?thesis
      using True sz(3,4) wf(2) e0(1) e k(2,3) kl
      by (simp add: cipher_ctx_set_nonce_def mem_simps)
  next
    case no: False
    then have k: "?k = take (ci_key_len ?c) (ci_key ?c)" "?iv = n" "m = w_md5 w"
      by (simp_all add: eff_key_def eff_iv_def m_def)
    then show ?thesis
      using no False sz(1,2,3) wf(2) e0(1) e kl assms(5)
      by (simp add: cipher_ctx_set_nonce_def mem_simps)
  qed
  then show ?thesis
    by (rule that) (use es False wf assms(3,5) stream_lawsD(5) [OF assms(1)] in
        \<open>auto simp: s_at_def m_def eff_key_def wf_sworld_def\<close>)
qed

section \<open>One step\<close>

lemma stream_step_ok:
  assumes "stream_laws L MD5 KS C" and "s_at L MD5 enc ctx n d" and "enc = 0 \<or> enc = 1"
    and "wf_buffer src" and "wf_block dst" and "b_len dst = b_len src" and "off + b_len src \<le> b_cap dst"
    and "b_len src \<noteq> 0" and "length d + b_len src < stream_limit (cx_cipher ctx)"
  defines "T \<equiv> transform MD5 KS C enc (cx_cipher ctx) n"
  obtains e cnt src' dst' where
    "stream_step L ctx src dst off cap = Inr (0, ctx\<lparr>cx_evp := e, cx_counter := cnt\<rparr>, src', dst')"
    and "s_at L MD5 enc (ctx\<lparr>cx_evp := e, cx_counter := cnt\<rparr>) n (d @ contents src)"
    and "wf_block src'" and "wf_block dst'" and "b_len dst' = b_len src" and "off + b_len src \<le> b_cap dst'"
    and "take (off + b_len src) (b_data dst') = take off (b_data dst) @ tail_of T d (contents src)"
proof (cases "ci_method (cx_cipher ctx) \<ge> SALSA20")
  case True
  let ?c = "cx_cipher ctx"
  have wf: "wf_stream_cipher ?c" "length (cx_nonce ctx) = 32" "n = take (ci_nonce_len ?c) (cx_nonce ctx)"
    "unat (cx_counter ctx) = length d"
    using True assms(2) by (auto simp: s_at_def)
  have T: "tail_of T d (contents src) = xor_at (KS (ci_method ?c) (take 32 (ci_key ?c)) n) (length d) (contents src)"
    using True by (simp add: T_def transform_def tail_of_xor_at)
  obtain cnt src' dst' where r: "stream_sodium L ctx src dst off cap = Inr (ctx\<lparr>cx_counter := cnt\<rparr>, src', dst')"
    "unat cnt = length d + b_len src" "wf_block src'" "wf_block dst'" "b_len dst' = b_len src"
    "off + b_len src \<le> b_cap dst'"
    "take (off + b_len src) (b_data dst') = take off (b_data dst) @ tail_of T d (contents src)"
    using stream_sodium_ok [OF assms(1) wf(1) True assms(4-6) _ wf(2,4) assms(9), of off cap] assms(7)
    unfolding T wf(3) by auto
  then have "stream_step L ctx src dst off cap = Inr (0, ctx\<lparr>cx_evp := cx_evp ctx, cx_counter := cnt\<rparr>, src', dst')"
    using True by (simp add: stream_step_def)
  then show ?thesis
    by (rule that) (use True wf r assms(4) in \<open>simp_all add: s_at_def\<close>)
next
  case False
  let ?c = "cx_cipher ctx"
  have wf: "wf_stream_cipher ?c" "length (cx_nonce ctx) = 32" "n = take (ci_nonce_len ?c) (cx_nonce ctx)"
    "evp_session L MD5 enc ?c n (cx_evp ctx) d"
    using False assms(2) by (auto simp: s_at_def)
  have ln: "length n = ci_nonce_len ?c" and m: "ci_method ?c < SALSA20"
    using wf(2,3) wf_stream_sizes(1) [OF wf(1)] False by auto
  have lm: "length (contents src) = b_len src"
    using assms(4) by simp
  then have ne: "contents src \<noteq> []"
    using assms(8) by auto
  have ld: "length (b_data dst) = b_cap dst"
    using assms(5) by (simp add: wf_block_def)
  obtain e where e: "cipher_ctx_update L ctx (b_data dst) off (contents src) =
      Inr (0, ctx\<lparr>cx_evp := e\<rparr>, take off (b_data dst) @ tail_of T d (contents src) @ drop (off + b_len src) (b_data dst), b_len src)"
    "evp_session L MD5 enc ?c n e (d @ contents src)"
    using cipher_ctx_update_ok [OF assms(1) wf(1) ln m wf(4) assms(3) ne, of off "b_data dst"] lm ld assms(7)
    unfolding T_def by metis
  have lt: "length (tail_of T d (contents src)) = b_len src"
    using length_tail_of [OF transform_incremental [OF assms(1,3)]] lm by (simp add: T_def)
  have "read_mem (b_data src) 0 (b_len src) = Inr (contents src)"
    using assms(4) by (simp add: mem_simps wf_bufferD contents_def)
  then have "stream_step L ctx src dst off cap = Inr (0, ctx\<lparr>cx_evp := e, cx_counter := cx_counter ctx\<rparr>, src,
      dst\<lparr>b_data := take off (b_data dst) @ tail_of T d (contents src) @ drop (off + b_len src) (b_data dst), b_len := b_len src\<rparr>)"
    using False e(1) by (simp add: stream_step_def)
  moreover have "s_at L MD5 enc (ctx\<lparr>cx_evp := e, cx_counter := cx_counter ctx\<rparr>) n (d @ contents src)"
    using False wf(1-3) e(2) by (simp add: s_at_def)
  ultimately show ?thesis
    by (rule that) (use assms(4,7) ld lt in \<open>simp_all add: wf_bufferD wf_block_def\<close>)
qed

section \<open>Sending\<close>

definition s_sending :: "crypto_lib \<Rightarrow> (bytes \<Rightarrow> bytes) \<Rightarrow> cipher_ctx_t \<Rightarrow> bytes \<Rightarrow> bytes \<Rightarrow> bool" where
  "s_sending L MD5 ctx n d \<longleftrightarrow>
     (if cx_init ctx = 0 then d = [] \<and> s_fresh L ctx \<and> n = take (ci_nonce_len (cx_cipher ctx)) (cx_nonce ctx)
      else s_at L MD5 1 ctx n d)"

lemma wf_sworld_upd:
  "wf_sworld w \<Longrightarrow> length m = 16 \<Longrightarrow> wf_sworld (w\<lparr>w_md5 := m\<rparr>)"
  "wf_sworld w \<Longrightarrow> wf_block b \<Longrightarrow> wf_sworld (put_tmp t b w)"
  "wf_sworld w \<Longrightarrow> wf_sworld (w\<lparr>w_draws := k\<rparr>)"
  "wf_sworld w \<Longrightarrow> wf_pp p \<Longrightarrow> wf_sworld (w\<lparr>w_pp := p\<rparr>)"
  by (simp_all add: wf_sworld_def wf_world_def put_tmp_def)

lemma stream_encrypt_prepare:
  assumes "stream_laws L MD5 KS C" and "s_sending L MD5 ctx n d" and "wf_sworld w" and "wf_block tmp"
    and "cx_init ctx = 0 \<Longrightarrow> ci_nonce_len (cx_cipher ctx) \<le> b_cap tmp"
  defines "nl \<equiv> if cx_init ctx = 0 then ci_nonce_len (cx_cipher ctx) else 0"
  obtains tmp1 ctx1 w1 where
    "(if cx_init ctx = 0 then
        bnd (cipher_ctx_set_nonce L w ctx (Some (cx_nonce ctx)) nl 1) (\<lambda>(ctx, w).
        bnd (memcpy (b_data tmp) 0 (cx_nonce ctx) 0 nl) (\<lambda>d.
          Inr (tmp\<lparr>b_data := d\<rparr>, ctx\<lparr>cx_counter := 0, cx_init := 1\<rparr>, w)))
      else Inr (tmp, ctx, w)) = Inr (tmp1, ctx1, w1)"
    and "wf_block tmp1" and "b_len tmp1 = b_len tmp" and "b_cap tmp1 = b_cap tmp" and "cx_init ctx1 \<noteq> 0"
    and "take nl (b_data tmp1) = (if cx_init ctx = 0 then n else [])" and "s_at L MD5 1 ctx1 n d"
    and "cx_cipher ctx1 = cx_cipher ctx" and "wf_sworld w1" and "w_pp w1 = w_pp w" and "w_draws w1 = w_draws w"
proof (cases "cx_init ctx = 0")
  case True
  then have s: "d = []" "s_fresh L ctx" "n = take nl (cx_nonce ctx)" "nl = ci_nonce_len (cx_cipher ctx)"
    using assms(2) by (simp_all add: s_sending_def nl_def)
  have l: "length (cx_nonce ctx) = 32" "nl \<le> 16"
    using s(2) wf_stream_sizes(1) by (auto simp: s_fresh_def s(4))
  obtain e m where e: "cipher_ctx_set_nonce L w ctx (Some (cx_nonce ctx)) (ci_nonce_len (cx_cipher ctx)) 1 =
      Inr (ctx\<lparr>cx_evp := e\<rparr>, w\<lparr>w_md5 := m\<rparr>)"
    "length m = 16" "s_at L MD5 1 (ctx\<lparr>cx_evp := e, cx_counter := 0, cx_init := 1\<rparr>) n []"
    by (rule cipher_ctx_set_nonce_ok [OF assms(1) s(2) assms(3) disjI2 [OF refl] s(3) [unfolded s(4)], where i = 1])
  let ?d = "n @ drop nl (b_data tmp)"
  have "memcpy (b_data tmp) 0 (cx_nonce ctx) 0 nl = Inr ?d"
    using l assms(4,5) True s(3,4) by (simp add: mem_simps wf_block_def)
  then show ?thesis
    using True e s l assms(3-5)
    by (intro that [of "tmp\<lparr>b_data := ?d\<rparr>" "ctx\<lparr>cx_evp := e, cx_counter := 0, cx_init := 1\<rparr>" "w\<lparr>w_md5 := m\<rparr>"])
      (simp_all add: wf_block_def wf_sworld_upd)
next
  case False
  then show ?thesis
    using assms(2-4) by (intro that [of tmp ctx w]) (simp_all add: s_sending_def nl_def)
qed

lemma stream_encrypt_ok:
  assumes "stream_laws L MD5 KS C" and "s_sending L MD5 ctx n d" and "wf_sworld w" and "wf_buffer b"
    and "b_len b \<noteq> 0" and "length d + b_len b < stream_limit (cx_cipher ctx)"
  obtains b' ctx' w' where "stream_encrypt L w b (Some ctx) cap = Inr (CRYPTO_OK, b', Some ctx', w')"
    and "wf_buffer b'" and "contents b' = (if cx_init ctx = 0 then n else []) @
      tail_of (transform MD5 KS C 1 (cx_cipher ctx) n) d (contents b)"
    and "s_sending L MD5 ctx' n (d @ contents b)" and "cx_init ctx' \<noteq> 0" and "cx_cipher ctx' = cx_cipher ctx"
    and "wf_sworld w'" and "w_pp w' = w_pp w" and "w_draws w' = w_draws w"
proof -
  let ?nl = "if cx_init ctx = 0 then ci_nonce_len (cx_cipher ctx) else 0"
  let ?T = "transform MD5 KS C 1 (cx_cipher ctx) n" and ?m = "contents b"
  note h = stream_lawsD(1) [OF assms(1)]
  have ww: "wf_world w"
    using assms(3) by (simp add: wf_sworld_def)
  obtain t0 where t0: "brealloc (lib_heap L) (w_tmp w Tmp_stream_encrypt) (?nl + b_len b) cap = Inr t0"
    "wf_block t0" "max (?nl + b_len b) cap \<le> b_cap t0"
    using brealloc_ok [OF h wf_world_tmp [OF ww]] by metis
  let ?t = "t0\<lparr>b_len := b_len b\<rparr>"
  have t: "wf_block ?t" "cx_init ctx = 0 \<Longrightarrow> ci_nonce_len (cx_cipher ctx) \<le> b_cap ?t"
    using t0(2,3) by (auto simp: wf_block_def)
  obtain t1 ctx1 w1 where p: "(if cx_init ctx = 0 then
        bnd (cipher_ctx_set_nonce L w ctx (Some (cx_nonce ctx)) ?nl 1) (\<lambda>(ctx, w).
        bnd (memcpy (b_data ?t) 0 (cx_nonce ctx) 0 ?nl) (\<lambda>d.
          Inr (?t\<lparr>b_data := d\<rparr>, ctx\<lparr>cx_counter := 0, cx_init := 1\<rparr>, w)))
      else Inr (?t, ctx, w)) = Inr (t1, ctx1, w1)"
    "wf_block t1" "b_len t1 = b_len ?t" "b_cap t1 = b_cap ?t" "cx_init ctx1 \<noteq> 0"
    "take ?nl (b_data t1) = (if cx_init ctx = 0 then n else [])" "s_at L MD5 1 ctx1 n d"
    "cx_cipher ctx1 = cx_cipher ctx" "wf_sworld w1" "w_pp w1 = w_pp w" "w_draws w1 = w_draws w"
    by (rule stream_encrypt_prepare [OF assms(1-3) t]) (assumption | rule that)+
  have pre: "b_len t1 = b_len b" "?nl + b_len b \<le> b_cap t1" "length d + b_len b < stream_limit (cx_cipher ctx1)"
    using p(3,4,8) t0(3) assms(6) by simp_all
  obtain e cnt b1 t2 where st: "stream_step L ctx1 b t1 ?nl cap = Inr (0, ctx1\<lparr>cx_evp := e, cx_counter := cnt\<rparr>, b1, t2)"
    "s_at L MD5 1 (ctx1\<lparr>cx_evp := e, cx_counter := cnt\<rparr>) n (d @ ?m)" "wf_block b1" "wf_block t2" "b_len t2 = b_len b"
    "?nl + b_len b \<le> b_cap t2" "take (?nl + b_len b) (b_data t2) = take ?nl (b_data t1) @ tail_of ?T d ?m"
    by (rule stream_step_ok [OF assms(1) p(7) disjI2 [OF refl] assms(4) p(2) pre(1,2) assms(5) pre(3), unfolded p(8)])
  obtain b' where b': "buf_assign (lib_heap L) b1 (b_data t2) (?nl + b_len t2) cap = Inr b'" "wf_buffer b'"
    "contents b' = take (?nl + b_len t2) (b_data t2)"
    using buf_assign_ok [OF h st(3), of "?nl + b_len t2" "b_data t2" cap] st(4,5,6) by (auto simp: wf_block_def)
  let ?w = "put_tmp Tmp_stream_encrypt t2 w1"
  have "stream_encrypt L w b (Some ctx) cap = Inr (0, b', Some (ctx1\<lparr>cx_evp := e, cx_counter := cnt\<rparr>), ?w)"
    unfolding stream_encrypt_def Let_def option.case t0(1) bnd_Inr p(1) prod.case st(1) b'(1) by simp
  moreover have "contents b' = (if cx_init ctx = 0 then n else []) @ tail_of ?T d ?m"
    using b'(3) st(5,7) p(6) by simp
  moreover have "s_sending L MD5 (ctx1\<lparr>cx_evp := e, cx_counter := cnt\<rparr>) n (d @ ?m)"
    using st(2) p(5) by (simp add: s_sending_def)
  ultimately show ?thesis
    using b'(2) p(5,8,9,10,11) st(4)
    by (intro that [of b' "ctx1\<lparr>cx_evp := e, cx_counter := cnt\<rparr>" ?w]) (simp_all add: wf_sworld_upd, simp_all add: put_tmp_def)
qed

section \<open>Receiving\<close>

text \<open>The state after the bytes \<open>got\<close>: the nonce is being collected in the chunk buffer, or the bytes behind it
  have been decrypted.\<close>

definition s_collecting :: "crypto_lib \<Rightarrow> cipher_ctx_t \<Rightarrow> bytes \<Rightarrow> bool" where
  "s_collecting L ctx got \<longleftrightarrow> cx_init ctx = 0 \<and> s_fresh L ctx \<and> (got = [] \<or> length got < ci_nonce_len (cx_cipher ctx)) \<and>
     (case cx_chunk ctx of None \<Rightarrow> got = []
      | Some ch \<Rightarrow> wf_buffer ch \<and> ci_nonce_len (cx_cipher ctx) \<le> b_cap ch \<and> contents ch = got)"

definition s_receiving :: "crypto_lib \<Rightarrow> (bytes \<Rightarrow> bytes) \<Rightarrow> cipher_ctx_t \<Rightarrow> bytes \<Rightarrow> bool" where
  "s_receiving L MD5 ctx got \<longleftrightarrow> s_collecting L ctx got \<or>
     (let nl = ci_nonce_len (cx_cipher ctx) in
      cx_init ctx \<noteq> 0 \<and> nl \<le> length got \<and> s_at L MD5 0 ctx (take nl got) (drop nl got))"

lemma stream_collect_ok:
  assumes "stream_laws L MD5 KS C" and "s_collecting L ctx got" and "wf_buffer b"
  defines "nl \<equiv> ci_nonce_len (cx_cipher ctx)"
  defines "k \<equiv> min (nl - length got) (b_len b)"
  obtains ch b' where "stream_collect L ctx b = Inr (k, ch, b')"
    and "wf_buffer ch" and "nl \<le> b_cap ch" and "contents ch = got @ take k (contents b)" and "b_len ch = length got + k"
    and "wf_buffer b'" and "contents b' = drop k (contents b)" and "b_len b' = b_len b - k"
proof -
  obtain ch0 where ch0: "(case cx_chunk ctx of Some ch \<Rightarrow> Inr ch
        | None \<Rightarrow> new_buffer (lib_heap L) nl) = Inr ch0"
    "wf_buffer ch0" "nl \<le> b_cap ch0" "contents ch0 = got"
  proof (cases "cx_chunk ctx")
    case None
    obtain c0 where "new_buffer (lib_heap L) nl = Inr (c0)" "wf_buffer c0" "b_cap c0 = nl" "b_len c0 = 0"
      using new_buffer_ok [OF stream_lawsD(1) [OF assms(1)]] by metis
    then show ?thesis
      using None assms(2) by (intro that [of c0]) (simp_all add: s_collecting_def contents_def)
  next
    case (Some c0)
    then show ?thesis
      using assms(2) by (intro that [of c0]) (simp_all add: s_collecting_def nl_def)
  qed
  have l0: "b_len ch0 = length got" "length (b_data ch0) = b_cap ch0" "length (b_data b) = b_cap b" "b_len b \<le> b_cap b"
    using ch0(2,4) assms(3) by (auto simp: wf_bufferD)
  have gl: "got = [] \<or> length got < nl"
    using assms(2) by (simp add: s_collecting_def nl_def)
  have tk: "take (length got) (b_data ch0) = got"
    using ch0(4) l0(1) by (simp add: contents_def)
  show ?thesis
  proof (cases "k = 0")
    case True
    then have "stream_collect L ctx b = Inr (k, ch0, b)"
      unfolding stream_collect_def Let_def nl_def [symmetric] ch0(1) bnd_Inr l0(1) k_def [symmetric] by simp
    then show ?thesis
      by (rule that) (use True ch0 l0 assms(3) in simp_all)
  next
    case False
    let ?cd = "got @ take k (b_data b) @ drop (length got + k) (b_data ch0)"
    let ?d = "take (b_len b - k) (drop k (b_data b)) @ drop (b_len b - k) (b_data b)"
    have kl: "k \<le> b_len b" "length got + k \<le> nl"
      using False gl by (auto simp: k_def)
    have "memcpy (b_data ch0) (b_len ch0) (b_data b) 0 k = Inr ?cd"
      using kl l0 ch0(3) tk by (simp add: mem_simps)
    moreover have "memmove (b_data b) 0 k (b_len b - k) = Inr ?d"
      using kl l0 by (simp add: mem_simps)
    ultimately have "stream_collect L ctx b = Inr (k, ch0\<lparr>b_data := ?cd, b_len := length got + k\<rparr>, b\<lparr>b_data := ?d, b_len := b_len b - k\<rparr>)"
      unfolding stream_collect_def Let_def nl_def [symmetric] ch0(1) bnd_Inr l0(1) k_def [symmetric]
      using False by (simp add: l0(1))
    then show ?thesis
      by (rule that) (use kl l0 ch0(3) assms(3) in
          \<open>simp_all add: wf_buffer_def wf_block_def contents_def drop_take\<close>)
  qed
qed

text \<open>The nonce stage of a new session: more bytes are needed, or the session is keyed and its nonce checked.\<close>

lemma stream_decrypt_nonce_more:
  assumes "stream_laws L MD5 KS C" and "s_collecting L ctx got" and "wf_buffer b"
    and "length (got @ contents b) < ci_nonce_len (cx_cipher ctx)"
  obtains ch b' where "stream_decrypt_nonce L w ctx b t = Inr (Some CRYPTO_NEED_MORE, ctx\<lparr>cx_chunk := Some ch\<rparr>, b', t, w)"
    and "s_collecting L (ctx\<lparr>cx_chunk := Some ch\<rparr>) (got @ contents b)" and "wf_buffer b'" and "contents b' = []"
proof -
  let ?nl = "ci_nonce_len (cx_cipher ctx)"
  have k: "min (?nl - length got) (b_len b) = b_len b"
    using assms(3,4) by simp
  obtain ch b' where c: "stream_collect L ctx b = Inr (b_len b, ch, b')"
    "wf_buffer ch" "?nl \<le> b_cap ch" "contents ch = got @ take (b_len b) (contents b)" "b_len ch = length got + b_len b"
    "wf_buffer b'" "contents b' = drop (b_len b) (contents b)"
    by (rule stream_collect_ok [OF assms(1-3), unfolded k]) (rule that; assumption)
  have "contents ch = got @ contents b" "contents b' = []"
    using c(4,7) assms(3) by simp_all
  moreover have "stream_decrypt_nonce L w ctx b t = Inr (Some CRYPTO_NEED_MORE, ctx\<lparr>cx_chunk := Some ch\<rparr>, b', t, w)"
    using assms(2,3,4) c(1,5) by (simp add: stream_decrypt_nonce_def s_collecting_def)
  ultimately show ?thesis
    using assms(2,4) c(2,3,6) by (intro that [of ch b']) (simp_all add: s_collecting_def s_fresh_def)
qed

lemma stream_decrypt_nonce_done:
  assumes "stream_laws L MD5 KS C" and "s_collecting L ctx got" and "wf_buffer b" and "wf_sworld w"
    and "ci_nonce_len (cx_cipher ctx) \<le> length (got @ contents b)"
  defines "nl \<equiv> ci_nonce_len (cx_cipher ctx)"
  defines "n \<equiv> take nl (got @ contents b)"
  obtains ctx' b' m where
    "stream_decrypt_nonce L w ctx b t =
      Inr (if ci_method (cx_cipher ctx) \<ge> RC4_MD5 \<and> seen w n then Some CRYPTO_ERROR else None, ctx', b',
        t\<lparr>b_len := b_len t - (nl - length got)\<rparr>, w\<lparr>w_md5 := m\<rparr>)"
    and "length m = 16" and "cx_cipher ctx' = cx_cipher ctx" and "cx_init ctx' = 1" and "s_at L MD5 0 ctx' n []"
    and "wf_buffer b'" and "contents b' = drop (nl - length got) (contents b)" and "b_len b' = b_len b - (nl - length got)"
proof -
  have gl: "got = [] \<or> length got < nl" and fr: "s_fresh L ctx" "cx_init ctx = 0"
    using assms(2) by (simp_all add: s_collecting_def nl_def)
  have lb: "length (contents b) = b_len b"
    using assms(3) by simp
  have k: "min (nl - length got) (b_len b) = nl - length got"
    using assms(5) lb by (simp add: nl_def)
  obtain ch b' where c: "stream_collect L ctx b = Inr (nl - length got, ch, b')"
    "wf_buffer ch" "nl \<le> b_cap ch" "contents ch = got @ take (nl - length got) (contents b)" "b_len ch = length got + (nl - length got)"
    "wf_buffer b'" "contents b' = drop (nl - length got) (contents b)" "b_len b' = b_len b - (nl - length got)"
    by (rule stream_collect_ok [OF assms(1-3), folded nl_def, unfolded k])
  have len: "b_len ch = nl" and n: "contents ch = n" "length n = nl"
    using c(4,5) gl assms(5) lb by (auto simp: n_def nl_def)
  have wf: "wf_stream_cipher (cx_cipher ctx)" "length (cx_nonce ctx) = 32" "nl \<le> 16"
    using fr(1) wf_stream_sizes(1) by (auto simp: s_fresh_def nl_def)
  let ?n = "n @ drop nl (cx_nonce ctx)"
  let ?ctx = "ctx\<lparr>cx_chunk := Some ch, cx_nonce := ?n\<rparr>"
  have cp: "memcpy (cx_nonce ctx) 0 (b_data ch) 0 nl = Inr ?n"
    using c(2,3) len n(1) wf by (simp add: mem_simps wf_bufferD contents_def)
  have f2: "s_fresh L ?ctx" "n = take (ci_nonce_len (cx_cipher ?ctx)) (cx_nonce ?ctx)"
    using fr(1) wf n(2) by (simp_all add: s_fresh_def nl_def)
  obtain e m where e: "cipher_ctx_set_nonce L w ?ctx (Some (cx_nonce ?ctx)) (ci_nonce_len (cx_cipher ?ctx)) 0 =
      Inr (?ctx\<lparr>cx_evp := e\<rparr>, w\<lparr>w_md5 := m\<rparr>)"
    "length m = 16" "s_at L MD5 0 (?ctx\<lparr>cx_evp := e, cx_counter := 0, cx_init := 1\<rparr>) n []"
    by (rule cipher_ctx_set_nonce_ok [OF assms(1) f2(1) assms(4) disjI1 [OF refl] f2(2), where i = 1])
  have ww: "wf_world w"
    using assms(4) by (simp add: wf_sworld_def)
  have chk: "ppbloom_check (w_pp w) ?n (int nl) = Inr (if seen w n then 1 else 0)"
    using salt_check [OF ww, of nl ?n] n(2) by simp
  have "stream_decrypt_nonce L w ctx b t =
      Inr (if ci_method (cx_cipher ctx) \<ge> RC4_MD5 \<and> seen w n then Some CRYPTO_ERROR else None,
        ?ctx\<lparr>cx_evp := e, cx_counter := 0, cx_init := 1\<rparr>, b', t\<lparr>b_len := b_len t - (nl - length got)\<rparr>, w\<lparr>w_md5 := m\<rparr>)"
    using fr(2) c(1) len cp e(1) chk
    by (simp add: stream_decrypt_nonce_def nl_def [symmetric] Let_def)
  then show ?thesis
    by (rule that) (use e c(6-8) in simp_all)
qed

lemma seen_pp: "w_pp w' = w_pp w \<Longrightarrow> seen w' n = seen w n"
  by (simp add: seen_def)

lemma put_tmp_pp [simp]: "w_pp (put_tmp t b w) = w_pp w" "w_draws (put_tmp t b w) = w_draws w"
  by (simp_all add: put_tmp_def)

text \<open>Bytes behind the nonce.\<close>

lemma stream_decrypt_data_ok:
  assumes "stream_laws L MD5 KS C" and "s_at L MD5 0 ctx n d" and "wf_buffer b" and "b_len b \<noteq> 0"
    and "wf_block t" and "b_len t = b_len b" and "b_len b \<le> b_cap t" and "wf_sworld w"
    and "length d + b_len b < stream_limit (cx_cipher ctx)" and "cx_init ctx \<noteq> 0"
    and "cx_init ctx = 1 \<Longrightarrow> ci_method (cx_cipher ctx) \<ge> RC4_MD5 \<Longrightarrow> \<not> seen w n"
  obtains b' ctx' w' where "stream_decrypt_data L w b ctx t cap = Inr (CRYPTO_OK, b', ctx', w')"
    and "wf_buffer b'" and "contents b' = tail_of (transform MD5 KS C 0 (cx_cipher ctx) n) d (contents b)"
    and "s_at L MD5 0 ctx' n (d @ contents b)" and "cx_cipher ctx' = cx_cipher ctx" and "wf_sworld w'"
    and "cx_init ctx' \<noteq> 0" and "cx_init ctx' = 1 \<Longrightarrow> ci_method (cx_cipher ctx) < RC4_MD5"
    and "if cx_init ctx = 1 \<and> ci_method (cx_cipher ctx) \<ge> RC4_MD5 then recorded w (w_pp w') n else w_pp w' = w_pp w"
proof -
  let ?c = "cx_cipher ctx" and ?T = "transform MD5 KS C 0 (cx_cipher ctx) n"
  note h = stream_lawsD(1) [OF assms(1)]
  have "0 + b_len b \<le> b_cap t"
    using assms(7) by simp
  then obtain e cnt b1 t1 where st: "stream_step L ctx b t 0 cap = Inr (0, ctx\<lparr>cx_evp := e, cx_counter := cnt\<rparr>, b1, t1)"
    "s_at L MD5 0 (ctx\<lparr>cx_evp := e, cx_counter := cnt\<rparr>) n (d @ contents b)" "wf_block b1" "wf_block t1" "b_len t1 = b_len b"
    "0 + b_len b \<le> b_cap t1" "take (0 + b_len b) (b_data t1) = take 0 (b_data t) @ tail_of ?T d (contents b)"
    by (rule stream_step_ok [OF assms(1,2) disjI1 [OF refl] assms(3,5,6) _ assms(4,9)]) (rule that; assumption)
  let ?w = "put_tmp Tmp_stream_decrypt t1 w" and ?ctx = "ctx\<lparr>cx_evp := e, cx_counter := cnt\<rparr>"
  have ww: "wf_sworld ?w" "wf_world ?w"
    using wf_sworld_upd(2) [OF assms(8) st(4)] by (simp_all add: wf_sworld_def)
  have n: "n = take (ci_nonce_len ?c) (cx_nonce ctx)" "ci_nonce_len ?c \<le> length (cx_nonce ctx)"
    using assms(2) wf_stream_sizes(1) [of ?c] by (auto simp: s_at_def)
  obtain b' where b': "buf_assign (lib_heap L) b1 (b_data t1) (b_len t1) cap = Inr b'" "wf_buffer b'"
    "contents b' = take (b_len t1) (b_data t1)"
    using buf_assign_ok [OF h st(3), of "b_len t1" "b_data t1" cap] st(4,5,6) by (auto simp: wf_block_def)
  have out: "contents b' = tail_of ?T d (contents b)"
    using b'(3) st(5,7) by simp
  show ?thesis
  proof (cases "cx_init ctx = 1 \<and> ci_method ?c \<ge> RC4_MD5")
    case True
    have "ppbloom_check (w_pp ?w) (cx_nonce ctx) (int (ci_nonce_len ?c)) = Inr 0"
      using salt_check [OF ww(2) n(2)] n(1) assms(11) True by (simp add: seen_def)
    moreover obtain pp where pp: "ppbloom_add (w_pp ?w) (cx_nonce ctx) (int (ci_nonce_len ?c)) = Inr (0, pp)" "recorded ?w pp n"
      using salt_add [OF ww(2) n(2)] n(1) by metis
    ultimately have "stream_decrypt_data L w b ctx t cap = Inr (0, b', ?ctx\<lparr>cx_init := 2\<rparr>, ?w\<lparr>w_pp := pp\<rparr>)"
      using True st(1) b'(1) by (simp add: stream_decrypt_data_def stream_decrypt_finish_def)
    moreover have "s_at L MD5 0 (?ctx\<lparr>cx_init := 2\<rparr>) n (d @ contents b)"
      using st(2) by (simp only: s_at_init)
    moreover have "wf_sworld (?w\<lparr>w_pp := pp\<rparr>)"
      by (rule wf_sworld_upd(4) [OF ww(1) recorded_wf [OF pp(2)]])
    moreover have "recorded w pp n"
      using pp(2) by (simp add: recorded_def)
    ultimately show ?thesis
      using True b'(2) out by (intro that [of b' "?ctx\<lparr>cx_init := 2\<rparr>" "?w\<lparr>w_pp := pp\<rparr>"]) simp_all
  next
    case False
    then have "stream_decrypt_data L w b ctx t cap = Inr (0, b', ?ctx, ?w)"
      using st(1) b'(1) by (auto simp: stream_decrypt_data_def stream_decrypt_finish_def)
    then show ?thesis
      by (rule that) (use False b'(2) out st(2) ww(1) assms(10) in auto)
  qed
qed

text \<open>
  One call with a fragment, on any bytes: what it returns and delivers is determined by the bytes received so
  far. \<open>news\<close> are the bytes behind the nonce that this call brings.
\<close>

definition news :: "nat \<Rightarrow> bytes \<Rightarrow> bytes \<Rightarrow> bytes" where
  "news nl got f = drop (length (drop nl got)) (drop nl (got @ f))"

lemma news_append: "drop nl got @ news nl got f = drop nl (got @ f)"
  by (cases "nl \<le> length got") (simp_all add: news_def)

definition unused :: "world \<Rightarrow> cipher_ctx_t \<Rightarrow> bytes \<Rightarrow> bool" where
  "unused w ctx got \<longleftrightarrow>
     (let nl = ci_nonce_len (cx_cipher ctx) in
      nl \<le> length got \<longrightarrow> cx_init ctx \<le> 1 \<longrightarrow> ci_method (cx_cipher ctx) \<ge> RC4_MD5 \<longrightarrow> \<not> seen w (take nl got))"

definition call_ok ::
  "crypto_lib \<Rightarrow> (bytes \<Rightarrow> bytes) \<Rightarrow> (bytes \<Rightarrow> bytes \<Rightarrow> bytes) \<Rightarrow> world \<Rightarrow> cipher_ctx_t \<Rightarrow> bytes \<Rightarrow> bytes
   \<Rightarrow> (int \<times> buffer_t \<times> cipher_ctx_t option \<times> world) res \<Rightarrow> bool" where
  "call_ok L MD5 T w ctx got f r \<longleftrightarrow>
     (let nl = ci_nonce_len (cx_cipher ctx) in
      \<exists>e b' ctx' w'. r = Inr (e, b', Some ctx', w') \<and> wf_buffer b' \<and> wf_sworld w' \<and>
        s_receiving L MD5 ctx' (got @ f) \<and> cx_cipher ctx' = cx_cipher ctx \<and> unused w' ctx' (got @ f) \<and>
        (length (got @ f) < nl \<longrightarrow> w_pp w' = w_pp w) \<and>
        e = (if news nl got f = [] then CRYPTO_NEED_MORE else CRYPTO_OK) \<and>
        (news nl got f \<noteq> [] \<longrightarrow> contents b' = tail_of (T (take nl (got @ f))) (drop nl got) (news nl got f)))"

lemma stream_decrypt_run:
  assumes "stream_laws L MD5 KS C" and "wf_sworld w" and "wf_buffer b"
  obtains t where "wf_block t" and "b_len t = b_len b" and "b_len b \<le> b_cap t"
    and "wf_sworld (put_tmp Tmp_stream_decrypt t w)"
    and "stream_decrypt L w b (Some ctx) cap =
      bnd (stream_decrypt_nonce L (put_tmp Tmp_stream_decrypt t w) ctx b t) (stream_decrypt_rest L cap)"
proof -
  obtain t0 where t0: "brealloc (lib_heap L) (w_tmp w Tmp_stream_decrypt) (b_len b) cap = Inr t0"
    "wf_block t0" "max (b_len b) cap \<le> b_cap t0"
    using brealloc_ok [OF stream_lawsD(1) [OF assms(1)] wf_world_tmp] assms(2) unfolding wf_sworld_def by metis
  have "wf_block (t0\<lparr>b_len := b_len b\<rparr>)"
    using t0(2) by (simp add: wf_block_def)
  then show ?thesis
    using t0 wf_sworld_upd(2) [OF assms(2)]
    by (intro that [of "t0\<lparr>b_len := b_len b\<rparr>"]) (simp_all add: stream_decrypt_def Let_def)
qed

lemma call_streaming:
  assumes "stream_laws L MD5 KS C" and "wf_sworld w" and "wf_buffer b" and "unused w ctx (got @ contents b)"
    and "length (got @ contents b) < stream_limit (cx_cipher ctx)"
    and "cx_init ctx \<noteq> 0" and "ci_nonce_len (cx_cipher ctx) \<le> length got"
    and "s_at L MD5 0 ctx (take (ci_nonce_len (cx_cipher ctx)) got) (drop (ci_nonce_len (cx_cipher ctx)) got)"
  shows "call_ok L MD5 (transform MD5 KS C 0 (cx_cipher ctx)) w ctx got (contents b) (stream_decrypt L w b (Some ctx) cap)"
proof -
  let ?nl = "ci_nonce_len (cx_cipher ctx)" and ?f = "contents b"
  let ?n = "take ?nl got"
  obtain t where t: "wf_block t" "b_len t = b_len b" "b_len b \<le> b_cap t" "wf_sworld (put_tmp Tmp_stream_decrypt t w)"
    "stream_decrypt L w b (Some ctx) cap =
      bnd (stream_decrypt_nonce L (put_tmp Tmp_stream_decrypt t w) ctx b t) (stream_decrypt_rest L cap)"
    by (rule stream_decrypt_run [OF assms(1-3)])
  let ?w = "put_tmp Tmp_stream_decrypt t (put_tmp Tmp_stream_decrypt t w)"
  have ww: "wf_sworld ?w"
    by (rule wf_sworld_upd(2) [OF t(4,1)])
  have run: "stream_decrypt L w b (Some ctx) cap =
      (if b_len b = 0 then Inr (CRYPTO_NEED_MORE, b, Some ctx, ?w)
       else bnd (stream_decrypt_data L ?w b ctx t cap) (\<lambda>(e, b, ctx, w). Inr (e, b, Some ctx, w)))"
    using assms(6) by (simp add: t(5) stream_decrypt_nonce_def stream_decrypt_rest_def)
  have lf: "length ?f = b_len b"
    using assms(3) by simp
  have nw: "news ?nl got ?f = ?f" "take ?nl (got @ ?f) = ?n" "drop ?nl (got @ ?f) = drop ?nl got @ ?f"
    using assms(7) by (simp_all add: news_def)
  have un: "cx_init ctx \<le> 1 \<Longrightarrow> ci_method (cx_cipher ctx) \<ge> RC4_MD5 \<Longrightarrow> \<not> seen ?w ?n"
    using assms(4,7) nw(2) by (simp add: unused_def seen_def Let_def)
  show ?thesis
  proof (cases "b_len b = 0")
    case True
    then have "?f = []"
      using lf by simp
    moreover have "s_receiving L MD5 ctx got" "unused ?w ctx got"
      using assms(6-8) un by (simp_all add: s_receiving_def unused_def Let_def)
    ultimately show ?thesis
      using True run ww assms(3) nw(1) by (simp add: call_ok_def Let_def)
  next
    case False
    have lim: "length (drop ?nl got) + b_len b < stream_limit (cx_cipher ctx)"
      using assms(5) lf by simp
    have un1: "cx_init ctx = 1 \<Longrightarrow> ci_method (cx_cipher ctx) \<ge> RC4_MD5 \<Longrightarrow> \<not> seen ?w ?n"
      using un by simp
    obtain b' ctx' w' where d: "stream_decrypt_data L ?w b ctx t cap = Inr (CRYPTO_OK, b', ctx', w')"
      "wf_buffer b'" "contents b' = tail_of (transform MD5 KS C 0 (cx_cipher ctx) ?n) (drop ?nl got) ?f"
      "s_at L MD5 0 ctx' ?n (drop ?nl got @ ?f)" "cx_cipher ctx' = cx_cipher ctx" "wf_sworld w'"
      "cx_init ctx' \<noteq> 0" "cx_init ctx' = 1 \<Longrightarrow> ci_method (cx_cipher ctx) < RC4_MD5"
      by (rule stream_decrypt_data_ok [OF assms(1,8,3) False t(1-3) ww lim assms(6) un1]) (assumption | rule that)+
    have "unused w' ctx' (got @ ?f)"
      using d(5,7,8) by (auto simp: unused_def le_Suc_eq Let_def)
    moreover have "s_receiving L MD5 ctx' (got @ ?f)"
      using d(4,5,7) assms(7) nw(2,3) by (simp add: s_receiving_def Let_def)
    ultimately show ?thesis
      using False run d lf nw by (auto simp: call_ok_def Let_def)
  qed
qed

lemma call_collecting:
  assumes "stream_laws L MD5 KS C" and "wf_sworld w" and "wf_buffer b" and "unused w ctx (got @ contents b)"
    and "length (got @ contents b) < stream_limit (cx_cipher ctx)" and "s_collecting L ctx got"
  shows "call_ok L MD5 (transform MD5 KS C 0 (cx_cipher ctx)) w ctx got (contents b) (stream_decrypt L w b (Some ctx) cap)"
proof -
  let ?nl = "ci_nonce_len (cx_cipher ctx)" and ?f = "contents b"
  let ?n = "take ?nl (got @ ?f)"
  obtain t where t: "wf_block t" "b_len t = b_len b" "b_len b \<le> b_cap t" "wf_sworld (put_tmp Tmp_stream_decrypt t w)"
    "stream_decrypt L w b (Some ctx) cap =
      bnd (stream_decrypt_nonce L (put_tmp Tmp_stream_decrypt t w) ctx b t) (stream_decrypt_rest L cap)"
    by (rule stream_decrypt_run [OF assms(1-3)])
  let ?w = "put_tmp Tmp_stream_decrypt t w"
  have i: "cx_init ctx = 0" and g: "drop ?nl got = []"
    using assms(6) by (auto simp: s_collecting_def)
  have lf: "length ?f = b_len b"
    using assms(3) by simp
  show ?thesis
  proof (cases "length (got @ ?f) < ?nl")
    case True
    obtain ch b' where n: "stream_decrypt_nonce L ?w ctx b t = Inr (Some CRYPTO_NEED_MORE, ctx\<lparr>cx_chunk := Some ch\<rparr>, b', t, ?w)"
      "s_collecting L (ctx\<lparr>cx_chunk := Some ch\<rparr>) (got @ ?f)" "wf_buffer b'"
      by (rule stream_decrypt_nonce_more [OF assms(1,6,3) True]) (rule that; assumption)
    have "news ?nl got ?f = []"
      using True by (simp add: news_def)
    moreover have "stream_decrypt L w b (Some ctx) cap =
        Inr (CRYPTO_NEED_MORE, b', Some (ctx\<lparr>cx_chunk := Some ch\<rparr>), put_tmp Tmp_stream_decrypt t ?w)"
      using t(5) n(1) by (simp add: stream_decrypt_rest_def)
    moreover have "unused (put_tmp Tmp_stream_decrypt t ?w) (ctx\<lparr>cx_chunk := Some ch\<rparr>) (got @ ?f)"
      using True by (simp add: unused_def)
    ultimately show ?thesis
      using n(2,3) wf_sworld_upd(2) [OF t(4,1)] by (simp add: call_ok_def s_receiving_def Let_def)
  next
    case False
    then have nl: "?nl \<le> length (got @ ?f)"
      by simp
    have nw: "news ?nl got ?f = drop (?nl - length got) ?f" "drop ?nl (got @ ?f) = drop (?nl - length got) ?f"
      using g by (simp_all add: news_def)
    obtain ctx1 b1 m where n: "stream_decrypt_nonce L ?w ctx b t =
        Inr (if ci_method (cx_cipher ctx) \<ge> RC4_MD5 \<and> seen ?w ?n then Some CRYPTO_ERROR else None, ctx1, b1,
          t\<lparr>b_len := b_len t - (?nl - length got)\<rparr>, ?w\<lparr>w_md5 := m\<rparr>)"
      "length m = 16" "cx_cipher ctx1 = cx_cipher ctx" "cx_init ctx1 = 1" "s_at L MD5 0 ctx1 ?n []"
      "wf_buffer b1" "contents b1 = drop (?nl - length got) ?f" "b_len b1 = b_len b - (?nl - length got)"
      by (rule stream_decrypt_nonce_done [OF assms(1,6,3) t(4) nl])
    let ?t1 = "t\<lparr>b_len := b_len t - (?nl - length got)\<rparr>"
    let ?w1 = "put_tmp Tmp_stream_decrypt ?t1 (?w\<lparr>w_md5 := m\<rparr>)"
    have un: "\<not> (ci_method (cx_cipher ctx) \<ge> RC4_MD5 \<and> seen ?w ?n)"
      using assms(4) nl i by (simp add: unused_def seen_def Let_def)
    have t1: "wf_block ?t1" "b_len ?t1 = b_len b1" "b_len b1 \<le> b_cap ?t1"
      using t(1-3) n(8) by (simp_all add: wf_block_def)
    have ww: "wf_sworld ?w1"
      by (rule wf_sworld_upd(2) [OF wf_sworld_upd(1) [OF t(4) n(2)] t1(1)])
    have run: "stream_decrypt L w b (Some ctx) cap = (if b_len b1 = 0 then Inr (CRYPTO_NEED_MORE, b1, Some ctx1, ?w1)
        else bnd (stream_decrypt_data L ?w1 b1 ctx1 ?t1 cap) (\<lambda>(e, b, ctx, w). Inr (e, b, Some ctx, w)))"
      unfolding t(5) n(1) if_not_P [OF un] by (simp add: stream_decrypt_rest_def)
    have un1: "cx_init ctx1 = 1 \<Longrightarrow> ci_method (cx_cipher ctx1) \<ge> RC4_MD5 \<Longrightarrow> \<not> seen ?w1 ?n"
      using un n(3) by (simp add: seen_def)
    have l1: "length (contents b1) = b_len b1"
      using n(6) by simp
    show ?thesis
    proof (cases "b_len b1 = 0")
      case True
      then have "news ?nl got ?f = []"
        using nw(1) n(7) l1 by simp
      moreover have "s_receiving L MD5 ctx1 (got @ ?f)"
        using n(3-5,7) nl nw(2) True l1 by (simp add: s_receiving_def Let_def)
      moreover have "unused ?w1 ctx1 (got @ ?f)"
        using un1 n(3,4) by (simp add: unused_def Let_def)
      ultimately show ?thesis
        using True run ww n(3,6) by (simp add: call_ok_def Let_def)
    next
      case more: False
      have lim: "length [] + b_len b1 < stream_limit (cx_cipher ctx1)"
        using assms(5) lf n(3,8) by simp
      have i1: "cx_init ctx1 \<noteq> 0"
        using n(4) by simp
      obtain b' ctx' w' where d: "stream_decrypt_data L ?w1 b1 ctx1 ?t1 cap = Inr (CRYPTO_OK, b', ctx', w')"
        "wf_buffer b'" "contents b' = tail_of (transform MD5 KS C 0 (cx_cipher ctx1) ?n) [] (contents b1)"
        "s_at L MD5 0 ctx' ?n ([] @ contents b1)" "cx_cipher ctx' = cx_cipher ctx1" "wf_sworld w'"
        "cx_init ctx' \<noteq> 0" "cx_init ctx' = 1 \<Longrightarrow> ci_method (cx_cipher ctx1) < RC4_MD5"
        by (rule stream_decrypt_data_ok [OF assms(1) n(5,6) more t1 ww lim i1 un1]) (assumption | rule that)+
      have "unused w' ctx' (got @ ?f)"
        using d(5,7,8) n(3) by (auto simp: unused_def le_Suc_eq Let_def)
      moreover have "s_receiving L MD5 ctx' (got @ ?f)"
        using d(4,5,7) n(3,7) nl nw(2) by (simp add: s_receiving_def Let_def)
      moreover have "news ?nl got ?f = contents b1" "contents b1 \<noteq> []"
        using nw(1) n(7) l1 more by auto
      ultimately show ?thesis
        using more run d n(3) g nl by (simp add: call_ok_def Let_def)
    qed
  qed
qed

lemma stream_decrypt_call:
  assumes "stream_laws L MD5 KS C" and "wf_sworld w" and "wf_buffer b" and "unused w ctx (got @ contents b)"
    and "length (got @ contents b) < stream_limit (cx_cipher ctx)" and "s_receiving L MD5 ctx got"
  shows "call_ok L MD5 (transform MD5 KS C 0 (cx_cipher ctx)) w ctx got (contents b) (stream_decrypt L w b (Some ctx) cap)"
  using assms(6) call_collecting [OF assms(1-5)] call_streaming [OF assms(1-5)]
  by (auto simp: s_receiving_def Let_def)

section \<open>Sequences of calls\<close>

fun s_send_all ::
  "crypto_lib \<Rightarrow> world \<Rightarrow> cipher_ctx_t \<Rightarrow> nat \<Rightarrow> buffer_t list \<Rightarrow> (bytes \<times> cipher_ctx_t \<times> world) res" where
  "s_send_all L w ctx cap [] = Inr ([], ctx, w)"
| "s_send_all L w ctx cap (b # bs) =
     bnd (stream_encrypt L w b (Some ctx) cap) (\<lambda>(e, b', ctx', w').
       if e \<noteq> 0 then Inl UB
       else case ctx' of None \<Rightarrow> Inl UB
       | Some ctx' \<Rightarrow> bnd (s_send_all L w' ctx' cap bs) (\<lambda>(out, r). Inr (contents b' @ out, r)))"

fun s_receive_all ::
  "crypto_lib \<Rightarrow> world \<Rightarrow> cipher_ctx_t \<Rightarrow> nat \<Rightarrow> buffer_t list \<Rightarrow> (int list \<times> bytes \<times> cipher_ctx_t \<times> world) res" where
  "s_receive_all L w ctx cap [] = Inr ([], [], ctx, w)"
| "s_receive_all L w ctx cap (b # bs) =
     bnd (stream_decrypt L w b (Some ctx) cap) (\<lambda>(e, b', ctx', w').
       case ctx' of None \<Rightarrow> Inl UB
       | Some ctx' \<Rightarrow>
         if e = CRYPTO_ERROR then Inr ([e], [], ctx', w')
         else bnd (s_receive_all L w' ctx' cap bs) (\<lambda>(es, out, r).
           Inr (e # es, (if e = CRYPTO_OK then contents b' else []) @ out, r)))"

lemma s_send_all_wire:
  assumes "stream_laws L MD5 KS C" and "s_sending L MD5 ctx n d" and "wf_sworld w" and "cx_cipher ctx = c"
    and "\<forall>b\<in>set bs. wf_buffer b \<and> b_len b \<noteq> 0" and "length (d @ concat (map contents bs)) < stream_limit c"
  shows "\<exists>ctx' w'. s_send_all L w ctx cap bs =
    Inr ((if cx_init ctx = 0 \<and> bs \<noteq> [] then n else []) @ tail_of (transform MD5 KS C 1 c n) d (concat (map contents bs)), ctx', w')"
  using assms(2-6)
proof (induction bs arbitrary: ctx d w)
  case Nil
  then show ?case
    using length_tail_of [OF transform_incremental [OF assms(1)], of 1 c n d "[]"] by simp
next
  case (Cons b bs)
  let ?T = "transform MD5 KS C 1 c n" and ?r = "concat (map contents bs)"
  have b: "wf_buffer b" "b_len b \<noteq> 0" "length d + b_len b < stream_limit (cx_cipher ctx)"
    using Cons.prems by auto
  obtain b' ctx1 w1 where 1: "stream_encrypt L w b (Some ctx) cap = Inr (CRYPTO_OK, b', Some ctx1, w1)"
    "contents b' = (if cx_init ctx = 0 then n else []) @ tail_of ?T d (contents b)"
    "s_sending L MD5 ctx1 n (d @ contents b)" "cx_init ctx1 \<noteq> 0" "cx_cipher ctx1 = c" "wf_sworld w1"
    by (rule stream_encrypt_ok [OF assms(1) Cons.prems(1,2) b, unfolded Cons.prems(3)]) (rule that; assumption)
  obtain ctx2 w2 where 2: "s_send_all L w1 ctx1 cap bs = Inr (tail_of ?T (d @ contents b) ?r, ctx2, w2)"
    using Cons.IH [OF 1(3,6,5)] Cons.prems(4,5) 1(4) by auto
  have inc: "incremental ?T"
    by (rule transform_incremental [OF assms(1)]) simp
  have "tail_of ?T d (contents b) @ tail_of ?T (d @ contents b) ?r = tail_of ?T d (contents b @ ?r)"
    using append_tail_of [OF inc, of d "contents b @ ?r"] append_tail_of [OF inc, of "d @ contents b" ?r]
      append_tail_of [OF inc, of d "contents b"] by (metis append.assoc same_append_eq)
  with 1 2 show ?case
    by simp
qed

lemma s_receive_all_run:
  fixes c :: cipher_t
  assumes "stream_laws L MD5 KS C"
  defines "nl \<equiv> ci_nonce_len c"
  shows "s_receiving L MD5 ctx got \<Longrightarrow> wf_sworld w \<Longrightarrow> cx_cipher ctx = c \<Longrightarrow> \<forall>b\<in>set bs. wf_buffer b \<Longrightarrow>
    (nl \<le> length whole \<longrightarrow> ci_method c \<ge> RC4_MD5 \<longrightarrow> cx_init ctx \<le> 1 \<longrightarrow> \<not> seen w (take nl whole)) \<Longrightarrow>
    whole = got @ concat (map contents bs) \<Longrightarrow> length whole < stream_limit c \<Longrightarrow>
    \<exists>es ctx' w'. s_receive_all L w ctx cap bs =
        Inr (es, tail_of (transform MD5 KS C 0 c (take nl whole)) (drop nl got) (news nl got (concat (map contents bs))), ctx', w') \<and>
      CRYPTO_ERROR \<notin> set es \<and> s_receiving L MD5 ctx' whole \<and> length es = length bs"
proof (induction bs arbitrary: ctx got w)
  case Nil
  then show ?case
    using length_tail_of [OF transform_incremental [OF assms(1)], of 0 c "take nl got" "drop nl got" "[]"]
    by (simp add: news_def)
next
  case (Cons b bs)
  let ?T = "transform MD5 KS C 0 c" and ?f = "contents b" and ?r = "concat (map contents bs)"
  have w: "whole = (got @ ?f) @ ?r"
    using Cons.prems(6) by simp
  have un: "unused w ctx (got @ ?f)"
    using Cons.prems(3,5) w by (auto simp: unused_def nl_def Let_def)
  have "length (got @ ?f) < stream_limit (cx_cipher ctx)"
    using Cons.prems(3,7) w by simp
  with stream_decrypt_call [OF assms(1) Cons.prems(2) _ un this Cons.prems(1), of cap] Cons.prems(3,4)
  obtain e b' ctx1 w1 where 1: "stream_decrypt L w b (Some ctx) cap = Inr (e, b', Some ctx1, w1)"
    "wf_sworld w1" "s_receiving L MD5 ctx1 (got @ ?f)" "cx_cipher ctx1 = c" "unused w1 ctx1 (got @ ?f)"
    "length (got @ ?f) < nl \<Longrightarrow> w_pp w1 = w_pp w" "e = (if news nl got ?f = [] then CRYPTO_NEED_MORE else CRYPTO_OK)"
    "news nl got ?f \<noteq> [] \<Longrightarrow> contents b' = tail_of (?T (take nl (got @ ?f))) (drop nl got) (news nl got ?f)"
    by (auto simp: call_ok_def nl_def Let_def)
  have fresh: "nl \<le> length whole \<longrightarrow> ci_method c \<ge> RC4_MD5 \<longrightarrow> cx_init ctx1 \<le> 1 \<longrightarrow> \<not> seen w1 (take nl whole)"
  proof (cases "length (got @ ?f) < nl")
    case True
    then have "s_collecting L ctx got"
      using Cons.prems(1,3) by (auto simp: s_receiving_def nl_def Let_def)
    then show ?thesis
      using Cons.prems(5) 1(6) True by (simp add: seen_def s_collecting_def)
  next
    case False
    then show ?thesis
      using 1(4,5) w by (auto simp: unused_def nl_def Let_def)
  qed
  obtain es ctx2 w2 where 2: "s_receive_all L w1 ctx1 cap bs =
      Inr (es, tail_of (?T (take nl whole)) (drop nl (got @ ?f)) (news nl (got @ ?f) ?r), ctx2, w2)"
    "CRYPTO_ERROR \<notin> set es" "s_receiving L MD5 ctx2 whole" "length es = length bs"
    using Cons.IH [OF 1(3,2,4) _ fresh w Cons.prems(7)] Cons.prems(4) by auto
  have out: "(if e = CRYPTO_OK then contents b' else []) = tail_of (?T (take nl whole)) (drop nl got) (news nl got ?f)"
  proof (cases "news nl got ?f = []")
    case True
    then show ?thesis
      using 1(7) length_tail_of [OF transform_incremental [OF assms(1)], of 0 c "take nl whole" "drop nl got" "[]"] by simp
  next
    case False
    then have "nl < length (got @ ?f)"
      by (auto simp: news_def)
    then have "take nl whole = take nl (got @ ?f)"
      using w by simp
    then show ?thesis
      using False 1(7,8) by simp
  qed
  have inc: "incremental (?T (take nl whole))"
    by (rule transform_incremental [OF assms(1)]) simp
  have "tail_of (?T (take nl whole)) (drop nl got) (news nl got ?f) @
      tail_of (?T (take nl whole)) (drop nl (got @ ?f)) (news nl (got @ ?f) ?r) =
      tail_of (?T (take nl whole)) (drop nl got) (news nl got (?f @ ?r))"
    using append_tail_of [OF inc, of "drop nl got" "news nl got ?f"]
      append_tail_of [OF inc, of "drop nl (got @ ?f)" "news nl (got @ ?f) ?r"]
      append_tail_of [OF inc, of "drop nl got" "news nl got (?f @ ?r)"]
      news_append [of nl got ?f] news_append [of nl "got @ ?f" ?r] news_append [of nl got "?f @ ?r"]
    by (metis append.assoc same_append_eq)
  moreover have "e \<noteq> CRYPTO_ERROR"
    using 1(7) by simp
  ultimately show ?case
    using 1(1) 2 out by simp
qed

section \<open>Packets\<close>

lemma tail_of_Nil: "tail_of T [] m = T m"
  by (simp add: tail_of_def)

lemma stream_pass_ok:
  assumes "stream_laws L MD5 KS C" and "s_at L MD5 enc ctx n []" and "enc = 0 \<or> enc = 1" and "m \<noteq> []"
    and "off + length m \<le> length d" and "length m < stream_limit (cx_cipher ctx)"
  obtains ctx' where "stream_pass L ctx m d off (length m) =
      Inr (0, ctx', take off d @ transform MD5 KS C enc (cx_cipher ctx) n m @ drop (off + length m) d, length m)"
    and "cx_nonce ctx' = cx_nonce ctx"
proof (cases "ci_method (cx_cipher ctx) \<ge> SALSA20")
  case True
  let ?c = "cx_cipher ctx"
  have wf: "wf_stream_cipher ?c" "length (cx_nonce ctx) = 32" "n = take (ci_nonce_len ?c) (cx_nonce ctx)"
    using assms(2) by (auto simp: s_at_def)
  have "length m \<le> (if ci_method ?c = 20 then 2 ^ 32 * 64 else 2 ^ 64 * 64)"
    using assms(6) by (simp add: stream_limit_def split: if_splits)
  then have "crypto_stream_xor_ic L d off m (cx_nonce ctx) 0 (ci_key ?c) (ci_method ?c) =
      Inr (0, take off d @ xor_at (KS (ci_method ?c) (take 32 (ci_key ?c)) n) 0 m @ drop (off + length m) d)"
    using crypto_stream_xor_ic_ok [OF assms(1) wf(1) True, of "cx_nonce ctx" off m d 0] wf assms(5)
      wf_stream_sizes(1) [OF wf(1)] by simp
  then show ?thesis
    using True by (intro that [of ctx]) (simp_all add: stream_pass_def transform_def Let_def)
next
  case False
  let ?c = "cx_cipher ctx"
  have wf: "wf_stream_cipher ?c" "length n = ci_nonce_len ?c" "ci_method ?c < SALSA20" "evp_session L MD5 enc ?c n (cx_evp ctx) []"
    using False assms(2) wf_stream_sizes(1) [of ?c] by (auto simp: s_at_def)
  obtain e where "cipher_ctx_update L ctx d off m =
      Inr (0, ctx\<lparr>cx_evp := e\<rparr>, take off d @ tail_of (transform MD5 KS C enc ?c n) [] m @ drop (off + length m) d, length m)"
    by (rule cipher_ctx_update_ok [OF assms(1) wf(1-4) assms(3-5)])
  then show ?thesis
    using False by (intro that [of "ctx\<lparr>cx_evp := e\<rparr>"]) (simp_all add: stream_pass_def tail_of_Nil Let_def)
qed

lemma ctx_reset: "cx_counter ctx = 0 \<Longrightarrow> cx_init ctx = 0 \<Longrightarrow> ctx\<lparr>cx_evp := e, cx_counter := 0, cx_init := 0\<rparr> = ctx\<lparr>cx_evp := e\<rparr>"
  by (cases ctx) simp

lemma stream_encrypt_all_ok:
  assumes "stream_laws L MD5 KS C" and "wf_stream_cipher c" and "wf_sworld w" and "wf_buffer b" and "b_len b \<noteq> 0"
    and "b_len b < stream_limit c"
  defines "n \<equiv> randombytes_buf L (w_draws w) (ci_nonce_len c)"
  shows "\<exists>b' w'. stream_encrypt_all L w b c cap = Inr (CRYPTO_OK, b', w') \<and> wf_buffer b' \<and> wf_sworld w' \<and>
    contents b' = n @ transform MD5 KS C 1 c n (contents b)"
proof -
  let ?nl = "ci_nonce_len c" and ?T = "transform MD5 KS C 1 c n" and ?w = "w\<lparr>w_draws := Suc (w_draws w)\<rparr>"
  let ?m = "contents b"
  note h = stream_lawsD(1) [OF assms(1)]
  obtain ctx where i: "stream_ctx_init L w c 1 = Inr (ctx, ?w)" "s_fresh L ctx" "cx_cipher ctx = c"
    "cx_init ctx = 0" "cx_counter ctx = 0" "take ?nl (cx_nonce ctx) = n"
    by (rule stream_ctx_init_enc [OF assms(1,2), of w, folded n_def]) (rule that; assumption)
  have ww: "wf_sworld ?w" "wf_world ?w"
    using wf_sworld_upd(3) [OF assms(3)] by (simp_all add: wf_sworld_def)
  obtain t where t: "brealloc (lib_heap L) (w_tmp ?w Tmp_stream_encrypt_all) (?nl + b_len b) cap = Inr t"
    "wf_block t" "max (?nl + b_len b) cap \<le> b_cap t"
    using brealloc_ok [OF h wf_world_tmp [OF ww(2)]] by metis
  have n2: "n = take (ci_nonce_len (cx_cipher ctx)) (cx_nonce ctx)"
    using i(3,6) by simp
  obtain e m where e: "cipher_ctx_set_nonce L ?w ctx (Some (cx_nonce ctx)) (ci_nonce_len (cx_cipher ctx)) 1 =
      Inr (ctx\<lparr>cx_evp := e\<rparr>, ?w\<lparr>w_md5 := m\<rparr>)"
    "length m = 16" "s_at L MD5 1 (ctx\<lparr>cx_evp := e, cx_counter := 0, cx_init := 0\<rparr>) n []"
    by (rule cipher_ctx_set_nonce_ok [OF assms(1) i(2) ww(1) disjI2 [OF refl] n2, where i = 0])
  let ?ctx = "ctx\<lparr>cx_evp := e\<rparr>"
  have at: "s_at L MD5 1 ?ctx n []"
    using e(3) by (simp only: ctx_reset [OF i(5,4)])
  have ln: "length n = ?nl" "length (cx_nonce ctx) = 32" "?nl \<le> 16"
    using i(2,3) n2 wf_stream_sizes(1) [OF assms(2)] by (auto simp: s_fresh_def)
  let ?d = "n @ drop ?nl (b_data t)"
  have cp: "memcpy (b_data t) 0 (cx_nonce ?ctx) 0 ?nl = Inr ?d"
    using t(2,3) ln n2 i(3) by (simp add: mem_simps wf_block_def)
  have lm: "length ?m = b_len b" "read_mem (b_data b) 0 (b_len b) = Inr ?m"
    using assms(4) by (simp_all add: mem_simps wf_bufferD contents_def)
  have "?m \<noteq> []" "?nl + length ?m \<le> length ?d" "length ?m < stream_limit (cx_cipher ?ctx)"
    using lm(1) assms(5,6) t(2,3) ln i(3) by (auto simp: wf_block_def)
  then obtain ctx' where p: "stream_pass L ?ctx ?m ?d ?nl (length ?m) =
      Inr (0, ctx', take ?nl ?d @ transform MD5 KS C 1 (cx_cipher ?ctx) n ?m @ drop (?nl + length ?m) ?d, length ?m)"
    by (rule stream_pass_ok [OF assms(1) at disjI2 [OF refl]]) (rule that; assumption)
  let ?d2 = "n @ ?T ?m @ drop (?nl + b_len b) (b_data t)"
  have p2: "stream_pass L ?ctx ?m ?d ?nl (b_len b) = Inr (0, ctx', ?d2, b_len b)"
    using p lm(1) i(3) ln(1) by (simp add: add.commute)
  have lT: "length (?T ?m) = b_len b"
    using transform_incremental [OF assms(1), of 1 c n] lm(1) by (simp add: incremental_def)
  let ?t2 = "t\<lparr>b_data := ?d2, b_len := b_len b\<rparr>"
  have t2: "wf_block ?t2"
    using t(2,3) ln lT by (simp add: wf_block_def)
  have le: "?nl + b_len b \<le> length ?d2"
    using ln lT by simp
  obtain b' where b': "buf_assign (lib_heap L) b ?d2 (?nl + b_len b) cap = Inr b'" "wf_buffer b'"
    "contents b' = take (?nl + b_len b) ?d2"
    by (rule buf_assign_ok [OF h wf_buffer_block [OF assms(4)] le, where cap = cap]) (rule that; assumption)
  let ?w2 = "put_tmp Tmp_stream_encrypt_all ?t2 (?w\<lparr>w_md5 := m\<rparr>)"
  have "stream_encrypt_all L w b c cap = Inr (0, b', ?w2)"
    using i(1,3) t(1) e(1) cp lm(2) p2 b'(1) by (simp add: stream_encrypt_all_def Let_def)
  moreover have "wf_sworld ?w2"
    by (rule wf_sworld_upd(2) [OF wf_sworld_upd(1) [OF ww(1) e(2)] t2])
  moreover have "contents b' = n @ ?T ?m"
    using b'(3) ln lT by simp
  ultimately show ?thesis
    using b'(2) by blast
qed

lemma stream_decrypt_all_ok:
  assumes "stream_laws L MD5 KS C" and "wf_stream_cipher c" and "wf_sworld w" and "wf_buffer b"
    and "ci_nonce_len c < b_len b" and "b_len b < stream_limit c"
  defines "n \<equiv> take (ci_nonce_len c) (contents b)"
  shows "if seen w n then \<exists>w'. stream_decrypt_all L w b c cap = Inr (CRYPTO_ERROR, b, w') \<and> w_pp w' = w_pp w
    else \<exists>b' w'. stream_decrypt_all L w b c cap = Inr (CRYPTO_OK, b', w') \<and> wf_buffer b' \<and> wf_sworld w' \<and>
      contents b' = transform MD5 KS C 0 c n (drop (ci_nonce_len c) (contents b)) \<and> recorded w (w_pp w') n"
proof -
  let ?nl = "ci_nonce_len c" and ?T = "transform MD5 KS C 0 c n"
  let ?m = "drop ?nl (contents b)"
  note h = stream_lawsD(1) [OF assms(1)]
  obtain ctx where i: "stream_ctx_init L w c 0 = Inr (ctx, w)" "s_fresh L ctx" "cx_cipher ctx = c" "cx_init ctx = 0" "cx_counter ctx = 0"
    by (rule stream_ctx_init_dec [OF assms(1,2), of w]) (rule that; assumption)
  have ww: "wf_world w"
    using assms(3) by (simp add: wf_sworld_def)
  obtain t where t: "brealloc (lib_heap L) (w_tmp w Tmp_stream_decrypt_all) (b_len b) cap = Inr t"
    "wf_block t" "max (b_len b) cap \<le> b_cap t"
    using brealloc_ok [OF h wf_world_tmp [OF ww]] by metis
  let ?t = "t\<lparr>b_len := b_len b - ?nl\<rparr>"
  let ?w = "put_tmp Tmp_stream_decrypt_all ?t w"
  have wt: "wf_sworld ?w" "wf_world ?w"
    using wf_sworld_upd(2) [OF assms(3), of ?t] t(2) by (simp_all add: wf_block_def wf_sworld_def)
  have lb: "length (contents b) = b_len b" "length (b_data b) = b_cap b" "b_len b \<le> b_cap b"
    using assms(4) by (simp_all add: wf_bufferD)
  have ln: "length (cx_nonce ctx) = 32" "?nl \<le> 16" "length n = ?nl"
    using i(2) wf_stream_sizes(1) [OF assms(2)] lb(1) assms(5) by (auto simp: s_fresh_def n_def)
  have nb: "take ?nl (b_data b) = n"
    using assms(5) by (simp add: n_def contents_def min_def)
  let ?nonce = "n @ drop ?nl (cx_nonce ctx)"
  let ?ctx = "ctx\<lparr>cx_nonce := ?nonce\<rparr>"
  have cp: "memcpy (cx_nonce ctx) 0 (b_data b) 0 ?nl = Inr ?nonce"
    using ln lb assms(5) nb by (simp add: mem_simps)
  have chk: "ppbloom_check (w_pp ?w) ?nonce (int ?nl) = Inr (if seen w n then 1 else 0)"
    using salt_check [OF wt(2), of ?nl ?nonce] ln(3) by (simp add: seen_def)
  show ?thesis
  proof (cases "seen w n")
    case True
    then have "stream_decrypt_all L w b c cap = Inr (CRYPTO_ERROR, b, ?w)"
      using assms(5) i(1) t(1) cp chk by (simp add: stream_decrypt_all_def Let_def)
    then show ?thesis
      using True by simp
  next
    case False
    have f: "s_fresh L ?ctx" "n = take (ci_nonce_len (cx_cipher ?ctx)) (cx_nonce ?ctx)"
      using i(2,3) ln by (simp_all add: s_fresh_def)
    obtain e m where e: "cipher_ctx_set_nonce L ?w ?ctx (Some (cx_nonce ?ctx)) (ci_nonce_len (cx_cipher ?ctx)) 0 =
        Inr (?ctx\<lparr>cx_evp := e\<rparr>, ?w\<lparr>w_md5 := m\<rparr>)"
      "length m = 16" "s_at L MD5 0 (?ctx\<lparr>cx_evp := e, cx_counter := 0, cx_init := 0\<rparr>) n []"
      by (rule cipher_ctx_set_nonce_ok [OF assms(1) f(1) wt(1) disjI1 [OF refl] f(2), where i = 0])
    let ?ctx1 = "?ctx\<lparr>cx_evp := e\<rparr>"
    have "cx_counter ?ctx = 0" "cx_init ?ctx = 0"
      using i(4,5) by simp_all
    then have at: "s_at L MD5 0 ?ctx1 n []"
      using e(3) by (simp only: ctx_reset)
    have lm: "length ?m = b_len b - ?nl" "read_mem (b_data b) ?nl (b_len b - ?nl) = Inr ?m"
      using lb assms(5) by (simp_all add: mem_simps contents_def drop_take)
    have "?m \<noteq> []" "0 + length ?m \<le> length (b_data ?t)" "length ?m < stream_limit (cx_cipher ?ctx1)"
      using lm(1) lb assms(5,6) t(2,3) i(3) by (auto simp: wf_block_def)
    then obtain ctx' where p: "stream_pass L ?ctx1 ?m (b_data ?t) 0 (length ?m) =
        Inr (0, ctx', take 0 (b_data ?t) @ transform MD5 KS C 0 (cx_cipher ?ctx1) n ?m @ drop (0 + length ?m) (b_data ?t), length ?m)"
      "cx_nonce ctx' = cx_nonce ?ctx1"
      by (rule stream_pass_ok [OF assms(1) at disjI1 [OF refl]]) (rule that; assumption)
    let ?d2 = "?T ?m @ drop (b_len b - ?nl) (b_data t)"
    have p2: "stream_pass L ?ctx1 ?m (b_data t) 0 (b_len b - ?nl) = Inr (0, ctx', ?d2, b_len b - ?nl)"
      using p(1) lm(1) i(3) by simp
    have lT: "length (?T ?m) = b_len b - ?nl"
      using transform_incremental [OF assms(1), of 0 c n] lm(1) by (simp add: incremental_def)
    let ?t2 = "t\<lparr>b_data := ?d2, b_len := b_len b - ?nl\<rparr>"
    have "b_len b - ?nl \<le> b_cap t"
      using t(3) by linarith
    then have t2: "wf_block ?t2"
      using t(2) lT by (simp add: wf_block_def)
    let ?w2 = "put_tmp Tmp_stream_decrypt_all ?t2 (?w\<lparr>w_md5 := m\<rparr>)"
    have w2: "wf_sworld ?w2" "wf_world ?w2"
      using wf_sworld_upd(2) [OF wf_sworld_upd(1) [OF wt(1) e(2)] t2] by (simp_all add: wf_sworld_def)
    obtain pp where pp: "ppbloom_add (w_pp ?w2) ?nonce (int ?nl) = Inr (0, pp)" "recorded ?w2 pp n"
      using salt_add [OF w2(2), of ?nl ?nonce] ln(3) by auto
    have le: "b_len b - ?nl \<le> length ?d2"
      using lT by simp
    obtain b' where b': "buf_assign (lib_heap L) b ?d2 (b_len b - ?nl) cap = Inr b'" "wf_buffer b'"
      "contents b' = take (b_len b - ?nl) ?d2"
      by (rule buf_assign_ok [OF h wf_buffer_block [OF assms(4)] le, where cap = cap]) (rule that; assumption)
    have "stream_decrypt_all L w b c cap = Inr (0, b', ?w2\<lparr>w_pp := pp\<rparr>)"
      using assms(5) False i(1,3) t(1) cp chk e(1) lm(2) p2 p(2) pp(1) b'(1)
      by (simp add: stream_decrypt_all_def Let_def)
    moreover have "contents b' = ?T ?m"
      using b'(3) lT by simp
    moreover have "recorded w pp n"
      using pp(2) by (simp add: recorded_def)
    ultimately show ?thesis
      using False b'(2) wf_sworld_upd(4) [OF w2(1) recorded_wf [OF pp(2)]] by simp
  qed
qed

section \<open>Properties\<close>

lemma stream_session:
  assumes "stream_laws L MD5 KS C" and "stream_laws L' MD5 KS C" and "wf_stream_cipher c" and "wf_sworld w" and "wf_sworld w'"
    and "\<forall>b\<in>set bs. wf_buffer b \<and> b_len b \<noteq> 0" and "bs \<noteq> []"
    and "ci_nonce_len c + length (concat (map contents bs)) < stream_limit c"
    and "\<not> seen w' (randombytes_buf L (w_draws w) (ci_nonce_len c))"
  shows "\<exists>ctx w1 sent ctx2 w2. stream_ctx_init L w c 1 = Inr (ctx, w1) \<and> s_send_all L w1 ctx cap bs = Inr (sent, ctx2, w2) \<and>
    (\<forall>frags. (\<forall>f\<in>set frags. wf_buffer f) \<longrightarrow> concat (map contents frags) = sent \<longrightarrow>
      (\<exists>rctx es rctx2 w3. stream_ctx_init L' w' c 0 = Inr (rctx, w') \<and>
         s_receive_all L' w' rctx cap' frags = Inr (es, concat (map contents bs), rctx2, w3) \<and> CRYPTO_ERROR \<notin> set es))"
proof -
  let ?n = "randombytes_buf L (w_draws w) (ci_nonce_len c)" and ?x = "concat (map contents bs)"
  let ?E = "transform MD5 KS C 1 c ?n" and ?D = "transform MD5 KS C 0 c ?n"
  let ?sent = "?n @ ?E ?x" and ?w = "w\<lparr>w_draws := Suc (w_draws w)\<rparr>"
  have ln: "length ?n = ci_nonce_len c"
    by (rule stream_lawsD(2) [OF assms(1)])
  have pr: "incremental_pair ?E ?D"
    by (rule transform_pair [OF assms(1)])
  then have lE: "length (?E ?x) = length ?x" and inv: "?D (?E ?x) = ?x"
    by (simp_all add: incremental_pair_def incremental_def incremental_pair_axioms_def)
  obtain ctx where i: "stream_ctx_init L w c 1 = Inr (ctx, ?w)" "s_fresh L ctx" "cx_cipher ctx = c" "cx_init ctx = 0"
    "take (ci_nonce_len c) (cx_nonce ctx) = ?n"
    by (rule stream_ctx_init_enc [OF assms(1,3), of w]) (rule that; assumption)
  have "s_sending L MD5 ctx ?n []"
    using i by (simp add: s_sending_def)
  from s_send_all_wire [OF assms(1) this wf_sworld_upd(3) [OF assms(4)] i(3) assms(6), of "Suc (w_draws w)" cap]
  obtain ctx2 w2 where snd: "s_send_all L ?w ctx cap bs = Inr (?sent, ctx2, w2)"
    using assms(7,8) i(4) by (auto simp: tail_of_Nil)
  obtain rctx where r: "stream_ctx_init L' w' c 0 = Inr (rctx, w')" "s_fresh L' rctx" "cx_cipher rctx = c" "cx_init rctx = 0"
    "cx_chunk rctx = None"
    by (rule stream_ctx_init_dec [OF assms(2,3), of w']) (rule that; assumption)
  have rc: "s_receiving L' MD5 rctx []"
    using r by (simp add: s_receiving_def s_collecting_def)
  have tk: "take (ci_nonce_len c) ?sent = ?n" "drop (ci_nonce_len c) ?sent = ?E ?x"
    using ln by simp_all
  have fr: "ci_nonce_len c \<le> length ?sent \<longrightarrow> ci_method c \<ge> RC4_MD5 \<longrightarrow> cx_init rctx \<le> 1 \<longrightarrow> \<not> seen w' (take (ci_nonce_len c) ?sent)"
    using tk(1) assms(9) by simp
  have lim: "length ?sent < stream_limit c"
    using assms(8) ln lE by simp
  have dl: "\<exists>es rctx2 w3. s_receive_all L' w' rctx cap' frags = Inr (es, ?x, rctx2, w3) \<and> CRYPTO_ERROR \<notin> set es"
    if f: "\<forall>f\<in>set frags. wf_buffer f" "concat (map contents frags) = ?sent" for frags
    using s_receive_all_run [OF assms(2) rc assms(5) r(3) f(1) fr _ lim, of cap'] f(2) tk inv
    by (auto simp: tail_of_Nil news_def)
  have "\<exists>rctx es rctx2 w3. stream_ctx_init L' w' c 0 = Inr (rctx, w') \<and>
      s_receive_all L' w' rctx cap' frags = Inr (es, ?x, rctx2, w3) \<and> CRYPTO_ERROR \<notin> set es"
    if f: "\<forall>f\<in>set frags. wf_buffer f" "concat (map contents frags) = ?sent" for frags
    using dl [OF f] r(1) by auto
  then show ?thesis
    using i(1) snd by (intro exI [of _ ctx] exI [of _ ?w] exI [of _ ?sent] exI [of _ ctx2] exI [of _ w2]) simp
qed

text \<open>C19: a stream-cipher session survives any fragmentation. A fresh sender encrypts non-empty messages one call
  after the other; however the resulting bytes are cut into fragments, a fresh receiver in another process
  with the same cipher, whose replay filter has not seen the nonce, never reports an error and delivers
  exactly the bytes of the messages, for all fifteen available methods: with libsodium, where every call
  resumes the key stream inside a block, as long as the session stays below the counter limit, and with
  mbed TLS.\<close>

theorem stream_roundtrip:
  assumes "stream_laws L MD5 KS C" and "stream_laws L' MD5 KS C" and "wf_stream_cipher c" and "wf_sworld w" and "wf_sworld w'"
    and "\<forall>b\<in>set bs. wf_buffer b \<and> b_len b \<noteq> 0" and "bs \<noteq> []"
    and "ci_nonce_len c + length (concat (map contents bs)) < stream_limit c"
    and "\<not> seen w' (randombytes_buf L (w_draws w) (ci_nonce_len c))"
  shows "\<exists>ctx w1 sent ctx2 w2. stream_ctx_init L w c 1 = Inr (ctx, w1) \<and> s_send_all L w1 ctx cap bs = Inr (sent, ctx2, w2) \<and>
    (\<forall>frags. (\<forall>f\<in>set frags. wf_buffer f) \<longrightarrow> concat (map contents frags) = sent \<longrightarrow>
      (\<exists>rctx es rctx2 w3. stream_ctx_init L' w' c 0 = Inr (rctx, w') \<and>
         s_receive_all L' w' rctx cap' frags = Inr (es, concat (map contents bs), rctx2, w3) \<and> CRYPTO_ERROR \<notin> set es))"
  by (rule stream_session [OF assms])

text \<open>C20: a packet of a stream cipher: what \<^verbatim>\<open>stream_encrypt_all\<close> makes of a non-empty payload is the nonce and the
  encrypted payload, and \<^verbatim>\<open>stream_decrypt_all\<close> in another process recovers the payload and records the nonce, unless
  the nonce has been seen, in which case it returns \<^verbatim>\<open>CRYPTO_ERROR\<close> and leaves the packet alone.\<close>

theorem stream_packet_roundtrip:
  assumes "stream_laws L MD5 KS C" and "stream_laws L' MD5 KS C" and "wf_stream_cipher c" and "wf_sworld w" and "wf_sworld w'"
    and "wf_buffer b" and "b_len b \<noteq> 0" and "ci_nonce_len c + b_len b < stream_limit c"
  shows "\<exists>p w1. stream_encrypt_all L w b c cap = Inr (CRYPTO_OK, p, w1) \<and>
    (if seen w' (randombytes_buf L (w_draws w) (ci_nonce_len c))
     then \<exists>w2. stream_decrypt_all L' w' p c cap' = Inr (CRYPTO_ERROR, p, w2) \<and> w_pp w2 = w_pp w'
     else \<exists>q w2. stream_decrypt_all L' w' p c cap' = Inr (CRYPTO_OK, q, w2) \<and> contents q = contents b \<and>
       seen w2 (randombytes_buf L (w_draws w) (ci_nonce_len c)))"
proof -
  let ?n = "randombytes_buf L (w_draws w) (ci_nonce_len c)"
  let ?E = "transform MD5 KS C 1 c ?n" and ?D = "transform MD5 KS C 0 c ?n"
  have ln: "length ?n = ci_nonce_len c"
    by (rule stream_lawsD(2) [OF assms(1)])
  have "incremental_pair ?E ?D"
    by (rule transform_pair [OF assms(1)])
  then have lE: "length (?E (contents b)) = b_len b" and inv: "?D (?E (contents b)) = contents b"
    using assms(6) by (simp_all add: incremental_pair_def incremental_def incremental_pair_axioms_def)
  obtain p w1 where p: "stream_encrypt_all L w b c cap = Inr (CRYPTO_OK, p, w1)" "wf_buffer p"
    "contents p = ?n @ ?E (contents b)"
    using stream_encrypt_all_ok [OF assms(1,3,4,6,7), of cap] assms(8) by auto
  have lp: "b_len p = ci_nonce_len c + b_len b"
    using p(2,3) lE ln length_contents [OF p(2)] by simp
  have "ci_nonce_len c < b_len p" "b_len p < stream_limit c"
    using lp assms(7,8) by simp_all
  from stream_decrypt_all_ok [OF assms(2,3,5) p(2) this, of cap'] p(1,3) ln inv recorded_seen show ?thesis
    by (auto split: if_splits)
qed

text \<open>Replayed stream-cipher sessions are rejected: when the bytes of the first fragment complete a nonce that
  the filter has seen, a new context returns \<^verbatim>\<open>CRYPTO_ERROR\<close>, for every method with a nonce.\<close>

theorem stream_replay:
  assumes "stream_laws L MD5 KS C" and "wf_stream_cipher c" and "ci_method c \<ge> RC4_MD5" and "wf_sworld w" and "wf_buffer b"
    and "ci_nonce_len c \<le> b_len b" and "seen w (take (ci_nonce_len c) (contents b))"
  shows "\<exists>ctx b' ctx' w'. stream_ctx_init L w c 0 = Inr (ctx, w) \<and>
    stream_decrypt L w b (Some ctx) cap = Inr (CRYPTO_ERROR, b', Some ctx', w') \<and> w_pp w' = w_pp w"
proof -
  obtain ctx where i: "stream_ctx_init L w c 0 = Inr (ctx, w)" "s_fresh L ctx" "cx_cipher ctx = c" "cx_init ctx = 0" "cx_chunk ctx = None"
    by (rule stream_ctx_init_dec [OF assms(1,2), of w]) (rule that; assumption)
  have col: "s_collecting L ctx []"
    using i by (simp add: s_collecting_def)
  obtain t where t: "wf_sworld (put_tmp Tmp_stream_decrypt t w)" "stream_decrypt L w b (Some ctx) cap =
      bnd (stream_decrypt_nonce L (put_tmp Tmp_stream_decrypt t w) ctx b t) (stream_decrypt_rest L cap)"
    by (rule stream_decrypt_run [OF assms(1,4,5)]) (rule that; assumption)
  have nl: "ci_nonce_len (cx_cipher ctx) \<le> length ([] @ contents b)"
    using i(3) assms(5,6) by simp
  obtain ctx' b' m where "stream_decrypt_nonce L (put_tmp Tmp_stream_decrypt t w) ctx b t =
      Inr (if ci_method (cx_cipher ctx) \<ge> RC4_MD5 \<and> seen (put_tmp Tmp_stream_decrypt t w) (take (ci_nonce_len (cx_cipher ctx)) ([] @ contents b))
           then Some CRYPTO_ERROR else None, ctx', b',
        t\<lparr>b_len := b_len t - (ci_nonce_len (cx_cipher ctx) - length ([] :: bytes))\<rparr>, (put_tmp Tmp_stream_decrypt t w)\<lparr>w_md5 := m\<rparr>)"
    by (rule stream_decrypt_nonce_done [OF assms(1) col assms(5) t(1) nl, of t]) (rule that; assumption)
  with i assms(3,7) t(2) show ?thesis
    by (simp add: stream_decrypt_rest_def seen_def)
qed

end
