(* ===== verification/SS_Base64.thy ===== *)
theory SS_Base64
  imports SS_Prelude
begin

text \<open>
  URL-safe Base64 of \<^verbatim>\<open>src/base64.c\<close>, used for keys given on the command line. A C string is the list
  of its characters without the terminating zero. The decoder's accumulator \<^verbatim>\<open>int v\<close> is kept at 32
  bits with wrap-around, as the compilers implement the left shift; the encoder's \<^verbatim>\<open>unsigned i_bits\<close>
  wraps by definition. The reference encoding \<open>sextets\<close> works on groups of three bytes; the theorems
  say that the bit-accumulator loops compute it and its inverse.
\<close>

section \<open>The code\<close>

definition map2_table :: bytes where
  "map2_table = [
    0xff, 0xff, 0x3e, 0xff, 0xff, 0x34, 0x35, 0x36,
    0x37, 0x38, 0x39, 0x3a, 0x3b, 0x3c, 0x3d, 0xff,
    0xff, 0xff, 0xff, 0xff, 0xff, 0xff, 0x00, 0x01,
    0x02, 0x03, 0x04, 0x05, 0x06, 0x07, 0x08, 0x09,
    0x0a, 0x0b, 0x0c, 0x0d, 0x0e, 0x0f, 0x10, 0x11,
    0x12, 0x13, 0x14, 0x15, 0x16, 0x17, 0x18, 0x19,
    0xff, 0xff, 0xff, 0xff, 0x3f, 0xff, 0x1a, 0x1b,
    0x1c, 0x1d, 0x1e, 0x1f, 0x20, 0x21, 0x22, 0x23,
    0x24, 0x25, 0x26, 0x27, 0x28, 0x29, 0x2a, 0x2b,
    0x2c, 0x2d, 0x2e, 0x2f, 0x30, 0x31, 0x32, 0x33]"

definition b64 :: bytes where
  "b64 = map of_char ''ABCDEFGHIJKLMNOPQRSTUVWXYZabcdefghijklmnopqrstuvwxyz0123456789-_''"

definition BASE64_SIZE :: "int \<Rightarrow> int" where
  "BASE64_SIZE x = (x + 2) div 3 * 4 + 1"

text \<open>\<^verbatim>\<open>in[i] - 43\<close> is computed on a signed \<^verbatim>\<open>char\<close> and converted to \<^verbatim>\<open>unsigned int\<close>.\<close>

definition b64_index :: "byte \<Rightarrow> u32" where
  "b64_index c = of_int (sint c - 43)"

text \<open>The loop of \<^verbatim>\<open>base64_decode\<close>. \<open>i\<close> is an \<^verbatim>\<open>int\<close> and stays one for strings of fewer than \<open>2 ^ 31\<close> characters; the
  signed accumulator is taken to wrap around, as two's-complement machines do.\<close>

fun b64_decode_loop :: "bytes \<Rightarrow> nat \<Rightarrow> u32 \<Rightarrow> bytes \<Rightarrow> nat \<Rightarrow> int \<Rightarrow> (int \<times> bytes) res" where
  "b64_decode_loop [] i v out dst out_size = Inr (int dst, out)"
| "b64_decode_loop (c # cs) i v out dst out_size =
     (if c = 0 \<or> c = of_char CHR ''='' then Inr (int dst, out)
      else
        let index = unat (b64_index c) in
        if index \<ge> length map2_table \<or> map2_table ! index = 0xff then Inr (-1, out)
        else
          let v = push_bit 6 v + ucast (map2_table ! index) in
          if i mod 4 \<noteq> 0 \<and> int dst < out_size then
            bnd (write_byte out dst (ucast (signed_drop_bit (6 - 2 * (i mod 4)) v))) (\<lambda>out.
              b64_decode_loop cs (i + 1) v out (dst + 1) out_size)
          else b64_decode_loop cs (i + 1) v out dst out_size)"

declare b64_decode_loop.simps(2) [simp del]

definition base64_decode :: "bytes \<Rightarrow> bytes \<Rightarrow> int \<Rightarrow> (int \<times> bytes) res" where
  "base64_decode out inp out_size = b64_decode_loop inp 0 0 out 0 out_size"

text \<open>The inner \<^verbatim>\<open>do\<close> loop; \<open>fin\<close> is \<^verbatim>\<open>bytes_remaining == 0\<close>.\<close>

function b64_emit :: "u32 \<Rightarrow> int \<Rightarrow> bool \<Rightarrow> bytes \<Rightarrow> nat \<Rightarrow> (bytes \<times> nat \<times> int) res" where
  "b64_emit i_bits i_shift fin out dst =
     bnd (write_byte out dst (b64 ! unat (drop_bit (nat i_shift) (push_bit 6 i_bits) AND 0x3f))) (\<lambda>out.
       let i_shift = i_shift - 6 in
       if i_shift > 6 \<or> (fin \<and> i_shift > 0) then b64_emit i_bits i_shift fin out (dst + 1)
       else Inr (out, dst + 1, i_shift))"
  by pat_completeness auto
termination
  by (relation "measure (\<lambda>(i_bits, i_shift, last, out, dst). nat i_shift)") auto

declare b64_emit.simps [simp del]

fun b64_encode_loop :: "bytes \<Rightarrow> u32 \<Rightarrow> int \<Rightarrow> bytes \<Rightarrow> nat \<Rightarrow> (bytes \<times> nat) res" where
  "b64_encode_loop [] i_bits i_shift out dst = Inr (out, dst)"
| "b64_encode_loop (b # bs) i_bits i_shift out dst =
     (let i_bits = push_bit 8 i_bits + ucast b in
      bnd (b64_emit i_bits (i_shift + 8) (bs = []) out dst) (\<lambda>(out, dst, i_shift).
        b64_encode_loop bs i_bits i_shift out dst))"

function b64_pad :: "bytes \<Rightarrow> nat \<Rightarrow> (bytes \<times> nat) res" where
  "b64_pad out dst =
     (if dst mod 4 \<noteq> 0 then bnd (write_byte out dst (of_char CHR ''='')) (\<lambda>out. b64_pad out (dst + 1))
      else Inr (out, dst))"
  by pat_completeness auto
termination
  by (relation "measure (\<lambda>(out, dst). (4 - dst mod 4) mod 4)") (auto simp: mod_Suc)

declare b64_pad.simps [simp del]

text \<open>The result is whether the return value is \<^verbatim>\<open>out\<close> (and not \<^verbatim>\<open>NULL\<close>). A negative \<^verbatim>\<open>in_size\<close> becomes a
  large unsigned number in the first comparison; \<^verbatim>\<open>UINT_MAX / 4\<close> is 1073741823.\<close>

definition base64_encode :: "bytes \<Rightarrow> int \<Rightarrow> bytes \<Rightarrow> int \<Rightarrow> (bool \<times> bytes) res" where
  "base64_encode out out_size inp in_size =
     (if in_size < 0 \<or> in_size \<ge> 1073741823 \<or> out_size < BASE64_SIZE in_size then Inr (False, out)
      else
        bnd (read_mem inp 0 (nat in_size)) (\<lambda>xs.
        bnd (b64_encode_loop xs 0 0 out 0) (\<lambda>(out, dst).
        bnd (b64_pad out dst) (\<lambda>(out, dst).
        bnd (write_byte out dst 0) (\<lambda>out. Inr (True, out))))))"

section \<open>Reference encoding\<close>

text \<open>RFC 4648 on 6-bit values: three bytes give four sextets, a rest of one or two bytes gives two or
  three, and padding completes the group of four characters.\<close>

fun sextets :: "bytes \<Rightarrow> nat list" where
  "sextets [] = []"
| "sextets [a] = [unat a div 4, unat a mod 4 * 16]"
| "sextets [a, b] = [unat a div 4, unat a mod 4 * 16 + unat b div 16, unat b mod 16 * 4]"
| "sextets (a # b # c # r) =
     [unat a div 4, unat a mod 4 * 16 + unat b div 16, unat b mod 16 * 4 + unat c div 64, unat c mod 64]
     @ sextets r"

definition padding :: "nat \<Rightarrow> nat" where
  "padding n = (3 - n mod 3) mod 3"

definition base64_text :: "bytes \<Rightarrow> bytes" where
  "base64_text xs = map (\<lambda>s. b64 ! s) (sextets xs) @ replicate (padding (length xs)) (of_char CHR ''='')"

section \<open>Writing a run of bytes\<close>

definition poke :: "bytes \<Rightarrow> nat \<Rightarrow> bytes \<Rightarrow> bytes" where
  "poke out n xs = take n out @ xs @ drop (n + length xs) out"

lemma poke_Nil [simp]: "poke out n [] = out"
  by (simp add: poke_def)

lemma length_poke [simp]: "n + length xs \<le> length out \<Longrightarrow> length (poke out n xs) = length out"
  by (simp add: poke_def)

lemma poke_poke:
  "n + length xs \<le> length out \<Longrightarrow> m = n + length xs \<Longrightarrow> poke (poke out n xs) m ys = poke out n (xs @ ys)"
  by (simp add: poke_def ac_simps)

lemma write_byte_poke: "n < length out \<Longrightarrow> write_byte out n c = Inr (poke out n [c])"
  by (simp add: write_byte_def poke_def upd_conv_take_nth_drop)

lemmas poke_simps = write_byte_poke poke_poke

section \<open>The encoder\<close>

text \<open>The six bits that the encoder takes at shift \<open>s\<close> after it has moved byte \<open>b\<close> into the
  accumulator depend only on \<open>b\<close> and the last six bits before it.\<close>

lemma unat_byte [simp]: "unat (b :: byte) < 256"
  using unsigned_less [of b] by simp

lemma div_split: "0 < k \<Longrightarrow> (p * (c * k) + a) div k = p * c + (a::nat) div k"
  by (metis add.commute div_mult_self1 mult.assoc mult.commute less_not_refl)

lemma mod_split: "q < k \<Longrightarrow> (p * k + q) mod (k * m) = p mod m * k + (q::nat)"
  by (simp add: mod_mult2_eq)

lemma div64: "0 < k \<Longrightarrow> (n * 64) div (k * 64) = n div (k::nat)"
  by simp

lemma sextet14: "a < 256 \<Longrightarrow> ((p * 256 + a) * 64) div 16384 mod 64 = (p::nat) mod 64"
  using div64 [of 256 "p * 256 + a"] div_split [of 256 p 1 a] by simp

lemma sextet12: "a < 256 \<Longrightarrow> ((p * 256 + a) * 64) div 4096 mod 64 = p mod 16 * 4 + (a::nat) div 64"
  using div64 [of 64 "p * 256 + a"] div_split [of 64 p 4 a] mod_split [of "a div 64" 4 p 16] by simp

lemma sextet10: "a < 256 \<Longrightarrow> ((p * 256 + a) * 64) div 1024 mod 64 = p mod 4 * 16 + (a::nat) div 16"
  using div64 [of 16 "p * 256 + a"] div_split [of 16 p 16 a] mod_split [of "a div 16" 16 p 4] by simp

lemma sextet8: "a < 256 \<Longrightarrow> ((p * 256 + a) * 64) div 256 mod 64 = (a::nat) div 4"
  using div64 [of 4 "p * 256 + a"] div_split [of 4 p 64 a] mod_split [of "a div 4" 64 p 1] by simp

lemma mod_tail:
  "(p * 256 + a) mod 64 = (a::nat) mod 64" "(p * 256 + a) mod 16 = (a::nat) mod 16"
  "(p * 256 + a) mod 4 = (a::nat) mod 4"
  by (simp_all add: mod_add_eq [symmetric] mod_mult_eq [symmetric])

lemma sextet6: "((p * 256 + a) * 64) div 64 mod 64 = (a::nat) mod 64"
  using mod_tail(1) [of p a] by (simp add: mult.commute)

lemma sextet4: "((p * 256 + a) * 64) div 16 mod 64 = (a::nat) mod 16 * 4"
proof -
  have "((p * 256 + a) * 64) div 16 mod 64 = (p * 256 + a) * 4 mod (16 * 4)"
    by (simp add: mult.commute)
  then show ?thesis
    by (simp only: mult_mod_left [symmetric] mod_tail)
qed

lemma sextet2: "((p * 256 + a) * 64) div 4 mod 64 = (a::nat) mod 4 * 16"
proof -
  have "((p * 256 + a) * 64) div 4 mod 64 = (p * 256 + a) * 16 mod (4 * 16)"
    by (simp add: mult.commute)
  then show ?thesis
    by (simp only: mult_mod_left [symmetric] mod_tail)
qed

lemma unat_push:
  fixes j :: u32 and b :: byte
  shows "unat (push_bit 8 j + ucast b) = (unat j * 256 + unat b) mod 2 ^ 32"
  by (simp add: unat_word_ariths unsigned_push_bit_eq push_bit_eq_mult take_bit_eq_mod unsigned_ucast_eq mod_simps)

lemma shifted_sextet:
  fixes i :: u32
  assumes "s \<le> 14"
  shows "unat (drop_bit s (push_bit 6 i) AND 0x3f) = (unat i * 64) div 2 ^ s mod 64"
proof -
  have "drop_bit s (push_bit 6 i) AND 0x3f = take_bit 6 (drop_bit s (push_bit 6 i))"
    by (simp add: take_bit_eq_mask mask_eq_exp_minus_1)
  then have "unat (drop_bit s (push_bit 6 i) AND 0x3f) = take_bit 6 (drop_bit s (take_bit 32 (push_bit 6 (unat i))))"
    by (simp add: unsigned_take_bit_eq unsigned_drop_bit_eq unsigned_push_bit_eq)
  also have "\<dots> = take_bit 6 (drop_bit s (push_bit 6 (unat i)))"
    using assms by (simp add: take_bit_drop_bit ac_simps min_def)
  finally show ?thesis
    by (simp add: take_bit_eq_mod drop_bit_eq_div push_bit_eq_mult)
qed

lemma window_mod:
  assumes "s \<le> 14"
  shows "((n::nat) mod 2 ^ 32 * 64) div 2 ^ s mod 64 = (n * 64) div 2 ^ s mod 64"
proof -
  have "take_bit 6 (drop_bit s (push_bit 6 (take_bit 32 n))) = take_bit 6 (drop_bit s (push_bit 6 n))"
    using assms by (intro bit_eqI) (auto simp: bit_simps)
  then show ?thesis
    by (simp add: take_bit_eq_mod drop_bit_eq_div push_bit_eq_mult)
qed

lemma pushed_sextet:
  fixes j :: u32 and b :: byte
  assumes "s \<le> 14"
  shows "unat (drop_bit s (push_bit 6 (push_bit 8 j + ucast b)) AND 0x3f) =
    ((unat j * 256 + unat b) * 64) div 2 ^ s mod 64"
  by (simp only: shifted_sextet [OF assms] unat_push window_mod [OF assms])

lemma pushed_mod:
  fixes j :: u32 and b :: byte
  shows "unat (push_bit 8 j + ucast b) mod 64 = unat b mod 64" "unat (push_bit 8 j + ucast b) mod 16 = unat b mod 16"
    "unat (push_bit 8 j + ucast b) mod 4 = unat b mod 4"
  by (simp_all only: unat_push mod_mod_cancel mod_tail flip: mod_tail)
    (simp_all add: mod_mod_cancel mod_tail)

lemma pushed_sextets:
  fixes j :: u32 and b :: byte
  defines "i \<equiv> push_bit 6 (push_bit 8 j + ucast b)"
  shows "unat (drop_bit 14 i AND 0x3f) = unat j mod 64"
    and "unat (drop_bit 12 i AND 0x3f) = unat j mod 16 * 4 + unat b div 64"
    and "unat (drop_bit 10 i AND 0x3f) = unat j mod 4 * 16 + unat b div 16"
    and "unat (drop_bit 8 i AND 0x3f) = unat b div 4"
    and "unat (drop_bit 6 i AND 0x3f) = unat b mod 64"
    and "unat (drop_bit 4 i AND 0x3f) = unat b mod 16 * 4"
    and "unat (drop_bit 2 i AND 0x3f) = unat b mod 4 * 16"
proof -
  show "unat (drop_bit 14 i AND 0x3f) = unat j mod 64"
    using pushed_sextet [of 14 j b] sextet14 [of "unat b" "unat j"] by (simp add: i_def)
  show "unat (drop_bit 12 i AND 0x3f) = unat j mod 16 * 4 + unat b div 64"
    using pushed_sextet [of 12 j b] sextet12 [of "unat b" "unat j"] by (simp add: i_def)
  show "unat (drop_bit 10 i AND 0x3f) = unat j mod 4 * 16 + unat b div 16"
    using pushed_sextet [of 10 j b] sextet10 [of "unat b" "unat j"] by (simp add: i_def)
  show "unat (drop_bit 8 i AND 0x3f) = unat b div 4"
    using pushed_sextet [of 8 j b] sextet8 [of "unat b" "unat j"] by (simp add: i_def)
  show "unat (drop_bit 6 i AND 0x3f) = unat b mod 64"
    using pushed_sextet [of 6 j b] sextet6 [of "unat j" "unat b"] by (simp add: i_def)
  show "unat (drop_bit 4 i AND 0x3f) = unat b mod 16 * 4"
    using pushed_sextet [of 4 j b] sextet4 [of "unat j" "unat b"] by (simp add: i_def)
  show "unat (drop_bit 2 i AND 0x3f) = unat b mod 4 * 16"
    using pushed_sextet [of 2 j b] sextet2 [of "unat j" "unat b"] by (simp add: i_def)
qed

text \<open>One byte, by the number of bits that are pending when it is read.\<close>

lemmas emit_byte = b64_emit.simps pushed_sextets poke_simps Let_def

lemma emit_0: "n + 1 \<le> length out \<Longrightarrow>
  b64_emit (push_bit 8 j + ucast (b :: byte)) 8 False out n = Inr (poke out n [b64 ! (unat b div 4)], n + 1, 2)"
  by (simp add: emit_byte)

lemma emit_2: "n + 1 \<le> length out \<Longrightarrow>
  b64_emit (push_bit 8 j + ucast (b :: byte)) 10 False out n =
    Inr (poke out n [b64 ! (unat j mod 4 * 16 + unat b div 16)], n + 1, 4)"
  by (simp add: emit_byte)

lemma emit_4: "n + 1 \<le> length out \<Longrightarrow>
  b64_emit (push_bit 8 j + ucast (b :: byte)) 12 False out n =
    Inr (poke out n [b64 ! (unat j mod 16 * 4 + unat b div 64)], n + 1, 6)"
  by (simp add: emit_byte)

lemma emit_6: "n + 2 \<le> length out \<Longrightarrow>
  b64_emit (push_bit 8 j + ucast (b :: byte)) 14 False out n =
    Inr (poke out n [b64 ! (unat j mod 64), b64 ! (unat b div 4)], n + 2, 2)"
  by (simp add: emit_byte)

lemma emit_0_last: "n + 2 \<le> length out \<Longrightarrow>
  b64_emit (push_bit 8 j + ucast (b :: byte)) 8 True out n =
    Inr (poke out n [b64 ! (unat b div 4), b64 ! (unat b mod 4 * 16)], n + 2, -4)"
  by (simp add: emit_byte)

lemma emit_2_last: "n + 2 \<le> length out \<Longrightarrow>
  b64_emit (push_bit 8 j + ucast (b :: byte)) 10 True out n =
    Inr (poke out n [b64 ! (unat j mod 4 * 16 + unat b div 16), b64 ! (unat b mod 16 * 4)], n + 2, -2)"
  by (simp add: emit_byte)

lemma emit_4_last: "n + 2 \<le> length out \<Longrightarrow>
  b64_emit (push_bit 8 j + ucast (b :: byte)) 12 True out n =
    Inr (poke out n [b64 ! (unat j mod 16 * 4 + unat b div 64), b64 ! (unat b mod 64)], n + 2, 0)"
  by (simp add: emit_byte)

lemma emit_6_last: "n + 3 \<le> length out \<Longrightarrow>
  b64_emit (push_bit 8 j + ucast (b :: byte)) 14 True out n =
    Inr (poke out n [b64 ! (unat j mod 64), b64 ! (unat b div 4), b64 ! (unat b mod 4 * 16)], n + 3, -4)"
  by (simp add: emit_byte)

lemmas emits = emit_0 emit_2 emit_4 emit_6 emit_0_last emit_2_last emit_4_last emit_6_last

text \<open>The loop between two groups: the last sextet of the previous group is still pending.\<close>

lemma encode_pending:
  "xs \<noteq> [] \<Longrightarrow> n + 1 + length (sextets xs) \<le> length out \<Longrightarrow>
   b64_encode_loop xs j 6 out n =
     Inr (poke out n (map (\<lambda>s. b64 ! s) (unat j mod 64 # sextets xs)), n + 1 + length (sextets xs))"
proof (induction xs arbitrary: j out n rule: sextets.induct)
  case (4 a b c r)
  then show ?case
    by (cases "r = []") (simp_all add: emits pushed_mod poke_poke)
qed (simp_all add: emits pushed_mod poke_poke)

lemma encode_loop:
  assumes "length (sextets xs) \<le> length out"
  shows "b64_encode_loop xs j 0 out 0 = Inr (poke out 0 (map (\<lambda>s. b64 ! s) (sextets xs)), length (sextets xs))"
  using assms
proof (cases xs rule: sextets.cases)
  case (4 a b c r)
  then show ?thesis
    using assms by (cases "r = []") (simp_all add: emits pushed_mod poke_poke encode_pending)
qed (simp_all add: emits pushed_mod poke_poke)

lemma length_sextets: "length (sextets xs) + padding (length xs) = (length xs + 2) div 3 * 4"
proof (induction xs rule: sextets.induct)
  case (4 a b c r)
  have "padding (length (a # b # c # r)) = padding (length r)"
    by (simp add: padding_def)
  moreover have "(length (a # b # c # r) + 2) div 3 = Suc ((length r + 2) div 3)"
    by simp
  ultimately show ?case
    using 4 by simp
qed (simp_all add: padding_def)

lemma padding_le: "padding n \<le> 2"
  by (simp add: padding_def)

lemma pad_ok:
  assumes "(n + k) mod 4 = 0" and "k \<le> 3" and "n + k \<le> length out"
  shows "b64_pad out n = Inr (poke out n (replicate k (of_char CHR ''='')), n + k)"
  using assms
proof (induction k arbitrary: n out)
  case 0
  then show ?case by (simp add: b64_pad.simps)
next
  case (Suc k)
  have "n mod 4 \<noteq> 0"
    using Suc.prems(1,2) by presburger
  with Suc show ?case
    by (subst b64_pad.simps) (simp add: poke_simps)
qed

lemma base64_encode_spec:
  assumes "length xs < 1073741823" and "BASE64_SIZE (int (length xs)) \<le> out_size" and "out_size \<le> int (length out)"
  shows "base64_encode out out_size xs (int (length xs)) = Inr (True, poke out 0 (base64_text xs @ [0]))"
proof -
  let ?k = "padding (length xs)" and ?s = "map (\<lambda>s. b64 ! s) (sextets xs)"
  have len: "int (length (sextets xs) + ?k) + 1 = BASE64_SIZE (int (length xs))"
    by (simp only: length_sextets BASE64_SIZE_def) simp
  then have room: "length (sextets xs) + ?k + 1 \<le> length out"
    using assms(2,3) by linarith
  have "(length (sextets xs) + ?k) mod 4 = 0"
    by (simp only: length_sextets) simp
  then have "b64_pad (poke out 0 ?s) (length (sextets xs)) =
      Inr (poke out 0 (?s @ replicate ?k (of_char CHR ''='')), length (sextets xs) + ?k)"
    using room padding_le [of "length xs"] by (simp add: pad_ok poke_poke)
  then show ?thesis
    using assms room
    by (simp add: base64_encode_def read_mem_ok encode_loop base64_text_def poke_simps)
qed

section \<open>The decoder\<close>

definition b64_valid :: "byte \<Rightarrow> bool" where
  "b64_valid c \<longleftrightarrow> unat (b64_index c) < length map2_table \<and> map2_table ! unat (b64_index c) \<noteq> 0xff"

definition b64_value :: "byte \<Rightarrow> nat" where
  "b64_value c = unat (map2_table ! unat (b64_index c))"

definition b64_stop :: "byte \<Rightarrow> bool" where
  "b64_stop c \<longleftrightarrow> c = 0 \<or> c = of_char CHR ''=''"

definition b64_body :: "bytes \<Rightarrow> bytes" where
  "b64_body cs = takeWhile (\<lambda>c. \<not> b64_stop c) cs"

text \<open>The alphabet and the decoding table fit together.\<close>

lemma b64_list: "b64 = [65, 66, 67, 68, 69, 70, 71, 72, 73, 74, 75, 76, 77, 78, 79, 80, 81, 82, 83, 84, 85, 86, 87, 88, 89, 90, 97, 98, 99, 100, 101, 102, 103, 104, 105, 106, 107, 108, 109, 110, 111, 112, 113, 114, 115, 116, 117, 118, 119, 120, 121, 122, 48, 49, 50, 51, 52, 53, 54, 55, 56, 57, 45, 95]"
  by (simp add: b64_def)

lemma length_map2: "length map2_table = 80"
  by (simp add: map2_table_def)

lemma b64_table: "map (\<lambda>c. map2_table ! (unat c - 43)) b64 = map of_nat [0..<64]"
  by (simp add: b64_list map2_table_def upt_rec)

lemma b64_range: "list_all (\<lambda>c. 43 \<le> unat c \<and> unat c < 123 \<and> \<not> b64_stop c) b64"
  by (simp add: b64_list b64_stop_def)

lemma b64_index_ascii:
  assumes "43 \<le> unat c" and "unat c < 128"
  shows "unat (b64_index c) = unat c - 43"
proof -
  have "int (unat c) < 128"
    using assms(2) by linarith
  then have "uint c < 128"
    by (simp only: uint_nat)
  then have "signed_take_bit 7 (uint c) = uint c"
    using signed_take_bit_int_eq_self [of 7 "uint c"] unsigned_greater_eq [of c, where ?'a = int] by simp
  then have "sint c = int (unat c)"
    by (simp add: sint_uint)
  then have "b64_index c = of_nat (unat c - 43)"
    using assms(1) by (simp add: b64_index_def of_nat_diff)
  then show ?thesis
    using assms(2) by (simp add: unsigned_of_nat take_bit_nat_eq_self)
qed

lemma alphabet:
  assumes "n < 64"
  shows "b64_valid (b64 ! n)" "b64_value (b64 ! n) = n" "\<not> b64_stop (b64 ! n)"
proof -
  have len: "n < length b64"
    using assms by (simp add: b64_list)
  then have c: "43 \<le> unat (b64 ! n)" "unat (b64 ! n) < 123" "\<not> b64_stop (b64 ! n)"
    using b64_range by (auto simp: list_all_length)
  have "map (\<lambda>c. map2_table ! (unat c - 43)) b64 ! n = of_nat n"
    using assms by (simp add: b64_table)
  then have m: "map2_table ! (unat (b64 ! n) - 43) = of_nat n"
    using len by simp
  have i: "unat (b64_index (b64 ! n)) = unat (b64 ! n) - 43"
    using c by (intro b64_index_ascii) simp_all
  have n: "unat (of_nat n :: byte) = n"
    using assms by (simp add: unsigned_of_nat take_bit_nat_eq_self)
  have "(of_nat n :: byte) \<noteq> 0xff"
    using n assms by (auto dest: arg_cong [of _ _ unat])
  then show "b64_valid (b64 ! n)"
    using c by (simp add: b64_valid_def i m length_map2)
  show "b64_value (b64 ! n) = n"
    by (simp add: b64_value_def i m n)
  show "\<not> b64_stop (b64 ! n)"
    by (rule c)
qed
lemma decoded_byte:
  fixes v :: u32
  assumes "k \<le> 4"
  shows "unat (ucast (signed_drop_bit k v) :: byte) = unat v div 2 ^ k mod 256"
proof -
  have "unat (ucast (signed_drop_bit k v) :: byte) = take_bit 8 (drop_bit k (unat v))"
    using assms by (intro bit_eqI) (auto simp: bit_simps min_def)
  then show ?thesis
    by (simp add: take_bit_eq_mod drop_bit_eq_div)
qed

lemma unat_push6:
  fixes v :: u32 and b :: byte
  shows "unat (push_bit 6 v + ucast b) = (unat v * 64 + unat b) mod 2 ^ 32"
  by (simp add: unat_word_ariths unsigned_push_bit_eq push_bit_eq_mult take_bit_eq_mod unsigned_ucast_eq mod_simps)

lemma byte_window:
  assumes "k \<le> 4"
  shows "((n::nat) mod 2 ^ 32) div 2 ^ k mod 256 = n div 2 ^ k mod 256"
proof -
  have "take_bit 8 (drop_bit k (take_bit 32 n)) = take_bit 8 (drop_bit k n)"
    using assms by (intro bit_eqI) (auto simp: bit_simps)
  then show ?thesis
    by (simp add: take_bit_eq_mod drop_bit_eq_div)
qed

lemma mod_tail256: "(n * 256 + a) mod 256 = (a::nat) mod 256" "(n * 1024 + a) mod 256 = (a::nat) mod 256"
  "(n * 4096 + a) mod 256 = (a::nat) mod 256"
  by (simp_all add: mod_add_eq [symmetric] mod_mult_eq [symmetric])

lemma byte_of_two:
  fixes w :: u32
  assumes "k = 4 \<or> k = 2 \<or> k = 0"
  shows "unat (ucast (signed_drop_bit k (push_bit 6 (push_bit 6 w + ucast p) + ucast q)) :: byte) =
    (unat (p :: byte) * 64 + unat (q :: byte)) div 2 ^ k mod 256"
proof -
  let ?n = "unat w * 4096 + (unat p * 64 + unat q)"
  have k: "k \<le> 4"
    using assms by auto
  have "unat (push_bit 6 (push_bit 6 w + ucast p) + ucast q) = ((unat w * 64 + unat p) mod 2 ^ 32 * 64 + unat q) mod 2 ^ 32"
    by (simp only: unat_push6)
  also have "\<dots> = ((unat w * 64 + unat p) * 64 + unat q) mod 2 ^ 32"
    by (rule mod_add_cong) (simp_all add: mod_mult_left_eq)
  also have "(unat w * 64 + unat p) * 64 + unat q = ?n"
    by simp
  finally have "unat (ucast (signed_drop_bit k (push_bit 6 (push_bit 6 w + ucast p) + ucast q)) :: byte) = ?n div 2 ^ k mod 256"
    by (simp only: decoded_byte [OF k] byte_window [OF k])
  also have "?n div 2 ^ k = unat w * (4096 div 2 ^ k) + (unat p * 64 + unat q) div 2 ^ k"
    using assms div_split [of "2 ^ k" "unat w" "4096 div 2 ^ k" "unat p * 64 + unat q"] by auto
  also have "\<dots> mod 256 = (unat p * 64 + unat q) div 2 ^ k mod 256"
    using assms mod_tail256 by (elim disjE) simp_all
  finally show ?thesis .
qed

lemma unat_eqI: "unat x = unat y \<Longrightarrow> x = (y :: 'a::len word)"
  by (simp add: word_unat_eq_iff)

lemma decoded_first:
  assumes "unat p = unat a div 4" and "unat q = unat a mod 4 * 16 + e" and "e < 16"
  shows "(ucast (signed_drop_bit 4 (push_bit 6 (push_bit 6 (w::u32) + ucast (p::byte)) + ucast (q::byte))) :: byte) = a"
proof (rule unat_eqI)
  have "unat p * 64 + unat q = unat a * 16 + e"
    using div_mult_mod_eq [of "unat a" 4] assms by linarith
  then have "(unat p * 64 + unat q) div 16 = unat a"
    using assms(3) by simp
  then show "unat (ucast (signed_drop_bit 4 (push_bit 6 (push_bit 6 w + ucast p) + ucast q)) :: byte) = unat a"
    by (simp add: byte_of_two)
qed

lemma join_second: "p = d * 16 + x \<Longrightarrow> q = y * 4 + e \<Longrightarrow> x * 16 + y = b \<Longrightarrow> p * 64 + q = (d * 256 + b) * 4 + (e::nat)"
  by auto

lemma decoded_second:
  assumes "unat p = d * 16 + unat b div 16" and "unat q = unat b mod 16 * 4 + e" and "e < 4"
  shows "(ucast (signed_drop_bit 2 (push_bit 6 (push_bit 6 (w::u32) + ucast (p::byte)) + ucast (q::byte))) :: byte) = b"
proof (rule unat_eqI)
  have "unat p * 64 + unat q = (d * 256 + unat b) * 4 + e"
    by (rule join_second [OF assms(1,2) div_mult_mod_eq])
  then have "(unat p * 64 + unat q) div 4 = d * 256 + unat b"
    using assms(3) by simp
  then have "(unat p * 64 + unat q) div 4 mod 256 = unat b"
    by simp
  then show "unat (ucast (signed_drop_bit 2 (push_bit 6 (push_bit 6 w + ucast p) + ucast q)) :: byte) = unat b"
    by (simp add: byte_of_two)
qed

lemma decoded_third:
  assumes "unat p = d * 4 + unat c div 64" and "unat q = unat c mod 64"
  shows "(ucast (signed_drop_bit 0 (push_bit 6 (push_bit 6 (w::u32) + ucast (p::byte)) + ucast (q::byte))) :: byte) = c"
proof (rule unat_eqI)
  have "unat p * 64 + unat q = d * 256 + (unat c div 64 * 64 + unat c mod 64)"
    by (simp add: assms)
  then have "unat p * 64 + unat q = d * 256 + unat c"
    by (simp add: div_mult_mod_eq)
  then have "(unat p * 64 + unat q) mod 256 = unat c"
    by simp
  then show "unat (ucast (signed_drop_bit 0 (push_bit 6 (push_bit 6 w + ucast p) + ucast q)) :: byte) = unat c"
    using byte_of_two [of 0 w p q] by simp
qed

text \<open>One character of the alphabet.\<close>

definition sx :: "nat \<Rightarrow> byte" where
  "sx n = of_nat n"

lemma unat_sx: "n < 64 \<Longrightarrow> unat (sx n) = n"
  by (simp add: sx_def unsigned_of_nat take_bit_nat_eq_self)

lemma decode_char:
  assumes "n < 64"
  shows "b64_decode_loop ((b64 ! n) # cs) i v out dst sz =
    (let v = push_bit 6 v + ucast (sx n) in
     if i mod 4 \<noteq> 0 \<and> int dst < sz then
       bnd (write_byte out dst (ucast (signed_drop_bit (6 - 2 * (i mod 4)) v))) (\<lambda>out.
         b64_decode_loop cs (i + 1) v out (dst + 1) sz)
     else b64_decode_loop cs (i + 1) v out dst sz)"
proof -
  have "map2_table ! unat (b64_index (b64 ! n)) = sx n"
    using alphabet(2) [OF assms] unat_sx [OF assms] by (simp add: b64_value_def unat_eqI)
  then show ?thesis
    using alphabet(1,3) [OF assms] by (simp add: b64_decode_loop.simps(2) b64_valid_def b64_stop_def Let_def)
qed

lemma decode_end:
  "rest = [] \<or> b64_stop (hd rest) \<Longrightarrow> b64_decode_loop rest i v out dst sz = Inr (int dst, out)"
  by (cases rest) (auto simp: b64_stop_def b64_decode_loop.simps(2))

lemma mod4_steps:
  "i mod 4 = 0 \<Longrightarrow> 4 dvd i \<and> Suc i mod 4 = 1 \<and> Suc (Suc i) mod 4 = 2 \<and> Suc (Suc (Suc i)) mod 4 = 3 \<and>
   \<not> 4 dvd Suc i \<and> \<not> 4 dvd Suc (Suc i) \<and> \<not> 4 dvd Suc (Suc (Suc i)) \<and> Suc (Suc (Suc (Suc i))) mod (4::nat) = 0"
  by (auto simp: mod_Suc dvd_eq_mod_eq_0)

lemma sextet_bounds: "unat (a :: byte) div 4 < 64" "unat a mod 4 * 16 + unat (b :: byte) div 16 < 64"
  "unat b mod 16 * 4 + unat (c :: byte) div 64 < 64" "unat c mod 64 < 64"
  "unat a mod 4 * 16 < 64" "unat b mod 16 * 4 < 64"
proof -
  show "unat a div 4 < 64"
    using unat_byte [of a] by (simp add: less_mult_imp_div_less del: unat_byte)
  show "unat c mod 64 < 64" "unat a mod 4 * 16 < 64" "unat b mod 16 * 4 < 64"
    by simp_all
  have "unat a mod 4 < 4" "unat b div 16 < 16" "unat b mod 16 < 16" "unat c div 64 < 4"
    using unat_byte [of b] unat_byte [of c] by (simp_all add: less_mult_imp_div_less del: unat_byte)
  then show "unat a mod 4 * 16 + unat b div 16 < 64" "unat b mod 16 * 4 + unat c div 64 < 64"
    by linarith+
qed

lemma decode_sextets:
  assumes "rest = [] \<or> b64_stop (hd rest)" and "dst + length xs \<le> sz" and "sz \<le> length out" and "i mod 4 = 0"
  shows "b64_decode_loop (map (\<lambda>s. b64 ! s) (sextets xs) @ rest) i v out dst (int sz) =
    Inr (int (dst + length xs), poke out dst xs)"
  using assms(2-4)
proof (induction xs arbitrary: i v out dst rule: sextets.induct)
  case 1
  then show ?case
    using assms(1) by (simp add: decode_end)
next
  case (2 a)
  let ?b = "\<lambda>w. (ucast (signed_drop_bit 4 (push_bit 6 (push_bit 6 (w::u32) + ucast (sx (unat a div 4))) +
    ucast (sx (unat a mod 4 * 16)))) :: byte)"
  have "?b w = a" for w
    by (rule decoded_first [where e = 0]) (simp_all add: unat_sx sextet_bounds)
  with 2 mod4_steps [of i] assms(1) show ?case
    by (simp add: decode_char sextet_bounds decode_end write_byte_poke)
next
  case (3 a b)
  let ?s = "sx (unat a mod 4 * 16 + unat b div 16)"
  have "(ucast (signed_drop_bit 4 (push_bit 6 (push_bit 6 (w::u32) + ucast (sx (unat a div 4))) + ucast ?s)) :: byte) = a" for w
    by (rule decoded_first [where e = "unat b div 16"]) (simp_all add: unat_sx sextet_bounds less_mult_imp_div_less)
  moreover have "(ucast (signed_drop_bit 2 (push_bit 6 (push_bit 6 (w::u32) + ucast ?s) + ucast (sx (unat b mod 16 * 4)))) :: byte) = b" for w
    by (rule decoded_second [where e = 0]) (simp_all add: unat_sx sextet_bounds)
  ultimately show ?case
    using 3 mod4_steps [of i] assms(1)
    by (simp add: decode_char sextet_bounds decode_end poke_simps)
next
  case (4 a b c r)
  let ?s = "sx (unat a mod 4 * 16 + unat b div 16)" and ?t = "sx (unat b mod 16 * 4 + unat c div 64)"
  have "(ucast (signed_drop_bit 4 (push_bit 6 (push_bit 6 (w::u32) + ucast (sx (unat a div 4))) + ucast ?s)) :: byte) = a" for w
    by (rule decoded_first [where e = "unat b div 16"]) (simp_all add: unat_sx sextet_bounds less_mult_imp_div_less)
  moreover have "(ucast (signed_drop_bit 2 (push_bit 6 (push_bit 6 (w::u32) + ucast ?s) + ucast ?t)) :: byte) = b" for w
    by (rule decoded_second [where e = "unat c div 64"]) (simp_all add: unat_sx sextet_bounds less_mult_imp_div_less)
  moreover have "(ucast (signed_drop_bit 0 (push_bit 6 (push_bit 6 (w::u32) + ucast ?t) + ucast (sx (unat c mod 64)))) :: byte) = c" for w
    by (rule decoded_third) (simp_all add: unat_sx sextet_bounds)
  ultimately show ?case
    using 4 mod4_steps [of i] assms(1)
    by (simp add: decode_char sextet_bounds decode_end poke_simps)
qed

text \<open>Any input: the number of bytes \<open>m\<close> characters give from position \<open>i\<close> on.\<close>

fun decoded_from :: "nat \<Rightarrow> nat \<Rightarrow> nat" where
  "decoded_from i 0 = 0"
| "decoded_from i (Suc m) = (if i mod 4 \<noteq> 0 then 1 else 0) + decoded_from (Suc i) m"

lemma decoded_from_closed: "decoded_from i m + (i + m + 3) div 4 = m + (i + 3) div 4"
proof (induction m arbitrary: i)
  case (Suc m)
  have "Suc (i + 3) = i + 4"
    by simp
  then have "Suc (i + 3) mod 4 = i mod 4"
    by (simp only: mod_add_self2)
  then have "(Suc i + 3) div 4 = (i + 3) div 4 + (if i mod 4 = 0 then 1 else 0)"
    by (simp only: div_Suc add_Suc) simp
  with Suc [of "Suc i"] show ?case
    by (auto split: if_splits)
qed simp

definition decode_result :: "bytes \<Rightarrow> nat \<Rightarrow> nat \<Rightarrow> nat \<Rightarrow> int" where
  "decode_result cs i dst sz =
     (if list_all b64_valid (b64_body cs) then int (min sz (dst + decoded_from i (length (b64_body cs)))) else -1)"

lemma decode_total:
  assumes "dst \<le> sz" and "sz \<le> length out"
  shows "\<exists>out'. b64_decode_loop cs i v out dst (int sz) = Inr (decode_result cs i dst sz, out') \<and>
    length out' = length out \<and> drop sz out' = drop sz out"
  using assms
proof (induction cs arbitrary: i v out dst)
  case Nil
  then show ?case
    by (simp add: decode_result_def b64_body_def)
next
  case (Cons c cs)
  let ?v = "push_bit 6 v + ucast (map2_table ! unat (b64_index c))"
  let ?b = "ucast (signed_drop_bit (6 - 2 * (i mod 4)) ?v) :: byte"
  show ?case
  proof (cases "b64_stop c \<or> \<not> b64_valid c")
    case True
    then show ?thesis
      using Cons.prems
      by (auto simp: b64_decode_loop.simps(2) b64_stop_def b64_valid_def decode_result_def b64_body_def Let_def)
  next
    case False
    then have body: "b64_body (c # cs) = c # b64_body cs" and c: "b64_valid c"
      by (simp_all add: b64_body_def)
    show ?thesis
    proof (cases "i mod 4 \<noteq> 0 \<and> dst < sz")
      case True
      have step: "b64_decode_loop (c # cs) i v out dst (int sz) =
          b64_decode_loop cs (Suc i) ?v (out[dst := ?b]) (Suc dst) (int sz)"
        using False True Cons.prems
        by (simp add: b64_decode_loop.simps(2) b64_stop_def b64_valid_def Let_def mem_simps)
      show ?thesis
        unfolding step using Cons.IH [of "Suc dst" "out[dst := ?b]" "Suc i" ?v] True Cons.prems c
        by (auto simp: decode_result_def body)
    next
      case skip: False
      have step: "b64_decode_loop (c # cs) i v out dst (int sz) = b64_decode_loop cs (Suc i) ?v out dst (int sz)"
        using False skip by (auto simp: b64_decode_loop.simps(2) b64_stop_def b64_valid_def Let_def)
      show ?thesis
        unfolding step using Cons.IH [of dst out "Suc i" ?v] skip Cons.prems c
        by (auto simp: decode_result_def body)
    qed
  qed
qed

section \<open>Properties\<close>

text \<open>C26: The encoder's accumulator loop computes the RFC 4648 encoding in the URL-safe alphabet: given an
  output buffer of at least \<^verbatim>\<open>BASE64_SIZE(in_size)\<close> bytes it writes the text with its padding and a
  terminating zero at the front of the buffer, and nothing else.\<close>

theorem base64_encode_is_rfc4648:
  assumes "length xs < 1073741823" and "BASE64_SIZE (int (length xs)) \<le> out_size" and "out_size \<le> int (length out)"
  shows "base64_encode out out_size xs (int (length xs)) =
    Inr (True, base64_text xs @ [0] @ drop (length (base64_text xs) + 1) out)"
  using base64_encode_spec [OF assms] by (simp add: poke_def)

text \<open>C25: Decoding what the encoder wrote gives the bytes back, their number as the result, and leaves the rest
  of the output buffer alone.\<close>

theorem base64_roundtrip:
  assumes "length xs < 1073741823" and "BASE64_SIZE (int (length xs)) \<le> out_size" and "out_size \<le> int (length out)"
    and "length xs \<le> sz" and "sz \<le> length res"
  shows "\<exists>text. base64_encode out out_size xs (int (length xs)) = Inr (True, text) \<and>
    base64_decode res text (int sz) = Inr (int (length xs), xs @ drop (length xs) res)"
proof -
  let ?rest = "replicate (padding (length xs)) (of_char CHR ''='') @ 0 # drop (length (base64_text xs) + 1) out"
  have "?rest = [] \<or> b64_stop (hd ?rest)"
    by (cases "padding (length xs)") (simp_all add: b64_stop_def)
  from decode_sextets [OF this, of 0 xs sz res 0 0] assms(4,5)
  have "base64_decode res (poke out 0 (base64_text xs @ [0])) (int sz) = Inr (int (length xs), poke res 0 xs)"
    by (simp add: base64_decode_def poke_def base64_text_def)
  with base64_encode_spec [OF assms(1-3)] show ?thesis
    by (simp add: poke_def)
qed

text \<open>C27: The decoder on any string and any output buffer at least as large as the size it is told: it stays
  in bounds, does not touch the buffer beyond that size, returns -1 exactly when a character outside the
  alphabet occurs before the end of the string or the first padding character, and otherwise returns the
  number of whole bytes that the characters carry, capped at the buffer size.\<close>

theorem base64_decode_total:
  assumes "sz \<le> length out"
  shows "\<exists>out'. base64_decode out inp (int sz) =
      Inr (if list_all b64_valid (b64_body inp)
           then int (min sz (length (b64_body inp) - (length (b64_body inp) + 3) div 4)) else -1, out') \<and>
    length out' = length out \<and> drop sz out' = drop sz out"
proof -
  have "decoded_from 0 m = m - (m + 3) div 4" for m
    using decoded_from_closed [of 0 m] by simp
  then show ?thesis
    using decode_total [of 0 sz out inp 0 0] assms
    by (cases "list_all b64_valid (b64_body inp)") (simp_all add: base64_decode_def decode_result_def)
qed

end
