(* ===== verification/SS_Crypto.thy ===== *)
theory SS_Crypto
  imports SS_StreamSession SS_AeadSession SS_Base64
begin

text \<open>
  Keys and the cipher interface: \<^verbatim>\<open>crypto_parse_key\<close> and \<^verbatim>\<open>crypto_init\<close> of \<^verbatim>\<open>src/crypto.c\<close>, \<^verbatim>\<open>aead_key_init\<close> and
  \<^verbatim>\<open>aead_init\<close> of \<^verbatim>\<open>src/aead.c\<close>, \<^verbatim>\<open>stream_key_init\<close> and \<^verbatim>\<open>stream_init\<close> of \<^verbatim>\<open>src/stream.c\<close>, and the wrapper
  \<^verbatim>\<open>CipherEnv\<close>. The function pointers of \<^verbatim>\<open>crypto_t\<close> are the functions themselves. A password or key is the list
  of its characters, a null pointer is \<open>None\<close>. \<^verbatim>\<open>entropy_check\<close> only logs and is left out.
\<close>

section \<open>Keys\<close>

text \<open>A variable-length array of a negative number of bytes is undefined; the buffer sizes are \<^verbatim>\<open>int\<close>.\<close>

definition vla :: "heap \<Rightarrow> int \<Rightarrow> bytes res" where
  "vla h n = (if n \<le> 0 then Inl UB else Inr (fresh h (nat n)))"

definition crypto_parse_key ::
  "crypto_lib \<Rightarrow> world \<Rightarrow> bytes \<Rightarrow> bytes \<Rightarrow> nat \<Rightarrow> (int \<times> bytes \<times> world) res" where
  "crypto_parse_key L w base64 key key_len =
     (let out_len = int_of_size (nat (BASE64_SIZE (int (length base64)))) in
      bnd (vla (lib_heap L) out_len) (\<lambda>out.
      bnd (base64_decode out base64 out_len) (\<lambda>(out_len, out).
      if out_len > 0 \<and> out_len \<ge> int key_len then
        bnd (memcpy key 0 out 0 key_len) (\<lambda>key. Inr (int_of_size key_len, key, w))
      else
        let out_len = int_of_size (nat (BASE64_SIZE (int key_len))) in
        bnd (vla (lib_heap L) out_len) (\<lambda>out_key.
        bnd (rand_bytes L w key key_len) (\<lambda>(key, w).
        bnd (base64_encode out_key out_len key (int_of_size key_len)) (\<lambda>_.
          Inl (FATAL ''Please use the key above or input a valid key'')))))))"

text \<open>\<^verbatim>\<open>sizeof(cipher_t)\<close> on the 64-bit platform, and a structure after \<^verbatim>\<open>memset\<close>.\<close>

abbreviation (input) SIZEOF_CIPHER :: nat where "SIZEOF_CIPHER \<equiv> 104"
abbreviation (input) SIZEOF_CRYPTO :: nat where "SIZEOF_CRYPTO \<equiv> 56"

definition zero_cipher :: cipher_t where
  "zero_cipher = \<lparr>ci_method = 0, ci_skey = 0, ci_info = None, ci_nonce_len = 0, ci_key_len = 0, ci_tag_len = 0,
     ci_key = replicate MAX_KEY_LENGTH 0\<rparr>"

text \<open>The key of a cipher, from the key option or from the password.\<close>

definition make_key ::
  "crypto_lib \<Rightarrow> world \<Rightarrow> bytes option \<Rightarrow> bytes option \<Rightarrow> bytes \<Rightarrow> nat \<Rightarrow> (int \<times> bytes \<times> world) res" where
  "make_key L w pass key k key_len =
     (case key of Some s \<Rightarrow> crypto_parse_key L w s k key_len
      | None \<Rightarrow> bnd (crypto_derive_key L pass k key_len) (\<lambda>(n, k). Inr (n, k, w)))"

definition sodium_info :: "nat \<Rightarrow> nat \<Rightarrow> cipher_kt" where
  "sodium_info key_size nonce_size = \<lparr>kt_base = None, kt_key_bitlen = key_size * 8, kt_iv_size = nonce_size\<rparr>"

definition aead_key_init ::
  "crypto_lib \<Rightarrow> world \<Rightarrow> int \<Rightarrow> bytes option \<Rightarrow> bytes option \<Rightarrow> (cipher_t option \<times> world) res" where
  "aead_key_init L w method pass key =
     (if method < AES128GCM \<or> method \<ge> AEAD_CIPHER_NUM then Inr (None, w)
      else
        bnd (ss_malloc (lib_heap L) SIZEOF_CIPHER) (\<lambda>_.
        let key_size = supported_aead_ciphers_key_size ! nat method;
            nonce_size = supported_aead_ciphers_nonce_size ! nat method
        in
        bnd (if method \<ge> CHACHA20POLY1305IETF then
               bnd (ss_malloc (lib_heap L) (sizeof_cipher_info L)) (\<lambda>_. Inr (Some (sodium_info key_size nonce_size)))
             else Inr (aead_get_cipher_type L method)) (\<lambda>info.
        if info = None then Inl (FATAL ''Cannot initialize cipher'')
        else
          bnd (make_key L w pass key (ci_key zero_cipher) key_size) (\<lambda>(n, k, w).
          if n = 0 then Inl (FATAL ''Cannot generate key and nonce'')
          else
            Inr (Some (zero_cipher\<lparr>ci_info := info, ci_key := k, ci_key_len := nat n, ci_nonce_len := nonce_size,
                   ci_tag_len := supported_aead_ciphers_tag_size ! nat method, ci_method := method\<rparr>), w)))))"

definition stream_key_init ::
  "crypto_lib \<Rightarrow> world \<Rightarrow> int \<Rightarrow> bytes option \<Rightarrow> bytes option \<Rightarrow> (cipher_t option \<times> world) res" where
  "stream_key_init L w method pass key =
     (if method \<le> TABLE \<or> method \<ge> STREAM_CIPHER_NUM then Inr (None, w)
      else
        bnd (ss_malloc (lib_heap L) SIZEOF_CIPHER) (\<lambda>_.
        bnd (if method = SALSA20 \<or> method = CHACHA20 \<or> method = CHACHA20IETF then
               bnd (ss_malloc (lib_heap L) (sizeof_cipher_info L)) (\<lambda>_.
                 Inr (Some (sodium_info (supported_stream_ciphers_key_size ! nat method)
                   (supported_stream_ciphers_nonce_size ! nat method))))
             else Inr (stream_get_cipher_type L method)) (\<lambda>info.
        if info = None then Inl (FATAL ''Cannot initialize cipher'')
        else
          let cipher = zero_cipher\<lparr>ci_info := info\<rparr> in
          bnd (cipher_key_size (Some cipher)) (\<lambda>key_size.
          bnd (make_key L w pass key (ci_key cipher) key_size) (\<lambda>(n, k, w).
          if n = 0 then Inl (FATAL ''Cannot generate key and NONCE'')
          else
            bnd (if method = RC4_MD5 then Inr 16 else cipher_nonce_size (Some cipher)) (\<lambda>nonce_len.
              Inr (Some (cipher\<lparr>ci_key := k, ci_key_len := nat n, ci_nonce_len := nonce_len, ci_method := method\<rparr>), w)))))))"

section \<open>Method names\<close>

text \<open>The search loops: the first index with the name, or the end of the table.\<close>

fun method_index :: "string \<Rightarrow> string list \<Rightarrow> int" where
  "method_index s [] = 0"
| "method_index s (n # ns) = (if s = n then 0 else 1 + method_index s ns)"

definition aead_init ::
  "crypto_lib \<Rightarrow> world \<Rightarrow> bytes option \<Rightarrow> bytes option \<Rightarrow> string option \<Rightarrow> (cipher_t option \<times> world) res" where
  "aead_init L w pass key method =
     (let m = (case method of None \<Rightarrow> AES128GCM
               | Some s \<Rightarrow>
                 let m = method_index s supported_aead_ciphers in
                 if m \<ge> AEAD_CIPHER_NUM then CHACHA20POLY1305IETF else m)
      in aead_key_init L w m pass key)"

definition stream_init ::
  "crypto_lib \<Rightarrow> world \<Rightarrow> bytes option \<Rightarrow> bytes option \<Rightarrow> string option \<Rightarrow> (cipher_t option \<times> world) res" where
  "stream_init L w pass key method =
     (let m = (case method of None \<Rightarrow> TABLE
               | Some s \<Rightarrow>
                 let m = method_index s supported_stream_ciphers in
                 if m \<ge> STREAM_CIPHER_NUM then CHACHA20IETF else m)
      in if m = TABLE then Inr (None, w) else stream_key_init L w m pass key)"

section \<open>The cipher interface\<close>

record crypto_t =
  cr_cipher :: cipher_t
  cr_encrypt_all :: "crypto_lib \<Rightarrow> world \<Rightarrow> buffer_t \<Rightarrow> cipher_t \<Rightarrow> nat \<Rightarrow> (int \<times> buffer_t \<times> world) res"
  cr_decrypt_all :: "crypto_lib \<Rightarrow> world \<Rightarrow> buffer_t \<Rightarrow> cipher_t \<Rightarrow> nat \<Rightarrow> (int \<times> buffer_t \<times> world) res"
  cr_encrypt :: "crypto_lib \<Rightarrow> world \<Rightarrow> buffer_t \<Rightarrow> cipher_ctx_t option \<Rightarrow> nat \<Rightarrow>
    (int \<times> buffer_t \<times> cipher_ctx_t option \<times> world) res"
  cr_decrypt :: "crypto_lib \<Rightarrow> world \<Rightarrow> buffer_t \<Rightarrow> cipher_ctx_t option \<Rightarrow> nat \<Rightarrow>
    (int \<times> buffer_t \<times> cipher_ctx_t option \<times> world) res"
  cr_ctx_init :: "crypto_lib \<Rightarrow> world \<Rightarrow> cipher_t \<Rightarrow> int \<Rightarrow> (cipher_ctx_t \<times> world) res"
  cr_ctx_release :: "cipher_ctx_t \<Rightarrow> cipher_ctx_t"

text \<open>\<^verbatim>\<open>aead_decrypt\<close> dereferences its context without a check.\<close>

definition aead_decrypt_ptr ::
  "crypto_lib \<Rightarrow> world \<Rightarrow> buffer_t \<Rightarrow> cipher_ctx_t option \<Rightarrow> nat \<Rightarrow> (int \<times> buffer_t \<times> cipher_ctx_t option \<times> world) res" where
  "aead_decrypt_ptr L w b ctx cap =
     (case ctx of None \<Rightarrow> Inl UB
      | Some ctx \<Rightarrow> bnd (aead_decrypt L w b ctx cap) (\<lambda>(e, b, ctx, w). Inr (e, b, Some ctx, w)))"

definition stream_crypto :: "cipher_t \<Rightarrow> crypto_t" where
  "stream_crypto c = \<lparr>cr_cipher = c, cr_encrypt_all = stream_encrypt_all, cr_decrypt_all = stream_decrypt_all,
     cr_encrypt = stream_encrypt, cr_decrypt = stream_decrypt, cr_ctx_init = stream_ctx_init,
     cr_ctx_release = stream_ctx_release\<rparr>"

definition aead_crypto :: "cipher_t \<Rightarrow> crypto_t" where
  "aead_crypto c = \<lparr>cr_cipher = c, cr_encrypt_all = aead_encrypt_all, cr_decrypt_all = aead_decrypt_all,
     cr_encrypt = aead_encrypt, cr_decrypt = aead_decrypt_ptr, cr_ctx_init = aead_ctx_init,
     cr_ctx_release = aead_ctx_release\<rparr>"

abbreviation (input) BF_NUM_ENTRIES_FOR_CLIENT :: int where "BF_NUM_ENTRIES_FOR_CLIENT \<equiv> 10000"
abbreviation (input) BF_ERROR_RATE_FOR_CLIENT :: real where "BF_ERROR_RATE_FOR_CLIENT \<equiv> 1 / 10 ^ 15"

definition crypto_init ::
  "crypto_lib \<Rightarrow> libm \<Rightarrow> world \<Rightarrow> bytes option \<Rightarrow> bytes option \<Rightarrow> string option \<Rightarrow> (crypto_t option \<times> world) res" where
  "crypto_init L lm w password key method =
     (if sodium_init L = -1 then Inl (FATAL ''Failed to initialize sodium'')
      else
        bnd (ppbloom_init (lib_heap L) lm (w_pp w) BF_NUM_ENTRIES_FOR_CLIENT BF_ERROR_RATE_FOR_CLIENT) (\<lambda>(_, pp).
        let w = w\<lparr>w_pp := pp\<rparr> in
        case method of None \<Rightarrow> Inr (None, w)
        | Some s \<Rightarrow>
          if method_index s supported_stream_ciphers < STREAM_CIPHER_NUM then
            bnd (stream_init L w password key method) (\<lambda>(cipher, w).
            case cipher of None \<Rightarrow> Inr (None, w)
            | Some c \<Rightarrow> bnd (ss_malloc (lib_heap L) SIZEOF_CRYPTO) (\<lambda>_. Inr (Some (stream_crypto c), w)))
          else if method_index s supported_aead_ciphers < AEAD_CIPHER_NUM then
            bnd (aead_init L w password key method) (\<lambda>(cipher, w).
            case cipher of None \<Rightarrow> Inr (None, w)
            | Some c \<Rightarrow> bnd (ss_malloc (lib_heap L) SIZEOF_CRYPTO) (\<lambda>_. Inr (Some (aead_crypto c), w)))
          else Inr (None, w)))"

record CipherEnv =
  ce_crypto :: "crypto_t option"

definition new_CipherEnv ::
  "crypto_lib \<Rightarrow> libm \<Rightarrow> world \<Rightarrow> bytes option \<Rightarrow> string option \<Rightarrow> bytes option \<Rightarrow> (CipherEnv \<times> world) res" where
  "new_CipherEnv L lm w passwd method key =
     bnd (crypto_init L lm w passwd key method) (\<lambda>(c, w). Inr (\<lparr>ce_crypto = c\<rparr>, w))"

section \<open>Tables of names\<close>

lemma method_index_nth: "distinct ns \<Longrightarrow> i < length ns \<Longrightarrow> method_index (ns ! i) ns = int i"
proof (induction ns arbitrary: i)
  case (Cons n ns)
  then show ?case
    by (cases i) auto
qed simp

lemma method_index_absent: "s \<notin> set ns \<Longrightarrow> method_index s ns = int (length ns)"
  by (induction ns) auto

lemma stream_names: "distinct supported_stream_ciphers" "length supported_stream_ciphers = 21"
  by (simp_all add: supported_stream_ciphers_def)

lemma aead_names: "distinct supported_aead_ciphers" "length supported_aead_ciphers = 5"
  "set supported_aead_ciphers \<inter> set supported_stream_ciphers = {}"
  by (simp_all add: supported_aead_ciphers_def supported_stream_ciphers_def)

lemma stream_name_index [simp]: "i < 21 \<Longrightarrow> method_index (supported_stream_ciphers ! i) supported_stream_ciphers = int i"
  by (simp add: method_index_nth stream_names)

lemma aead_name_index [simp]:
  assumes "i < 5"
  shows "method_index (supported_aead_ciphers ! i) supported_aead_ciphers = int i"
    "method_index (supported_aead_ciphers ! i) supported_stream_ciphers = 21"
proof -
  have "supported_aead_ciphers ! i \<in> set supported_aead_ciphers"
    using assms by (intro nth_mem) (simp add: aead_names)
  then have "supported_aead_ciphers ! i \<notin> set supported_stream_ciphers"
    using aead_names(3) by blast
  then show "method_index (supported_aead_ciphers ! i) supported_stream_ciphers = 21"
    by (simp add: method_index_absent stream_names)
qed (use assms in \<open>simp add: method_index_nth aead_names\<close>)

section \<open>Keys from passwords\<close>

text \<open>The digest the libraries provide under the name MD5, and the key it gives for a password.\<close>

definition md5_law :: "crypto_lib \<Rightarrow> (bytes \<Rightarrow> bytes) \<Rightarrow> bool" where
  "md5_law L D \<longleftrightarrow> (\<exists>md. mbedtls_md_info_from_string L ''MD5'' = Some md \<and> md_incremental L md D)"

definition password_key :: "(bytes \<Rightarrow> bytes) \<Rightarrow> bytes \<Rightarrow> nat \<Rightarrow> bytes" where
  "password_key D pass n = take n (bytes_to_key D pass [] n)"

lemma make_key_password:
  assumes "md5_law L D" and "n \<le> 32"
  shows "make_key L w (Some pass) None (ci_key zero_cipher) n = Inr (int n, password_key D pass n @ replicate (64 - n) 0, w)"
proof -
  obtain md where md: "mbedtls_md_info_from_string L ''MD5'' = Some md" "md_incremental L md D"
    using assms(1) by (auto simp: md5_law_def)
  have "n < 2 ^ 31"
    using assms(2) by simp
  then show ?thesis
    using crypto_derive_key_spec [OF md(2,1), of n "ci_key zero_cipher" pass] assms(2)
    by (simp add: make_key_def zero_cipher_def password_key_def int_of_size_small)
qed

lemma length_password_key:
  assumes "md5_law L D"
  shows "length (password_key D pass n) = n"
proof -
  obtain m where m: "\<And>d. length (D d) = m" "0 < m"
    using assms by (auto simp: md5_law_def md_incremental_def)
  have "length (bytes_to_key D pass [] n) = n * m"
    by (rule length_bytes_to_key) (rule m(1))
  then show ?thesis
    using m(2) by (simp add: password_key_def)
qed

section \<open>Ciphers from passwords\<close>

text \<open>The cipher that \<^verbatim>\<open>aead_key_init\<close> and \<^verbatim>\<open>stream_key_init\<close> make from a key of \<open>n\<close> bytes.\<close>

definition cipher_of :: "int \<Rightarrow> cipher_kt option \<Rightarrow> bytes \<Rightarrow> nat \<Rightarrow> nat \<Rightarrow> cipher_t" where
  "cipher_of method info k nonce_len tag_len = \<lparr>ci_method = method, ci_skey = 0, ci_info = info, ci_nonce_len = nonce_len,
     ci_key_len = length k, ci_tag_len = tag_len, ci_key = k @ replicate (64 - length k) 0\<rparr>"

definition aead_info :: "crypto_lib \<Rightarrow> int \<Rightarrow> cipher_kt option" where
  "aead_info L method =
     (if method < CHACHA20POLY1305IETF then aead_get_cipher_type L method
      else Some (sodium_info (supported_aead_ciphers_key_size ! nat method) (supported_aead_ciphers_nonce_size ! nat method)))"

definition aead_password_cipher :: "crypto_lib \<Rightarrow> (bytes \<Rightarrow> bytes) \<Rightarrow> bytes \<Rightarrow> nat \<Rightarrow> cipher_t" where
  "aead_password_cipher L D pass i =
     cipher_of (int i) (aead_info L (int i)) (password_key D pass (supported_aead_ciphers_key_size ! i))
       (supported_aead_ciphers_nonce_size ! i) (supported_aead_ciphers_tag_size ! i)"

lemma aead_key_sizes: "i < 5 \<Longrightarrow> supported_aead_ciphers_key_size ! i \<le> 32 \<and> 0 < supported_aead_ciphers_key_size ! i"
  by (auto simp: supported_aead_ciphers_key_size_def nth_Cons split: nat.splits)

lemma wf_aead_password_cipher:
  assumes "md5_law L D" and "i < 5"
  shows "wf_cipher (aead_password_cipher L D pass i)"
  using assms aead_key_sizes [OF assms(2)]
  by (simp add: wf_cipher_def aead_password_cipher_def cipher_of_def length_password_key)

lemma aead_info_found:
  assumes "aead_laws L S" and "i < 5"
  shows "aead_info L (int i) \<noteq> None"
proof -
  have "i = 0 \<or> i = 1 \<or> i = 2 \<or> 3 \<le> i"
    by linarith
  then show ?thesis
    using assms(1) by (auto simp: aead_info_def aead_laws_def mbedtls_gcm_ok_def)
qed

lemma aead_key_init_password:
  assumes "lib_laws L HM S" and "md5_law L D" and "i < 5"
  shows "aead_key_init L w (int i) (Some pass) None = Inr (Some (aead_password_cipher L D pass i), w)"
proof -
  let ?n = "supported_aead_ciphers_key_size ! i"
  have h: "heap_ok (lib_heap L)" and A: "aead_laws L S"
    using assms(1) by (simp_all add: lib_laws_def lib_sizes_ok_def)
  have n: "?n \<le> 32" "0 < ?n"
    using aead_key_sizes [OF assms(3)] by simp_all
  note found = aead_info_found [OF A assms(3)]
  have "bnd (if int i \<ge> CHACHA20POLY1305IETF then
      bnd (ss_malloc (lib_heap L) (sizeof_cipher_info L)) (\<lambda>_. Inr (Some (sodium_info ?n (supported_aead_ciphers_nonce_size ! i))))
      else Inr (aead_get_cipher_type L (int i))) f = f (aead_info L (int i))" for f :: "cipher_kt option \<Rightarrow> (cipher_t option \<times> world) res"
    using h by (simp add: aead_info_def ss_malloc_def)
  then show ?thesis
    using h found n assms(3) make_key_password [OF assms(2) n(1), of w pass] length_password_key [OF assms(2)]
    by (simp add: aead_key_init_def ss_malloc_def Let_def aead_password_cipher_def cipher_of_def) (simp add: zero_cipher_def)
qed

lemma crypto_init_aead_password:
  assumes "lib_laws L HM S" and "md5_law L D" and "i < 5" and "sodium_init L \<noteq> -1"
    and "ppbloom_init (lib_heap L) lm (w_pp w) 10000 (1 / 10 ^ 15) = Inr (r, pp)"
  shows "crypto_init L lm w (Some pass) None (Some (supported_aead_ciphers ! i)) =
    Inr (Some (aead_crypto (aead_password_cipher L D pass i)), w\<lparr>w_pp := pp\<rparr>)"
proof -
  have "heap_ok (lib_heap L)"
    using assms(1) by (simp add: lib_laws_def lib_sizes_ok_def)
  then show ?thesis
    using assms(3-5) aead_key_init_password [OF assms(1-3)]
    by (simp add: crypto_init_def aead_init_def ss_malloc_def Let_def)
qed

end
