(* ===== verification/SS_Filter.thy ===== *)
theory SS_Filter
  imports SS_PPBloom
begin

text \<open>
  The replay filter of the client: \<^verbatim>\<open>ppbloom_init\<close> with the parameters of \<^verbatim>\<open>crypto_init\<close> (10000 entries, error rate
  \<^verbatim>\<open>1e-15\<close>). The sizes come out of floating-point arithmetic; with any arithmetic that is right to one part in a
  hundred, for results between \<open>1 / 10 ^ 30\<close> and \<open>10 ^ 30\<close> in absolute value, they stay far inside \<^verbatim>\<open>int\<close>, and the filter is well formed and empty.
\<close>

section \<open>The filter of the client\<close>

text \<open>A floating-point unit and a logarithm with a relative error of at most one hundredth, far more than
  IEEE doubles and any C library have, in a range far inside that of the normal doubles.\<close>

definition in_range :: "real \<Rightarrow> bool" where
  "in_range x \<longleftrightarrow> 1 / 10 ^ 30 \<le> \<bar>x\<bar> \<and> \<bar>x\<bar> \<le> 10 ^ 30"

definition libm_ok :: "libm \<Rightarrow> bool" where
  "libm_ok lm \<longleftrightarrow> (\<forall>x. in_range x \<longrightarrow> \<bar>fl lm x - x\<bar> \<le> \<bar>x\<bar> / 100) \<and>
     (\<forall>x>0. in_range x \<longrightarrow> in_range (ln x) \<longrightarrow> \<bar>log_d lm x - ln x\<bar> \<le> \<bar>ln x\<bar> / 100)"

lemma fl_bounds:
  assumes "libm_ok lm" and "1 / 10 ^ 30 \<le> a" and "a \<le> x" and "x \<le> b" and "b \<le> 10 ^ 30"
  shows "99 / 100 * a \<le> fl lm x" "fl lm x \<le> 101 / 100 * b"
proof -
  have x: "0 \<le> x" "in_range x"
    using assms(2-5) by (auto simp: in_range_def intro: order_trans [of 0 "1 / 10 ^ 30"])
  then have "\<bar>fl lm x - x\<bar> \<le> x / 100"
    using assms(1) unfolding libm_ok_def by (metis abs_of_nonneg)
  then have "fl lm x - x \<le> x / 100" "x - fl lm x \<le> x / 100"
    by (simp_all only: abs_le_iff minus_diff_eq)
  then show "99 / 100 * a \<le> fl lm x" "fl lm x \<le> 101 / 100 * b"
    using assms(2-4) by linarith+
qed

lemma fl_bounds_neg:
  assumes "libm_ok lm" and "1 / 10 ^ 30 \<le> a" and "a \<le> - x" and "- x \<le> b" and "b \<le> 10 ^ 30"
  shows "99 / 100 * a \<le> - fl lm x" "- fl lm x \<le> 101 / 100 * b"
proof -
  have x: "0 \<le> - x" "in_range x"
    using assms(2-5) by (auto simp: in_range_def intro: order_trans [of 0 "1 / 10 ^ 30"])
  then have "\<bar>x\<bar> = - x"
    by simp
  then have "\<bar>fl lm x - x\<bar> \<le> - x / 100"
    using assms(1) x(2) unfolding libm_ok_def by metis
  then have "fl lm x - x \<le> - x / 100" "x - fl lm x \<le> - x / 100"
    by (simp_all only: abs_le_iff minus_diff_eq)
  then show "99 / 100 * a \<le> - fl lm x" "- fl lm x \<le> 101 / 100 * b"
    using assms(2-4) by linarith+
qed

lemma ln_error_rate: "- 135 \<le> ln (1 / 10 ^ 15 :: real)" "ln (1 / 10 ^ 15 :: real) \<le> - 15"
proof -
  have e: "ln (1 / 10 ^ 15 :: real) = - (15 * ln 10)"
    using ln_realpow [of 10 15] ln_inverse [of "10 ^ 15"] by (simp add: inverse_eq_divide)
  have "exp (1 :: real) \<le> 10"
    using exp_le by linarith
  then have "1 \<le> ln (10 :: real)"
    by (simp add: ln_ge_iff)
  moreover have "ln (10 :: real) \<le> 9"
    using ln_le_minus_one [of 10] by simp
  ultimately show "- 135 \<le> ln (1 / 10 ^ 15 :: real)" "ln (1 / 10 ^ 15 :: real) \<le> - 15"
    unfolding e by linarith+
qed

lemma cast_int_ok:
  assumes "1 \<le> x" and "x < 2 ^ 31"
  shows "cast_int x = Inr \<lfloor>x\<rfloor>" "1 \<le> \<lfloor>x\<rfloor>"
proof -
  show "1 \<le> \<lfloor>x\<rfloor>"
    using assms(1) by (simp add: le_floor_iff)
  moreover have "\<lfloor>x\<rfloor> < 2 ^ 31"
    using assms(2) by (simp add: floor_less_iff)
  ultimately show "cast_int x = Inr \<lfloor>x\<rfloor>"
    using assms(1) by (simp add: cast_int_def)
qed

lemma bits_per_entry:
  assumes "libm_ok lm"
  shows "29 \<le> - fl lm (log_d lm (1 / 10 ^ 15) / fl lm (480453013918201 / 10 ^ 15))"
    "- fl lm (log_d lm (1 / 10 ^ 15) / fl lm (480453013918201 / 10 ^ 15)) \<le> 303"
proof -
  let ?l = "log_d lm (1 / 10 ^ 15)" and ?d = "fl lm (480453013918201 / 10 ^ 15)"
  have "\<bar>?l - ln (1 / 10 ^ 15)\<bar> \<le> \<bar>ln (1 / 10 ^ 15 :: real)\<bar> / 100"
    using assms [unfolded libm_ok_def, THEN conjunct2, THEN spec [of _ "1 / 10 ^ 15"]] ln_error_rate by (simp add: in_range_def)
  then have l: "- 1364 / 10 \<le> ?l" "?l \<le> - 1485 / 100"
    using ln_error_rate by linarith+
  have d: "47 / 100 \<le> ?d" "?d \<le> 49 / 100"
    using fl_bounds [OF assms, of "48 / 100" "480453013918201 / 10 ^ 15" "481 / 1000"] by simp_all
  have q: "30 \<le> - (?l / ?d)" "- (?l / ?d) \<le> 300"
    using l d by (simp_all add: field_simps)
  show "29 \<le> - fl lm (?l / ?d)" "- fl lm (?l / ?d) \<le> 303"
    using fl_bounds_neg [OF assms _ q] by simp_all
qed

lemma bloom_init_client:
  assumes "libm_ok lm" and "heap_ok h"
  shows "\<exists>f. bloom_init h lm f0 5000 (1 / 10 ^ 15) = Inr (0, f) \<and> wf_bloom f \<and> bitset (bl_bf f) = {} \<and> bl_entries f = 5000"
proof -
  let ?bpe = "- fl lm (log_d lm (1 / 10 ^ 15) / fl lm (480453013918201 / 10 ^ 15))"
  note b = bits_per_entry [OF assms(1)]
  have "145000 \<le> 5000 * ?bpe" "5000 * ?bpe \<le> 1515000"
    using b by linarith+
  from fl_bounds [OF assms(1) _ this] have "99 / 100 * 145000 \<le> fl lm (5000 * ?bpe)" "fl lm (5000 * ?bpe) \<le> 101 / 100 * 1515000"
    by simp_all
  then have bits: "cast_int (fl lm (5000 * ?bpe)) = Inr \<lfloor>fl lm (5000 * ?bpe)\<rfloor>" "1 \<le> \<lfloor>fl lm (5000 * ?bpe)\<rfloor>"
    by (intro cast_int_ok; simp)+
  have c: "68 / 100 \<le> fl lm (693147180559945 / 10 ^ 15)" "fl lm (693147180559945 / 10 ^ 15) \<le> 71 / 100"
    using fl_bounds [OF assms(1), of "69 / 100" "693147180559945 / 10 ^ 15" "7 / 10"] by simp_all
  let ?k = "fl lm (fl lm (693147180559945 / 10 ^ 15) * ?bpe)"
  have "68 / 100 * 29 \<le> fl lm (693147180559945 / 10 ^ 15) * ?bpe" "fl lm (693147180559945 / 10 ^ 15) * ?bpe \<le> 71 / 100 * 303"
    using b c by (intro mult_mono; simp)+
  from fl_bounds [OF assms(1) _ this] have "99 / 100 * (68 / 100 * 29) \<le> ?k" "?k \<le> 101 / 100 * (71 / 100 * 303)"
    by simp_all
  then have "19 \<le> ?k" "?k \<le> 218"
    by simp_all
  then have "1 \<le> \<lceil>?k\<rceil>" "\<lceil>?k\<rceil> \<le> 218"
    by (simp_all add: ceiling_le_iff)
  then have hashes: "cast_int (of_int \<lceil>?k\<rceil>) = Inr \<lceil>?k\<rceil>" "1 \<le> \<lceil>?k\<rceil>"
    using cast_int_ok(1) [of "of_int \<lceil>?k\<rceil>"] by simp_all
  have "\<exists>f. bloom_init h lm f0 5000 (1 / 10 ^ 15) = Inr (0, f) \<and> bl_bits f = \<lfloor>fl lm (5000 * ?bpe)\<rfloor> \<and> bl_hashes f = \<lceil>?k\<rceil>"
    unfolding bloom_init_def Let_def
    using bits hashes bytes_of_bits(1) [of "\<lfloor>fl lm (5000 * ?bpe)\<rfloor>"] assms(2)
    by (simp del: of_int_ceiling)
  then obtain f where f: "bloom_init h lm f0 5000 (1 / 10 ^ 15) = Inr (0, f)" "bl_bits f = \<lfloor>fl lm (5000 * ?bpe)\<rfloor>" "bl_hashes f = \<lceil>?k\<rceil>"
    by blast
  show ?thesis
    using bloom_init_wf [OF f(1)] f bits(2) hashes(2) by auto
qed

text \<open>\<^verbatim>\<open>ppbloom_init\<close> with the client's parameters gives an empty filter for 5000 entries a side.\<close>

lemma ppbloom_init_client:
  assumes "libm_ok lm" and "heap_ok h"
  obtains pp where "ppbloom_init h lm s 10000 (1 / 10 ^ 15) = Inr (0, pp)" "wf_pp pp" "pp_entries pp = 5000"
    "\<And>x. elem_ok x \<Longrightarrow> \<not> pp_found pp x"
proof -
  obtain f where f: "bloom_init h lm (pp_bloom s PING) 5000 (1 / 10 ^ 15) = Inr (0, f)" "wf_bloom f" "bitset (bl_bf f) = {}"
    using bloom_init_client [OF assms] by blast
  obtain g where g: "bloom_init h lm (pp_bloom s PONG) 5000 (1 / 10 ^ 15) = Inr (0, g)" "wf_bloom g" "bitset (bl_bf g) = {}"
    using bloom_init_client [OF assms] by blast
  have e: "(10000 :: int) sdiv 2 = 5000"
    by (simp add: signed_divide_int_def)
  let ?pp = "s\<lparr>pp_entries := 5000, pp_error := 1 / 10 ^ 15, pp_bloom := (pp_bloom s)(PING := f, PONG := g),
    pp_count := (pp_count s)(PING := 0, PONG := 0), pp_current := PING\<rparr>"
  have "ppbloom_init h lm s 10000 (1 / 10 ^ 15) = Inr (0, ?pp)"
    using f(1) g(1) unfolding ppbloom_init_def Let_def by (simp add: e)
  moreover have "wf_pp ?pp"
    using f(2) g(2) by (simp add: wf_pp_def other_def)
  moreover have "\<not> pp_found ?pp x" if "elem_ok x" for x
    using positions_nonempty [OF f(2) that] positions_nonempty [OF g(2) that] f(3) g(3)
    by (simp add: pp_found_def bloom_found_def)
  ultimately show ?thesis
    by (intro that [of ?pp]) simp_all
qed

text \<open>C29: The replay filter the client starts with: \<^verbatim>\<open>ppbloom_init(10000, 1e-15)\<close> succeeds whatever the static state
  was, the conversions from \<^verbatim>\<open>double\<close> to \<^verbatim>\<open>int\<close> are in range, each of the two filters is for 5000 entries, the
  invariant of the filter holds and no salt is found in it.\<close>

theorem ppbloom_init_client_ok:
  assumes "libm_ok lm" and "heap_ok h"
  shows "\<exists>pp. ppbloom_init h lm s 10000 (1 / 10 ^ 15) = Inr (0, pp) \<and> wf_pp pp \<and> pp_entries pp = 5000 \<and>
    (\<forall>buf. ppbloom_check pp buf (int (length buf)) = Inr 0)"
proof -
  obtain pp where pp: "ppbloom_init h lm s 10000 (1 / 10 ^ 15) = Inr (0, pp)" "wf_pp pp" "pp_entries pp = 5000"
    "\<And>x. elem_ok x \<Longrightarrow> \<not> pp_found pp x"
    by (rule ppbloom_init_client [OF assms, of s]) (rule that; assumption)
  have "ppbloom_check pp buf (int (length buf)) = Inr 0" for buf
    using ppbloom_check_spec [OF pp(2), of buf "int (length buf)"] pp(4) [of "(buf, int (length buf))"]
    by (simp add: elem_ok_def)
  with pp(1-3) show ?thesis by blast
qed

end
