(* ===== verification/SS_CryptoInit.thy ===== *)
theory SS_CryptoInit
  imports SS_Crypto SS_Filter
begin

text \<open>
  What \<^verbatim>\<open>crypto_init\<close> and \<^verbatim>\<open>crypto_parse_key\<close> promise: the cipher that every method name gives, with the key
  derived from the password or decoded from the key option, and two processes that were started with the same
  method and password understanding each other.
\<close>


section \<open>Stream ciphers from passwords\<close>

text \<open>The descriptor of a stream method, and the documented key and IV sizes of the ciphers of mbed TLS
  (\<^verbatim>\<open>cipher_info\<close> of RC4, AES, Blowfish and Camellia) as the table of the code lists them.\<close>

definition stream_info :: "crypto_lib \<Rightarrow> int \<Rightarrow> cipher_kt option" where
  "stream_info L method =
     (if method < SALSA20 then stream_get_cipher_type L method
      else Some (sodium_info (supported_stream_ciphers_key_size ! nat method) (supported_stream_ciphers_nonce_size ! nat method)))"

definition stream_info_ok :: "crypto_lib \<Rightarrow> bool" where
  "stream_info_ok L \<longleftrightarrow>
     (\<forall>m\<in>set [1..<13]. \<exists>kt. stream_get_cipher_type L (int m) = Some kt \<and>
        kt_key_bitlen kt = 8 * supported_stream_ciphers_key_size ! m \<and> 
        (m \<noteq> 2 \<longrightarrow> kt_iv_size kt = supported_stream_ciphers_nonce_size ! m))"

definition stream_password_cipher :: "crypto_lib \<Rightarrow> (bytes \<Rightarrow> bytes) \<Rightarrow> bytes \<Rightarrow> nat \<Rightarrow> cipher_t" where
  "stream_password_cipher L D pass i =
     cipher_of (int i) (stream_info L (int i)) (password_key D pass (supported_stream_ciphers_key_size ! i))
       (supported_stream_ciphers_nonce_size ! i) 0"

text \<open>The methods with an implementation: all but \<^verbatim>\<open>table\<close> and the five that mbed TLS does not have.\<close>

definition stream_supported :: "nat \<Rightarrow> bool" where
  "stream_supported i \<longleftrightarrow> 1 \<le> i \<and> i \<le> 12 \<or> 18 \<le> i \<and> i \<le> 20"

lemma stream_supported_cases:
  "stream_supported i \<Longrightarrow> i \<in> {1, 2, 3, 4, 5, 6, 7, 8, 9, 10, 11, 12, 18, 19, 20}"
  by (simp add: stream_supported_def) presburger

lemma stream_key_sizes:
  "stream_supported i \<Longrightarrow> supported_stream_ciphers_key_size ! i \<le> 32 \<and> 0 < supported_stream_ciphers_key_size ! i"
  by (drule stream_supported_cases) (auto simp: supported_stream_ciphers_key_size_def)

lemma wf_stream_password_cipher:
  assumes "md5_law L D" and "stream_supported i"
  shows "wf_stream_cipher (stream_password_cipher L D pass i)"
  using assms stream_key_sizes [OF assms(2)]
  by (auto simp: wf_stream_cipher_def stream_password_cipher_def cipher_of_def length_password_key stream_supported_def)

lemma stream_info_found:
  assumes "stream_info_ok L" and "stream_supported i"
  obtains kt where "stream_info L (int i) = Some kt" "kt_key_bitlen kt div 8 = supported_stream_ciphers_key_size ! i"
    "i \<noteq> 2 \<longrightarrow> kt_iv_size kt = supported_stream_ciphers_nonce_size ! i"
proof (cases "i \<le> 12")
  case True
  then have "i \<in> set [1..<13]"
    using assms(2) by (auto simp: stream_supported_def)
  then obtain kt where "stream_get_cipher_type L (int i) = Some kt" 
    "kt_key_bitlen kt = 8 * supported_stream_ciphers_key_size ! i" "i \<noteq> 2 \<longrightarrow> kt_iv_size kt = supported_stream_ciphers_nonce_size ! i"
    using assms(1) unfolding stream_info_ok_def by blast
  then show ?thesis
    using True that by (auto simp: stream_info_def)
next
  case False
  then show ?thesis
    using assms(2) by (intro that) (auto simp: stream_info_def sodium_info_def stream_supported_def)
qed

lemma stream_key_init_password:
  assumes "heap_ok (lib_heap L)" and "stream_info_ok L" and "md5_law L D" and "stream_supported i"
  shows "stream_key_init L w (int i) (Some pass) None = Inr (Some (stream_password_cipher L D pass i), w)"
proof -
  let ?n = "supported_stream_ciphers_key_size ! i"
  obtain kt where kt: "stream_info L (int i) = Some kt" "kt_key_bitlen kt div 8 = ?n"
    "i \<noteq> 2 \<longrightarrow> kt_iv_size kt = supported_stream_ciphers_nonce_size ! i"
    by (rule stream_info_found [OF assms(2,4)])
  have n: "?n \<le> 32" "0 < ?n"
    using stream_key_sizes [OF assms(4)] by simp_all
  have i: "1 \<le> i" "i < 21"
    using assms(4) by (auto simp: stream_supported_def)
  have info: "(if int i = SALSA20 \<or> int i = CHACHA20 \<or> int i = CHACHA20IETF then
      bnd (ss_malloc (lib_heap L) (sizeof_cipher_info L)) (\<lambda>_. Inr (Some (sodium_info ?n (supported_stream_ciphers_nonce_size ! i))))
      else Inr (stream_get_cipher_type L (int i))) = Inr (Some kt)"
    using assms(1,4) kt(1) by (auto simp: stream_info_def ss_malloc_def stream_supported_def split: if_splits)
  have nonce: "(if int i = RC4_MD5 then Inr 16 else cipher_nonce_size (Some (zero_cipher\<lparr>ci_info := Some kt\<rparr>))) =
      Inr (supported_stream_ciphers_nonce_size ! i)"
    using kt(3) by (auto simp: cipher_nonce_size_def zero_cipher_def supported_stream_ciphers_nonce_size_def)
  have size: "cipher_key_size (Some (zero_cipher\<lparr>ci_info := Some kt\<rparr>)) = Inr ?n"
    using kt(2) by (simp add: cipher_key_size_def zero_cipher_def)
  have k0: "ci_key (zero_cipher\<lparr>ci_info := Some kt\<rparr>) = ci_key zero_cipher"
    by simp
  show ?thesis
    using i n assms(1) make_key_password [OF assms(3) n(1), of w pass] length_password_key [OF assms(3)] kt(1)
    unfolding stream_key_init_def Let_def nat_int info bnd_Inr option.distinct if_False size k0 nonce
    by (simp add: ss_malloc_def) (simp add: stream_password_cipher_def cipher_of_def zero_cipher_def)
qed

lemma crypto_init_stream_password:
  assumes "heap_ok (lib_heap L)" and "stream_info_ok L" and "md5_law L D" and "stream_supported i" and "sodium_init L \<noteq> -1"
    and "ppbloom_init (lib_heap L) lm (w_pp w) 10000 (1 / 10 ^ 15) = Inr (r, pp)"
  shows "crypto_init L lm w (Some pass) None (Some (supported_stream_ciphers ! i)) =
    Inr (Some (stream_crypto (stream_password_cipher L D pass i)), w\<lparr>w_pp := pp\<rparr>)"
proof -
  have "i < 21" "i \<noteq> 0"
    using assms(4) by (auto simp: stream_supported_def)
  then show ?thesis
    using assms(1,5,6) stream_key_init_password [OF assms(1-4)]
    by (simp add: crypto_init_def stream_init_def ss_malloc_def Let_def)
qed

section \<open>Every method name\<close>

lemma stream_unsupported:
  assumes "13 \<le> i" and "i \<le> 17" and "heap_ok (lib_heap L)"
  shows "stream_key_init L w (int i) pass key = Inl (FATAL ''Cannot initialize cipher'')"
proof -
  have "i \<in> {13, 14, 15, 16, 17}"
    using assms(1,2) by auto
  then show ?thesis
    using assms(3)
    by (auto simp: stream_key_init_def ss_malloc_def stream_get_cipher_type_def supported_stream_ciphers_mbedtls_def)
qed

text \<open>The outcome for a method, as a table over the positions of the names.\<close>

definition method_outcome ::
  "crypto_lib \<Rightarrow> (bytes \<Rightarrow> bytes) \<Rightarrow> bytes \<Rightarrow> string option \<Rightarrow> fault + crypto_t option" where
  "method_outcome L D pass method =
     (case method of None \<Rightarrow> Inr None
      | Some s \<Rightarrow>
        let i = nat (method_index s supported_stream_ciphers); j = nat (method_index s supported_aead_ciphers) in
        if i = 0 then Inr None
        else if stream_supported i then Inr (Some (stream_crypto (stream_password_cipher L D pass i)))
        else if i < 21 then Inl (FATAL ''Cannot initialize cipher'')
        else if j < 5 then Inr (Some (aead_crypto (aead_password_cipher L D pass j)))
        else Inr None)"

lemma method_index_cases:
  assumes "distinct ns"
  obtains i where "i < length ns" "s = ns ! i" "method_index s ns = int i"
  | "s \<notin> set ns" "method_index s ns = int (length ns)"
proof (cases "s \<in> set ns")
  case True
  then obtain i where "i < length ns" "s = ns ! i"
    by (auto simp: in_set_conv_nth)
  then show ?thesis
    using that(1) method_index_nth [OF assms] by blast
qed (use that(2) method_index_absent in blast)

lemma crypto_init_outcome:
  assumes "lib_laws L HM S" and "stream_info_ok L" and "md5_law L D" and "sodium_init L \<noteq> -1"
    and "ppbloom_init (lib_heap L) lm (w_pp w) 10000 (1 / 10 ^ 15) = Inr (r, pp)"
  shows "crypto_init L lm w (Some pass) None meth =
    (case method_outcome L D pass meth of Inl e \<Rightarrow> Inl e | Inr c \<Rightarrow> Inr (c, w\<lparr>w_pp := pp\<rparr>))"
proof (cases meth)
  case None
  then show ?thesis
    using assms(4,5) by (simp add: crypto_init_def method_outcome_def Let_def)
next
  case (Some s)
  have h: "heap_ok (lib_heap L)"
    using assms(1) by (simp add: lib_laws_def lib_sizes_ok_def)
  show ?thesis
  proof (cases rule: method_index_cases [OF stream_names(1), of s])
    case (1 i)
    then have i: "i < 21" "method_index s supported_stream_ciphers = int i"
      by (simp_all add: stream_names)
    consider "i = 0" | "stream_supported i" | "13 \<le> i" "i \<le> 17"
      using i(1) by (force simp: stream_supported_def)
    then show ?thesis
    proof cases
      case 1
      then show ?thesis
        using i(2) assms(4,5) by (simp add: Some crypto_init_def stream_init_def method_outcome_def Let_def)
    next
      case 2
      then show ?thesis
        using crypto_init_stream_password [OF h assms(2,3) 2 assms(4,5)] i(2) \<open>s = supported_stream_ciphers ! i\<close>
        by (auto simp: Some method_outcome_def Let_def stream_supported_def)
    next
      case 3
      then show ?thesis
        using i(2) assms(4,5) stream_unsupported [OF 3 h]
        by (simp add: Some crypto_init_def stream_init_def method_outcome_def Let_def stream_supported_def)
    qed
  next
    case 2
    then have st: "method_index s supported_stream_ciphers = 21"
      by (simp add: stream_names)
    show ?thesis
    proof (cases rule: method_index_cases [OF aead_names(1), of s])
      case (1 j)
      then have "j < 5" "method_index s supported_aead_ciphers = int j"
        by (simp_all add: aead_names)
      then show ?thesis
        using crypto_init_aead_password [OF assms(1,3) _ assms(4,5), of j pass] st \<open>s = supported_aead_ciphers ! j\<close>
        by (simp add: Some method_outcome_def Let_def stream_supported_def)
    next
      case 2
      then show ?thesis
        using st assms(4,5)
        by (simp add: Some crypto_init_def method_outcome_def Let_def stream_supported_def aead_names)
    qed
  qed
qed

text \<open>C22: \<^verbatim>\<open>crypto_init\<close> on every method name, started with a password: a null, unknown or \<^verbatim>\<open>table\<close> method gives the null
  pointer; the five stream ciphers that mbed TLS does not have (cast5, des, idea, rc2, seed) end the process;
  every other stream or AEAD name gives the interface with the functions of its family and the cipher of that
  method whose key is \<^verbatim>\<open>EVP_BytesToKey\<close> of the password. The replay filter is the new, empty one.\<close>

theorem crypto_init_dispatch:
  assumes "lib_laws L HM S" and "stream_info_ok L" and "md5_law L D" and "sodium_init L \<noteq> -1" and "libm_ok lm"
  shows "\<exists>pp. wf_pp pp \<and> (\<forall>buf. ppbloom_check pp buf (int (length buf)) = Inr 0) \<and>
    (\<forall>method. crypto_init L lm w (Some pass) None method =
      (case method_outcome L D pass method of Inl e \<Rightarrow> Inl e | Inr c \<Rightarrow> Inr (c, w\<lparr>w_pp := pp\<rparr>)))"
proof -
  have "heap_ok (lib_heap L)"
    using assms(1) by (simp add: lib_laws_def lib_sizes_ok_def)
  from ppbloom_init_client [OF assms(5) this]
  obtain pp where pp: "ppbloom_init (lib_heap L) lm (w_pp w) 10000 (1 / 10 ^ 15) = Inr (0, pp)" "wf_pp pp"
    "\<And>x. elem_ok x \<Longrightarrow> \<not> pp_found pp x"
    by metis
  have "ppbloom_check pp buf (int (length buf)) = Inr 0" for buf
    using ppbloom_check_spec [OF pp(2), of buf "int (length buf)"] pp(3) [of "(buf, int (length buf))"]
    by (simp add: elem_ok_def)
  with pp(2) show ?thesis
    using crypto_init_outcome [OF assms(1-4) pp(1)] by blast
qed

section \<open>The key option\<close>

lemma base64_size_small:
  assumes "n < 2 ^ 28"
  shows "int_of_size (nat (BASE64_SIZE (int n))) = int (nat (BASE64_SIZE (int n)))" "0 < BASE64_SIZE (int n)"
proof -
  show p: "0 < BASE64_SIZE (int n)"
    by (simp add: BASE64_SIZE_def)
  have "BASE64_SIZE (int n) < 2 ^ 31"
    using assms by (simp add: BASE64_SIZE_def)
  then have "nat (BASE64_SIZE (int n)) < 2 ^ 31"
    using p by simp
  then show "int_of_size (nat (BASE64_SIZE (int n))) = int (nat (BASE64_SIZE (int n)))"
    by (rule int_of_size_small)
qed

lemma vla_ok: "n < 2 ^ 28 \<Longrightarrow> vla h (int (nat (BASE64_SIZE (int n)))) = Inr (fresh h (nat (BASE64_SIZE (int n))))"
  using base64_size_small(2) [of n] by (simp add: vla_def)

lemma base64_decode_text:
  assumes "length xs \<le> sz" and "sz \<le> length res"
  shows "base64_decode res (base64_text xs) (int sz) = Inr (int (length xs), xs @ drop (length xs) res)"
proof -
  let ?rest = "replicate (padding (length xs)) (of_char CHR ''='') :: bytes"
  have "?rest = [] \<or> b64_stop (hd ?rest)"
    by (cases "padding (length xs)") (simp_all add: b64_stop_def)
  from decode_sextets [OF this, of 0 xs sz res 0 0] assms show ?thesis
    by (simp add: base64_decode_def base64_text_def poke_def)
qed

lemma base64_encode_prefix:
  assumes "n \<le> length inp"
  shows "base64_encode out out_size inp (int n) = base64_encode out out_size (take n inp) (int n)"
  using assms by (simp add: base64_encode_def read_mem_def)

text \<open>The branch for a bad key writes a random key and its text in bounds and ends the process.\<close>

definition bad_key :: "crypto_lib \<Rightarrow> world \<Rightarrow> bytes \<Rightarrow> nat \<Rightarrow> (int \<times> bytes \<times> world) res" where
  "bad_key L w key key_len =
     (let out_len = int_of_size (nat (BASE64_SIZE (int key_len))) in
      bnd (vla (lib_heap L) out_len) (\<lambda>out_key.
      bnd (rand_bytes L w key key_len) (\<lambda>(key, w).
      bnd (base64_encode out_key out_len key (int_of_size key_len)) (\<lambda>_.
        Inl (FATAL ''Please use the key above or input a valid key'')))))"

lemma bad_key_fatal:
  assumes "lib_sizes_ok L" and "key_len \<le> length key" and "key_len < 2 ^ 28"
  shows "bad_key L w key key_len = Inl (FATAL ''Please use the key above or input a valid key'')"
proof -
  let ?k = "randombytes_buf L (w_draws w) key_len @ drop key_len key" and ?n = "nat (BASE64_SIZE (int key_len))"
  have r: "length (randombytes_buf L (w_draws w) key_len) = key_len"
    using assms(1) by (simp add: lib_sizes_ok_def)
  have "rand_bytes L w key key_len = Inr (?k, w\<lparr>w_draws := Suc (w_draws w)\<rparr>)"
    using r assms(2) by (simp add: rand_bytes_def write_mem_def)
  moreover have "base64_encode (fresh (lib_heap L) ?n) (int ?n) ?k (int key_len) =
      Inr (True, poke (fresh (lib_heap L) ?n) 0 (base64_text (take key_len ?k) @ [0]))"
    using base64_encode_spec [of "take key_len ?k" "int ?n" "fresh (lib_heap L) ?n"] assms(2,3) r base64_size_small(2) [OF assms(3)]
    by (subst base64_encode_prefix) (simp_all add: fresh_def)
  moreover have "int_of_size key_len = int key_len"
    using assms(3) by (intro int_of_size_small) simp
  ultimately show ?thesis
    unfolding bad_key_def Let_def base64_size_small(1) [OF assms(3)] vla_ok [OF assms(3)] bnd_Inr by simp
qed

lemma crypto_parse_key_decoded:
  assumes "length s < 2 ^ 28"
    and "base64_decode (fresh (lib_heap L) (nat (BASE64_SIZE (int (length s))))) s (int (nat (BASE64_SIZE (int (length s))))) = Inr (n, out)"
  shows "crypto_parse_key L w s key key_len =
    (if n > 0 \<and> n \<ge> int key_len then bnd (memcpy key 0 out 0 key_len) (\<lambda>key. Inr (int_of_size key_len, key, w))
     else bad_key L w key key_len)"
  unfolding crypto_parse_key_def bad_key_def Let_def base64_size_small(1) [OF assms(1)] vla_ok [OF assms(1)] bnd_Inr assms(2)
  by simp

lemma length_base64_text: "length (base64_text xs) = (length xs + 2) div 3 * 4"
  using length_sextets [of xs] by (simp add: base64_text_def)

text \<open>C28: the key option. The URL-safe Base64 text of \<open>xs\<close> gives its first \<^verbatim>\<open>key_len\<close> bytes as the key and leaves the
  rest of the key array alone; a text of too few bytes ends the process with the advice to use a proper key.\<close>

theorem crypto_parse_key_text:
  assumes "lib_sizes_ok L" and "length xs < 2 ^ 26" and "0 < key_len" and "key_len \<le> length key" and "key_len < 2 ^ 28"
  shows "crypto_parse_key L w (base64_text xs) key key_len =
    (if key_len \<le> length xs then Inr (int key_len, take key_len xs @ drop key_len key, w)
     else Inl (FATAL ''Please use the key above or input a valid key''))"
proof -
  let ?t = "base64_text xs" and ?n = "nat (BASE64_SIZE (int (length (base64_text xs))))"
  have t: "length ?t < 2 ^ 28"
    using assms(2) by (simp add: length_base64_text)
  have "length xs \<le> length ?t" "length ?t \<le> ?n"
    by (simp_all add: length_base64_text BASE64_SIZE_def)
  then have "base64_decode (fresh (lib_heap L) ?n) ?t (int ?n) = Inr (int (length xs), xs @ drop (length xs) (fresh (lib_heap L) ?n))"
    by (intro base64_decode_text) (simp_all add: fresh_def)
  moreover have "int_of_size key_len = int key_len"
    using assms(5) by (intro int_of_size_small) simp
  ultimately show ?thesis
    using assms(3-5) bad_key_fatal [OF assms(1,4,5)]
    by (simp add: crypto_parse_key_decoded [OF t] memcpy_ok)
qed

text \<open>A key option with a character outside the Base64 alphabet before its end or its padding is refused: the
  process ends, whatever the key length, and never with a memory error.\<close>

theorem crypto_parse_key_garbage:
  assumes "lib_sizes_ok L" and "length s < 2 ^ 28" and "\<not> list_all b64_valid (b64_body s)" and "key_len \<le> length key" and "key_len < 2 ^ 28"
  shows "crypto_parse_key L w s key key_len = Inl (FATAL ''Please use the key above or input a valid key'')"
proof -
  let ?n = "nat (BASE64_SIZE (int (length s)))"
  obtain out where "base64_decode (fresh (lib_heap L) ?n) s (int ?n) = Inr (-1, out)"
    using decode_total [of 0 ?n "fresh (lib_heap L) ?n" s 0 0] assms(3)
    by (auto simp: base64_decode_def decode_result_def fresh_def)
  then show ?thesis
    using bad_key_fatal [OF assms(1,4,5)] by (simp add: crypto_parse_key_decoded [OF assms(2)])
qed

section \<open>Two processes with one password\<close>

text \<open>What the client needs of a process: the laws of its libraries, for the digest \<open>D\<close>, the HMAC \<open>HM\<close> and the
  ciphers \<open>S\<close>, and a working floating-point unit.\<close>

definition process_ok :: "crypto_lib \<Rightarrow> libm \<Rightarrow> world \<Rightarrow> (bytes \<Rightarrow> bytes) \<Rightarrow> (bytes \<Rightarrow> bytes \<Rightarrow> bytes) \<Rightarrow> aead_spec \<Rightarrow> bool" where
  "process_ok L lm w D HM S \<longleftrightarrow> lib_laws L HM S \<and> md5_law L D \<and> sodium_init L \<noteq> -1 \<and> libm_ok lm \<and>
     (\<forall>t. wf_block (w_tmp w t)) \<and> length (w_md5 w) = 16"

lemma fresh_filter:
  assumes "heap_ok (lib_heap L)" and "libm_ok lm" and "\<forall>t. wf_block (w_tmp w t)" and "length (w_md5 w) = 16"
  obtains pp where "ppbloom_init (lib_heap L) lm (w_pp w) 10000 (1 / 10 ^ 15) = Inr (0, pp)"
    "wf_sworld (w\<lparr>w_pp := pp\<rparr>)" "\<And>salt. \<not> seen (w\<lparr>w_pp := pp\<rparr>) salt"
proof -
  obtain pp where "ppbloom_init (lib_heap L) lm (w_pp w) 10000 (1 / 10 ^ 15) = Inr (0, pp)" "wf_pp pp"
    "\<And>x. elem_ok x \<Longrightarrow> \<not> pp_found pp x"
    using ppbloom_init_client [OF assms(2,1), of "w_pp w"] by metis
  then show ?thesis
    using assms(3,4) by (intro that [of pp]) (simp_all add: wf_sworld_def wf_world_def seen_def elem_ok_def)
qed

lemma crypto_init_aead:
  assumes "process_ok L lm w D HM S" and "i < 5"
  obtains pp where "crypto_init L lm w (Some pass) None (Some (supported_aead_ciphers ! i)) =
      Inr (Some (aead_crypto (aead_password_cipher L D pass i)), w\<lparr>w_pp := pp\<rparr>)"
    "wf_sworld (w\<lparr>w_pp := pp\<rparr>)" "\<And>salt. \<not> seen (w\<lparr>w_pp := pp\<rparr>) salt"
proof -
  have p: "lib_laws L HM S" "md5_law L D" "sodium_init L \<noteq> -1" "libm_ok lm" "\<forall>t. wf_block (w_tmp w t)" "length (w_md5 w) = 16"
    using assms(1) by (simp_all add: process_ok_def)
  then have "heap_ok (lib_heap L)"
    by (simp add: lib_laws_def lib_sizes_ok_def)
  from fresh_filter [OF this p(4-6)] obtain pp
    where "ppbloom_init (lib_heap L) lm (w_pp w) 10000 (1 / 10 ^ 15) = Inr (0, pp)"
    "wf_sworld (w\<lparr>w_pp := pp\<rparr>)" "\<And>salt. \<not> seen (w\<lparr>w_pp := pp\<rparr>) salt"
    by metis
  then show ?thesis
    using crypto_init_aead_password [OF p(1,2) assms(2) p(3)] by (intro that [of pp])
qed

text \<open>C18: the whole path of a TCP session under AEAD. Two processes started with the same password and the same AEAD
  method get the same cipher from \<^verbatim>\<open>crypto_init\<close>; what the one encrypts through the functions of the interface, cut
  into any fragments, the other decrypts to the same messages without an error. No assumption on the salt is
  needed, since the filter of the receiver is new.\<close>

theorem aead_password_session:
  assumes "process_ok L lm w D HM S" and "process_ok L' lm' w' D HM S" and "i < 5"
    and "aead_info L (int i) = aead_info L' (int i)"
    and "\<forall>b\<in>set bs. wf_buffer b \<and> payload_ok (contents b)" and "bs \<noteq> []"
  shows "\<exists>cr v v' ctx v1 sent ctx2 v2.
    crypto_init L lm w (Some pass) None (Some (supported_aead_ciphers ! i)) = Inr (Some cr, v) \<and>
    crypto_init L' lm' w' (Some pass) None (Some (supported_aead_ciphers ! i)) = Inr (Some cr, v') \<and>
    cr = aead_crypto (cr_cipher cr) \<and>
    cr_ctx_init cr L v (cr_cipher cr) 1 = Inr (ctx, v1) \<and> send_all L v1 ctx cap bs = Inr (sent, ctx2, v2) \<and>
    (\<forall>frags. (\<forall>f\<in>set frags. wf_buffer f) \<longrightarrow> concat (map contents frags) = sent \<longrightarrow>
      (\<exists>rctx es rctx2 v3. cr_ctx_init cr L' v' (cr_cipher cr) 0 = Inr (rctx, v') \<and>
         receive_all L' v' rctx cap' frags = Inr (es, concat (map contents bs), rctx2, v3) \<and>
         CRYPTO_ERROR \<notin> set es))"
proof -
  let ?c = "aead_password_cipher L D pass i"
  have same: "aead_password_cipher L' D pass i = ?c"
    using assms(4) by (simp add: aead_password_cipher_def)
  obtain pp where a: "crypto_init L lm w (Some pass) None (Some (supported_aead_ciphers ! i)) = Inr (Some (aead_crypto ?c), w\<lparr>w_pp := pp\<rparr>)"
    "wf_sworld (w\<lparr>w_pp := pp\<rparr>)"
    using crypto_init_aead [OF assms(1,3), of pass] by metis
  obtain pp' where b: "crypto_init L' lm' w' (Some pass) None (Some (supported_aead_ciphers ! i)) = Inr (Some (aead_crypto ?c), w'\<lparr>w_pp := pp'\<rparr>)"
    "wf_sworld (w'\<lparr>w_pp := pp'\<rparr>)" "\<And>salt. \<not> seen (w'\<lparr>w_pp := pp'\<rparr>) salt"
    using crypto_init_aead [OF assms(2,3), of pass] same by metis
  have laws: "lib_laws L HM S" "lib_laws L' HM S" "wf_cipher ?c" "wf_world (w\<lparr>w_pp := pp\<rparr>)" "wf_world (w'\<lparr>w_pp := pp'\<rparr>)"
    using assms(1-3) a(2) b(2) wf_aead_password_cipher by (auto simp: process_ok_def wf_sworld_def)
  show ?thesis
    using aead_session [OF laws assms(5,6) b(3), of cap cap']
    by (intro exI [of _ "aead_crypto ?c"] exI [of _ "w\<lparr>w_pp := pp\<rparr>"] exI [of _ "w'\<lparr>w_pp := pp'\<rparr>"])
      (simp add: a(1) b(1) aead_crypto_def)
qed


lemma crypto_init_stream:
  assumes "stream_laws L MD5 KS C" and "stream_info_ok L" and "md5_law L D" and "sodium_init L \<noteq> -1" and "libm_ok lm"
    and "\<forall>t. wf_block (w_tmp w t)" and "length (w_md5 w) = 16" and "stream_supported i"
  obtains pp where "crypto_init L lm w (Some pass) None (Some (supported_stream_ciphers ! i)) =
      Inr (Some (stream_crypto (stream_password_cipher L D pass i)), w\<lparr>w_pp := pp\<rparr>)"
    "wf_sworld (w\<lparr>w_pp := pp\<rparr>)" "\<And>salt. \<not> seen (w\<lparr>w_pp := pp\<rparr>) salt"
proof -
  have h: "heap_ok (lib_heap L)"
    using assms(1) by (rule stream_lawsD)
  from fresh_filter [OF this assms(5-7)] obtain pp
    where "ppbloom_init (lib_heap L) lm (w_pp w) 10000 (1 / 10 ^ 15) = Inr (0, pp)"
    "wf_sworld (w\<lparr>w_pp := pp\<rparr>)" "\<And>salt. \<not> seen (w\<lparr>w_pp := pp\<rparr>) salt"
    by metis
  then show ?thesis
    using crypto_init_stream_password [OF h assms(2,3,8,4)] by (intro that [of pp])
qed

text \<open>The same for the stream ciphers.\<close>

definition stream_process_ok ::
  "crypto_lib \<Rightarrow> libm \<Rightarrow> world \<Rightarrow> (bytes \<Rightarrow> bytes) \<Rightarrow> (bytes \<Rightarrow> bytes) \<Rightarrow> key_streams \<Rightarrow> stream_fun \<Rightarrow> bool" where
  "stream_process_ok L lm w D MD5 KS C \<longleftrightarrow> stream_laws L MD5 KS C \<and> stream_info_ok L \<and> md5_law L D \<and> sodium_init L \<noteq> -1 \<and>
     libm_ok lm \<and> (\<forall>t. wf_block (w_tmp w t)) \<and> length (w_md5 w) = 16"

text \<open>C21: the whole path of a TCP session under a stream cipher. Two processes started with the same password and the
  same supported stream method get the same cipher from \<^verbatim>\<open>crypto_init\<close>; what the one encrypts, cut into any
  fragments, the other decrypts to the same bytes without an error, as long as the session stays below the
  length that the key stream of the method allows.\<close>

theorem stream_password_session:
  assumes "stream_process_ok L lm w D MD5 KS C" and "stream_process_ok L' lm' w' D MD5 KS C" and "stream_supported i"
    and "stream_info L (int i) = stream_info L' (int i)"
    and "\<forall>b\<in>set bs. wf_buffer b \<and> b_len b \<noteq> 0" and "bs \<noteq> []"
    and "supported_stream_ciphers_nonce_size ! i + length (concat (map contents bs)) < 2 ^ 38"
  shows "\<exists>cr v v' ctx v1 sent ctx2 v2.
    crypto_init L lm w (Some pass) None (Some (supported_stream_ciphers ! i)) = Inr (Some cr, v) \<and>
    crypto_init L' lm' w' (Some pass) None (Some (supported_stream_ciphers ! i)) = Inr (Some cr, v') \<and>
    cr = stream_crypto (cr_cipher cr) \<and>
    cr_ctx_init cr L v (cr_cipher cr) 1 = Inr (ctx, v1) \<and> s_send_all L v1 ctx cap bs = Inr (sent, ctx2, v2) \<and>
    (\<forall>frags. (\<forall>f\<in>set frags. wf_buffer f) \<longrightarrow> concat (map contents frags) = sent \<longrightarrow>
      (\<exists>rctx es rctx2 v3. cr_ctx_init cr L' v' (cr_cipher cr) 0 = Inr (rctx, v') \<and>
         s_receive_all L' v' rctx cap' frags = Inr (es, concat (map contents bs), rctx2, v3) \<and>
         CRYPTO_ERROR \<notin> set es))"
proof -
  let ?c = "stream_password_cipher L D pass i"
  have same: "stream_password_cipher L' D pass i = ?c"
    using assms(4) by (simp add: stream_password_cipher_def)
  obtain pp where a: "crypto_init L lm w (Some pass) None (Some (supported_stream_ciphers ! i)) = Inr (Some (stream_crypto ?c), w\<lparr>w_pp := pp\<rparr>)"
    "wf_sworld (w\<lparr>w_pp := pp\<rparr>)"
    using crypto_init_stream [of L MD5 KS C D lm w i pass] assms(1,3) unfolding stream_process_ok_def by metis
  obtain pp' where b: "crypto_init L' lm' w' (Some pass) None (Some (supported_stream_ciphers ! i)) = Inr (Some (stream_crypto ?c), w'\<lparr>w_pp := pp'\<rparr>)"
    "wf_sworld (w'\<lparr>w_pp := pp'\<rparr>)" "\<And>salt. \<not> seen (w'\<lparr>w_pp := pp'\<rparr>) salt"
    using crypto_init_stream [of L' MD5 KS C D lm' w' i pass] assms(2,3) same unfolding stream_process_ok_def by metis
  have laws: "stream_laws L MD5 KS C" "stream_laws L' MD5 KS C" "wf_stream_cipher ?c"
    using assms(1-3) wf_stream_password_cipher by (auto simp: stream_process_ok_def)
  have "2 ^ 38 \<le> stream_limit ?c"
    by (simp add: stream_limit_def)
  moreover have "ci_nonce_len ?c = supported_stream_ciphers_nonce_size ! i"
    by (simp add: stream_password_cipher_def cipher_of_def)
  ultimately have "ci_nonce_len ?c + length (concat (map contents bs)) < stream_limit ?c"
    using assms(7) by linarith
  from stream_session [OF laws a(2) b(2) assms(5,6) this b(3), of cap cap'] show ?thesis
    by (intro exI [of _ "stream_crypto ?c"] exI [of _ "w\<lparr>w_pp := pp\<rparr>"] exI [of _ "w'\<lparr>w_pp := pp'\<rparr>"])
      (simp add: a(1) b(1) stream_crypto_def)
qed

end
