(* ===== verification/SS_Demo.thy ===== *)
theory SS_Demo
  imports SS_AeadSession SS_CryptoInit
begin

text \<open>
  A concrete instance of the external libraries that satisfies every law the development assumes of them:
  the laws are consistent, and the properties are applied to it. Its cipher appends a checksum of key,
  nonce and message; its digests are the low bytes of a sum; its contexts are the bytes absorbed so far.
\<close>

section \<open>The functions\<close>

definition demo_tag :: "bytes \<Rightarrow> bytes \<Rightarrow> bytes \<Rightarrow> bytes" where
  "demo_tag k n m = le_bytes 16 (le_nat k + le_nat n + le_nat m)"

definition demo_seal :: "bytes \<Rightarrow> bytes \<Rightarrow> bytes \<Rightarrow> bytes" where
  "demo_seal k n m = m @ demo_tag k n m"

definition demo_S :: aead_spec where
  "demo_S meth k n m = demo_seal k n m"

definition demo_open :: "bytes \<Rightarrow> bytes \<Rightarrow> bytes \<Rightarrow> int \<times> bytes" where
  "demo_open k n c =
     (let m = take (length c - 16) c in
      if c = demo_seal k n m then (0, m) else (-1, replicate (length c - 16) 0))"

definition demo_digest :: "nat \<Rightarrow> bytes \<Rightarrow> bytes" where
  "demo_digest n d = le_bytes n (le_nat d)"

definition demo_HM :: "bytes \<Rightarrow> bytes \<Rightarrow> bytes" where
  "demo_HM k d = demo_digest 20 (k @ d)"

definition demo_heap :: heap where
  "demo_heap = \<lparr>avail = (\<lambda>_. True), aligned = (\<lambda>_. True), uninit = (\<lambda>_. 0)\<rparr>"

text \<open>A key stream cipher for the stream methods: byte \<open>j\<close> of block \<open>ic\<close> is a number computed from the nonce.\<close>

definition demo_pad :: "bytes \<Rightarrow> bytes \<Rightarrow> nat \<Rightarrow> byte" where
  "demo_pad k n j = of_nat (le_nat k + le_nat n + 7 * j)"

definition demo_xor :: "bytes \<Rightarrow> bytes \<Rightarrow> nat \<Rightarrow> bytes \<Rightarrow> bytes" where
  "demo_xor k n off m = xor_at (demo_pad k n) off m"

definition demo_info :: "string \<Rightarrow> cipher_kt" where
  "demo_info s =
     (case map_of [(''ARC4-128'', 128, 0), (''AES-128-CFB128'', 128, 16), (''AES-192-CFB128'', 192, 16),
        (''AES-256-CFB128'', 256, 16), (''AES-128-CTR'', 128, 16), (''AES-192-CTR'', 192, 16), (''AES-256-CTR'', 256, 16),
        (''BLOWFISH-CFB64'', 128, 8), (''CAMELLIA-128-CFB128'', 128, 16), (''CAMELLIA-192-CFB128'', 192, 16),
        (''CAMELLIA-256-CFB128'', 256, 16), (''AES-128-GCM'', 128, 12), (''AES-192-GCM'', 192, 12)] s of
        None \<Rightarrow> \<lparr>kt_base = None, kt_key_bitlen = 256, kt_iv_size = 12\<rparr>
      | Some (k, iv) \<Rightarrow> \<lparr>kt_base = None, kt_key_bitlen = k, kt_iv_size = iv\<rparr>)"

definition demo_C :: stream_fun where
  "demo_C enc meth k iv m = xor_at (\<lambda>_. 90) 0 m"

definition demo :: "int \<Rightarrow> crypto_lib" where
  "demo aesni = \<lparr>
     lib_heap = demo_heap,
     randombytes_buf = (\<lambda>d n. map (\<lambda>i. of_nat (d + i)) [0..<n]),
     sodium_increment = (\<lambda>n. le_bytes (length n) (le_nat n + 1)),
     mbedtls_cipher_info_from_string = (\<lambda>s. Some (demo_info s)),
     mbedtls_cipher_init = [],
     mbedtls_cipher_setup = (\<lambda>e kt. (0, [])),
     mbedtls_cipher_setkey = (\<lambda>e k bits op. (0, k)),
     mbedtls_cipher_set_iv = (\<lambda>e iv. (0, e)),
     mbedtls_cipher_reset = (\<lambda>e. (0, e)),
     mbedtls_cipher_update = (\<lambda>e m. (0, e, xor_at (\<lambda>_. 90) 0 m)),
     mbedtls_cipher_auth_encrypt = (\<lambda>e iv ad m tl. (0, e, m, demo_tag e iv m)),
     mbedtls_cipher_auth_decrypt = (\<lambda>e iv ad m tag. case demo_open e iv (m @ tag) of (r, out) \<Rightarrow> (r, e, out)),
     aes256gcm_is_available = aesni,
     aes256gcm_beforenm = (\<lambda>k. (0, k)),
     aes256gcm_encrypt_afternm = (\<lambda>m ad n k. (0, demo_seal k n m)),
     aes256gcm_decrypt_afternm = (\<lambda>c ad n k. demo_open k n c),
     chacha20poly1305_ietf_encrypt = (\<lambda>m ad n k. (0, demo_seal k n m)),
     chacha20poly1305_ietf_decrypt = (\<lambda>c ad n k. demo_open k n c),
     xchacha20poly1305_ietf_encrypt = (\<lambda>m ad n k. (0, demo_seal k n m)),
     xchacha20poly1305_ietf_decrypt = (\<lambda>c ad n k. demo_open k n c),
     stream_salsa20_xor_ic = (\<lambda>m n ic k. (0, demo_xor k n (unat ic * 64) m)),
     stream_chacha20_xor_ic = (\<lambda>m n ic k. (0, demo_xor k n (unat ic * 64) m)),
     stream_chacha20_ietf_xor_ic = (\<lambda>m n ic k. (0, demo_xor k n (unat ic * 64) m)),
     mbedtls_md5_ret = (\<lambda>d. (0, demo_digest 16 d)),
     mbedtls_md_info_from_string = (\<lambda>s. Some (if s = ''SHA1'' then [20] else [16])),
     mbedtls_md_get_size = (\<lambda>md. unat (hd md)),
     mbedtls_md_setup = (\<lambda>md hm. (0, [hd md])),
     mbedtls_md_starts = (\<lambda>c. [hd c]),
     mbedtls_md_update = (\<lambda>c x. c @ x),
     mbedtls_md_finish = (\<lambda>c. ([hd c], demo_digest (unat (hd c)) (tl c))),
     mbedtls_md_hmac_starts = (\<lambda>c k. (0, hd c # k)),
     mbedtls_md_hmac_upd = (\<lambda>c x. (0, c @ x)),
     mbedtls_md_hmac_finish = (\<lambda>c. (0, [hd c], demo_digest (unat (hd c)) (tl c))),
     mbedtls_md_hmac = (\<lambda>md k d. (0, demo_digest (unat (hd md)) (k @ d))),
     sodium_init = 0,
     sizeof_cipher_info = 64\<rparr>"

section \<open>The laws hold\<close>

lemma demo_open_opens: "opens (demo_open k n) (demo_seal k n)"
proof -
  have "demo_open k n (demo_seal k n m) = (0, m)" for m
    by (simp add: demo_open_def demo_seal_def demo_tag_def)
  moreover have "c = demo_seal k n out" if "demo_open k n c = (0, out)" for c out
    using that by (auto simp: demo_open_def Let_def split: if_splits)
  moreover have "length (snd (demo_open k n c)) + 16 \<le> length c" if "16 \<le> length c" for c
    using that by (simp add: demo_open_def Let_def)
  ultimately show ?thesis
    by (simp add: opens_def)
qed

lemma demo_sodium_box:
  "sodium_box (\<lambda>m ad n k. (0, demo_seal k n m)) (\<lambda>c ad n k. demo_open k n c) k nl (demo_seal k)"
  by (simp add: sodium_box_def demo_open_opens)

lemma demo_evp_keyed: "evp_keyed (demo a) meth k e \<Longrightarrow> e = k"
  by (induction rule: evp_keyed.induct) (auto simp: demo_def split: prod.splits)

lemma demo_mbedtls_box: "mbedtls_box (demo a) meth k (demo_seal k)"
proof -
  have "(\<lambda>c. let (r, e', out) = mbedtls_cipher_auth_decrypt (demo a) k n [] (take (length c - 16) c) (drop (length c - 16) c)
      in (r, out)) = demo_open k n" for n
    by (simp add: demo_def fun_eq_iff split: prod.splits)
  then show ?thesis
    by (simp add: mbedtls_box_def demo_open_opens) (simp add: demo_def demo_seal_def demo_tag_def)
qed

lemma demo_S_eq: "demo_S meth k = demo_seal k"
  by (simp add: demo_S_def fun_eq_iff)

lemma demo_mbedtls:
  "mbedtls_cipher_setup (demo a) e kt = (0, [])" "mbedtls_cipher_setkey (demo a) e k bits op = (0, k)"
  "mbedtls_cipher_reset (demo a) e = (0, e)"
  "mbedtls_cipher_info_from_string (demo a) s = Some (demo_info s)" "mbedtls_cipher_set_iv (demo a) e iv = (0, e)"
  "mbedtls_cipher_update (demo a) e m = (0, e, xor_at (\<lambda>_. 90) 0 m)"
  by (simp_all add: demo_def)

lemma demo_gcm_ok:
  assumes "meth \<in> {0, 1, 2}"
  shows "mbedtls_gcm_ok (demo a) demo_S meth klen"
proof -
  have "mbedtls_box (demo a) meth e (demo_S meth k)" if "evp_keyed (demo a) meth k e" for k e
    using demo_evp_keyed [OF that] demo_mbedtls_box by (simp add: demo_S_eq)
  moreover have "aead_get_cipher_type (demo a) meth \<noteq> None"
    using assms by (auto simp: aead_get_cipher_type_def supported_aead_ciphers_mbedtls_def demo_mbedtls)
  ultimately show ?thesis
    by (simp add: mbedtls_gcm_ok_def demo_mbedtls)
qed

lemma demo_sodium:
  "chacha20poly1305_ietf_encrypt (demo a) = (\<lambda>m ad n k. (0, demo_seal k n m))"
  "chacha20poly1305_ietf_decrypt (demo a) = (\<lambda>c ad n k. demo_open k n c)"
  "xchacha20poly1305_ietf_encrypt (demo a) = (\<lambda>m ad n k. (0, demo_seal k n m))"
  "xchacha20poly1305_ietf_decrypt (demo a) = (\<lambda>c ad n k. demo_open k n c)"
  "aes256gcm_encrypt_afternm (demo a) = (\<lambda>m ad n k. (0, demo_seal k n m))"
  "aes256gcm_decrypt_afternm (demo a) = (\<lambda>c ad n k. demo_open k n c)"
  "aes256gcm_beforenm (demo a) = (\<lambda>k. (0, k))"
  by (simp_all add: demo_def)

lemma length_demo_seal: "length (demo_seal k n m) = length m + 16"
  by (simp add: demo_seal_def demo_tag_def)

lemma demo_aead_laws: "aead_laws (demo a) demo_S"
  unfolding aead_laws_def demo_sodium by (simp add: demo_gcm_ok demo_S_eq demo_sodium_box length_demo_seal)

lemma demo_hmac: "hmac_live (demo a) [20] c \<Longrightarrow> c = [20]" "hmac_run (demo a) [20] c k d \<Longrightarrow> c = 20 # k @ d"
  by (induction rule: hmac_live_hmac_run.inducts) (auto simp: demo_def)

lemma demo_md: "md_live (demo a) [16] c \<Longrightarrow> c = [16]" "md_run (demo a) [16] c d \<Longrightarrow> c = 16 # d"
  by (induction rule: md_live_md_run.inducts) (auto simp: demo_def)

lemma demo_hmac_incremental: "hmac_incremental (demo a) [20] demo_HM"
  unfolding hmac_incremental_def
  by (intro conjI allI impI; (drule demo_hmac(1) | drule demo_hmac(2))?)
    (simp_all add: demo_def demo_HM_def demo_digest_def)

lemma demo_md_incremental: "md_incremental (demo a) [16] (demo_digest 16)"
  unfolding md_incremental_def
  by (intro conjI allI impI; (drule demo_md(2))?) (simp_all add: demo_def demo_digest_def)

lemma demo_laws: "lib_laws (demo a) demo_HM demo_S"
proof -
  have "kdf_laws (demo a) demo_HM"
    using demo_hmac_incremental by (auto simp: kdf_laws_def demo_def)
  moreover have "lib_sizes_ok (demo a)" "increments (demo a)"
    by (simp_all add: lib_sizes_ok_def increments_def heap_ok_def demo_def demo_heap_def le_nat_le_bytes)
  ultimately show ?thesis
    using demo_aead_laws by (simp add: lib_laws_def)
qed

lemma xor_at_const: "xor_at (\<lambda>_. c) i m = xor_at (\<lambda>_. c) j m"
proof (induction m arbitrary: i j)
  case (Cons b m)
  show ?case
    using Cons.IH [of "Suc i" "Suc j"] by simp
qed simp

lemma demo_stream_ok:
  assumes "1 \<le> meth" and "meth \<le> 12"
  shows "mbedtls_stream_ok (demo a) demo_C meth klen ivlen"
proof -
  have "meth \<in> {1, 2, 3, 4, 5, 6, 7, 8, 9, 10, 11, 12}"
    using assms by simp presburger
  then have "stream_get_cipher_type (demo a) meth \<noteq> None"
    by (auto simp: stream_get_cipher_type_def supported_stream_ciphers_mbedtls_def demo_mbedtls)
  moreover have "tail_of (demo_C enc meth k iv) d m = xor_at (\<lambda>_. 90) 0 m" for enc k iv d m
    using xor_at_const [of 90 "length d" m 0] by (simp add: demo_C_def tail_of_xor_at [unfolded tail_of_def] tail_of_def)
  ultimately show ?thesis
    by (simp add: mbedtls_stream_ok_def evp_starts_def demo_mbedtls)
qed

lemma demo_C_pair: "incremental_pair (demo_C 1 meth k iv) (demo_C 0 meth k iv)"
proof -
  have "demo_C enc meth k iv = xor_at (\<lambda>_. 90) 0" for enc
    by (simp add: demo_C_def fun_eq_iff)
  then show ?thesis
    by (simp add: ks.incremental_pair_axioms)
qed

definition demo_KS :: key_streams where
  "demo_KS meth = demo_pad"

lemma demo_stream_laws: "stream_laws (demo a) (demo_digest 16) demo_KS demo_C"
proof -
  have "lib_sizes_ok (demo a)" "sodium_stream_laws (demo a) demo_KS" "\<forall>x. mbedtls_md5_ret (demo a) x = (0, demo_digest 16 x)"
    by (simp_all add: lib_sizes_ok_def heap_ok_def demo_def demo_heap_def sodium_stream_laws_def demo_xor_def demo_KS_def)
  then show ?thesis
    by (simp add: stream_laws_def demo_C_pair demo_stream_ok) (simp add: demo_digest_def)
qed

lemma demo_stream_info: "stream_info_ok (demo a)"
proof -
  have "\<exists>kt. stream_get_cipher_type (demo a) (int m) = Some kt \<and> kt_key_bitlen kt = 8 * supported_stream_ciphers_key_size ! m \<and>
      (m \<noteq> 2 \<longrightarrow> kt_iv_size kt = supported_stream_ciphers_nonce_size ! m)" if "m \<in> {1, 2, 3, 4, 5, 6, 7, 8, 9, 10, 11, 12}" for m
    using that by (elim insertE emptyE) (simp_all add: stream_get_cipher_type_def demo_mbedtls demo_info_def
        supported_stream_ciphers_key_size_def supported_stream_ciphers_nonce_size_def supported_stream_ciphers_mbedtls_def Let_def)
  moreover have "set [1..<13] = {1, 2, 3, 4, 5, 6, 7, 8, 9, 10, 11, 12 :: nat}"
    by (rule set_eqI) (simp, presburger)
  ultimately show ?thesis
    by (simp only: stream_info_ok_def) blast
qed

lemma demo_md5_law: "md5_law (demo a) (demo_digest 16)"
  using demo_md_incremental by (auto simp: md5_law_def demo_def)

text \<open>Exact real arithmetic.\<close>

definition demo_libm :: libm where
  "demo_libm = \<lparr>fl = (\<lambda>x. x), log_d = ln\<rparr>"

lemma demo_libm_ok: "libm_ok demo_libm"
  by (simp add: libm_ok_def demo_libm_def)

section \<open>A process\<close>

definition demo_bloom :: bloom where
  "demo_bloom = \<lparr>bl_entries = 5000, bl_error = 1 / 10, bl_bits = 64, bl_bytes = 8, bl_hashes = 3, bl_bpe = 1,
     bl_bf = replicate 8 0, bl_ready = 1\<rparr>"

definition demo_pp :: ppbloom_t where
  "demo_pp = \<lparr>pp_bloom = (\<lambda>_. demo_bloom), pp_count = (\<lambda>_. 0), pp_current = 0, pp_entries = 5000, pp_error = 1 / 10\<rparr>"

definition demo_world :: world where
  "demo_world = \<lparr>w_pp = demo_pp, w_draws = 0, w_tmp = (\<lambda>_. null_buffer), w_md5 = replicate 16 0\<rparr>"

definition demo_cipher :: "int \<Rightarrow> cipher_t" where
  "demo_cipher meth = \<lparr>ci_method = meth, ci_skey = 0, ci_info = None,
     ci_nonce_len = supported_aead_ciphers_nonce_size ! nat meth, ci_key_len = supported_aead_ciphers_key_size ! nat meth,
     ci_tag_len = 16, ci_key = replicate 64 7\<rparr>"

definition buf_of :: "bytes \<Rightarrow> buffer_t" where
  "buf_of d = \<lparr>b_idx = 0, b_len = length d, b_cap = length d, b_data = d\<rparr>"

lemma wf_buf_of [simp]: "wf_buffer (buf_of d)"
  by (simp add: wf_buffer_def wf_block_def buf_of_def)

lemma contents_buf_of [simp]: "contents (buf_of d) = d" "b_len (buf_of d) = length d"
  by (simp_all add: contents_def buf_of_def)

lemma wf_demo_pp: "wf_pp demo_pp"
  by (simp add: wf_pp_def demo_pp_def demo_bloom_def wf_bloom_def)

lemma wf_demo_world: "wf_world demo_world"
  using wf_demo_pp wf_null_buffer by (simp add: wf_world_def demo_world_def wf_buffer_def)

lemma demo_unseen: "\<not> seen demo_world salt"
proof -
  have "wf_bloom demo_bloom"
    by (simp add: wf_bloom_def demo_bloom_def)
  then have "positions demo_bloom (salt, int (length salt)) \<noteq> {}"
    by (rule positions_nonempty) (simp add: elem_ok_def)
  then show ?thesis
    by (simp add: seen_def pp_found_def bloom_found_def demo_world_def demo_pp_def) (simp add: demo_bloom_def)
qed

lemma wf_demo_cipher: "meth \<in> {0, 1, 2, 3, 4} \<Longrightarrow> wf_cipher (demo_cipher meth)"
  by (auto simp: wf_cipher_def demo_cipher_def supported_aead_ciphers_nonce_size_def supported_aead_ciphers_key_size_def
      supported_aead_ciphers_tag_size_def)


lemma wf_demo_sworld: "wf_sworld demo_world"
  using wf_demo_world by (simp add: wf_sworld_def) (simp add: demo_world_def)

lemma demo_process_ok: "process_ok (demo a) demo_libm demo_world (demo_digest 16) demo_HM demo_S"
  using demo_laws [of a] demo_md5_law [of a] demo_libm_ok wf_demo_sworld
  by (simp add: process_ok_def wf_sworld_def wf_world_def) (simp add: demo_def)

lemma demo_stream_process_ok:
  "stream_process_ok (demo a) demo_libm demo_world (demo_digest 16) (demo_digest 16) demo_KS demo_C"
  using demo_stream_laws [of a] demo_stream_info [of a] demo_md5_law [of a] demo_libm_ok wf_demo_sworld
  by (simp add: stream_process_ok_def wf_sworld_def wf_world_def) (simp add: demo_def)

definition demo_stream_cipher :: "nat \<Rightarrow> cipher_t" where
  "demo_stream_cipher i = stream_password_cipher (demo 0) (demo_digest 16) [112, 119] i"

lemma wf_demo_stream_cipher: "stream_supported i \<Longrightarrow> wf_stream_cipher (demo_stream_cipher i)"
  unfolding demo_stream_cipher_def by (rule wf_stream_password_cipher [OF demo_md5_law])

end
