(* ===== verification/SS_Witness.thy ===== *)
theory SS_Witness
  imports SS_Demo
begin

text \<open>
  The properties applied to concrete processes: the libraries are the instance of \<^verbatim>\<open>SS_Demo\<close>, with and
  without the AES instructions of the processor, and the worlds, keys and messages are given.
\<close>

section \<open>Packets\<close>

lemmas demo_facts = demo_laws wf_demo_world demo_unseen wf_buf_of

definition demo_msg :: bytes where
  "demo_msg = [104, 101, 108, 108, 111]"

theorem aead_packet_roundtrip_witness:
  "\<exists>b1 w1. aead_encrypt_all (demo 1) demo_world (buf_of demo_msg) (demo_cipher 2) 0 = Inr (CRYPTO_OK, b1, w1) \<and> wf_buffer b1 \<and>
    (\<forall>r. wf_buffer r \<longrightarrow> contents r = contents b1 \<longrightarrow>
      (\<exists>b2 w2. aead_decrypt_all (demo 0) demo_world r (demo_cipher 2) 4096 = Inr (CRYPTO_OK, b2, w2) \<and> wf_buffer b2 \<and> wf_world w2 \<and>
        contents b2 = contents (buf_of demo_msg)))"
  by (rule aead_packet_roundtrip [OF demo_laws demo_laws wf_demo_cipher wf_demo_world wf_demo_world wf_buf_of _ demo_unseen])
    (simp_all add: demo_msg_def)

definition demo_packet :: bytes where
  "demo_packet = packet demo_HM demo_S (demo_cipher 3) (replicate 32 9) demo_msg"

theorem aead_packet_acceptance_witness:
  "\<exists>e b' w'. aead_decrypt_all (demo 0) demo_world (buf_of demo_packet) (demo_cipher 3) 0 = Inr (e, b', w') \<and> wf_world w' \<and>
    (let salt = take (ci_key_len (demo_cipher 3)) (contents (buf_of demo_packet)) in
     if (\<exists>m. m \<noteq> [] \<and> contents (buf_of demo_packet) = packet demo_HM demo_S (demo_cipher 3) salt m) \<and>
       length salt = ci_key_len (demo_cipher 3) \<and> \<not> seen demo_world salt
     then e = CRYPTO_OK \<and> contents (buf_of demo_packet) = packet demo_HM demo_S (demo_cipher 3) salt (contents b') \<and>
       recorded demo_world (w_pp w') salt
     else e = CRYPTO_ERROR \<and> b' = buf_of demo_packet \<and> w_pp w' = w_pp demo_world)"
  by (rule aead_packet_acceptance [OF demo_laws wf_demo_cipher wf_demo_world wf_buf_of]) simp

lemma demo_klen: "ci_key_len (demo_cipher 3) = 32"
  by (simp add: demo_cipher_def supported_aead_ciphers_key_size_def)

lemma demo_packet_salt: "take 32 demo_packet = replicate 32 9" "32 < length demo_packet"
  by (simp_all add: demo_packet_def packet_def seal_at_def demo_S_def length_demo_seal)

text \<open>The demonstration packet is accepted by a process that has not seen its salt.\<close>

lemma demo_packet_accepted:
  obtains b1 w1 where "aead_decrypt_all (demo 0) demo_world (buf_of demo_packet) (demo_cipher 3) 0 = Inr (CRYPTO_OK, b1, w1)"
    and "wf_world w1" and "seen w1 (replicate 32 9)"
proof -
  let ?b = "buf_of demo_packet" and ?c = "demo_cipher 3"
  have wfc: "wf_cipher ?c"
    by (rule wf_demo_cipher) simp
  obtain e b1 w1 where r: "aead_decrypt_all (demo 0) demo_world ?b ?c 0 = Inr (e, b1, w1)" "wf_world w1"
    and res: "if (\<exists>m. m \<noteq> [] \<and> contents ?b = packet demo_HM demo_S ?c (take (ci_key_len ?c) (contents ?b)) m) \<and>
       length (take (ci_key_len ?c) (contents ?b)) = ci_key_len ?c \<and> \<not> seen demo_world (take (ci_key_len ?c) (contents ?b))
     then e = CRYPTO_OK \<and> contents ?b = packet demo_HM demo_S ?c (take (ci_key_len ?c) (contents ?b)) (contents b1) \<and>
       recorded demo_world (w_pp w1) (take (ci_key_len ?c) (contents ?b))
     else e = CRYPTO_ERROR \<and> b1 = ?b \<and> w_pp w1 = w_pp demo_world"
    using packet_result [OF demo_laws wfc wf_demo_world wf_buf_of] unfolding Let_def by blast
  have "demo_msg \<noteq> [] \<and> contents ?b = packet demo_HM demo_S ?c (take (ci_key_len ?c) (contents ?b)) demo_msg"
    by (simp add: demo_klen demo_packet_salt) (simp add: demo_packet_def demo_msg_def)
  then have "e = CRYPTO_OK" "recorded demo_world (w_pp w1) (replicate 32 9)"
    using res demo_unseen demo_packet_salt by (auto simp: demo_klen split: if_splits)
  then show ?thesis
    using r recorded_seen [OF _ refl] by (intro that) simp_all
qed

theorem aead_packet_replay_witness:
  "\<exists>b1 w1 w2. aead_decrypt_all (demo 0) demo_world (buf_of demo_packet) (demo_cipher 3) 0 = Inr (CRYPTO_OK, b1, w1) \<and>
    aead_decrypt_all (demo 0) w1 (buf_of demo_packet) (demo_cipher 3) 0 = Inr (CRYPTO_ERROR, buf_of demo_packet, w2)"
proof -
  obtain b1 w1 where r: "aead_decrypt_all (demo 0) demo_world (buf_of demo_packet) (demo_cipher 3) 0 = Inr (CRYPTO_OK, b1, w1)"
    by (rule demo_packet_accepted)
  have "\<exists>w2. aead_decrypt_all (demo 0) (w1\<lparr>w_pp := w_pp w1\<rparr>) (buf_of demo_packet) (demo_cipher 3) 0 =
      Inr (CRYPTO_ERROR, buf_of demo_packet, w2) \<and> w_pp w2 = w_pp w1"
    by (rule aead_packet_replay [OF demo_laws wf_demo_cipher wf_demo_world wf_buf_of r, where ys = "[]"])
      (simp_all add: demo_world_def demo_pp_def)
  with r show ?thesis by auto
qed

section \<open>Streams\<close>

definition demo_bufs :: "buffer_t list" where
  "demo_bufs = [buf_of demo_msg, buf_of [1], buf_of [2, 3]]"

lemma demo_bufs_ok: "\<forall>b\<in>set demo_bufs. wf_buffer b \<and> payload_ok (contents b)" "demo_bufs \<noteq> []"
  by (simp_all add: demo_bufs_def demo_msg_def payload_ok_def)

theorem aead_stream_roundtrip_witness:
  "\<exists>ctx w1 sent ctx2 w2. aead_ctx_init (demo 1) demo_world (demo_cipher 4) 1 = Inr (ctx, w1) \<and>
    send_all (demo 1) w1 ctx 2048 demo_bufs = Inr (sent, ctx2, w2) \<and>
    (\<forall>frags. (\<forall>f\<in>set frags. wf_buffer f) \<longrightarrow> concat (map contents frags) = sent \<longrightarrow>
      (\<exists>rctx es rctx2 w3. aead_ctx_init (demo 0) demo_world (demo_cipher 4) 0 = Inr (rctx, demo_world) \<and>
         receive_all (demo 0) demo_world rctx 1 frags = Inr (es, concat (map contents demo_bufs), rctx2, w3) \<and>
         CRYPTO_ERROR \<notin> set es))"
  by (rule aead_stream_roundtrip [OF demo_laws demo_laws wf_demo_cipher wf_demo_world wf_demo_world demo_bufs_ok demo_unseen]) simp

lemma demo_receiver:
  obtains ctx where "aead_ctx_init (demo 0) demo_world (demo_cipher 1) 0 = Inr (ctx, demo_world)"
    and "receiver (demo 0) demo_HM (demo_cipher 1) ctx 0"
proof -
  have "wf_cipher (demo_cipher 1)"
    by (rule wf_demo_cipher) simp
  then obtain ctx where "aead_ctx_init (demo 0) demo_world (demo_cipher 1) 0 = Inr (ctx, demo_world)"
    "receiving (demo 0) demo_HM demo_S (demo_cipher 1) [] [] demo_world ctx [] 0"
    using receiving_init [OF demo_laws _ wf_demo_world demo_unseen] by blast
  then show ?thesis
    by (intro that [of ctx]) (auto simp: receiving_def)
qed

theorem aead_decrypt_refines_witness:
  "\<exists>ctx r. aead_ctx_init (demo 0) demo_world (demo_cipher 1) 0 = Inr (ctx, demo_world) \<and>
    aead_decrypt (demo 0) demo_world (buf_of (replicate 100 5)) ctx 0 = Inr r \<and>
    call_result (demo 0) demo_HM demo_S (demo_cipher 1) 0 demo_world ctx (chunk_bytes ctx @ contents (buf_of (replicate 100 5)))
      (buf_of (replicate 100 5)) r"
proof -
  obtain ctx where ctx: "aead_ctx_init (demo 0) demo_world (demo_cipher 1) 0 = Inr (ctx, demo_world)"
    "receiver (demo 0) demo_HM (demo_cipher 1) ctx 0"
    by (rule demo_receiver)
  from aead_decrypt_refines [OF demo_laws ctx(2) wf_demo_world wf_buf_of, of "replicate 100 5" 0] ctx(1) show ?thesis
    by blast
qed

theorem aead_stream_replay_witness:
  "\<exists>b1 w1 ctx ctx' w2. aead_decrypt_all (demo 0) demo_world (buf_of demo_packet) (demo_cipher 3) 0 = Inr (CRYPTO_OK, b1, w1) \<and>
    aead_ctx_init (demo 0) w1 (demo_cipher 3) 0 = Inr (ctx, w1) \<and>
    aead_decrypt (demo 0) w1 (buf_of demo_packet) ctx 0 = Inr (CRYPTO_ERROR, buf_of demo_packet, ctx', w2) \<and> w_pp w2 = w_pp w1"
proof -
  obtain b1 w1 where r: "aead_decrypt_all (demo 0) demo_world (buf_of demo_packet) (demo_cipher 3) 0 = Inr (CRYPTO_OK, b1, w1)"
    "wf_world w1" "seen w1 (replicate 32 9)"
    by (rule demo_packet_accepted)
  have "\<exists>ctx ctx' w2. aead_ctx_init (demo 0) w1 (demo_cipher 3) 0 = Inr (ctx, w1) \<and>
    aead_decrypt (demo 0) w1 (buf_of demo_packet) ctx 0 = Inr (CRYPTO_ERROR, buf_of demo_packet, ctx', w2) \<and> w_pp w2 = w_pp w1"
    by (rule aead_stream_replay [OF demo_laws wf_demo_cipher r(2) wf_buf_of])
      (use r(3) demo_packet_salt in \<open>simp_all add: demo_klen\<close>)
  with r(1) show ?thesis by blast
qed

theorem aead_stream_nonce_witness:
  "\<exists>ctx w1 ctx2 w2 salt nonces. aead_ctx_init (demo 0) demo_world (demo_cipher 0) 1 = Inr (ctx, w1) \<and>
    salt = take (ci_key_len (demo_cipher 0)) (cx_salt ctx) \<and>
    nonces = map (le_bytes (ci_nonce_len (demo_cipher 0))) [0..<2 * length demo_bufs] \<and> distinct nonces \<and>
    send_all (demo 0) w1 ctx 0 demo_bufs = Inr (salt @ concat (map (\<lambda>i.
        demo_S (ci_method (demo_cipher 0)) (subkey demo_HM (demo_cipher 0) salt) (nonces ! (2 * i)) (hdr (contents (demo_bufs ! i))) @
        demo_S (ci_method (demo_cipher 0)) (subkey demo_HM (demo_cipher 0) salt) (nonces ! (2 * i + 1)) (contents (demo_bufs ! i)))
      [0..<length demo_bufs]), ctx2, w2) \<and>
    nonce_of ctx2 = le_bytes (ci_nonce_len (demo_cipher 0)) (2 * length demo_bufs) \<and> nonce_of ctx2 \<notin> set nonces"
  by (rule aead_stream_nonce [OF demo_laws wf_demo_cipher wf_demo_world demo_bufs_ok])
    (simp_all add: demo_bufs_def demo_cipher_def supported_aead_ciphers_nonce_size_def)

section \<open>The replay filter\<close>

theorem ppbloom_replay_window_witness:
  "\<exists>s1 s2. ppbloom_add demo_pp [1, 2, 3, 4] 4 = Inr (0, s1) \<and>
    ppbloom_adds s1 [([5, 6], 2), ([7], 1)] = Inr s2 \<and> wf_pp s2 \<and> ppbloom_check s2 [1, 2, 3, 4] 4 = Inr 1"
  by (rule ppbloom_replay_window [OF wf_demo_pp]) (simp_all add: elem_ok_def demo_pp_def)

end
