(* ===== verification/SS_Socks5.thy ===== *)
theory SS_Socks5
  imports SS_Prelude
begin

text \<open>
  The SOCKS5 address of \<^verbatim>\<open>src/sockaddr_universal.h\<close> and its parser \<^verbatim>\<open>socks5_address_parse\<close> of
  \<^verbatim>\<open>src/sockaddr_universal.c\<close>. The union of the structure is its 256 bytes of memory, of which an IPv4 or
  IPv6 address occupies the first 4 or 16. \<open>encode_address\<close> is the wire format the parser is checked
  against.
\<close>

section \<open>The code\<close>

datatype SOCKS5_ADDRTYPE =
    SOCKS5_ADDRTYPE_INVALID | SOCKS5_ADDRTYPE_IPV4 | SOCKS5_ADDRTYPE_DOMAINNAME | SOCKS5_ADDRTYPE_IPV6

record socks5_address =
  s5_type :: SOCKS5_ADDRTYPE
  s5_addr :: bytes
  s5_port :: u16

definition ntohs :: "byte \<Rightarrow> byte \<Rightarrow> u16" where
  "ntohs b0 b1 = push_bit 8 (ucast b0) OR ucast b1"

text \<open>The common end of the three successful cases: the port behind the address.\<close>

definition s5_finish :: "bytes \<Rightarrow> nat \<Rightarrow> socks5_address \<Rightarrow> (bool \<times> socks5_address) res" where
  "s5_finish data offset addr =
     bnd (read_byte data offset) (\<lambda>b0. bnd (read_byte data (offset + 1)) (\<lambda>b1.
       Inr (True, addr\<lparr>s5_port := ntohs b0 b1\<rparr>)))"

definition socks5_address_parse ::
  "bytes option \<Rightarrow> nat \<Rightarrow> socks5_address \<Rightarrow> (bool \<times> socks5_address) res" where
  "socks5_address_parse p len addr =
     (case p of None \<Rightarrow> Inr (False, addr)
      | Some data \<Rightarrow>
        if len = 0 then Inr (False, addr)
        else bnd (read_byte data 0) (\<lambda>t.
          if t = 0x01 then
            if len < 1 + 4 + 2 then Inr (False, addr)
            else bnd (memcpy (s5_addr addr) 0 data 1 4) (\<lambda>a.
              s5_finish data (1 + 4) (addr\<lparr>s5_type := SOCKS5_ADDRTYPE_IPV4, s5_addr := a\<rparr>))
          else if t = 0x03 then
            bnd (read_byte data 1) (\<lambda>b.
            let addr_size = unat b in
            if len < 1 + 1 + addr_size + 2 then Inr (False, addr)
            else bnd (memset (s5_addr addr) 0 0 256) (\<lambda>a.
              bnd (memcpy a 0 data 2 addr_size) (\<lambda>a.
              s5_finish data (2 + addr_size) (addr\<lparr>s5_type := SOCKS5_ADDRTYPE_DOMAINNAME, s5_addr := a\<rparr>))))
          else if t = 0x04 then
            if len < 1 + 16 + 2 then Inr (False, addr)
            else bnd (memcpy (s5_addr addr) 0 data 1 16) (\<lambda>a.
              s5_finish data (1 + 16) (addr\<lparr>s5_type := SOCKS5_ADDRTYPE_IPV6, s5_addr := a\<rparr>))
          else Inr (False, addr\<lparr>s5_type := SOCKS5_ADDRTYPE_INVALID\<rparr>)))"

section \<open>The wire format\<close>

datatype endpoint = Ipv4 bytes u16 | Domain bytes u16 | Ipv6 bytes u16

fun wf_endpoint :: "endpoint \<Rightarrow> bool" where
  "wf_endpoint (Ipv4 a _) \<longleftrightarrow> length a = 4"
| "wf_endpoint (Domain d _) \<longleftrightarrow> length d < 256"
| "wf_endpoint (Ipv6 a _) \<longleftrightarrow> length a = 16"

fun encode_address :: "endpoint \<Rightarrow> bytes" where
  "encode_address (Ipv4 a p) = [0x01] @ a @ be16 p"
| "encode_address (Domain d p) = [0x03, of_nat (length d)] @ d @ be16 p"
| "encode_address (Ipv6 a p) = [0x04] @ a @ be16 p"

text \<open>What the structure holds for an endpoint; the rest of the union is unchanged or, for a name, zero.\<close>

fun store_endpoint :: "endpoint \<Rightarrow> socks5_address \<Rightarrow> socks5_address" where
  "store_endpoint (Ipv4 a p) s =
     s\<lparr>s5_type := SOCKS5_ADDRTYPE_IPV4, s5_addr := a @ drop 4 (s5_addr s), s5_port := p\<rparr>"
| "store_endpoint (Domain d p) s =
     s\<lparr>s5_type := SOCKS5_ADDRTYPE_DOMAINNAME, s5_addr := d @ replicate (256 - length d) 0, s5_port := p\<rparr>"
| "store_endpoint (Ipv6 a p) s =
     s\<lparr>s5_type := SOCKS5_ADDRTYPE_IPV6, s5_addr := a @ drop 16 (s5_addr s), s5_port := p\<rparr>"

lemma ntohs_be16 [simp]: "ntohs (ucast (drop_bit 8 (p :: u16))) (ucast p) = p"
  by (rule bit_word_eqI) (auto simp: ntohs_def bit_simps)

lemma be16_ntohs: "be16 (ntohs b0 b1) = [b0, b1]"
proof -
  have "ucast (drop_bit 8 (ntohs b0 b1)) = b0"
    by (rule bit_word_eqI) (auto simp: ntohs_def bit_simps dest: bit_imp_le_length)
  moreover have "ucast (ntohs b0 b1) = b1"
    by (rule bit_word_eqI) (auto simp: ntohs_def bit_simps)
  ultimately show ?thesis by (simp add: be16_def)
qed

lemma unat_len: "n < 256 \<Longrightarrow> unat (of_nat n :: byte) = n"
  by (simp add: unsigned_of_nat take_bit_nat_eq_self)

lemma nth_append_at: "i = length xs \<Longrightarrow> (xs @ y # ys) ! i = y"
  by simp

lemma parse_encoded:
  assumes "wf_endpoint e" and "length (s5_addr s) = 256" and "length (encode_address e) \<le> len"
  shows "socks5_address_parse (Some (encode_address e @ rest)) len s = Inr (True, store_endpoint e s)"
  using assms
  by (cases e) (auto simp: socks5_address_parse_def s5_finish_def mem_simps be16_def unat_len nth_append Let_def)

text \<open>What the parser accepts: the address type, and enough bytes for the address and the port.\<close>

definition complete :: "bytes \<Rightarrow> bool" where
  "complete d \<longleftrightarrow>
     d \<noteq> [] \<and> (hd d = 0x01 \<and> 7 \<le> length d \<or> hd d = 0x03 \<and> 2 \<le> length d \<and> unat (d ! 1) + 4 \<le> length d \<or>
       hd d = 0x04 \<and> 19 \<le> length d)"

definition port_at :: "nat \<Rightarrow> bytes \<Rightarrow> u16" where
  "port_at i d = ntohs (d ! i) (d ! (i + 1))"

lemma two_at: "i + 2 \<le> length d \<Longrightarrow> drop i d = be16 (port_at i d) @ drop (i + 2) d"
  by (simp add: port_at_def be16_ntohs Cons_nth_drop_Suc [symmetric])

lemma encoded_decompose:
  assumes "complete d"
  shows "\<exists>e rest. wf_endpoint e \<and> d = encode_address e @ rest"
proof -
  obtain t d' where d: "d = t # d'"
    using assms by (cases d) (auto simp: complete_def)
  consider (v4) "t = 0x01" "7 \<le> length d" | (v6) "t = 0x04" "19 \<le> length d"
    | (name) n xs where "t = 0x03" "d' = n # xs" "unat n + 2 \<le> length xs"
    using assms by (cases d') (auto simp: complete_def d)
  then show ?thesis
  proof cases
    case v4
    have "d' = take 4 d' @ be16 (port_at 4 d') @ drop 6 d'"
      using two_at [of 4 d'] v4 append_take_drop_id [of 4 d'] by (simp add: d)
    then show ?thesis
      using v4 by (intro exI [of _ "Ipv4 (take 4 d') (port_at 4 d')"] exI [of _ "drop 6 d'"]) (simp add: d)
  next
    case v6
    have "d' = take 16 d' @ be16 (port_at 16 d') @ drop 18 d'"
      using two_at [of 16 d'] v6 append_take_drop_id [of 16 d'] by (simp add: d)
    then show ?thesis
      using v6 by (intro exI [of _ "Ipv6 (take 16 d') (port_at 16 d')"] exI [of _ "drop 18 d'"]) (simp add: d)
  next
    case name
    have "xs = take (unat n) xs @ be16 (port_at (unat n) xs) @ drop (unat n + 2) xs"
      using two_at [of "unat n" xs] name(3) append_take_drop_id [of "unat n" xs] by simp
    then show ?thesis
      using name unsigned_less [of n]
      by (intro exI [of _ "Domain (take (unat n) xs) (port_at (unat n) xs)"] exI [of _ "drop (unat n + 2) xs"])
        (simp add: d min_def)
  qed
qed

lemma encoded_complete: "wf_endpoint e \<Longrightarrow> complete (encode_address e @ rest)"
  by (cases e) (auto simp: complete_def be16_def unat_len)

lemma parse_incomplete:
  assumes "\<not> complete d" and "d \<noteq> [0x03]"
  shows "\<exists>s'. socks5_address_parse (Some d) (length d) s = Inr (False, s') \<and> s5_addr s' = s5_addr s \<and> s5_port s' = s5_port s"
  using assms
  by (cases d; cases "tl d") (auto simp: socks5_address_parse_def complete_def read_byte_def Let_def)

section \<open>Properties\<close>

text \<open>C30: \<^verbatim>\<open>socks5_address_parse\<close> accepts a block exactly when it starts with a complete SOCKS5 address (IPv4,
  domain name or IPv6, with its port), and then stores that address whatever follows it; on every other
  block it returns false with address and port untouched. The one block left out is the single byte 3, on
  which the code reads the name length behind the end.\<close>

theorem socks5_parse_accepts:
  assumes "length (s5_addr s) = 256" and "d \<noteq> [0x03]"
  shows "\<exists>ok s'. socks5_address_parse (Some d) (length d) s = Inr (ok, s') \<and>
    (ok \<longleftrightarrow> (\<exists>e rest. wf_endpoint e \<and> d = encode_address e @ rest)) \<and>
    (\<forall>e rest. wf_endpoint e \<longrightarrow> d = encode_address e @ rest \<longrightarrow> s' = store_endpoint e s) \<and>
    (\<not> ok \<longrightarrow> s5_addr s' = s5_addr s \<and> s5_port s' = s5_port s)"
proof (cases "complete d")
  case True
  then obtain e rest where e: "wf_endpoint e" "d = encode_address e @ rest"
    using encoded_decompose by blast
  have m: "socks5_address_parse (Some d) (length d) s = Inr (True, store_endpoint e s)"
    using parse_encoded [OF e(1) assms(1), of "length d" rest] e(2) by simp
  have uniq: "store_endpoint e s = store_endpoint e' s" if "wf_endpoint e'" "d = encode_address e' @ rest'" for e' rest'
    using m that(2) parse_encoded [OF that(1) assms(1), of "length d" rest'] by simp
  show ?thesis
  proof (intro exI [of _ True] exI [of _ "store_endpoint e s"] conjI m allI impI)
    show "True \<longleftrightarrow> (\<exists>e rest. wf_endpoint e \<and> d = encode_address e @ rest)"
      using e by blast
    show "store_endpoint e s = store_endpoint e' s" if "wf_endpoint e'" "d = encode_address e' @ rest'" for e' rest'
      using that by (rule uniq)
  qed simp_all
next
  case False
  then have no: "\<not> (\<exists>e rest. wf_endpoint e \<and> d = encode_address e @ rest)"
    using encoded_complete by auto
  obtain s' where "socks5_address_parse (Some d) (length d) s = Inr (False, s')"
    "s5_addr s' = s5_addr s" "s5_port s' = s5_port s"
    using parse_incomplete [OF False assms(2)] by auto
  with no show ?thesis
    by (intro exI [of _ False] exI [of _ s']) auto
qed

text \<open>A domain-name type byte without the length byte behind it: the parser reads \<^verbatim>\<open>data[1]\<close> before it compares
  the length, which is outside a block of one byte.\<close>

theorem socks5_parse_overread: "socks5_address_parse (Some [0x03]) 1 s = Inl UB"
  by (simp add: socks5_address_parse_def read_byte_def)

end
