(* ===== verification/SS_WitnessKeys.thy ===== *)
theory SS_WitnessKeys
  imports SS_Demo SS_Socks5
begin

text \<open>
  The properties of key derivation, Base64, address parsing, stream ciphers and cipher set-up applied to concrete
  processes, with the libraries of \<^verbatim>\<open>SS_Demo\<close>.
\<close>

section \<open>Key derivation\<close>

theorem derive_key_is_bytes_to_key_witness:
  "crypto_derive_key (demo 0) (Some [1, 2, 3]) (replicate 32 0) 32 =
    Inr (int_of_size 32, take 32 (bytes_to_key (demo_digest 16) [1, 2, 3] [] 32) @ drop 32 (replicate 32 0))"
  by (rule derive_key_is_bytes_to_key [OF demo_md_incremental]) (simp_all add: demo_def)

theorem hkdf_is_rfc5869_witness:
  "crypto_hkdf (demo 0) [20] (Some (replicate 32 1)) (int 32) (replicate 64 2) (int 32) (Some [7, 8]) (int (length [7 :: byte, 8]))
      (Some (replicate 64 0)) (int 45) =
    Inr (0, take 45 (hkdf_stream demo_HM (demo_HM (take 32 (replicate 32 1)) (take 32 (replicate 64 2))) [7, 8] 255) @
      drop 45 (replicate 64 0))"
  by (rule hkdf_is_rfc5869 [OF demo_hmac_incremental]) (simp_all add: demo_def)

theorem hkdf_too_long_witness:
  "crypto_hkdf (demo 0) [20] (Some [1]) (int 1) [2] (int 1) (Some [3]) (int (length [3 :: byte])) (Some [9]) (int 6000) = Inr (1, [9])"
  by (rule hkdf_too_long [OF demo_hmac_incremental]) (simp_all add: demo_def)

section \<open>Base64\<close>

theorem base64_encode_is_rfc4648_witness:
  "base64_encode (replicate 20 0) 20 [1, 2, 3, 250] (int (length [1 :: byte, 2, 3, 250])) =
    Inr (True, base64_text [1, 2, 3, 250] @ [0] @ drop (length (base64_text [1, 2, 3, 250]) + 1) (replicate 20 0))"
  by (rule base64_encode_is_rfc4648) (simp_all add: BASE64_SIZE_def)

theorem base64_roundtrip_witness:
  "\<exists>text. base64_encode (replicate 20 0) 9 [200, 2, 3, 250] (int (length [200 :: byte, 2, 3, 250])) = Inr (True, text) \<and>
    base64_decode (replicate 5 0) text (int 5) = Inr (int (length [200 :: byte, 2, 3, 250]),
      [200, 2, 3, 250] @ drop (length [200 :: byte, 2, 3, 250]) (replicate 5 0))"
  by (rule base64_roundtrip) (simp_all add: BASE64_SIZE_def)

theorem base64_decode_total_witness:
  "\<exists>out'. base64_decode (replicate 9 0) [65, 66, 67, 33] (int 6) =
      Inr (if list_all b64_valid (b64_body [65, 66, 67, 33])
           then int (min 6 (length (b64_body [65, 66, 67, 33]) - (length (b64_body [65, 66, 67, 33]) + 3) div 4)) else -1, out') \<and>
    length out' = length (replicate 9 (0 :: byte)) \<and> drop 6 out' = drop 6 (replicate 9 0)"
  by (rule base64_decode_total) simp

section \<open>Addresses\<close>

definition demo_s5 :: socks5_address where
  "demo_s5 = \<lparr>s5_type = SOCKS5_ADDRTYPE_INVALID, s5_addr = replicate 256 0, s5_port = 0\<rparr>"

theorem socks5_parse_accepts_witness:
  "\<exists>ok s'. socks5_address_parse (Some [1, 127, 0, 0, 1, 0, 80]) (length [1 :: byte, 127, 0, 0, 1, 0, 80]) demo_s5 = Inr (ok, s') \<and>
    (ok \<longleftrightarrow> (\<exists>e rest. wf_endpoint e \<and> [1, 127, 0, 0, 1, 0, 80] = encode_address e @ rest)) \<and>
    (\<forall>e rest. wf_endpoint e \<longrightarrow> [1, 127, 0, 0, 1, 0, 80] = encode_address e @ rest \<longrightarrow> s' = store_endpoint e demo_s5) \<and>
    (\<not> ok \<longrightarrow> s5_addr s' = s5_addr demo_s5 \<and> s5_port s' = s5_port demo_s5)"
  by (rule socks5_parse_accepts) (simp_all add: demo_s5_def)

section \<open>Stream ciphers\<close>

definition demo_stream_bufs :: "buffer_t list" where
  "demo_stream_bufs = [buf_of [1, 2, 3], buf_of [4], buf_of (replicate 100 5)]"

lemma demo_stream_bufs_ok: "\<forall>b\<in>set demo_stream_bufs. wf_buffer b \<and> b_len b \<noteq> 0" "demo_stream_bufs \<noteq> []"
  "length (concat (map contents demo_stream_bufs)) = 104"
  by (simp_all add: demo_stream_bufs_def)

lemma demo_stream_sizes: "ci_nonce_len (demo_stream_cipher i) = supported_stream_ciphers_nonce_size ! i"
  "ci_method (demo_stream_cipher i) = int i" "2 ^ 38 \<le> stream_limit (demo_stream_cipher i)"
  by (simp_all add: demo_stream_cipher_def stream_password_cipher_def cipher_of_def stream_limit_def)

theorem stream_roundtrip_witness:
  "\<exists>ctx w1 sent ctx2 w2. stream_ctx_init (demo 0) demo_world (demo_stream_cipher 5) 1 = Inr (ctx, w1) \<and>
    s_send_all (demo 0) w1 ctx 2048 demo_stream_bufs = Inr (sent, ctx2, w2) \<and>
    (\<forall>frags. (\<forall>f\<in>set frags. wf_buffer f) \<longrightarrow> concat (map contents frags) = sent \<longrightarrow>
      (\<exists>rctx es rctx2 w3. stream_ctx_init (demo 1) demo_world (demo_stream_cipher 5) 0 = Inr (rctx, demo_world) \<and>
         s_receive_all (demo 1) demo_world rctx 0 frags = Inr (es, concat (map contents demo_stream_bufs), rctx2, w3) \<and>
         CRYPTO_ERROR \<notin> set es))"
proof -
  have "stream_supported 5"
    by (simp add: stream_supported_def)
  moreover have "ci_nonce_len (demo_stream_cipher 5) + length (concat (map contents demo_stream_bufs)) < stream_limit (demo_stream_cipher 5)"
    using demo_stream_sizes(3) [of 5] by (simp add: demo_stream_sizes demo_stream_bufs_ok supported_stream_ciphers_nonce_size_def)
  ultimately show ?thesis
    by (intro stream_roundtrip [OF demo_stream_laws demo_stream_laws wf_demo_stream_cipher wf_demo_sworld wf_demo_sworld
          demo_stream_bufs_ok(1,2)] demo_unseen)
qed

theorem stream_packet_roundtrip_witness:
  "\<exists>p w1. stream_encrypt_all (demo 0) demo_world (buf_of [1, 2, 3]) (demo_stream_cipher 20) 0 = Inr (CRYPTO_OK, p, w1) \<and>
    (if seen demo_world (randombytes_buf (demo 0) (w_draws demo_world) (ci_nonce_len (demo_stream_cipher 20)))
     then \<exists>w2. stream_decrypt_all (demo 1) demo_world p (demo_stream_cipher 20) 0 = Inr (CRYPTO_ERROR, p, w2) \<and> w_pp w2 = w_pp demo_world
     else \<exists>q w2. stream_decrypt_all (demo 1) demo_world p (demo_stream_cipher 20) 0 = Inr (CRYPTO_OK, q, w2) \<and>
       contents q = contents (buf_of [1, 2, 3]) \<and>
       seen w2 (randombytes_buf (demo 0) (w_draws demo_world) (ci_nonce_len (demo_stream_cipher 20))))"
proof -
  have "stream_supported 20"
    by (simp add: stream_supported_def)
  moreover have "ci_nonce_len (demo_stream_cipher 20) + b_len (buf_of [1, 2, 3]) < stream_limit (demo_stream_cipher 20)"
    using demo_stream_sizes(3) [of 20] by (simp add: demo_stream_sizes supported_stream_ciphers_nonce_size_def)
  ultimately show ?thesis
    by (intro stream_packet_roundtrip [OF demo_stream_laws demo_stream_laws wf_demo_stream_cipher wf_demo_sworld wf_demo_sworld wf_buf_of])
      simp_all
qed

text \<open>A process whose filter has every bit set has seen every nonce.\<close>

definition full_world :: world where
  "full_world = demo_world\<lparr>w_pp := demo_pp\<lparr>pp_bloom := (\<lambda>_. demo_bloom\<lparr>bl_bf := replicate 8 (- 1)\<rparr>)\<rparr>\<rparr>"

lemma wf_full_world: "wf_sworld full_world"
proof -
  have "wf_bloom (demo_bloom\<lparr>bl_bf := replicate 8 (- 1)\<rparr>)"
    by (simp add: wf_bloom_def demo_bloom_def)
  then have "wf_pp (demo_pp\<lparr>pp_bloom := (\<lambda>_. demo_bloom\<lparr>bl_bf := replicate 8 (- 1)\<rparr>)\<rparr>)"
    by (simp add: wf_pp_def demo_pp_def)
  then show ?thesis
    using wf_demo_sworld by (simp add: wf_sworld_def wf_world_def full_world_def)
qed

lemma full_seen: "seen full_world salt"
proof -
  let ?f = "demo_bloom\<lparr>bl_bf := replicate 8 (- 1)\<rparr>"
  have "bitset (bl_bf ?f) = {j. j < 64}"
    by (auto simp: bitset_def)
  moreover have "unat (x mod word_of_int (bl_bits ?f)) < 64" for x :: u32
    by (simp add: demo_bloom_def unat_mod)
  then have "positions ?f (salt, int (length salt)) \<subseteq> {j. j < 64}"
    by (auto simp: positions_def probe_pos_def split: sum.splits)
  ultimately show ?thesis
    by (simp add: seen_def full_world_def pp_found_def bloom_found_def)
qed

theorem stream_replay_witness:
  "\<exists>ctx b' ctx' w'. stream_ctx_init (demo 0) full_world (demo_stream_cipher 8) 0 = Inr (ctx, full_world) \<and>
    stream_decrypt (demo 0) full_world (buf_of (replicate 40 1)) (Some ctx) 0 = Inr (CRYPTO_ERROR, b', Some ctx', w') \<and>
    w_pp w' = w_pp full_world"
proof -
  have "stream_supported 8"
    by (simp add: stream_supported_def)
  then show ?thesis
    by (intro stream_replay [OF demo_stream_laws wf_demo_stream_cipher _ wf_full_world wf_buf_of _ full_seen])
      (simp_all add: demo_stream_sizes supported_stream_ciphers_nonce_size_def)
qed

section \<open>Cipher set-up\<close>

theorem ppbloom_init_client_ok_witness:
  "\<exists>pp. ppbloom_init demo_heap demo_libm demo_pp 10000 (1 / 10 ^ 15) = Inr (0, pp) \<and> wf_pp pp \<and> pp_entries pp = 5000 \<and>
    (\<forall>buf. ppbloom_check pp buf (int (length buf)) = Inr 0)"
  by (rule ppbloom_init_client_ok [OF demo_libm_ok]) (simp add: heap_ok_def demo_heap_def)

theorem crypto_init_dispatch_witness:
  "\<exists>pp. wf_pp pp \<and> (\<forall>buf. ppbloom_check pp buf (int (length buf)) = Inr 0) \<and>
    (\<forall>method. crypto_init (demo 0) demo_libm demo_world (Some [112, 119]) None method =
      (case method_outcome (demo 0) (demo_digest 16) [112, 119] method of Inl e \<Rightarrow> Inl e
       | Inr c \<Rightarrow> Inr (c, demo_world\<lparr>w_pp := pp\<rparr>)))"
  by (rule crypto_init_dispatch [OF demo_laws demo_stream_info demo_md5_law _ demo_libm_ok]) (simp add: demo_def)

lemma demo_sizes_ok: "lib_sizes_ok (demo a)"
  using demo_laws [of a] by (simp add: lib_laws_def)

theorem crypto_parse_key_text_witness:
  "crypto_parse_key (demo 0) demo_world (base64_text (replicate 32 5)) (replicate 64 0) 32 =
    (if 32 \<le> length (replicate 32 (5 :: byte)) then Inr (int 32, take 32 (replicate 32 5) @ drop 32 (replicate 64 0), demo_world)
     else Inl (FATAL ''Please use the key above or input a valid key''))"
  by (rule crypto_parse_key_text [OF demo_sizes_ok]) simp_all

theorem crypto_parse_key_garbage_witness:
  "crypto_parse_key (demo 0) demo_world [65, 33, 65] (replicate 64 0) 16 =
    Inl (FATAL ''Please use the key above or input a valid key'')"
proof -
  have "b64_body [65, 33, 65] = [65, 33, 65]" "\<not> b64_valid 33"
    by (simp_all add: b64_body_def b64_stop_def b64_valid_def b64_index_def map2_table_def)
  then show ?thesis
    by (intro crypto_parse_key_garbage [OF demo_sizes_ok]) simp_all
qed

theorem aead_password_session_witness:
  "\<exists>cr v v' ctx v1 sent ctx2 v2.
    crypto_init (demo 0) demo_libm demo_world (Some [112, 119]) None (Some (supported_aead_ciphers ! 3)) = Inr (Some cr, v) \<and>
    crypto_init (demo 1) demo_libm demo_world (Some [112, 119]) None (Some (supported_aead_ciphers ! 3)) = Inr (Some cr, v') \<and>
    cr = aead_crypto (cr_cipher cr) \<and>
    cr_ctx_init cr (demo 0) v (cr_cipher cr) 1 = Inr (ctx, v1) \<and> send_all (demo 0) v1 ctx 2048 demo_stream_bufs = Inr (sent, ctx2, v2) \<and>
    (\<forall>frags. (\<forall>f\<in>set frags. wf_buffer f) \<longrightarrow> concat (map contents frags) = sent \<longrightarrow>
      (\<exists>rctx es rctx2 v3. cr_ctx_init cr (demo 1) v' (cr_cipher cr) 0 = Inr (rctx, v') \<and>
         receive_all (demo 1) v' rctx 2048 frags = Inr (es, concat (map contents demo_stream_bufs), rctx2, v3) \<and>
         CRYPTO_ERROR \<notin> set es))"
  by (rule aead_password_session [OF demo_process_ok demo_process_ok])
    (simp_all add: aead_info_def demo_stream_bufs_def payload_ok_def)

theorem stream_password_session_witness:
  "\<exists>cr v v' ctx v1 sent ctx2 v2.
    crypto_init (demo 0) demo_libm demo_world (Some [112, 119]) None (Some (supported_stream_ciphers ! 2)) = Inr (Some cr, v) \<and>
    crypto_init (demo 1) demo_libm demo_world (Some [112, 119]) None (Some (supported_stream_ciphers ! 2)) = Inr (Some cr, v') \<and>
    cr = stream_crypto (cr_cipher cr) \<and>
    cr_ctx_init cr (demo 0) v (cr_cipher cr) 1 = Inr (ctx, v1) \<and> s_send_all (demo 0) v1 ctx 2048 demo_stream_bufs = Inr (sent, ctx2, v2) \<and>
    (\<forall>frags. (\<forall>f\<in>set frags. wf_buffer f) \<longrightarrow> concat (map contents frags) = sent \<longrightarrow>
      (\<exists>rctx es rctx2 v3. cr_ctx_init cr (demo 1) v' (cr_cipher cr) 0 = Inr (rctx, v') \<and>
         s_receive_all (demo 1) v' rctx 2048 frags = Inr (es, concat (map contents demo_stream_bufs), rctx2, v3) \<and>
         CRYPTO_ERROR \<notin> set es))"
proof (rule stream_password_session [OF demo_stream_process_ok demo_stream_process_ok _ _ demo_stream_bufs_ok(1,2)])
  show "stream_info (demo 0) (int 2) = stream_info (demo 1) (int 2)"
    by (simp add: stream_info_def stream_get_cipher_type_def demo_mbedtls Let_def)
qed (simp_all add: stream_supported_def demo_stream_bufs_ok supported_stream_ciphers_nonce_size_def)

end
