(* ===== verification/SS_CxxBuffer.thy ===== *)
theory SS_CxxBuffer
  imports SS_Crypto
begin

text \<open>
  The C++ wrapper \<^verbatim>\<open>Buffer\<close> of \<^verbatim>\<open>src/Buffer.cpp\<close>: an owned \<^verbatim>\<open>buffer_t\<close>, always allocated, with append, replace,
  drop and the calls through the function table of the cipher. An event's data is the list of its bytes. In
  contrast to the C functions it calls \<^verbatim>\<open>malloc\<close> and \<^verbatim>\<open>realloc\<close> directly and does not look at their result. The
  locale \<open>byte_queue\<close> is the contract the relays rely on.
\<close>

abbreviation (input) BUF_DEFAULT_CAPACITY :: nat where "BUF_DEFAULT_CAPACITY \<equiv> 16383"

text \<open>\<^verbatim>\<open>UDPRelay::DEFAULT_PACKET_SIZE\<close> is 1492 - (1 + 28 + 2 + 64).\<close>

abbreviation (input) DEFAULT_PACKET_SIZE :: nat where "DEFAULT_PACKET_SIZE \<equiv> 1397"

section \<open>The operations\<close>

definition Buffer_newBuf :: "heap \<Rightarrow> buffer_t res" where
  "Buffer_newBuf h =
     (if \<not> avail h SIZEOF_BUFFER then Inl UB
      else bnd (balloc h BUF_DEFAULT_CAPACITY) (\<lambda>(_, b).
        Inr (b\<lparr>b_cap := BUF_DEFAULT_CAPACITY, b_len := 0, b_idx := 0\<rparr>)))"

text \<open>The index is converted to \<^verbatim>\<open>size_t\<close> by the remainder operation.\<close>

definition Buffer_at :: "buffer_t \<Rightarrow> int \<Rightarrow> byte res" where
  "Buffer_at b idx = (if b_cap b = 0 then Inl UB else read_byte (b_data b) (nat (idx mod 2 ^ 64) mod b_cap b))"

definition Buffer_clear :: "buffer_t \<Rightarrow> buffer_t" where
  "Buffer_clear b = b\<lparr>b_len := 0\<rparr>"

definition Buffer_drop :: "buffer_t \<Rightarrow> nat \<Rightarrow> buffer_t res" where
  "Buffer_drop b n =
     (if b_len b < n then Inr b
      else bnd (memmove (b_data b) 0 n (b_len b - n)) (\<lambda>d. Inr (b\<lparr>b_data := d, b_len := b_len b - n\<rparr>)))"

text \<open>A failed \<^verbatim>\<open>realloc\<close> leaves the null pointer with the new capacity.\<close>

definition Buffer_bufRealloc :: "heap \<Rightarrow> buffer_t \<Rightarrow> nat \<Rightarrow> buffer_t" where
  "Buffer_bufRealloc h b n =
     (if b_cap b = n then b
      else b\<lparr>b_data := (if avail h n then take n (b_data b) @ drop (length (b_data b)) (fresh h n) else []),
             b_cap := n, b_len := (if n < b_len b then n else b_len b)\<rparr>)"

definition Buffer_duplicateDataToArray :: "buffer_t \<Rightarrow> bytes res" where
  "Buffer_duplicateDataToArray b = read_mem (b_data b) 0 (b_len b)"

text \<open>The private \<^verbatim>\<open>copy(start, end)\<close> appends; the overloads for TCP and UDP events make room first.\<close>

definition Buffer_append :: "buffer_t \<Rightarrow> bytes \<Rightarrow> buffer_t res" where
  "Buffer_append b xs =
     bnd (write_mem (b_data b) (b_len b) xs) (\<lambda>d. Inr (b\<lparr>b_data := d, b_len := b_len b + length xs\<rparr>))"

definition Buffer_copy :: "heap \<Rightarrow> buffer_t \<Rightarrow> bytes \<Rightarrow> buffer_t res" where
  "Buffer_copy h b event =
     (if length event = 0 then Inr b
      else if length event + b_len b \<le> b_cap b then Buffer_append b event
      else Buffer_append (Buffer_bufRealloc h b ((b_len b + length event) * 2)) event)"

definition Buffer_copy_udp :: "heap \<Rightarrow> buffer_t \<Rightarrow> bytes \<Rightarrow> buffer_t res" where
  "Buffer_copy_udp h b event =
     (if length event = 0 then Inr b
      else if length event + b_len b \<le> b_cap b then Buffer_append b event
      else Buffer_append (Buffer_bufRealloc h b ((b_len b + length event) * 2)) event)"

text \<open>Replace the contents by the first \<open>n\<close> bytes at \<open>start\<close>.\<close>

definition Buffer_copyFromBegin :: "heap \<Rightarrow> buffer_t \<Rightarrow> bytes \<Rightarrow> nat \<Rightarrow> buffer_t res" where
  "Buffer_copyFromBegin h b start n =
     bnd (read_mem start 0 n) (\<lambda>xs.
     let b = b\<lparr>b_len := 0\<rparr> in
     if n \<le> b_cap b then Buffer_append b xs
     else Buffer_append (Buffer_bufRealloc h b (n * 2)) xs)"

text \<open>The overload for an event: the length -1 stands for the whole event, any other is converted to \<^verbatim>\<open>size_t\<close>.\<close>

definition Buffer_copyFromBegin_event :: "heap \<Rightarrow> buffer_t \<Rightarrow> bytes \<Rightarrow> int \<Rightarrow> buffer_t res" where
  "Buffer_copyFromBegin_event h b event len =
     Buffer_copyFromBegin h b event (if len = -1 then length event else nat (len mod 2 ^ 64))"

text \<open>Assignment from another buffer, without a look at the capacity.\<close>

definition Buffer_copy_buffer :: "buffer_t \<Rightarrow> buffer_t \<Rightarrow> buffer_t res" where
  "Buffer_copy_buffer b that =
     bnd (memcpy (b_data b) 0 (b_data that) 0 (b_len that)) (\<lambda>d. Inr (b\<lparr>b_data := d, b_len := b_len that\<rparr>))"

definition Buffer_setLength :: "buffer_t \<Rightarrow> int \<Rightarrow> buffer_t" where
  "Buffer_setLength b l = b\<lparr>b_len := nat (l mod 2 ^ 64)\<rparr>"

section \<open>Calls through the cipher\<close>

definition Buffer_ssEncrypt ::
  "crypto_lib \<Rightarrow> world \<Rightarrow> CipherEnv \<Rightarrow> buffer_t \<Rightarrow> cipher_ctx_t option \<Rightarrow> (int \<times> buffer_t \<times> cipher_ctx_t option \<times> world) res" where
  "Buffer_ssEncrypt L w env b e_ctx =
     (case ce_crypto env of None \<Rightarrow> Inl UB | Some cr \<Rightarrow> cr_encrypt cr L w b e_ctx BUF_DEFAULT_CAPACITY)"

definition Buffer_ssDecrypt ::
  "crypto_lib \<Rightarrow> world \<Rightarrow> CipherEnv \<Rightarrow> buffer_t \<Rightarrow> cipher_ctx_t option \<Rightarrow> (int \<times> buffer_t \<times> cipher_ctx_t option \<times> world) res" where
  "Buffer_ssDecrypt L w env b d_ctx =
     (case ce_crypto env of None \<Rightarrow> Inl UB | Some cr \<Rightarrow> cr_decrypt cr L w b d_ctx BUF_DEFAULT_CAPACITY)"

definition Buffer_ssEncryptAll :: "crypto_lib \<Rightarrow> world \<Rightarrow> CipherEnv \<Rightarrow> buffer_t \<Rightarrow> (int \<times> buffer_t \<times> world) res" where
  "Buffer_ssEncryptAll L w env b =
     (case ce_crypto env of None \<Rightarrow> Inl UB
      | Some cr \<Rightarrow> cr_encrypt_all cr L w b (cr_cipher cr) (DEFAULT_PACKET_SIZE * 2))"

definition Buffer_ssDecryptALl :: "crypto_lib \<Rightarrow> world \<Rightarrow> CipherEnv \<Rightarrow> buffer_t \<Rightarrow> (int \<times> buffer_t \<times> world) res" where
  "Buffer_ssDecryptALl L w env b =
     (case ce_crypto env of None \<Rightarrow> Inl UB
      | Some cr \<Rightarrow> cr_decrypt_all cr L w b (cr_cipher cr) (DEFAULT_PACKET_SIZE * 2))"

section \<open>The contract\<close>

text \<open>A byte queue with an invariant: append at the end, remove from the front, replace, read all.\<close>

locale byte_queue =
  fixes inv :: "'b \<Rightarrow> bool"
    and items :: "'b \<Rightarrow> bytes"
    and put :: "'b \<Rightarrow> bytes \<Rightarrow> 'b res"
    and cut :: "'b \<Rightarrow> nat \<Rightarrow> 'b res"
    and all :: "'b \<Rightarrow> bytes res"
  assumes put_law: "inv b \<Longrightarrow> \<exists>b'. put b xs = Inr b' \<and> inv b' \<and> items b' = items b @ xs"
    and cut_law: "inv b \<Longrightarrow> n \<le> length (items b) \<Longrightarrow> \<exists>b'. cut b n = Inr b' \<and> inv b' \<and> items b' = drop n (items b)"
    and all_law: "inv b \<Longrightarrow> all b = Inr (items b)"
begin

fun put_all :: "'b \<Rightarrow> bytes list \<Rightarrow> 'b res" where
  "put_all b [] = Inr b"
| "put_all b (x # xs) = bnd (put b x) (\<lambda>b. put_all b xs)"

text \<open>However the bytes arrive, the queue holds their concatenation.\<close>

lemma put_all_items: "inv b \<Longrightarrow> \<exists>b'. put_all b xs = Inr b' \<and> inv b' \<and> items b' = items b @ concat xs"
proof (induction xs arbitrary: b)
  case (Cons x xs)
  obtain b1 where b1: "put b x = Inr b1" "inv b1" "items b1 = items b @ x"
    using put_law [OF Cons.prems] by blast
  from Cons.IH [OF b1(2)] b1 show ?case by auto
qed simp

lemma put_all_cut:
  assumes "inv b"
  shows "\<exists>b1 b2. put_all b xs = Inr b1 \<and> inv b1 \<and> items b1 = items b @ concat xs \<and>
    cut b1 (length (items b)) = Inr b2 \<and> inv b2 \<and> all b2 = Inr (concat xs)"
proof -
  obtain b1 where b1: "put_all b xs = Inr b1" "inv b1" "items b1 = items b @ concat xs"
    using put_all_items [OF assms] by blast
  then obtain b2 where "cut b1 (length (items b)) = Inr b2" "inv b2" "items b2 = concat xs"
    using cut_law [of b1 "length (items b)"] by auto
  with b1 show ?thesis
    using all_law [of b2] by auto
qed

end

section \<open>The buffer keeps the contract\<close>

lemma bufRealloc_ok:
  assumes "heap_ok h" and "wf_buffer b" and "b_len b \<le> n"
  shows "wf_buffer (Buffer_bufRealloc h b n)" "contents (Buffer_bufRealloc h b n) = contents b"
    "b_cap (Buffer_bufRealloc h b n) = n" "b_len (Buffer_bufRealloc h b n) = b_len b"
  using assms by (auto simp: Buffer_bufRealloc_def wf_buffer_def wf_block_def contents_def fresh_def)

lemma bufRealloc_wf:
  assumes "heap_ok h" and "wf_buffer b"
  shows "wf_buffer (Buffer_bufRealloc h b n)" "b_cap (Buffer_bufRealloc h b n) = n"
  using assms by (auto simp: Buffer_bufRealloc_def wf_buffer_def wf_block_def fresh_def)

lemma Buffer_append_ok:
  assumes "wf_buffer b" and "b_len b + length xs \<le> b_cap b"
  obtains b' where "Buffer_append b xs = Inr b'" "wf_buffer b'" "contents b' = contents b @ xs" "b_cap b' = b_cap b"
proof -
  let ?d = "take (b_len b) (b_data b) @ xs @ drop (b_len b + length xs) (b_data b)"
  let ?b = "b\<lparr>b_data := ?d, b_len := b_len b + length xs\<rparr>"
  have "length (b_data b) = b_cap b"
    using assms(1) by (simp add: wf_bufferD)
  with assms show ?thesis
    by (intro that [of ?b]) (simp_all add: Buffer_append_def write_mem_ok wf_buffer_def wf_block_def contents_def)
qed

lemma Buffer_copy_ok:
  assumes "heap_ok h" and "wf_buffer b"
  obtains b' where "Buffer_copy h b xs = Inr b'" "wf_buffer b'" "contents b' = contents b @ xs"
proof -
  consider "xs = []" | "xs \<noteq> []" "length xs + b_len b \<le> b_cap b" | "xs \<noteq> []" "b_cap b < length xs + b_len b"
    by linarith
  then show ?thesis
  proof cases
    case 1
    with assms(2) show ?thesis
      by (intro that [of b]) (simp_all add: Buffer_copy_def)
  next
    case 2
    with assms(2) obtain b' where "Buffer_append b xs = Inr b'" "wf_buffer b'" "contents b' = contents b @ xs"
      using Buffer_append_ok [of b xs] by (metis add.commute)
    with 2 show ?thesis
      by (intro that [of b']) (simp_all add: Buffer_copy_def)
  next
    case 3
    let ?r = "Buffer_bufRealloc h b ((b_len b + length xs) * 2)"
    have r: "wf_buffer ?r" "contents ?r = contents b" "b_cap ?r = (b_len b + length xs) * 2" "b_len ?r = b_len b"
      using bufRealloc_ok [OF assms, of "(b_len b + length xs) * 2"] by simp_all
    then obtain b' where "Buffer_append ?r xs = Inr b'" "wf_buffer b'" "contents b' = contents b @ xs"
      using Buffer_append_ok [of ?r xs] by auto
    with 3 show ?thesis
      by (intro that [of b']) (simp_all add: Buffer_copy_def)
  qed
qed

lemma Buffer_copy_udp_eq: "Buffer_copy_udp = Buffer_copy"
  by (simp add: fun_eq_iff Buffer_copy_udp_def Buffer_copy_def)

lemma Buffer_drop_ok:
  assumes "wf_buffer b" and "n \<le> b_len b"
  obtains b' where "Buffer_drop b n = Inr b'" "wf_buffer b'" "contents b' = drop n (contents b)" "b_cap b' = b_cap b"
proof -
  let ?k = "b_len b - n"
  let ?b = "b\<lparr>b_data := take 0 (b_data b) @ take ?k (drop n (b_data b)) @ drop (0 + ?k) (b_data b), b_len := ?k\<rparr>"
  have l: "length (b_data b) = b_cap b" "b_len b \<le> b_cap b"
    using assms(1) by (simp_all add: wf_bufferD)
  with assms(2) show ?thesis
    by (intro that [of ?b]) (simp_all add: Buffer_drop_def memmove_ok wf_buffer_def wf_block_def contents_def drop_take)
qed

lemma Buffer_duplicate_ok: "wf_buffer b \<Longrightarrow> Buffer_duplicateDataToArray b = Inr (contents b)"
  by (simp add: Buffer_duplicateDataToArray_def read_mem_ok wf_bufferD contents_def)

interpretation bq: byte_queue "\<lambda>b. heap_ok h \<and> wf_buffer b" contents "Buffer_copy h" Buffer_drop Buffer_duplicateDataToArray for h
proof unfold_locales
  fix b :: buffer_t and xs :: bytes
  assume "heap_ok h \<and> wf_buffer b"
  then show "\<exists>b'. Buffer_copy h b xs = Inr b' \<and> (heap_ok h \<and> wf_buffer b') \<and> contents b' = contents b @ xs"
    using Buffer_copy_ok [of h b xs] by metis
next
  fix b :: buffer_t and n
  assume "heap_ok h \<and> wf_buffer b" and "n \<le> length (contents b)"
  then show "\<exists>b'. Buffer_drop b n = Inr b' \<and> (heap_ok h \<and> wf_buffer b') \<and> contents b' = drop n (contents b)"
    using Buffer_drop_ok [of b n] by (metis length_contents)
next
  fix b :: buffer_t
  assume "heap_ok h \<and> wf_buffer b"
  then show "Buffer_duplicateDataToArray b = Inr (contents b)"
    by (simp add: Buffer_duplicate_ok)
qed

lemma Buffer_copyFromBegin_ok:
  assumes "heap_ok h" and "wf_buffer b" and "n \<le> length xs"
  obtains b' where "Buffer_copyFromBegin h b xs n = Inr b'" "wf_buffer b'" "contents b' = take n xs"
proof -
  let ?b = "b\<lparr>b_len := 0\<rparr>"
  have wf: "wf_buffer ?b" "contents ?b = []" "b_len ?b = 0" "b_cap ?b = b_cap b"
    using assms(2) by (simp_all add: wf_buffer_def wf_block_def contents_def)
  show ?thesis
  proof (cases "n \<le> b_cap b")
    case True
    then obtain b' where "Buffer_append ?b (take n xs) = Inr b'" "wf_buffer b'" "contents b' = take n xs"
      using Buffer_append_ok [OF wf(1), of "take n xs"] wf assms(3) by auto
    with True assms(3) show ?thesis
      by (intro that [of b']) (simp_all add: Buffer_copyFromBegin_def read_mem_ok)
  next
    case False
    let ?r = "Buffer_bufRealloc h ?b (n * 2)"
    have "wf_buffer ?r" "contents ?r = []" "b_cap ?r = n * 2" "b_len ?r = 0"
      using bufRealloc_ok [OF assms(1) wf(1), of "n * 2"] wf by simp_all
    then obtain b' where "Buffer_append ?r (take n xs) = Inr b'" "wf_buffer b'" "contents b' = take n xs"
      using Buffer_append_ok [of ?r "take n xs"] assms(3) by auto
    with False assms(3) show ?thesis
      by (intro that [of b']) (simp_all add: Buffer_copyFromBegin_def read_mem_ok)
  qed
qed

lemma Buffer_newBuf_ok:
  assumes "heap_ok h"
  obtains b where "Buffer_newBuf h = Inr b" "wf_buffer b" "contents b = []" "b_cap b = BUF_DEFAULT_CAPACITY" "b_len b = 0"
  using assms by (auto simp: Buffer_newBuf_def balloc_def ss_malloc_def null_buffer_def wf_buffer_def wf_block_def contents_def)

lemma Buffer_copy_buffer_ok:
  assumes "wf_buffer b" and "wf_buffer that"
  shows "Buffer_copy_buffer b that =
    (if b_len that \<le> b_cap b
     then Inr (b\<lparr>b_data := contents that @ drop (b_len that) (b_data b), b_len := b_len that\<rparr>) else Inl UB)"
  using assms by (simp add: Buffer_copy_buffer_def memcpy_def read_mem_def write_mem_def wf_bufferD contents_def)

section \<open>Properties\<close>

text \<open>A run of events appended one after the other.\<close>

fun Buffer_copy_all :: "heap \<Rightarrow> buffer_t \<Rightarrow> bytes list \<Rightarrow> buffer_t res" where
  "Buffer_copy_all h b [] = Inr b"
| "Buffer_copy_all h b (e # es) = bnd (Buffer_copy h b e) (\<lambda>b. Buffer_copy_all h b es)"

lemma Buffer_copy_all_eq: "Buffer_copy_all h b es = bq.put_all h b es"
  by (induction es arbitrary: b) simp_all

text \<open>C36: appending to a \<^verbatim>\<open>Buffer\<close>, in any number of events of any n, keeps it well formed, never writes outside
  its memory and collects exactly the bytes in order; dropping the old contents afterwards leaves the new bytes.\<close>

theorem Buffer_collects:
  assumes "heap_ok h" and "wf_buffer b"
  shows "\<exists>b1 b2. Buffer_copy_all h b events = Inr b1 \<and> wf_buffer b1 \<and> contents b1 = contents b @ concat events \<and>
    Buffer_drop b1 (b_len b) = Inr b2 \<and> wf_buffer b2 \<and> Buffer_duplicateDataToArray b2 = Inr (concat events)"
  using bq.put_all_cut [of h b events] assms by (simp add: Buffer_copy_all_eq)

text \<open>\<^verbatim>\<open>Buffer::copy(const Buffer&)\<close> copies exactly when the source fits into the capacity of the destination;
  otherwise it writes behind the destination's memory.\<close>

theorem Buffer_copy_overflow:
  assumes "wf_buffer b" and "wf_buffer that"
  shows "if b_len that \<le> b_cap b then \<exists>b'. Buffer_copy_buffer b that = Inr b' \<and> wf_buffer b' \<and> contents b' = contents that
    else Buffer_copy_buffer b that = Inl UB"
  using assms by (auto simp: Buffer_copy_buffer_ok wf_buffer_def wf_block_def contents_def)

end
