(* ===== verification/SS_Emitter.thy ===== *)
theory SS_Emitter
  imports SS_Prelude "HOL-Library.Sublist"
begin

text \<open>
  The event emitter of \<^verbatim>\<open>src/uvw/emitter.h\<close>: per event type a handler with a list of one-shot and a list of
  long-lived listeners, each with a flag that marks it as erased. Listeners run with the state of the program,
  which contains the handler itself: a listener may register further listeners, erase some, or clear the
  handler while it is publishing. The handler is reached through \<open>get\<close> and \<open>put\<close>; \<open>run\<close> is what a listener does.

  \<^verbatim>\<open>publish\<close> moves the one-shot listeners into its local list \<^verbatim>\<open>currentL\<close>. A \<^verbatim>\<open>Connection\<close> is an iterator that stays valid
  when its element moves there, so a listener may still erase such an element, and the flag counts when its turn
  comes. The model keeps the \<^verbatim>\<open>currentL\<close> of the running calls of \<^verbatim>\<open>publish\<close>, the innermost first, beside the two lists.

  \<^verbatim>\<open>publish\<close> walks the long-lived listeners with a reverse iterator. A reverse iterator keeps the position behind
  the element it stands for; the first one keeps the end of the list, so a listener that appends another one
  during the very first call moves the iterator. The model keeps the position (\<open>walk_on\<close>). Positions and iterators
  agree as long as no element is taken out of the list during the walk; that takes a \<^verbatim>\<open>publish\<close> of the same event
  inside one of its listeners, which no listener of the program does.
\<close>

record 'l handler =
  h_publishing :: bool
  h_onceL :: "(bool \<times> 'l) list"
  h_onL :: "(bool \<times> 'l) list"
  h_currentL :: "(bool \<times> 'l) list list"

definition new_handler :: "'l handler" where
  "new_handler = \<lparr>h_publishing = False, h_onceL = [], h_onL = [], h_currentL = []\<rparr>"

definition handler_empty :: "'l handler \<Rightarrow> bool" where
  "handler_empty h \<longleftrightarrow> list_all fst (h_onceL h) \<and> list_all fst (h_onL h)"

definition handler_clear :: "'l handler \<Rightarrow> 'l handler" where
  "handler_clear h =
     (if h_publishing h
      then h\<lparr>h_onceL := map (\<lambda>(_, l). (True, l)) (h_onceL h), h_onL := map (\<lambda>(_, l). (True, l)) (h_onL h)\<rparr>
      else h\<lparr>h_onceL := [], h_onL := []\<rparr>)"

definition handler_once :: "'l \<Rightarrow> 'l handler \<Rightarrow> 'l handler" where
  "handler_once f h = h\<lparr>h_onceL := h_onceL h @ [(False, f)]\<rparr>"

definition handler_on :: "'l \<Rightarrow> 'l handler \<Rightarrow> 'l handler" where
  "handler_on f h = h\<lparr>h_onL := h_onL h @ [(False, f)]\<rparr>"

text \<open>A connection is an element of one of the two lists, or of the \<^verbatim>\<open>currentL\<close> of a running call of \<^verbatim>\<open>publish\<close>, the
  \<open>d\<close>-th from the innermost.\<close>

datatype connection = Once nat | On nat | Current nat nat

definition erase_at :: "nat \<Rightarrow> (bool \<times> 'l) list \<Rightarrow> (bool \<times> 'l) list res" where
  "erase_at i es = (if i < length es then Inr (es[i := (True, snd (es ! i))]) else Inl UB)"

definition handler_erase :: "connection \<Rightarrow> 'l handler \<Rightarrow> 'l handler res" where
  "handler_erase conn h =
     bnd (case conn of
            Once i \<Rightarrow> bnd (erase_at i (h_onceL h)) (\<lambda>es. Inr (h\<lparr>h_onceL := es\<rparr>))
          | On i \<Rightarrow> bnd (erase_at i (h_onL h)) (\<lambda>es. Inr (h\<lparr>h_onL := es\<rparr>))
          | Current d i \<Rightarrow>
              if d < length (h_currentL h)
              then bnd (erase_at i (h_currentL h ! d)) (\<lambda>es. Inr (h\<lparr>h_currentL := (h_currentL h)[d := es]\<rparr>))
              else Inl UB) (\<lambda>h.
     Inr (if h_publishing h then h
          else h\<lparr>h_onceL := filter (\<lambda>e. \<not> fst e) (h_onceL h), h_onL := filter (\<lambda>e. \<not> fst e) (h_onL h)\<rparr>))"

section \<open>Publishing\<close>

definition call_elem :: "('l \<Rightarrow> 's \<Rightarrow> 's res) \<Rightarrow> bool \<times> 'l \<Rightarrow> 's \<Rightarrow> 's res" where
  "call_elem run e s = (if fst e then Inr s else run (snd e) s)"

text \<open>The walk over the long-lived listeners from position \<open>b\<close> down: the flag is read when the element is
  reached.\<close>

primrec walk_on :: "('s \<Rightarrow> 'l handler) \<Rightarrow> ('l \<Rightarrow> 's \<Rightarrow> 's res) \<Rightarrow> nat \<Rightarrow> 's \<Rightarrow> 's res" where
  "walk_on get run 0 s = Inr s"
| "walk_on get run (Suc b) s =
     (if b < length (h_onL (get s)) then bnd (call_elem run (h_onL (get s) ! b) s) (walk_on get run b) else Inl UB)"

definition publish_on :: "('s \<Rightarrow> 'l handler) \<Rightarrow> ('l \<Rightarrow> 's \<Rightarrow> 's res) \<Rightarrow> 's \<Rightarrow> 's res" where
  "publish_on get run s =
     (if h_onL (get s) = [] then Inr s
      else bnd (call_elem run (last (h_onL (get s))) s) (\<lambda>s. walk_on get run (length (h_onL (get s)) - 1) s))"

text \<open>The walk over the one-shot listeners, which are in the innermost \<^verbatim>\<open>currentL\<close>. Nothing is added to that list.\<close>

primrec walk_current :: "('s \<Rightarrow> 'l handler) \<Rightarrow> ('l \<Rightarrow> 's \<Rightarrow> 's res) \<Rightarrow> nat \<Rightarrow> 's \<Rightarrow> 's res" where
  "walk_current get run 0 s = Inr s"
| "walk_current get run (Suc b) s =
     (case h_currentL (get s) of [] \<Rightarrow> Inl UB
      | cur # _ \<Rightarrow> if b < length cur then bnd (call_elem run (cur ! b) s) (walk_current get run b) else Inl UB)"

definition take_once :: "'l handler \<Rightarrow> 'l handler" where
  "take_once h = h\<lparr>h_onceL := [], h_currentL := h_onceL h # h_currentL h, h_publishing := True\<rparr>"

definition settle :: "'l handler \<Rightarrow> 'l handler" where
  "settle h = h\<lparr>h_publishing := False, h_onL := filter (\<lambda>e. \<not> fst e) (h_onL h), h_currentL := tl (h_currentL h)\<rparr>"

definition handler_publish ::
  "('s \<Rightarrow> 'l handler) \<Rightarrow> ('l handler \<Rightarrow> 's \<Rightarrow> 's) \<Rightarrow> ('l \<Rightarrow> 's \<Rightarrow> 's res) \<Rightarrow> 's \<Rightarrow> 's res" where
  "handler_publish get put run s =
     (let n = length (h_onceL (get s)); s = put (take_once (get s)) s in
      bnd (publish_on get run s) (\<lambda>s.
      bnd (walk_current get run n s) (\<lambda>s.
      Inr (put (settle (get s)) s))))"

section \<open>What publishing does\<close>

text \<open>Running a list of listeners, the last registered first.\<close>

fun run_all :: "('l \<Rightarrow> 's \<Rightarrow> 's res) \<Rightarrow> 'l list \<Rightarrow> 's \<Rightarrow> 's res" where
  "run_all run [] s = Inr s"
| "run_all run (l # ls) s = bnd (run l s) (run_all run ls)"

definition live :: "(bool \<times> 'l) list \<Rightarrow> 'l list" where
  "live es = map snd (filter (\<lambda>e. \<not> fst e) es)"

text \<open>The elements at the positions \<open>E\<close> are erased. A listener \<open>l\<close> erases, of the long-lived listeners and of the
  one-shot ones that wait for their turn, those at the positions \<open>er l\<close>.\<close>

definition mark :: "nat set \<Rightarrow> (bool \<times> 'l) list \<Rightarrow> (bool \<times> 'l) list" where
  "mark E es = map (\<lambda>(i, e). (fst e \<or> i \<in> E, snd e)) (enumerate 0 es)"

type_synonym 'l erasures = "'l \<Rightarrow> nat set \<times> nat set"

definition erasing :: "('s \<Rightarrow> 'l handler) \<Rightarrow> ('l \<Rightarrow> 's \<Rightarrow> 's res) \<Rightarrow> 'l erasures \<Rightarrow> bool" where
  "erasing get run er \<longleftrightarrow> (\<forall>l s s' cur rest. h_publishing (get s) \<longrightarrow> run l s = Inr s' \<longrightarrow>
     h_publishing (get s') \<and> h_onL (get s') = mark (fst (er l)) (h_onL (get s)) \<and>
     (h_currentL (get s) = cur # rest \<longrightarrow> h_currentL (get s') = mark (snd (er l)) cur # rest))"

text \<open>The listeners that are called: an element is skipped if it is erased by the time of its turn.\<close>

primrec turns_current :: "'l erasures \<Rightarrow> nat \<Rightarrow> (bool \<times> 'l) list \<Rightarrow> 'l list" where
  "turns_current er 0 cur = []"
| "turns_current er (Suc b) cur =
     (if fst (cur ! b) then turns_current er b cur
      else snd (cur ! b) # turns_current er b (mark (snd (er (snd (cur ! b)))) cur))"

primrec turns :: "'l erasures \<Rightarrow> nat \<Rightarrow> (bool \<times> 'l) list \<Rightarrow> (bool \<times> 'l) list \<Rightarrow> 'l list" where
  "turns er 0 on cur = turns_current er (length cur) cur"
| "turns er (Suc b) on cur =
     (if fst (on ! b) then turns er b on cur
      else let l = snd (on ! b) in l # turns er b (mark (fst (er l)) on) (mark (snd (er l)) cur))"

lemma length_mark [simp]: "length (mark E es) = length es"
  by (simp add: mark_def)

lemma mark_nth: "i < length es \<Longrightarrow> mark E es ! i = (fst (es ! i) \<or> i \<in> E, snd (es ! i))"
  by (simp add: mark_def nth_enumerate_eq)

lemma mark_none [simp]: "mark {} es = es"
  by (rule nth_equalityI) (simp_all add: mark_nth)

lemma live_take_Suc:
  "b < length es \<Longrightarrow> live (rev (take (Suc b) es)) = (if fst (es ! b) then [] else [snd (es ! b)]) @ live (rev (take b es))"
  by (simp add: take_Suc_conv_app_nth live_def)

lemma live_mark_take: "subseq (live (rev (take b (mark E es)))) (live (rev (take b es)))"
proof (induction b)
  case (Suc b)
  show ?case
  proof (cases "b < length es")
    case True
    then show ?thesis
      using Suc by (auto simp: live_take_Suc mark_nth intro: list_emb_Cons)
  qed (use Suc in simp)
qed (simp add: live_def)

lemma turns_current_subseq: "b \<le> length cur \<Longrightarrow> subseq (turns_current er b cur) (live (rev (take b cur)))"
proof (induction b arbitrary: cur)
  case (Suc b)
  let ?m = "mark (snd (er (snd (cur ! b)))) cur"
  have "subseq (turns_current er b ?m) (live (rev (take b cur)))"
    using Suc.IH [of ?m] live_mark_take Suc.prems by (auto intro: subseq_order.trans)
  then show ?case
    using Suc.IH [of cur] Suc.prems by (simp add: live_take_Suc)
qed (simp add: live_def)

lemma turns_subseq: "b \<le> length on \<Longrightarrow> subseq (turns er b on cur) (live (rev (take b on)) @ live (rev cur))"
proof (induction b arbitrary: on cur)
  case 0
  show ?case
    using turns_current_subseq [of "length cur" cur er] by (simp add: live_def)
next
  case (Suc b)
  let ?l = "snd (on ! b)"
  let ?m = "mark (fst (er ?l)) on" and ?c = "mark (snd (er ?l)) cur"
  have "subseq (live (rev (take b ?m)) @ live (rev ?c)) (live (rev (take b on)) @ live (rev cur))"
    using live_mark_take [of b "fst (er ?l)" on] live_mark_take [of "length cur" "snd (er ?l)" cur]
    by (intro list_emb_append_mono) simp_all
  then have "subseq (turns er b ?m ?c) (live (rev (take b on)) @ live (rev cur))"
    using Suc.IH [of ?m ?c] Suc.prems by (auto intro: subseq_order.trans)
  then show ?case
    using Suc.IH [of on cur] Suc.prems by (simp add: live_take_Suc Let_def)
qed

lemma turns_current_none: "b \<le> length cur \<Longrightarrow> turns_current (\<lambda>_. ({}, {})) b cur = live (rev (take b cur))"
proof (induction b)
  case (Suc b)
  then show ?case by (simp add: live_take_Suc)
qed (simp add: live_def)

lemma turns_none: "b \<le> length on \<Longrightarrow> turns (\<lambda>_. ({}, {})) b on cur = live (rev (take b on)) @ live (rev cur)"
proof (induction b)
  case (Suc b)
  then show ?case by (simp add: live_take_Suc Let_def)
qed (simp add: live_def turns_current_none)

lemma run_all_append: "run_all run (xs @ ys) s = bnd (run_all run xs s) (run_all run ys)"
  by (induction xs arbitrary: s) (auto simp: bnd_assoc intro: bnd_cong)

text \<open>Listeners that only append to the long-lived list and leave the waiting ones alone.\<close>

definition appending :: "('s \<Rightarrow> 'l handler) \<Rightarrow> ('l \<Rightarrow> 's \<Rightarrow> 's res) \<Rightarrow> bool" where
  "appending get run \<longleftrightarrow> (\<forall>l s s'. run l s = Inr s' \<longrightarrow>
     (\<exists>es. h_onL (get s') = h_onL (get s) @ es) \<and> h_currentL (get s') = h_currentL (get s))"

text \<open>Access to one component of a state.\<close>

locale component =
  fixes get :: "'s \<Rightarrow> 'l handler"
    and put :: "'l handler \<Rightarrow> 's \<Rightarrow> 's"
  assumes get_put: "get (put h s) = h"
    and put_put: "put h (put h' s) = put h s"
begin

lemma walk_current_turns:
  assumes "erasing get run er" and "h_currentL (get s) = cur # rest" and "b \<le> length cur" and "h_publishing (get s)"
  shows "walk_current get run b s = run_all run (turns_current er b cur) s"
  using assms(2-4)
proof (induction b arbitrary: s cur)
  case (Suc b)
  let ?e = "cur ! b"
  have "walk_current get run b t = run_all run (turns_current er b (mark (snd (er (snd ?e))) cur)) t"
    if "run (snd ?e) s = Inr t" for t
    using assms(1) that Suc.prems by (intro Suc.IH) (auto simp: erasing_def)
  then have "bnd (run (snd ?e) s) (walk_current get run b) =
      bnd (run (snd ?e) s) (run_all run (turns_current er b (mark (snd (er (snd ?e))) cur)))"
    by (intro bnd_cong) auto
  then show ?case
    using Suc.prems Suc.IH [of s cur] by (simp add: call_elem_def)
qed simp

lemma walk_turns:
  assumes "erasing get run er" and "h_currentL (get s) = cur # rest" and "b \<le> length (h_onL (get s))" and "n = length cur"
    and "h_publishing (get s)"
  shows "bnd (walk_on get run b s) (walk_current get run n) = run_all run (turns er b (h_onL (get s)) cur) s"
  using assms(2-5)
proof (induction b arbitrary: s cur)
  case 0
  then show ?case
    using walk_current_turns [OF assms(1), of s cur rest "length cur"] by simp
next
  case (Suc b)
  let ?on = "h_onL (get s)"
  let ?e = "?on ! b"
  have "bnd (walk_on get run b t) (walk_current get run n) =
      run_all run (turns er b (mark (fst (er (snd ?e))) ?on) (mark (snd (er (snd ?e))) cur)) t"
    if "run (snd ?e) s = Inr t" for t
  proof -
    have t: "h_onL (get t) = mark (fst (er (snd ?e))) ?on" "h_currentL (get t) = mark (snd (er (snd ?e))) cur # rest"
      "h_publishing (get t)"
      using assms(1) that Suc.prems(1,4) by (auto simp: erasing_def)
    show ?thesis
      using Suc.IH [OF t(2)] Suc.prems t(1,3) by simp
  qed
  then have "bnd (run (snd ?e) s) (\<lambda>t. bnd (walk_on get run b t) (walk_current get run n)) =
      bnd (run (snd ?e) s) (run_all run (turns er b (mark (fst (er (snd ?e))) ?on) (mark (snd (er (snd ?e))) cur)))"
    by (intro bnd_cong) auto
  then show ?case
    using Suc.prems Suc.IH [of s cur] by (simp add: call_elem_def bnd_assoc Let_def)
qed

text \<open>The first element is taken from the end of the list as it is before its call.\<close>

lemma publish_on_kept:
  assumes "\<And>l s'. run l s = Inr s' \<Longrightarrow> length (h_onL (get s')) = length (h_onL (get s))"
  shows "publish_on get run s = walk_on get run (length (h_onL (get s))) s"
proof (cases "h_onL (get s) = []")
  case False
  let ?es = "h_onL (get s)"
  obtain n where n: "length ?es = Suc n"
    using False by (cases ?es) auto
  then have l: "last ?es = ?es ! n"
    using False by (simp add: last_conv_nth)
  have "bnd (call_elem run (?es ! n) s) (\<lambda>s. walk_on get run (length (h_onL (get s)) - 1) s) =
      bnd (call_elem run (?es ! n) s) (walk_on get run n)"
    using assms n by (intro bnd_cong) (auto simp: call_elem_def split: if_splits)
  then show ?thesis
    using False n l by (simp add: publish_on_def)
qed (simp add: publish_on_def)

lemma publish_turns:
  assumes "erasing get run er"
  shows "handler_publish get put run s =
    bnd (run_all run (turns er (length (h_onL (get s))) (h_onL (get s)) (h_onceL (get s))) (put (take_once (get s)) s))
      (\<lambda>s'. Inr (put (settle (get s')) s'))"
proof -
  let ?s = "put (take_once (get s)) s"
  have g: "h_onL (get ?s) = h_onL (get s)" "h_currentL (get ?s) = h_onceL (get s) # h_currentL (get s)"
    "h_publishing (get ?s)"
    by (simp_all add: get_put take_once_def)
  have "publish_on get run ?s = walk_on get run (length (h_onL (get s))) ?s"
  proof (subst publish_on_kept)
    show "length (h_onL (get s')) = length (h_onL (get ?s))" if "run l ?s = Inr s'" for l s'
      using assms g(3) that unfolding erasing_def by (metis length_mark)
  qed (simp add: g(1))
  then show ?thesis
    using walk_turns [OF assms g(2)] by (simp add: handler_publish_def g(1,3) bnd_assoc [symmetric])
qed

lemma walk_current_live:
  assumes "appending get run" and "h_currentL (get s) = cur # rest" and "b \<le> length cur"
  shows "walk_current get run b s = run_all run (live (rev (take b cur))) s"
  using assms(2,3)
proof (induction b arbitrary: s)
  case (Suc b)
  have "bnd (run (snd (cur ! b)) s) (walk_current get run b) =
      bnd (run (snd (cur ! b)) s) (run_all run (live (rev (take b cur))))"
    using assms(1) Suc by (intro bnd_cong) (auto simp: appending_def)
  then show ?case
    using Suc by (simp add: call_elem_def live_take_Suc)
qed (simp add: live_def)

lemma walk_live:
  assumes "appending get run" and "h_currentL (get s) = cur # rest" and "b \<le> length (h_onL (get s))" and "n = length cur"
  shows "bnd (walk_on get run b s) (walk_current get run n) = run_all run (live (rev (take b (h_onL (get s)))) @ live (rev cur)) s"
  using assms(2,3)
proof (induction b arbitrary: s)
  case 0
  then show ?case
    using walk_current_live [OF assms(1), of s cur rest "length cur"] assms(4) by (simp add: live_def)
next
  case (Suc b)
  let ?es = "h_onL (get s)"
  have "bnd (walk_on get run b t) (walk_current get run n) = run_all run (live (rev (take b ?es)) @ live (rev cur)) t"
    if r: "run (snd (?es ! b)) s = Inr t" for t
  proof -
    obtain es where t: "h_onL (get t) = ?es @ es" "h_currentL (get t) = cur # rest"
      using assms(1) r Suc.prems(1) unfolding appending_def by metis
    show ?thesis
      using Suc.IH [OF t(2)] Suc.prems(2) t(1) by simp
  qed
  then have "bnd (run (snd (?es ! b)) s) (\<lambda>t. bnd (walk_on get run b t) (walk_current get run n)) =
      bnd (run (snd (?es ! b)) s) (run_all run (live (rev (take b ?es)) @ live (rev cur)))"
    by (intro bnd_cong) auto
  then show ?case
    using Suc by (simp add: call_elem_def bnd_assoc live_take_Suc)
qed

text \<open>The newest listener registers others: all but the last of these are called, and then it is called again.\<close>

lemma publish_registering:
  assumes "appending get run" and on: "h_onL (get s) = es @ [(False, l)]" and ms: "ms \<noteq> []"
    and reg: "\<And>s s'. run l s = Inr s' \<Longrightarrow> h_onL (get s') = h_onL (get s) @ map (Pair False) ms"
  shows "handler_publish get put run s =
    bnd (run_all run (l # rev (butlast ms) @ l # live (rev es) @ live (rev (h_onceL (get s)))) (put (take_once (get s)) s))
      (\<lambda>s'. Inr (put (settle (get s')) s'))"
proof -
  let ?s = "put (take_once (get s)) s" and ?n = "length (h_onceL (get s))"
  have g: "h_onL (get ?s) = es @ [(False, l)]" "h_currentL (get ?s) = h_onceL (get s) # h_currentL (get s)"
    by (simp_all add: get_put take_once_def on)
  have "bnd (walk_on get run (length (h_onL (get t)) - 1) t) (walk_current get run ?n) =
      run_all run (rev (butlast ms) @ l # live (rev es) @ live (rev (h_onceL (get s)))) t" if r: "run l ?s = Inr t" for t
  proof -
    have t: "h_onL (get t) = es @ (False, l) # map (Pair False) ms" "h_currentL (get t) = h_onceL (get s) # h_currentL (get s)"
      using reg [OF r] assms(1) r g unfolding appending_def by (simp, metis)
    have b: "length (h_onL (get t)) - 1 = length es + Suc (length (butlast ms))"
      using ms by (cases ms rule: rev_cases) (simp_all add: t(1))
    have "take (length es + Suc (length (butlast ms))) (h_onL (get t)) = es @ (False, l) # map (Pair False) (butlast ms)"
      using ms by (cases ms rule: rev_cases) (simp_all add: t(1))
    then show ?thesis
      using walk_live [OF assms(1) t(2), of "length es + Suc (length (butlast ms))"] t(1) ms
      by (simp add: b live_def rev_map filter_map o_def)
  qed
  then have "bnd (run l ?s) (\<lambda>t. bnd (walk_on get run (length (h_onL (get t)) - 1) t) (walk_current get run ?n)) =
      bnd (run l ?s) (run_all run (rev (butlast ms) @ l # live (rev es) @ live (rev (h_onceL (get s)))))"
    by (intro bnd_cong) auto
  then show ?thesis
    by (simp add: handler_publish_def publish_on_def g(1) call_elem_def bnd_assoc [symmetric])
qed

end

text \<open>A state that is the handler and the rest of the program.\<close>

interpretation pr: component fst "\<lambda>h s. (h, snd s)"
  by unfold_locales simp_all

section \<open>Properties\<close>

text \<open>C31: \<^verbatim>\<open>publish\<close> calls the listeners in turn, the long-lived ones first, each group from the newest to the oldest, and
  skips those that are erased when their turn comes. Listeners may erase any long-lived or waiting one-shot listener
  of their handler (the function \<open>er\<close>), register one-shot ones and do anything else but register long-lived ones for
  the same event. The calls are then the list \<open>turns\<close>, a subsequence of the listeners that are live at the beginning,
  so that each is called at most once; if nobody erases anything, it is all of them. The one-shot listeners leave the
  handler before the first call, so what a listener registers with \<^verbatim>\<open>once\<close> waits for the next event.\<close>

theorem emitter_publish:
  fixes h :: "'l handler"
  assumes "erasing fst run er"
  defines "called \<equiv> turns er (length (h_onL h)) (h_onL h) (h_onceL h)"
  shows "handler_publish fst (\<lambda>h s. (h, snd s)) run (h, u) =
      bnd (run_all run called (h\<lparr>h_onceL := [], h_currentL := h_onceL h # h_currentL h, h_publishing := True\<rparr>, u))
        (\<lambda>(h', u'). Inr (h'\<lparr>h_publishing := False, h_onL := filter (\<lambda>e. \<not> fst e) (h_onL h'), h_currentL := tl (h_currentL h')\<rparr>, u')) \<and>
    subseq called (live (rev (h_onL h)) @ live (rev (h_onceL h))) \<and>
    ((\<forall>l. er l = ({}, {})) \<longrightarrow> called = live (rev (h_onL h)) @ live (rev (h_onceL h)))"
proof -
  have "called = live (rev (h_onL h)) @ live (rev (h_onceL h))" if "\<forall>l. er l = ({}, {})"
  proof -
    have "er = (\<lambda>_. ({}, {}))" using that by auto
    then show ?thesis unfolding called_def by (simp add: turns_none)
  qed
  moreover have "subseq called (live (rev (h_onL h)) @ live (rev (h_onceL h)))"
    using turns_subseq [of "length (h_onL h)" "h_onL h" er "h_onceL h"] by (simp add: called_def)
  ultimately show ?thesis
    using pr.publish_turns [OF assms(1), of "(h, u)"]
    by (simp add: case_prod_unfold called_def take_once_def settle_def)
qed


end
