(* ===== verification/SS_Net.thy ===== *)
theory SS_Net
  imports SS_Aead
begin

text \<open>
  Socket addresses and decimal text: \<^verbatim>\<open>ssr_get_sock_addr\<close> of \<^verbatim>\<open>src/NetUtils.cpp\<close>, and the \<^verbatim>\<open>%d\<close> conversion and
  \<^verbatim>\<open>atoi\<close> that the relays and the main program use. Name resolution and the text forms of addresses are
  libuv's: they are the fields of \<open>net_env\<close>.
\<close>

abbreviation (input) AF_INET :: int where "AF_INET \<equiv> 2"
abbreviation (input) AF_INET6 :: int where "AF_INET6 \<equiv> 10"

text \<open>The address family, the address and the port in network order, as they lie in \<^verbatim>\<open>sockaddr_storage\<close>.\<close>

record sockaddr =
  sa_family :: int
  sa_addr :: bytes
  sa_port :: bytes

record addrinfo =
  ai_family :: int
  ai_addr :: sockaddr

text \<open>\<^verbatim>\<open>uv_ip4_addr\<close> and \<^verbatim>\<open>uv_ip6_addr\<close> return a code and fill the structure, also when they fail.\<close>

record net_env =
  net_ip4_addr :: "bytes \<Rightarrow> int \<Rightarrow> int \<times> sockaddr"
  net_ip6_addr :: "bytes \<Rightarrow> int \<Rightarrow> int \<times> sockaddr"
  net_getaddrinfo :: "bytes \<Rightarrow> bytes \<Rightarrow> addrinfo list option"
  net_inet_ntop :: "int \<Rightarrow> bytes \<Rightarrow> bytes"

section \<open>Decimal numbers\<close>

fun dec_digits :: "nat \<Rightarrow> bytes" where
  "dec_digits n = (if n < 10 then [of_nat (48 + n)] else dec_digits (n div 10) @ [of_nat (48 + n mod 10)])"

declare dec_digits.simps [simp del]

definition sprintf_d :: "int \<Rightarrow> bytes" where
  "sprintf_d i = (if i < 0 then 45 # dec_digits (nat (- i)) else dec_digits (nat i))"

text \<open>The conversion into an array of \<open>n\<close> characters, terminator included.\<close>

definition sprintf_into :: "nat \<Rightarrow> int \<Rightarrow> bytes res" where
  "sprintf_into n i = (if length (sprintf_d i) < n then Inr (sprintf_d i) else Inl UB)"

text \<open>\<^verbatim>\<open>atoi\<close>: white space, a sign, and the digits up to the first other character.\<close>

definition is_digit :: "byte \<Rightarrow> bool" where
  "is_digit b \<longleftrightarrow> 48 \<le> unat b \<and> unat b \<le> 57"

definition is_space :: "byte \<Rightarrow> bool" where
  "is_space b \<longleftrightarrow> b = 32 \<or> 9 \<le> unat b \<and> unat b \<le> 13"

definition dec_value :: "bytes \<Rightarrow> nat" where
  "dec_value ds = foldl (\<lambda>n d. 10 * n + (unat d - 48)) 0 ds"

definition atoi :: "bytes \<Rightarrow> int" where
  "atoi s =
     (let s = dropWhile is_space s;
          (neg, s) = (case s of c # r \<Rightarrow> (if c = 45 then (True, r) else if c = 43 then (False, r) else (False, s)) | [] \<Rightarrow> (False, []));
          n = int (dec_value (takeWhile is_digit s))
      in if neg then - n else n)"

section \<open>Resolution\<close>

definition use_addrinfo :: "addrinfo \<Rightarrow> sockaddr \<Rightarrow> int \<times> sockaddr" where
  "use_addrinfo rp storage =
     (if ai_family rp = AF_INET then (AF_INET, ai_addr rp)
      else if ai_family rp = AF_INET6 then (AF_INET6, ai_addr rp)
      else (AF_INET, storage))"

definition ssr_get_sock_addr :: "net_env \<Rightarrow> bytes \<Rightarrow> int \<Rightarrow> sockaddr \<Rightarrow> int \<Rightarrow> (int \<times> sockaddr) res" where
  "ssr_get_sock_addr N host port storage ipv6first =
     (let (rc, storage) = net_ip4_addr N host port in
      if rc = 0 then Inr (AF_INET, storage)
      else
        let (rc, storage) = net_ip6_addr N host port in
        if rc = 0 then Inr (AF_INET6, storage)
        else
          bnd (sprintf_into 20 port) (\<lambda>digitBuffer.
          let prefer_af = (if ipv6first \<noteq> 0 then AF_INET6 else AF_INET) in
          Inr (case net_getaddrinfo N host digitBuffer of
                 None \<Rightarrow> (-1, storage)
               | Some ais \<Rightarrow>
                 (case find (\<lambda>rp. ai_family rp = prefer_af) ais of
                    Some rp \<Rightarrow> use_addrinfo rp storage
                  | None \<Rightarrow> (case ais of [] \<Rightarrow> (-1, storage) | rp # _ \<Rightarrow> use_addrinfo rp storage)))))"

section \<open>Lemmas\<close>

lemma unat_of_small: "m < 256 \<Longrightarrow> unat (of_nat m :: byte) = m"
  by (simp add: unsigned_of_nat take_bit_nat_eq_self)

lemma dec_digits_digit: "\<forall>d\<in>set (dec_digits n). is_digit d"
proof (induction n rule: dec_digits.induct)
  case (1 n)
  have "is_digit (of_nat (48 + k))" if "k < 10" for k
    using that by (simp add: is_digit_def unat_of_small del: of_nat_add of_nat_numeral)
  from this [of n] this [of "n mod 10"] 1 show ?case
    by (subst dec_digits.simps) (auto split: if_splits)
qed

lemma dec_value_snoc: "dec_value (ds @ [d]) = 10 * dec_value ds + (unat d - 48)"
  by (simp add: dec_value_def)

lemma dec_value_digits: "dec_value (dec_digits n) = n"
proof (induction n rule: dec_digits.induct)
  case (1 n)
  have v: "unat (of_nat (48 + k) :: byte) - 48 = k" if "k < 10" for k
    using that by (simp add: unat_of_small del: of_nat_add of_nat_numeral)
  show ?case
  proof (cases "n < 10")
    case True
    then show ?thesis
      using v [of n] by (subst dec_digits.simps) (simp add: dec_value_def)
  next
    case False
    then show ?thesis
      using 1 v [of "n mod 10"] by (subst dec_digits.simps) (simp add: dec_value_snoc)
  qed
qed

lemma dec_digits_ne: "dec_digits n \<noteq> []"
  by (subst dec_digits.simps) simp

lemma length_dec_digits: "n < 10 ^ Suc k \<Longrightarrow> length (dec_digits n) \<le> Suc k"
proof (induction k arbitrary: n)
  case 0
  then show ?case by (subst dec_digits.simps) simp
next
  case (Suc k)
  then have "n div 10 < 10 ^ Suc k"
    by (simp add: less_mult_imp_div_less)
  from Suc.IH [OF this] show ?case
    by (subst dec_digits.simps) simp
qed

lemma atoi_digits: "atoi (dec_digits n @ rest) = int n" if "rest = [] \<or> \<not> is_digit (hd rest)"
proof -
  obtain d ds where e: "dec_digits n = d # ds"
    using dec_digits_ne by (cases "dec_digits n") auto
  have "is_digit d"
    using dec_digits_digit [of n] e by simp
  then have d: "\<not> is_space d" "d \<noteq> 45" "d \<noteq> 43"
    by (auto simp: is_digit_def is_space_def)
  have "takeWhile is_digit (dec_digits n @ rest) = dec_digits n"
    using that dec_digits_digit [of n] by (cases rest) (auto simp: takeWhile_append2)
  then show ?thesis
    using d e dec_value_digits [of n] by (simp add: atoi_def)
qed

text \<open>Every \<^verbatim>\<open>int\<close> fits into the array of \<^verbatim>\<open>ssr_get_sock_addr\<close>.\<close>

lemma sprintf_int_fits:
  assumes "- (2 ^ 31) \<le> i" and "i < 2 ^ 31" and "12 \<le> n"
  shows "sprintf_into n i = Inr (sprintf_d i)"
proof -
  have "length (dec_digits (nat (abs i))) \<le> Suc 9"
    by (rule length_dec_digits) (use assms in auto)
  then have "length (sprintf_d i) < n"
    using assms(3) by (auto simp: sprintf_d_def)
  then show ?thesis
    by (simp add: sprintf_into_def)
qed

text \<open>The outcomes of a search for the preferred family in the results of a resolution.\<close>

lemma find_cases:
  obtains "ga = None \<or> ga = Some []"
  | ais i where "ga = Some ais" "i < length ais" "find p ais = Some (ais ! i)" "p (ais ! i)" "\<forall>j<i. \<not> p (ais ! j)"
  | rp ais where "ga = Some (rp # ais)" "find p (rp # ais) = None"
proof (cases ga)
  case (Some ais)
  show thesis
  proof (cases "find p ais")
    case None
    then show thesis using Some that(1,3) by (cases ais) auto
  next
    case (Some rp)
    then obtain i where "i < length ais" "p (ais ! i)" "rp = ais ! i" "\<forall>j<i. \<not> p (ais ! j)"
      using find_Some_iff [of p ais rp] by blast
    with \<open>ga = Some ais\<close> Some that(2) show thesis by blast
  qed
qed (use that(1) in simp)

section \<open>Properties\<close>

text \<open>C37: \<^verbatim>\<open>ssr_get_sock_addr\<close> prefers one family. A host that is not the text of an address is resolved;
  if there are results, the first one of the preferred family is chosen, and only if there is none of that family
  the first result of all. A chosen result of either internet family is stored and its family is the code; a
  chosen result of any other family is not stored: the code is \<^verbatim>\<open>AF_INET\<close> and the storage is as the failed
  address conversion left it. The code is -1 exactly if nothing was found. The port always fits into the array it
  is printed into.\<close>

theorem get_sock_addr_prefers:
  assumes "fst (net_ip4_addr N host port) \<noteq> 0" and "fst (net_ip6_addr N host port) \<noteq> 0"
    and "- (2 ^ 31) \<le> port" and "port < 2 ^ 31"
  shows "\<exists>af st'. ssr_get_sock_addr N host port st ipv6first = Inr (af, st') \<and>
    (af = -1 \<longleftrightarrow> net_getaddrinfo N host (sprintf_d port) \<in> {None, Some []}) \<and>
    (\<forall>ais. net_getaddrinfo N host (sprintf_d port) = Some ais \<longrightarrow> ais \<noteq> [] \<longrightarrow>
      (\<exists>i<length ais.
        (let preferred = (\<lambda>rp. ai_family rp = (if ipv6first \<noteq> 0 then AF_INET6 else AF_INET)) in
         if \<exists>rp\<in>set ais. preferred rp then preferred (ais ! i) \<and> (\<forall>j<i. \<not> preferred (ais ! j)) else i = 0) \<and>
        (if ai_family (ais ! i) \<in> {AF_INET, AF_INET6} then af = ai_family (ais ! i) \<and> st' = ai_addr (ais ! i)
         else af = AF_INET \<and> st' = snd (net_ip6_addr N host port))))"
proof -
  let ?ga = "net_getaddrinfo N host (sprintf_d port)" and ?p = "\<lambda>rp. ai_family rp = (if ipv6first \<noteq> 0 then AF_INET6 else AF_INET)"
  have sp: "sprintf_into 20 port = Inr (sprintf_d port)"
    using assms(3,4) by (rule sprintf_int_fits) simp
  obtain rc4 s4 rc6 s6 where ip: "net_ip4_addr N host port = (rc4, s4)" "net_ip6_addr N host port = (rc6, s6)" "rc4 \<noteq> 0" "rc6 \<noteq> 0"
    using assms(1,2) by (cases "net_ip4_addr N host port"; cases "net_ip6_addr N host port") auto
  have code: "fst (use_addrinfo rp s6) \<noteq> -1" for rp
    by (simp add: use_addrinfo_def)
  note run = ssr_get_sock_addr_def Let_def
  show ?thesis
  proof (rule find_cases [where ga = ?ga and p = ?p], goal_cases)
    case 1
    then show ?thesis using ip sp by (auto simp: run)
  next
    case (2 ais i)
    have "\<exists>rp\<in>set ais. ?p rp"
      using 2(2,4) nth_mem by blast
    with 2 code [of "ais ! i"] ip sp show ?thesis
      by (intro exI [of _ "fst (use_addrinfo (ais ! i) s6)"] exI [of _ "snd (use_addrinfo (ais ! i) s6)"] conjI)
        (auto simp: run use_addrinfo_def intro!: exI [of _ i])
  next
    case (3 rp ais)
    have "\<not> (\<exists>x\<in>set (rp # ais). ?p x)"
      using 3(2) unfolding find_None_iff by blast
    with 3 code [of rp] ip sp show ?thesis
      by (intro exI [of _ "fst (use_addrinfo rp s6)"] exI [of _ "snd (use_addrinfo rp s6)"] conjI)
        (auto simp: run use_addrinfo_def intro!: exI [of _ 0])
  qed
qed

end
