(* ===== verification/SS_TcpRelay.thy ===== *)
theory SS_TcpRelay
  imports SS_CxxBuffer SS_Emitter SS_Socks5 SS_Net
begin

text \<open>
  The TCP relay: the event handlers of \<^verbatim>\<open>TCPRelayImpl\<close> in \<^verbatim>\<open>src/local_uv.cpp\<close>, the connection context of
  \<^verbatim>\<open>src/ConnectionContext.cpp\<close>, and the uvw handle operations they use (\<^verbatim>\<open>uvw/handle.hpp\<close>, \<^verbatim>\<open>uvw/stream.h\<close>,
  \<^verbatim>\<open>uvw/tcp.cpp\<close>, \<^verbatim>\<open>uvw/request.hpp\<close>).

  libuv is the environment. It calls back (a read, a finished connection or write, a closed handle, a new client),
  which is one step of the relay; the calls the relay makes are the list \<open>rl_out\<close> in their order. What a call
  returns is \<open>uv_rc\<close> of the number of the call: a non-zero code makes uvw publish an error event on the handle at
  once. A handle is a number; the listeners registered on a handle are data, one constructor per lambda expression.
  A connection context lives as long as the map \<open>inComingConnections\<close> holds it; the references that the lambda
  expressions capture are the number of its client, and using one after the context is gone is \<open>UB\<close>.
\<close>

section \<open>State\<close>

type_synonym hid = nat

datatype data_listener = HandShakeReceive | HandShakeSendCallBack | ReadAllAddress | SockStream | RemoteRecv hid

text \<open>The listeners for the events that carry no data are all about one connection, named by its client.\<close>

record emitter =
  em_data :: "data_listener handler"
  em_end :: "hid handler"
  em_error :: "hid handler"
  em_close :: "hid handler"
  em_connect :: "hid handler"
  em_write :: "hid handler"

datatype uv_call = UvAccept hid | UvReadStart hid | UvConnect hid sockaddr | UvWrite hid bytes | UvClose hid

record uv_env =
  uv_rc :: "nat \<Rightarrow> int"
  uv_ip4_addr :: "string \<Rightarrow> int \<Rightarrow> bytes option"  \<comment> \<open>address and port as they lie in \<^verbatim>\<open>sockaddr_in\<close>\<close>

record ConnectionContext =
  cc_localBuf :: buffer_t
  cc_remoteBuf :: "buffer_t option"
  cc_e_ctx :: "cipher_ctx_t option"
  cc_d_ctx :: "cipher_ctx_t option"
  cc_client :: hid
  cc_remote :: "hid option"

record relay =
  rl_conns :: "hid \<rightharpoonup> ConnectionContext"
  rl_em :: "hid \<Rightarrow> emitter"
  rl_closing :: "hid \<Rightarrow> bool"
  rl_next :: hid
  rl_calls :: nat
  rl_out :: "uv_call list"
  rl_world :: world
  rl_cipher :: CipherEnv
  rl_address :: socks5_address
  rl_remoteAddr :: sockaddr
  rl_tx :: u64
  rl_rx :: u64

definition new_emitter :: emitter where
  "new_emitter = \<lparr>em_data = new_handler, em_end = new_handler, em_error = new_handler, em_close = new_handler,
     em_connect = new_handler, em_write = new_handler\<rparr>"

section \<open>Handles\<close>

definition upd_em :: "hid \<Rightarrow> (emitter \<Rightarrow> emitter) \<Rightarrow> relay \<Rightarrow> relay" where
  "upd_em h f s = s\<lparr>rl_em := (rl_em s)(h := f (rl_em s h))\<rparr>"

definition emitter_clear :: "emitter \<Rightarrow> emitter" where
  "emitter_clear e = \<lparr>em_data = handler_clear (em_data e), em_end = handler_clear (em_end e),
     em_error = handler_clear (em_error e), em_close = handler_clear (em_close e),
     em_connect = handler_clear (em_connect e), em_write = handler_clear (em_write e)\<rparr>"

definition data_once :: "hid \<Rightarrow> data_listener \<Rightarrow> relay \<Rightarrow> relay" where
  "data_once h l = upd_em h (\<lambda>e. e\<lparr>em_data := handler_once l (em_data e)\<rparr>)"

definition data_on :: "hid \<Rightarrow> data_listener \<Rightarrow> relay \<Rightarrow> relay" where
  "data_on h l = upd_em h (\<lambda>e. e\<lparr>em_data := handler_on l (em_data e)\<rparr>)"

definition end_once :: "hid \<Rightarrow> hid \<Rightarrow> relay \<Rightarrow> relay" where
  "end_once h c = upd_em h (\<lambda>e. e\<lparr>em_end := handler_once c (em_end e)\<rparr>)"

definition error_once :: "hid \<Rightarrow> hid \<Rightarrow> relay \<Rightarrow> relay" where
  "error_once h c = upd_em h (\<lambda>e. e\<lparr>em_error := handler_once c (em_error e)\<rparr>)"

definition close_once :: "hid \<Rightarrow> hid \<Rightarrow> relay \<Rightarrow> relay" where
  "close_once h c = upd_em h (\<lambda>e. e\<lparr>em_close := handler_once c (em_close e)\<rparr>)"

definition connect_once :: "hid \<Rightarrow> hid \<Rightarrow> relay \<Rightarrow> relay" where
  "connect_once h c = upd_em h (\<lambda>e. e\<lparr>em_connect := handler_once c (em_connect e)\<rparr>)"

definition write_once :: "hid \<Rightarrow> hid \<Rightarrow> relay \<Rightarrow> relay" where
  "write_once h c = upd_em h (\<lambda>e. e\<lparr>em_write := handler_once c (em_write e)\<rparr>)"

definition handle_close :: "hid \<Rightarrow> relay \<Rightarrow> relay" where
  "handle_close h s =
     (if rl_closing s h then s else s\<lparr>rl_closing := (rl_closing s)(h := True), rl_out := rl_out s @ [UvClose h]\<rparr>)"

text \<open>A call to libuv: its code, and the call in the record when it was accepted.\<close>

definition uv_do :: "uv_env \<Rightarrow> uv_call \<Rightarrow> relay \<Rightarrow> int \<times> relay" where
  "uv_do U c s =
     (let rc = uv_rc U (rl_calls s); s = s\<lparr>rl_calls := Suc (rl_calls s)\<rparr>
      in if rc = 0 then (0, s\<lparr>rl_out := rl_out s @ [c]\<rparr>) else (rc, s))"

section \<open>Destruction\<close>

text \<open>\<^verbatim>\<open>~ConnectionContext\<close>: the handles lose their listeners and are closed.\<close>

definition destroy_context :: "ConnectionContext \<Rightarrow> relay \<Rightarrow> relay" where
  "destroy_context x s =
     (let s = (case cc_remote x of None \<Rightarrow> s | Some r \<Rightarrow> handle_close r (upd_em r emitter_clear s))
      in handle_close (cc_client x) (upd_em (cc_client x) emitter_clear s))"

definition panic :: "hid \<Rightarrow> relay \<Rightarrow> relay" where
  "panic c s =
     (case rl_conns s c of None \<Rightarrow> s
      | Some x \<Rightarrow> destroy_context x (s\<lparr>rl_conns := (rl_conns s)(c := None)\<rparr>))"

definition run_panic :: "hid \<Rightarrow> relay \<Rightarrow> relay res" where
  "run_panic c s = Inr (panic c s)"

definition publish_error :: "hid \<Rightarrow> relay \<Rightarrow> relay res" where
  "publish_error h = handler_publish (\<lambda>s. em_error (rl_em s h)) (\<lambda>x. upd_em h (\<lambda>e. e\<lparr>em_error := x\<rparr>)) run_panic"

definition publish_end :: "hid \<Rightarrow> relay \<Rightarrow> relay res" where
  "publish_end h = handler_publish (\<lambda>s. em_end (rl_em s h)) (\<lambda>x. upd_em h (\<lambda>e. e\<lparr>em_end := x\<rparr>)) run_panic"

definition publish_close :: "hid \<Rightarrow> relay \<Rightarrow> relay res" where
  "publish_close h = handler_publish (\<lambda>s. em_close (rl_em s h)) (\<lambda>x. upd_em h (\<lambda>e. e\<lparr>em_close := x\<rparr>)) run_panic"

section \<open>Reading, writing, connecting\<close>

text \<open>The request of a write or a connection passes its error on to the handle.\<close>

definition tcp_write :: "uv_env \<Rightarrow> hid \<Rightarrow> bytes \<Rightarrow> relay \<Rightarrow> relay res" where
  "tcp_write U h d s = (let (rc, s) = uv_do U (UvWrite h d) s in if rc \<noteq> 0 then publish_error h s else Inr s)"

definition tcp_connect :: "uv_env \<Rightarrow> hid \<Rightarrow> sockaddr \<Rightarrow> relay \<Rightarrow> relay res" where
  "tcp_connect U h a s = (let (rc, s) = uv_do U (UvConnect h a) s in if rc \<noteq> 0 then publish_error h s else Inr s)"

definition tcp_read :: "uv_env \<Rightarrow> hid \<Rightarrow> relay \<Rightarrow> relay res" where
  "tcp_read U h s = (let (rc, s) = uv_do U (UvReadStart h) s in if rc \<noteq> 0 then publish_error h s else Inr s)"

text \<open>\<^verbatim>\<open>loop->resource<TCPHandle>()\<close>: a new handle, or the null pointer.\<close>

definition new_handle :: "uv_env \<Rightarrow> relay \<Rightarrow> hid option \<times> relay" where
  "new_handle U s =
     (let h = rl_next s; rc = uv_rc U (rl_calls s);
          s = s\<lparr>rl_calls := Suc (rl_calls s), rl_next := Suc h, rl_em := (rl_em s)(h := new_emitter),
                rl_closing := (rl_closing s)(h := False)\<rparr>
      in (if rc = 0 then Some h else None, s))"

section \<open>Contexts\<close>

definition context_of :: "hid \<Rightarrow> relay \<Rightarrow> ConnectionContext res" where
  "context_of c s = (case rl_conns s c of None \<Rightarrow> Inl UB | Some x \<Rightarrow> Inr x)"

definition put_context :: "hid \<Rightarrow> ConnectionContext \<Rightarrow> relay \<Rightarrow> relay" where
  "put_context c x s = s\<lparr>rl_conns := (rl_conns s)(c \<mapsto> x)\<rparr>"

abbreviation (input) SIZEOF_CIPHER_CTX :: nat where "SIZEOF_CIPHER_CTX \<equiv> 208"

definition construct_cipher :: "crypto_lib \<Rightarrow> ConnectionContext \<Rightarrow> relay \<Rightarrow> (ConnectionContext \<times> relay) res" where
  "construct_cipher L x s =
     (case ce_crypto (rl_cipher s) of None \<Rightarrow> Inr (x, s)
      | Some cr \<Rightarrow>
        if \<not> avail (lib_heap L) SIZEOF_CIPHER_CTX then Inl UB
        else
          bnd (cr_ctx_init cr L (rl_world s) (cr_cipher cr) 1) (\<lambda>(e, w).
          bnd (cr_ctx_init cr L w (cr_cipher cr) 0) (\<lambda>(d, w).
            Inr (x\<lparr>cc_e_ctx := Some e, cc_d_ctx := Some d\<rparr>, s\<lparr>rl_world := w\<rparr>))))"

definition new_ConnectionContext :: "crypto_lib \<Rightarrow> hid \<Rightarrow> ConnectionContext res" where
  "new_ConnectionContext L client =
     bnd (Buffer_newBuf (lib_heap L)) (\<lambda>b.
       Inr \<lparr>cc_localBuf = b, cc_remoteBuf = None, cc_e_ctx = None, cc_d_ctx = None, cc_client = client, cc_remote = None\<rparr>)"

section \<open>The handshake\<close>

definition connectRemote :: "uv_env \<Rightarrow> hid \<Rightarrow> relay \<Rightarrow> relay res" where
  "connectRemote U c s =
     bnd (context_of c s) (\<lambda>x.
     case cc_remote x of None \<Rightarrow> Inr s
     | Some r \<Rightarrow>
       bnd (tcp_connect U r (rl_remoteAddr s) s) (\<lambda>s.
         Inr (connect_once r c (data_on r (RemoteRecv c) s))))"

definition startConnect :: "uv_env \<Rightarrow> hid \<Rightarrow> relay \<Rightarrow> relay res" where
  "startConnect U client s =
     bnd (context_of client s) (\<lambda>x.
     let (remote, s) = new_handle U s in
     case remote of None \<Rightarrow> Inl UB
     | Some r \<Rightarrow>
       let s = put_context client (x\<lparr>cc_remote := Some r\<rparr>) s;
           s = end_once r client (close_once r client (error_once r client s))
       in connectRemote U client s)"

text \<open>The shared end of the request: the address is complete, the header is cut off and the connection started.\<close>

definition addressComplete :: "uv_env \<Rightarrow> crypto_lib \<Rightarrow> hid \<Rightarrow> ConnectionContext \<Rightarrow> relay \<Rightarrow> relay res" where
  "addressComplete U L client x s =
     bnd (Buffer_drop (cc_localBuf x) 3) (\<lambda>b.
     bnd (construct_cipher L (x\<lparr>cc_localBuf := b\<rparr>) s) (\<lambda>(x, s).
       startConnect U client (put_context client x s)))"

text \<open>\<^verbatim>\<open>socks5_address_parse((uint8_t*)buf.begin() + 3, buf.length() - 3, &address)\<close>; the subtraction is unsigned.\<close>

definition parseRequest :: "buffer_t \<Rightarrow> socks5_address \<Rightarrow> (bool \<times> socks5_address) res" where
  "parseRequest b a =
     socks5_address_parse (Some (drop 3 (b_data b))) (if b_len b < 3 then b_len b + 2 ^ 64 - 3 else b_len b - 3) a"

definition readAllAddress :: "uv_env \<Rightarrow> crypto_lib \<Rightarrow> bytes \<Rightarrow> hid \<Rightarrow> relay \<Rightarrow> relay res" where
  "readAllAddress U L event client s =
     bnd (context_of client s) (\<lambda>x.
     bnd (Buffer_copy (lib_heap L) (cc_localBuf x) event) (\<lambda>b.
     let x = x\<lparr>cc_localBuf := b\<rparr>; s = put_context client x s in
     bnd (parseRequest b (rl_address s)) (\<lambda>(ok, a).
     let s = s\<lparr>rl_address := a\<rparr> in
     if ok then addressComplete U L client x s
     else Inr (data_once client ReadAllAddress s))))"

definition udpAsscResponse :: "uv_env \<Rightarrow> crypto_lib \<Rightarrow> string \<Rightarrow> int \<Rightarrow> hid \<Rightarrow> relay \<Rightarrow> relay res" where
  "udpAsscResponse U L local_addr local_port client s =
     (let addr = (case uv_ip4_addr U local_addr local_port of None \<Rightarrow> fresh (lib_heap L) 6 | Some a \<Rightarrow> a)
      in tcp_write U client ([5, 0, 0, 1] @ addr) s)"

text \<open>The command byte, wherever it arrived: the request may come in pieces.\<close>

definition commandByte :: "buffer_t \<Rightarrow> bytes \<Rightarrow> byte res" where
  "commandByte b event =
     (if b_len b = 0 then read_byte event 1 else if b_len b = 1 then read_byte event 0 else Buffer_at b 1)"

definition handShakeSendCallBack ::
  "uv_env \<Rightarrow> crypto_lib \<Rightarrow> string \<Rightarrow> int \<Rightarrow> bytes \<Rightarrow> hid \<Rightarrow> relay \<Rightarrow> relay res" where
  "handShakeSendCallBack U L local_addr local_port event client s =
     bnd (context_of client s) (\<lambda>x.
     if b_len (cc_localBuf x) + length event \<ge> 5 then
       bnd (commandByte (cc_localBuf x) event) (\<lambda>cmd.
       bnd (Buffer_copy (lib_heap L) (cc_localBuf x) event) (\<lambda>b.
       let x = x\<lparr>cc_localBuf := b\<rparr>; s = put_context client x s in
       if cmd = 0x01 then
         bnd (if b_len b \<noteq> 0 then parseRequest b (rl_address s) else Inr (False, rl_address s)) (\<lambda>(ok, a).
         let s = s\<lparr>rl_address := a\<rparr> in
         if ok then addressComplete U L client x s
         else Inr (data_once client ReadAllAddress s))
       else if cmd = 0x03 then udpAsscResponse U L local_addr local_port client s
       else Inr (handle_close client s)))
     else
       bnd (Buffer_copy (lib_heap L) (cc_localBuf x) event) (\<lambda>b.
         Inr (data_once client HandShakeSendCallBack (put_context client (x\<lparr>cc_localBuf := b\<rparr>) s))))"

definition handShakeReceive :: "uv_env \<Rightarrow> bytes \<Rightarrow> hid \<Rightarrow> relay \<Rightarrow> relay res" where
  "handShakeReceive U event client s =
     bnd (read_byte event 0) (\<lambda>ver.
     if ver = 0x05 \<and> length event > 1 then
       bnd (tcp_write U client [5, 0] s) (\<lambda>s. Inr (data_once client HandShakeSendCallBack s))
     else
       bnd (if length event > 1 then tcp_write U client [5, 0] s else Inr s) (\<lambda>s.
         Inr (handle_close client s)))"

section \<open>The stream\<close>

definition sockStream :: "uv_env \<Rightarrow> crypto_lib \<Rightarrow> bytes \<Rightarrow> hid \<Rightarrow> relay \<Rightarrow> relay res" where
  "sockStream U L event client s =
     (if rl_closing s client then Inr s
      else case rl_conns s client of None \<Rightarrow> Inr s
      | Some x \<Rightarrow>
        (case cc_remoteBuf x of None \<Rightarrow> Inl UB
         | Some b \<Rightarrow>
           bnd (Buffer_copy (lib_heap L) b event) (\<lambda>b.
           let s = s\<lparr>rl_tx := rl_tx s + of_nat (b_len b)\<rparr> in
           bnd (Buffer_ssEncrypt L (rl_world s) (rl_cipher s) b (cc_e_ctx x)) (\<lambda>(err, b, e, w).
           let x = x\<lparr>cc_remoteBuf := Some b, cc_e_ctx := e\<rparr>; s = put_context client x (s\<lparr>rl_world := w\<rparr>) in
           if err \<noteq> 0 then Inr (panic client s)
           else if b_len b \<noteq> 0 then
             (case cc_remote x of None \<Rightarrow> Inl UB
              | Some r \<Rightarrow>
                bnd (Buffer_duplicateDataToArray b) (\<lambda>d.
                bnd (tcp_write U r d s) (\<lambda>s.
                  Inr (case rl_conns s client of None \<Rightarrow> s
                       | Some x \<Rightarrow> put_context client (x\<lparr>cc_remoteBuf := map_option Buffer_clear (cc_remoteBuf x)\<rparr>) s))))
           else Inr s))))"

text \<open>One round of the loop of \<^verbatim>\<open>remoteRecv\<close>: whether to go on.\<close>

definition remoteRecv_round :: "uv_env \<Rightarrow> crypto_lib \<Rightarrow> hid \<Rightarrow> bytes \<Rightarrow> relay \<Rightarrow> (bool \<times> relay) res" where
  "remoteRecv_round U L c seg s =
     bnd (context_of c s) (\<lambda>x.
     let b = Buffer_bufRealloc (lib_heap L) (cc_localBuf x) BUF_DEFAULT_CAPACITY in
     bnd (Buffer_copyFromBegin (lib_heap L) b seg (length seg)) (\<lambda>b.
     bnd (Buffer_ssDecrypt L (rl_world s) (rl_cipher s) b (cc_d_ctx x)) (\<lambda>(err, b, d, w).
     let x = x\<lparr>cc_localBuf := b, cc_d_ctx := d\<rparr>; s = put_context c x (s\<lparr>rl_world := w\<rparr>) in
     if err = CRYPTO_ERROR then Inr (False, panic (cc_client x) s)
     else if err = CRYPTO_NEED_MORE then Inr (True, put_context c (x\<lparr>cc_localBuf := Buffer_clear b\<rparr>) s)
     else
       bnd (Buffer_duplicateDataToArray b) (\<lambda>p.
       bnd (tcp_write U (cc_client x) p s) (\<lambda>s.
       bnd (context_of c s) (\<lambda>x.
         Inr (True, put_context c (x\<lparr>cc_localBuf := Buffer_clear (cc_localBuf x)\<rparr>) s)))))))"

function remoteRecv_loop :: "uv_env \<Rightarrow> crypto_lib \<Rightarrow> hid \<Rightarrow> bytes \<Rightarrow> relay \<Rightarrow> relay res" where
  "remoteRecv_loop U L c data s =
     (if data = [] then Inr s
      else
        bnd (remoteRecv_round U L c (take BUF_DEFAULT_CAPACITY data) s) (\<lambda>(go, s).
          if go then remoteRecv_loop U L c (drop BUF_DEFAULT_CAPACITY data) s else Inr s))"
  by pat_completeness auto
termination
  by (relation "measure (\<lambda>(U, L, c, data, s). length data)") auto

declare remoteRecv_loop.simps [simp del]

definition remoteRecv :: "uv_env \<Rightarrow> crypto_lib \<Rightarrow> hid \<Rightarrow> bytes \<Rightarrow> hid \<Rightarrow> relay \<Rightarrow> relay res" where
  "remoteRecv U L c event remote s =
     (if rl_closing s remote then Inr s
      else remoteRecv_loop U L c event (s\<lparr>rl_rx := rl_rx s + of_nat (length event)\<rparr>))"

text \<open>The listener for the established connection to the server.\<close>

definition remoteConnected :: "uv_env \<Rightarrow> crypto_lib \<Rightarrow> hid \<Rightarrow> hid \<Rightarrow> relay \<Rightarrow> relay res" where
  "remoteConnected U L h c s =
     bnd (tcp_read U h s) (\<lambda>s.
     bnd (context_of c s) (\<lambda>x.
     bnd (tcp_write U (cc_client x) [5, 0, 0, 1, 0, 0, 0, 0, 0, 0] s) (\<lambda>s.
     bnd (context_of c s) (\<lambda>x.
     bnd (Buffer_newBuf (lib_heap L)) (\<lambda>b.
     bnd (Buffer_copy_buffer b (cc_localBuf x)) (\<lambda>b.
     let x = x\<lparr>cc_localBuf := Buffer_clear (cc_localBuf x)\<rparr> in
     bnd (Buffer_ssEncrypt L (rl_world s) (rl_cipher s) b (cc_e_ctx x)) (\<lambda>(err, b, e, w).
     let x = x\<lparr>cc_remoteBuf := Some b, cc_e_ctx := e\<rparr>; s = put_context c x (s\<lparr>rl_world := w\<rparr>) in
     if err \<noteq> 0 then Inr (panic (cc_client x) s)
     else
       (case cc_remote x of None \<Rightarrow> Inl UB
        | Some r \<Rightarrow>
          bnd (read_mem (b_data b) 0 (b_len b)) (\<lambda>d. tcp_write U r d (write_once r c s))))))))))"

text \<open>The listener for the first finished write to the server.\<close>

definition remoteWritten :: "hid \<Rightarrow> relay \<Rightarrow> relay res" where
  "remoteWritten c s =
     bnd (context_of c s) (\<lambda>x.
     let s = data_on (cc_client x) SockStream s in
     case cc_remoteBuf x of None \<Rightarrow> Inl UB
     | Some b \<Rightarrow> Inr (put_context c (x\<lparr>cc_remoteBuf := Some (Buffer_clear b)\<rparr>) s))"

section \<open>Steps\<close>

definition run_data ::
  "uv_env \<Rightarrow> crypto_lib \<Rightarrow> string \<Rightarrow> int \<Rightarrow> bytes \<Rightarrow> hid \<Rightarrow> data_listener \<Rightarrow> relay \<Rightarrow> relay res" where
  "run_data U L local_addr local_port event h l s =
     (case l of
        HandShakeReceive \<Rightarrow> handShakeReceive U event h s
      | HandShakeSendCallBack \<Rightarrow> handShakeSendCallBack U L local_addr local_port event h s
      | ReadAllAddress \<Rightarrow> readAllAddress U L event h s
      | SockStream \<Rightarrow> sockStream U L event h s
      | RemoteRecv c \<Rightarrow> remoteRecv U L c event h s)"

definition publish_data ::
  "uv_env \<Rightarrow> crypto_lib \<Rightarrow> string \<Rightarrow> int \<Rightarrow> bytes \<Rightarrow> hid \<Rightarrow> relay \<Rightarrow> relay res" where
  "publish_data U L la lp event h =
     handler_publish (\<lambda>s. em_data (rl_em s h)) (\<lambda>x. upd_em h (\<lambda>e. e\<lparr>em_data := x\<rparr>)) (run_data U L la lp event h)"

definition publish_connect :: "uv_env \<Rightarrow> crypto_lib \<Rightarrow> hid \<Rightarrow> relay \<Rightarrow> relay res" where
  "publish_connect U L h =
     handler_publish (\<lambda>s. em_connect (rl_em s h)) (\<lambda>x. upd_em h (\<lambda>e. e\<lparr>em_connect := x\<rparr>)) (remoteConnected U L h)"

definition publish_write :: "hid \<Rightarrow> relay \<Rightarrow> relay res" where
  "publish_write h =
     handler_publish (\<lambda>s. em_write (rl_em s h)) (\<lambda>x. upd_em h (\<lambda>e. e\<lparr>em_write := x\<rparr>)) remoteWritten"

text \<open>A new client: its context, its listeners, and the first read. An error of \<^verbatim>\<open>accept\<close> is published on the
  server, which has no listener for it.\<close>

definition onListen :: "uv_env \<Rightarrow> crypto_lib \<Rightarrow> relay \<Rightarrow> relay res" where
  "onListen U L s =
     (let (client, s) = new_handle U s in
      case client of None \<Rightarrow> Inl UB
      | Some c \<Rightarrow>
        bnd (new_ConnectionContext L c) (\<lambda>x.
        let s = put_context c x s;
            s = data_once c HandShakeReceive (error_once c c (close_once c c s));
            (_, s) = uv_do U (UvAccept c) s
        in tcp_read U c s))"

text \<open>The callbacks of libuv. A positive \<^verbatim>\<open>nread\<close> brings data; zero is ignored.\<close>

datatype uv_callback =
    ListenCb | ReadCb hid int bytes | ConnectCb hid int | WriteCb hid int | CloseCb hid

abbreviation (input) UV_EOF :: int where "UV_EOF \<equiv> - 4095"

definition readCallback ::
  "uv_env \<Rightarrow> crypto_lib \<Rightarrow> string \<Rightarrow> int \<Rightarrow> hid \<Rightarrow> int \<Rightarrow> bytes \<Rightarrow> relay \<Rightarrow> relay res" where
  "readCallback U L la lp h nread d s =
     (if nread = UV_EOF then publish_end h s
      else if nread > 0 then publish_data U L la lp (take (nat nread) d) h s
      else if nread < 0 then publish_error h s
      else Inr s)"

definition relay_step :: "uv_env \<Rightarrow> crypto_lib \<Rightarrow> string \<Rightarrow> int \<Rightarrow> uv_callback \<Rightarrow> relay \<Rightarrow> relay res" where
  "relay_step U L la lp cb s =
     (case cb of
        ListenCb \<Rightarrow> onListen U L s
      | ReadCb h nread d \<Rightarrow> readCallback U L la lp h nread d s
      | ConnectCb h status \<Rightarrow> if status \<noteq> 0 then publish_error h s else publish_connect U L h s
      | WriteCb h status \<Rightarrow> if status \<noteq> 0 then publish_error h s else publish_write h s
      | CloseCb h \<Rightarrow> publish_close h s)"

fun relay_run :: "uv_env \<Rightarrow> crypto_lib \<Rightarrow> string \<Rightarrow> int \<Rightarrow> uv_callback list \<Rightarrow> relay \<Rightarrow> relay res" where
  "relay_run U L la lp [] s = Inr s"
| "relay_run U L la lp (cb # cbs) s = bnd (relay_step U L la lp cb s) (relay_run U L la lp cbs)"

section \<open>The handlers of a handle\<close>

text \<open>The publishing functions reach the handlers of a handle as components of the relay's state.\<close>

interpretation on_data: component "\<lambda>s. em_data (rl_em s h)" "\<lambda>x. upd_em h (\<lambda>e. e\<lparr>em_data := x\<rparr>)" for h
  by unfold_locales (simp_all add: upd_em_def)

interpretation on_error: component "\<lambda>s. em_error (rl_em s h)" "\<lambda>x. upd_em h (\<lambda>e. e\<lparr>em_error := x\<rparr>)" for h
  by unfold_locales (simp_all add: upd_em_def)

interpretation on_end: component "\<lambda>s. em_end (rl_em s h)" "\<lambda>x. upd_em h (\<lambda>e. e\<lparr>em_end := x\<rparr>)" for h
  by unfold_locales (simp_all add: upd_em_def)

interpretation on_close: component "\<lambda>s. em_close (rl_em s h)" "\<lambda>x. upd_em h (\<lambda>e. e\<lparr>em_close := x\<rparr>)" for h
  by unfold_locales (simp_all add: upd_em_def)

interpretation on_connect: component "\<lambda>s. em_connect (rl_em s h)" "\<lambda>x. upd_em h (\<lambda>e. e\<lparr>em_connect := x\<rparr>)" for h
  by unfold_locales (simp_all add: upd_em_def)

interpretation on_write: component "\<lambda>s. em_write (rl_em s h)" "\<lambda>x. upd_em h (\<lambda>e. e\<lparr>em_write := x\<rparr>)" for h
  by unfold_locales (simp_all add: upd_em_def)

end
