(* ===== verification/SS_TcpHandshake.thy ===== *)
theory SS_TcpHandshake
  imports SS_TcpRelay
begin

text \<open>
  The SOCKS5 handshake of the TCP relay under any fragmentation. The predicates name the states a connection goes
  through: waiting for a request of which some bytes have arrived, and connecting to the server. libuv is assumed
  to accept the calls (\<open>accepting\<close>); what happens on errors is the subject of \<^verbatim>\<open>SS_TcpErrors\<close>.
\<close>

section \<open>Publishing to a single listener\<close>

abbreviation one_shot :: "'l \<Rightarrow> 'l handler" where
  "one_shot l \<equiv> \<lparr>h_publishing = False, h_onceL = [(False, l)], h_onL = [], h_currentL = []\<rparr>"

abbreviation lasting :: "'l \<Rightarrow> 'l handler" where
  "lasting l \<equiv> \<lparr>h_publishing = False, h_onceL = [], h_onL = [(False, l)], h_currentL = []\<rparr>"

text \<open>The handler while its only listener runs.\<close>

definition busy :: "'l \<Rightarrow> 'l handler" where
  "busy l = \<lparr>h_publishing = True, h_onceL = [], h_onL = [], h_currentL = [[(False, l)]]\<rparr>"

abbreviation lasting_busy :: "'l \<Rightarrow> 'l handler" where
  "lasting_busy l \<equiv> \<lparr>h_publishing = True, h_onceL = [], h_onL = [(False, l)], h_currentL = [[]]\<rparr>"

lemma new_handler_quiet [simp]: "\<not> h_publishing new_handler" "h_currentL new_handler = []"
  by (simp_all add: new_handler_def)

lemma take_once_one_shot [simp]: "take_once (one_shot l) = busy l"
  by (simp add: take_once_def busy_def)

lemma publish_one_shot:
  assumes "get s = one_shot l" and "get (put (busy l) s) = busy l"
  shows "handler_publish get put run s = bnd (run l (put (busy l) s)) (\<lambda>s. Inr (put (settle (get s)) s))"
  using assms by (simp add: handler_publish_def publish_on_def call_elem_def Let_def bnd_def busy_def split: sum.splits)

lemma publish_lasting:
  assumes "get s = lasting l" and "\<And>h. get (put h s) = h"
    and "\<And>t. run l (put (lasting_busy l) s) = Inr t \<Longrightarrow> length (h_onL (get t)) = 1"
  shows "handler_publish get put run s = bnd (run l (put (lasting_busy l) s)) (\<lambda>s. Inr (put (settle (get s)) s))"
  using assms
  by (auto simp: handler_publish_def publish_on_def call_elem_def take_once_def Let_def bnd_def split: sum.splits)

section \<open>Accepted calls\<close>

definition accepting :: "uv_env \<Rightarrow> bool" where
  "accepting U \<longleftrightarrow> (\<forall>n. uv_rc U n = 0)"

definition emit :: "uv_call \<Rightarrow> relay \<Rightarrow> relay" where
  "emit c s = s\<lparr>rl_calls := Suc (rl_calls s), rl_out := rl_out s @ [c]\<rparr>"

lemma accepted_calls:
  assumes "accepting U"
  shows "tcp_write U h d s = Inr (emit (UvWrite h d) s)" "tcp_connect U h a s = Inr (emit (UvConnect h a) s)"
    "tcp_read U h s = Inr (emit (UvReadStart h) s)" "uv_do U k s = (0, emit k s)"
  using assms by (simp_all add: accepting_def tcp_write_def tcp_connect_def tcp_read_def uv_do_def emit_def Let_def)

lemma emit_simps [simp]:
  "rl_conns (emit c s) = rl_conns s" "rl_em (emit c s) = rl_em s" "rl_closing (emit c s) = rl_closing s"
  "rl_next (emit c s) = rl_next s" "rl_out (emit c s) = rl_out s @ [c]" "rl_world (emit c s) = rl_world s"
  "rl_cipher (emit c s) = rl_cipher s" "rl_address (emit c s) = rl_address s" "rl_tx (emit c s) = rl_tx s"
  "rl_rx (emit c s) = rl_rx s" "rl_remoteAddr (emit c s) = rl_remoteAddr s"
  by (simp_all add: emit_def)

lemma upd_em_simps [simp]:
  "rl_conns (upd_em h f s) = rl_conns s" "rl_em (upd_em h f s) = (rl_em s)(h := f (rl_em s h))"
  "rl_closing (upd_em h f s) = rl_closing s" "rl_next (upd_em h f s) = rl_next s" "rl_out (upd_em h f s) = rl_out s"
  "rl_world (upd_em h f s) = rl_world s" "rl_cipher (upd_em h f s) = rl_cipher s" "rl_address (upd_em h f s) = rl_address s"
  "rl_tx (upd_em h f s) = rl_tx s" "rl_rx (upd_em h f s) = rl_rx s" "rl_calls (upd_em h f s) = rl_calls s"
  "rl_remoteAddr (upd_em h f s) = rl_remoteAddr s"
  by (simp_all add: upd_em_def)

lemma put_context_simps [simp]:
  "rl_conns (put_context c x s) = (rl_conns s)(c \<mapsto> x)" "rl_em (put_context c x s) = rl_em s"
  "rl_closing (put_context c x s) = rl_closing s" "rl_next (put_context c x s) = rl_next s"
  "rl_out (put_context c x s) = rl_out s" "rl_world (put_context c x s) = rl_world s"
  "rl_cipher (put_context c x s) = rl_cipher s" "rl_address (put_context c x s) = rl_address s"
  "rl_tx (put_context c x s) = rl_tx s" "rl_rx (put_context c x s) = rl_rx s" "rl_calls (put_context c x s) = rl_calls s"
  "rl_remoteAddr (put_context c x s) = rl_remoteAddr s"
  by (simp_all add: put_context_def)

lemmas registers = data_once_def data_on_def end_once_def error_once_def close_once_def connect_once_def write_once_def

section \<open>Parsing in a buffer\<close>

text \<open>The parser on a block that continues behind the received bytes.\<close>

lemma parse_incomplete_tail:
  assumes "\<not> complete d" and "2 \<le> length d"
  shows "\<exists>a'. socks5_address_parse (Some (d @ t)) (length d) a = Inr (False, a') \<and> s5_addr a' = s5_addr a"
proof -
  obtain b0 b1 r where d: "d = b0 # b1 # r"
    using assms(2) by (cases d; cases "tl d") auto
  show ?thesis
    using assms(1) by (auto simp: d socks5_address_parse_def complete_def read_byte_def Let_def)
qed

lemma parseRequest_result:
  assumes "wf_buffer b" and "5 \<le> b_len b" and "length (s5_addr a) = 256"
  shows "\<exists>a'. parseRequest b a = Inr (complete (drop 3 (contents b)), a') \<and> length (s5_addr a') = 256 \<and>
    (\<forall>e rest. wf_endpoint e \<longrightarrow> drop 3 (contents b) = encode_address e @ rest \<longrightarrow> a' = store_endpoint e a)"
proof -
  let ?d = "drop 3 (contents b)" and ?t = "drop (b_len b) (b_data b)"
  have t: "contents b @ ?t = b_data b" and l: "length (contents b) = b_len b"
    using assms(1) by (simp_all add: contents_def wf_bufferD)
  have "drop 3 (contents b @ ?t) = ?d @ ?t"
    using assms(2) l by simp
  then have "drop 3 (b_data b) = ?d @ ?t"
    by (simp only: t)
  then have r: "parseRequest b a = socks5_address_parse (Some (?d @ ?t)) (length ?d) a"
    using assms(2) l by (simp add: parseRequest_def)
  show ?thesis
  proof (cases "complete ?d")
    case True
    then obtain e rest where e: "wf_endpoint e" "?d = encode_address e @ rest"
      using encoded_decompose by blast
    have ok: "socks5_address_parse (Some (?d @ ?t)) (length ?d) a = Inr (True, store_endpoint e' a)"
      if "wf_endpoint e'" "?d = encode_address e' @ rest'" for e' rest'
      using parse_encoded [OF that(1) assms(3), of "length ?d" "rest' @ ?t"] that(2) by simp
    have "length (s5_addr (store_endpoint e a)) = 256"
      using e(1) assms(3) by (cases e) auto
    moreover have "store_endpoint e a = store_endpoint e' a" if "wf_endpoint e'" "?d = encode_address e' @ rest'" for e' rest'
      using ok [OF e] ok [OF that] by simp
    ultimately show ?thesis
      using ok [OF e] r True by (intro exI [of _ "store_endpoint e a"]) auto
  next
    case False
    then have "\<not> (\<exists>e rest. wf_endpoint e \<and> ?d = encode_address e @ rest)"
      using encoded_complete by auto
    moreover obtain a' where "socks5_address_parse (Some (?d @ ?t)) (length ?d) a = Inr (False, a')" "s5_addr a' = s5_addr a"
      using parse_incomplete_tail [OF False] assms(2) l by fastforce
    ultimately show ?thesis
      using r False assms(3) by auto
  qed
qed


section \<open>Waiting for the request\<close>

definition wants :: "bytes \<Rightarrow> data_listener" where
  "wants acc = (if length acc < 5 then HandShakeSendCallBack else ReadAllAddress)"

definition hs_context :: "hid \<Rightarrow> buffer_t \<Rightarrow> ConnectionContext" where
  "hs_context c b = \<lparr>cc_localBuf = b, cc_remoteBuf = None, cc_e_ctx = None, cc_d_ctx = None, cc_client = c, cc_remote = None\<rparr>"

text \<open>No call of \<^verbatim>\<open>publish\<close> is running.\<close>

definition at_rest :: "'l handler \<Rightarrow> bool" where
  "at_rest h \<longleftrightarrow> \<not> h_publishing h \<and> h_currentL h = []"

lemma at_rest_simps [simp]:
  "at_rest new_handler" "at_rest \<lparr>h_publishing = False, h_onceL = xs, h_onL = ys, h_currentL = []\<rparr>"
  by (simp_all add: at_rest_def)

text \<open>The bytes \<open>acc\<close> of the request of client \<open>c\<close> have arrived.\<close>

definition idle :: "emitter \<Rightarrow> bool" where
  "idle e \<longleftrightarrow> at_rest (em_data e) \<and> at_rest (em_end e) \<and> at_rest (em_error e) \<and>
     at_rest (em_close e) \<and> at_rest (em_connect e) \<and> at_rest (em_write e)"

definition guarded :: "hid \<Rightarrow> hid \<Rightarrow> relay \<Rightarrow> bool" where
  "guarded h c s \<longleftrightarrow> em_error (rl_em s h) = one_shot c \<and> em_close (rl_em s h) = one_shot c \<and> \<not> rl_closing s h"

text \<open>Between two callbacks no handler of a connection is publishing, and a client has no listener for the end of its
  stream.\<close>

definition resting :: "hid \<Rightarrow> hid \<Rightarrow> relay \<Rightarrow> bool" where
  "resting c r s \<longleftrightarrow> idle (rl_em s c) \<and> idle (rl_em s r) \<and> em_end (rl_em s c) = new_handler"

definition awaiting :: "hid \<Rightarrow> bytes \<Rightarrow> relay \<Rightarrow> bool" where
  "awaiting c acc s \<longleftrightarrow>
     (\<exists>b. rl_conns s c = Some (hs_context c b) \<and> wf_buffer b \<and> contents b = acc) \<and>
     em_data (rl_em s c) = one_shot (wants acc) \<and> guarded c c s \<and> resting c c s \<and> c < rl_next s \<and> length (s5_addr (rl_address s)) = 256"

text \<open>What stays the same for the rest of the program.\<close>

definition same_rest :: "hid \<Rightarrow> relay \<Rightarrow> relay \<Rightarrow> bool" where
  "same_rest c s s' \<longleftrightarrow> rl_world s' = rl_world s \<and> rl_cipher s' = rl_cipher s \<and> rl_closing s' = rl_closing s \<and> rl_next s' = rl_next s \<and>
     rl_remoteAddr s' = rl_remoteAddr s \<and> rl_out s' = rl_out s \<and> (\<forall>h. h \<noteq> c \<longrightarrow> rl_conns s' h = rl_conns s h \<and> rl_em s' h = rl_em s h)"

lemma same_rest_refl: "same_rest c s s"
  by (simp add: same_rest_def)

lemma same_rest_trans: "same_rest c s t \<Longrightarrow> same_rest c t u \<Longrightarrow> same_rest c s u"
  by (simp add: same_rest_def)

lemma em_data_upd [simp]: "em_data (f\<lparr>em_data := x\<rparr>) = x"
  by simp

lemma commandByte_ok:
  assumes "wf_buffer b" and "ev \<noteq> []" and "5 \<le> b_len b + length ev"
  shows "commandByte b ev = Inr ((contents b @ ev) ! 1)"
proof -
  have l: "length (contents b) = b_len b" "length (b_data b) = b_cap b" "b_len b \<le> b_cap b"
    using assms(1) by (simp_all add: wf_bufferD)
  consider "b_len b = 0" | "b_len b = 1" | "2 \<le> b_len b"
    by linarith
  then show ?thesis
  proof cases
    case 1
    then show ?thesis
      using assms(3) l by (simp add: commandByte_def read_byte_def contents_def)
  next
    case 2
    then show ?thesis
      using assms(2) l by (simp add: commandByte_def read_byte_def nth_append)
  next
    case 3
    then have "1 mod b_cap b = 1" "b_cap b \<noteq> 0" "1 < b_cap b"
      using l by simp_all
    with 3 l show ?thesis
      by (simp add: commandByte_def Buffer_at_def read_byte_def nth_append contents_def)
  qed
qed


section \<open>One more piece of the request\<close>

text \<open>Both listeners of the handshake do the same to the buffer: the piece is appended, and as soon as there are five
  bytes the address is looked for. \<open>start\<close> is the state in which the listener runs.\<close>

lemma piece_arrives:
  assumes "heap_ok (lib_heap L)" and "rl_conns s c = Some (hs_context c b)" and "wf_buffer b" and "ev \<noteq> []"
    and "length (s5_addr (rl_address s)) = 256" and "length (contents b @ ev) \<ge> 2 \<longrightarrow> (contents b @ ev) ! 1 = 1"
  obtains b' a where "wf_buffer b'" "contents b' = contents b @ ev" "length (s5_addr a) = 256"
    "run_data U L la lp ev c (wants (contents b)) s =
       (if complete (drop 3 (contents b @ ev))
        then addressComplete U L c (hs_context c b') ((put_context c (hs_context c b') s)\<lparr>rl_address := a\<rparr>)
        else Inr (data_once c (wants (contents b @ ev)) ((put_context c (hs_context c b') s)\<lparr>rl_address := a\<rparr>)))"
    "\<forall>e rest. wf_endpoint e \<longrightarrow> drop 3 (contents b @ ev) = encode_address e @ rest \<longrightarrow> a = store_endpoint e (rl_address s)"
proof -
  obtain b' where b': "Buffer_copy (lib_heap L) b ev = Inr b'" "wf_buffer b'" "contents b' = contents b @ ev"
    by (rule Buffer_copy_ok [OF assms(1,3)]) (rule that; assumption)
  then have l: "b_len b' = b_len b + length ev" "length (contents b) = b_len b"
    using length_contents [OF b'(2)] assms(3) by simp_all
  have ctx: "cc_localBuf (hs_context c b) = b" "(hs_context c b)\<lparr>cc_localBuf := b'\<rparr> = hs_context c b'"
    by (simp_all add: hs_context_def)
  show ?thesis
  proof (cases "5 \<le> b_len b'")
    case True
    obtain a where a: "parseRequest b' (rl_address s) = Inr (complete (drop 3 (contents b')), a)" "length (s5_addr a) = 256"
      "\<forall>e rest. wf_endpoint e \<longrightarrow> drop 3 (contents b') = encode_address e @ rest \<longrightarrow> a = store_endpoint e (rl_address s)"
      using parseRequest_result [OF b'(2) True assms(5)] by blast
    have "commandByte b ev = Inr 1"
      using commandByte_ok [OF assms(3,4)] True l assms(6) by simp
    then show ?thesis
      using True a b' l ctx assms(2,4)
      by (intro that [of b' a])
        (simp_all add: run_data_def wants_def handShakeSendCallBack_def readAllAddress_def context_of_def Let_def)
  next
    case False
    have nc: "\<not> complete (drop 3 (contents b @ ev))"
      using False l by (auto simp: complete_def)
    have same: "(put_context c (hs_context c b') s)\<lparr>rl_address := rl_address s\<rparr> = put_context c (hs_context c b') s"
      by (simp add: put_context_def)
    show ?thesis
      using False b' l ctx assms(2,5) nc encoded_complete
      by (intro that [of b' "rl_address s"])
        (auto simp: run_data_def wants_def handShakeSendCallBack_def context_of_def same)
  qed
qed


text \<open>The state in which a one-shot data listener of \<open>c\<close> runs.\<close>

definition running :: "hid \<Rightarrow> relay \<Rightarrow> relay" where
  "running c s = upd_em c (\<lambda>e. e\<lparr>em_data := take_once (em_data (rl_em s c))\<rparr>) s"

definition finished :: "hid \<Rightarrow> relay \<Rightarrow> relay" where
  "finished c s = upd_em c (\<lambda>e. e\<lparr>em_data := settle (em_data (rl_em s c))\<rparr>) s"

lemma running_simps [simp]:
  "rl_conns (running c s) = rl_conns s" "rl_em (running c s) = (rl_em s)(c := (rl_em s c)\<lparr>em_data := take_once (em_data (rl_em s c))\<rparr>)"
  "rl_closing (running c s) = rl_closing s" "rl_next (running c s) = rl_next s" "rl_out (running c s) = rl_out s"
  "rl_world (running c s) = rl_world s" "rl_cipher (running c s) = rl_cipher s" "rl_address (running c s) = rl_address s"
  "rl_remoteAddr (running c s) = rl_remoteAddr s"
  by (simp_all add: running_def)

lemma finished_simps [simp]:
  "rl_conns (finished c s) = rl_conns s" "rl_em (finished c s) = (rl_em s)(c := (rl_em s c)\<lparr>em_data := settle (em_data (rl_em s c))\<rparr>)"
  "rl_closing (finished c s) = rl_closing s" "rl_next (finished c s) = rl_next s" "rl_out (finished c s) = rl_out s"
  "rl_world (finished c s) = rl_world s" "rl_cipher (finished c s) = rl_cipher s" "rl_address (finished c s) = rl_address s"
  "rl_remoteAddr (finished c s) = rl_remoteAddr s"
  by (simp_all add: finished_def)

lemma read_one_shot:
  assumes "em_data (rl_em s c) = one_shot l" and "ev \<noteq> []"
  shows "relay_step U L la lp (ReadCb c (int (length ev)) ev) s = bnd (run_data U L la lp ev c l (running c s)) (\<lambda>s. Inr (finished c s))"
  using assms publish_one_shot [of "\<lambda>s. em_data (rl_em s c)" s l "\<lambda>x. upd_em c (\<lambda>e. e\<lparr>em_data := x\<rparr>)" "run_data U L la lp ev c"]
  by (simp add: relay_step_def readCallback_def publish_data_def running_def finished_def)

lemma settle_busy: "settle (handler_once l (busy k)) = one_shot l" "settle (busy k) = new_handler"
  by (simp_all add: settle_def handler_once_def busy_def new_handler_def)

lemma awaiting_step:
  assumes "heap_ok (lib_heap L)" and "awaiting c acc s" and "ev \<noteq> []" and "length (acc @ ev) \<ge> 2 \<longrightarrow> (acc @ ev) ! 1 = 1"
    and "\<not> complete (drop 3 (acc @ ev))"
  shows "\<exists>s'. relay_step U L la lp (ReadCb c (int (length ev)) ev) s = Inr s' \<and> awaiting c (acc @ ev) s' \<and> same_rest c s s'"
proof -
  obtain b where b: "rl_conns s c = Some (hs_context c b)" "wf_buffer b" "contents b = acc"
    and h: "em_data (rl_em s c) = one_shot (wants acc)" "guarded c c s \<and> resting c c s" "c < rl_next s" "length (s5_addr (rl_address s)) = 256"
    using assms(2) by (auto simp: awaiting_def)
  have b1: "rl_conns (running c s) c = Some (hs_context c b)" "length (s5_addr (rl_address (running c s))) = 256"
    using b(1) h(4) by simp_all
  obtain b' a where p: "wf_buffer b'" "contents b' = acc @ ev" "length (s5_addr a) = 256"
    "run_data U L la lp ev c (wants acc) (running c s) =
       Inr (data_once c (wants (acc @ ev)) ((put_context c (hs_context c b') (running c s))\<lparr>rl_address := a\<rparr>))"
    by (rule piece_arrives [OF assms(1) b1(1) b(2) assms(3) b1(2), of U la lp]) (use assms(4,5) b(3) in simp_all)
  let ?s = "finished c (data_once c (wants (acc @ ev)) ((put_context c (hs_context c b') (running c s))\<lparr>rl_address := a\<rparr>))"
  have "relay_step U L la lp (ReadCb c (int (length ev)) ev) s = Inr ?s"
    by (simp add: read_one_shot [OF h(1) assms(3)] p(4))
  moreover have "awaiting c (acc @ ev) ?s"
    unfolding awaiting_def by (intro conjI exI [of _ b']) (use p h in \<open>simp_all add: data_once_def settle_busy guarded_def resting_def idle_def\<close>)
  moreover have "same_rest c s ?s"
    using p h by (simp add: same_rest_def data_once_def)
  ultimately show ?thesis by blast
qed

section \<open>The connection is started\<close>

definition aead_env :: "cipher_t \<Rightarrow> CipherEnv" where
  "aead_env ci = \<lparr>ce_crypto = Some (aead_crypto ci)\<rparr>"

definition fresh_receiver :: "crypto_lib \<Rightarrow> cipher_t \<Rightarrow> cipher_ctx_t \<Rightarrow> bool" where
  "fresh_receiver L ci d \<longleftrightarrow> cx_cipher d = ci \<and> unkeyed L d \<and> cx_init d = 0 \<and> cx_chunk d = None"

lemma fresh_receiver_receiving:
  assumes "fresh_receiver L ci d" and "wf_cipher ci" and "wf_world w" and "\<not> seen w salt"
  shows "receiving L HM S ci salt msgs w d [] 0"
  using assms by (auto simp: fresh_receiver_def receiving_def receiver_def chunk_ok_def chunk_bytes_def unkeyed_def wf_ctx_def)

text \<open>The process that relays with an AEAD cipher.\<close>

definition relaying :: "cipher_t \<Rightarrow> relay \<Rightarrow> bool" where
  "relaying ci s \<longleftrightarrow> wf_world (rl_world s) \<and> rl_cipher s = aead_env ci \<and> length (s5_addr (rl_address s)) = 256"

text \<open>Client \<open>c\<close> waits for the connection \<open>r\<close> to the server; \<open>req\<close> is to be sent first.\<close>

definition connecting ::
  "crypto_lib \<Rightarrow> (bytes \<Rightarrow> bytes \<Rightarrow> bytes) \<Rightarrow> cipher_t \<Rightarrow> bytes \<Rightarrow> hid \<Rightarrow> hid \<Rightarrow> bytes \<Rightarrow> relay \<Rightarrow> bool" where
  "connecting L HM ci salt c r req s \<longleftrightarrow>
     (\<exists>b e d. rl_conns s c = Some \<lparr>cc_localBuf = b, cc_remoteBuf = None, cc_e_ctx = Some e, cc_d_ctx = Some d,
          cc_client = c, cc_remote = Some r\<rparr> \<and> wf_buffer b \<and> contents b = req \<and>
        sending L HM ci salt e 0 \<and> cx_init e = 0 \<and> fresh_receiver L ci d) \<and>
     em_data (rl_em s c) = new_handler \<and> resting c r s \<and> guarded c c s \<and> guarded r c s \<and> c \<noteq> r \<and>
     em_data (rl_em s r) = lasting (RemoteRecv c) \<and> em_connect (rl_em s r) = one_shot c \<and>
     em_write (rl_em s r) = new_handler \<and> em_end (rl_em s r) = one_shot c"

lemma construct_cipher_ok:
  assumes "lib_laws L HM S" and "wf_cipher ci" and "relaying ci s"
  obtains e d where "construct_cipher L x s = Inr (x\<lparr>cc_e_ctx := Some e, cc_d_ctx := Some d\<rparr>,
      s\<lparr>rl_world := (rl_world s)\<lparr>w_draws := Suc (w_draws (rl_world s))\<rparr>\<rparr>)"
    and "sending L HM ci (randombytes_buf L (w_draws (rl_world s)) (ci_key_len ci)) e 0" and "cx_init e = 0"
    and "fresh_receiver L ci d"
proof -
  let ?w = "(rl_world s)\<lparr>w_draws := Suc (w_draws (rl_world s))\<rparr>"
  obtain e where e: "aead_ctx_init L (rl_world s) ci 1 = Inr (e, ?w)" "unkeyed L e" "cx_cipher e = ci" "cx_init e = 0"
    "take (ci_key_len ci) (cx_salt e) = randombytes_buf L (w_draws (rl_world s)) (ci_key_len ci)"
    by (rule aead_ctx_init_enc [OF assms(1,2), of 1 "rl_world s"]) simp_all
  obtain d where d: "aead_ctx_init L ?w ci 0 = Inr (d, ?w)" "unkeyed L d" "cx_cipher d = ci" "cx_init d = 0" "cx_chunk d = None"
    using aead_ctx_init_dec [OF assms(1,2)] by metis
  have "construct_cipher L x s = Inr (x\<lparr>cc_e_ctx := Some e, cc_d_ctx := Some d\<rparr>, s\<lparr>rl_world := ?w\<rparr>)"
    using assms(3) e(1) d(1) lib_lawsD(1) [OF assms(1)]
    by (simp add: construct_cipher_def relaying_def aead_env_def aead_crypto_def heap_ok_def)
  moreover have "sending L HM ci (randombytes_buf L (w_draws (rl_world s)) (ci_key_len ci)) e 0"
    using e assms(2) by (simp add: sending_def unkeyed_def wf_ctx_def)
  ultimately show ?thesis
    by (rule that) (use e d in \<open>simp_all add: fresh_receiver_def\<close>)
qed

definition remote_emitter :: "hid \<Rightarrow> emitter" where
  "remote_emitter c = \<lparr>em_data = lasting (RemoteRecv c), em_end = one_shot c, em_error = one_shot c, em_close = one_shot c,
     em_connect = one_shot c, em_write = new_handler\<rparr>"

lemma startConnect_ok:
  assumes "accepting U" and "rl_conns s c = Some x"
  defines "r \<equiv> rl_next s"
  shows "startConnect U c s = Inr (s\<lparr>rl_conns := (rl_conns s)(c \<mapsto> x\<lparr>cc_remote := Some r\<rparr>), rl_em := (rl_em s)(r := remote_emitter c),
    rl_closing := (rl_closing s)(r := False), rl_next := Suc r, rl_calls := Suc (Suc (rl_calls s)),
    rl_out := rl_out s @ [UvConnect r (rl_remoteAddr s)]\<rparr>)"
  using assms(1,2)
  by (simp add: startConnect_def context_of_def new_handle_def Let_def accepting_def connectRemote_def r_def registers
      accepted_calls(2) [OF assms(1)] upd_em_def emit_def put_context_def remote_emitter_def handler_once_def handler_on_def
      new_emitter_def new_handler_def)

lemma addressComplete_ok:
  assumes "accepting U" and "lib_laws L HM S" and "wf_cipher ci" and "relaying ci s" and "wf_buffer b" and "3 \<le> b_len b"
    and "guarded c c s" and "idle (rl_em s c\<lparr>em_data := new_handler\<rparr>)" and "em_end (rl_em s c) = new_handler" and "c < rl_next s" and "rl_conns s c = Some (hs_context c b)"
  obtains s' where "addressComplete U L c (hs_context c b) s = Inr s'"
    and "rl_out s' = rl_out s @ [UvConnect (rl_next s) (rl_remoteAddr s)]" and "relaying ci s'" and "w_pp (rl_world s') = w_pp (rl_world s)"
    and "rl_address s' = rl_address s"
    and "settle (em_data (rl_em s c)) = new_handler \<Longrightarrow>
      connecting L HM ci (randombytes_buf L (w_draws (rl_world s)) (ci_key_len ci)) c (rl_next s) (drop 3 (contents b)) (finished c s')"
proof -
  let ?r = "rl_next s" and ?salt = "randombytes_buf L (w_draws (rl_world s)) (ci_key_len ci)"
  obtain b' where b': "Buffer_drop b 3 = Inr b'" "wf_buffer b'" "contents b' = drop 3 (contents b)"
    by (rule Buffer_drop_ok [OF assms(5,6)]) (rule that; assumption)
  obtain e d where ed: "construct_cipher L (hs_context c b') s = Inr ((hs_context c b')\<lparr>cc_e_ctx := Some e, cc_d_ctx := Some d\<rparr>,
      s\<lparr>rl_world := (rl_world s)\<lparr>w_draws := Suc (w_draws (rl_world s))\<rparr>\<rparr>)"
    "sending L HM ci ?salt e 0" "cx_init e = 0" "fresh_receiver L ci d"
    by (rule construct_cipher_ok [OF assms(2-4)]) (rule that; assumption)
  let ?x = "(hs_context c b')\<lparr>cc_e_ctx := Some e, cc_d_ctx := Some d\<rparr>"
  let ?s1 = "put_context c ?x (s\<lparr>rl_world := (rl_world s)\<lparr>w_draws := Suc (w_draws (rl_world s))\<rparr>\<rparr>)"
  let ?s' = "s\<lparr>rl_conns := (rl_conns s)(c \<mapsto> ?x\<lparr>cc_remote := Some ?r\<rparr>), rl_em := (rl_em s)(?r := remote_emitter c),
    rl_closing := (rl_closing s)(?r := False), rl_next := Suc ?r, rl_calls := Suc (Suc (rl_calls s)),
    rl_out := rl_out s @ [UvConnect ?r (rl_remoteAddr s)], rl_world := (rl_world s)\<lparr>w_draws := Suc (w_draws (rl_world s))\<rparr>\<rparr>"
  have "(hs_context c b)\<lparr>cc_localBuf := b'\<rparr> = hs_context c b'"
    by (simp add: hs_context_def)
  then have run: "addressComplete U L c (hs_context c b) s = Inr ?s'"
    using startConnect_ok [OF assms(1), of ?s1 c ?x] b'(1) ed(1) by (simp add: addressComplete_def hs_context_def [of c b] put_context_def)
  have wf: "wf_world (rl_world s)"
    using assms(4) by (simp add: relaying_def)
  show ?thesis
  proof (rule that [OF run])
    show "relaying ci ?s'"
      using assms(4) wf_world_upd_draws [OF wf] by (simp add: relaying_def)
    show "connecting L HM ci ?salt c ?r (drop 3 (contents b)) (finished c ?s')"
      if "settle (em_data (rl_em s c)) = new_handler"
      unfolding connecting_def
      by (rule conjI, rule exI [of _ b'], rule exI [of _ e], rule exI [of _ d])
        (use that b'(2,3) ed(2-4) assms(7-10) in \<open>simp_all add: hs_context_def guarded_def resting_def idle_def remote_emitter_def new_handler_def\<close>)
  qed simp_all
qed

text \<open>The last piece of the request.\<close>

lemma request_complete:
  assumes "accepting U" and "lib_laws L HM S" and "wf_cipher ci" and "relaying ci s" and "awaiting c acc s" and "ev \<noteq> []"
    and "acc @ ev = [5, 1, 0] @ encode_address e @ rest" and "wf_endpoint e"
  shows "\<exists>s'. relay_step U L la lp (ReadCb c (int (length ev)) ev) s = Inr s' \<and> relaying ci s' \<and>
    connecting L HM ci (randombytes_buf L (w_draws (rl_world s)) (ci_key_len ci)) c (rl_next s) (encode_address e @ rest) s' \<and>
    rl_out s' = rl_out s @ [UvConnect (rl_next s) (rl_remoteAddr s)] \<and> w_pp (rl_world s') = w_pp (rl_world s) \<and>
    rl_address s' = store_endpoint e (rl_address s)"
proof -
  obtain b where b: "rl_conns s c = Some (hs_context c b)" "wf_buffer b" "contents b = acc"
    and h: "em_data (rl_em s c) = one_shot (wants acc)" "guarded c c s \<and> resting c c s" "c < rl_next s" "length (s5_addr (rl_address s)) = 256"
    using assms(5) by (auto simp: awaiting_def)
  have cmd: "length (contents b @ ev) \<ge> 2 \<longrightarrow> (contents b @ ev) ! 1 = 1" and cpl: "complete (drop 3 (acc @ ev))"
    using b(3) assms(7) encoded_complete [OF assms(8)] by simp_all
  have b1: "rl_conns (running c s) c = Some (hs_context c b)" "length (s5_addr (rl_address (running c s))) = 256"
    using b(1) h(4) by simp_all
  obtain b' a where p: "wf_buffer b'" "contents b' = acc @ ev" "length (s5_addr a) = 256"
    "run_data U L la lp ev c (wants acc) (running c s) =
       addressComplete U L c (hs_context c b') ((put_context c (hs_context c b') (running c s))\<lparr>rl_address := a\<rparr>)"
    "a = store_endpoint e (rl_address s)"
    by (rule piece_arrives [OF lib_lawsD(1) [OF assms(2)] b1(1) b(2) assms(6) b1(2) cmd, of U la lp])
      (use cpl b(3) assms(7,8) in simp_all)
  let ?s1 = "(put_context c (hs_context c b') (running c s))\<lparr>rl_address := a\<rparr>"
  have pre: "relaying ci ?s1" "3 \<le> b_len b'" "guarded c c ?s1" "idle (rl_em ?s1 c\<lparr>em_data := new_handler\<rparr>)"
    "em_end (rl_em ?s1 c) = new_handler" "c < rl_next ?s1" "rl_conns ?s1 c = Some (hs_context c b')"
    using assms(4) p(1-3) h(2,3) length_contents [OF p(1)] assms(7)
    by (simp_all add: relaying_def guarded_def resting_def idle_def)
  obtain s' where s': "addressComplete U L c (hs_context c b') ?s1 = Inr s'" "rl_out s' = rl_out ?s1 @ [UvConnect (rl_next ?s1) (rl_remoteAddr ?s1)]"
    "relaying ci s'" "w_pp (rl_world s') = w_pp (rl_world ?s1)" "rl_address s' = rl_address ?s1"
    "connecting L HM ci (randombytes_buf L (w_draws (rl_world ?s1)) (ci_key_len ci)) c (rl_next ?s1) (drop 3 (contents b')) (finished c s')"
    by (rule addressComplete_ok [OF assms(1-3) pre(1) p(1) pre(2-7)])
      (use h(1) in \<open>auto simp: settle_busy intro: that\<close>)
  have "relay_step U L la lp (ReadCb c (int (length ev)) ev) s = Inr (finished c s')"
    using s'(1) p(4) by (simp add: read_one_shot [OF h(1) assms(6)])
  moreover have "relaying ci (finished c s')"
    using s'(3) by (simp add: relaying_def)
  ultimately show ?thesis
    using s' p(2,5) assms(7) by (intro exI [of _ "finished c s'"]) simp
qed

abbreviation reads :: "hid \<Rightarrow> bytes list \<Rightarrow> uv_callback list" where
  "reads c evs \<equiv> map (\<lambda>ev. ReadCb c (int (length ev)) ev) evs"

lemma relay_run_append: "relay_run U L la lp (xs @ ys) s = bnd (relay_run U L la lp xs s) (relay_run U L la lp ys)"
  by (induction xs arbitrary: s) (auto simp: bnd_def split: sum.splits)

lemma relaying_rest: "same_rest c s s' \<Longrightarrow> length (s5_addr (rl_address s')) = 256 \<Longrightarrow> relaying ci s \<Longrightarrow> relaying ci s'"
  by (simp add: same_rest_def relaying_def)

lemma awaiting_address: "awaiting c acc s \<Longrightarrow> length (s5_addr (rl_address s)) = 256"
  by (simp add: awaiting_def)

text \<open>No proper prefix of an address is complete.\<close>

lemma encode_address_prefix_free:
  assumes "wf_endpoint e" and "wf_endpoint e'" and "encode_address e @ x = encode_address e' @ y"
  shows "length (encode_address e) = length (encode_address e')"
proof -
  have "(of_nat m :: byte) = of_nat n \<Longrightarrow> m < 256 \<Longrightarrow> n < 256 \<Longrightarrow> m = n" for m n
    by (metis unat_len)
  with assms show ?thesis
    by (cases e; cases e') auto
qed

lemma incomplete_prefix:
  assumes "wf_endpoint e" and "d @ t = encode_address e @ rest" and "length d < length (encode_address e)"
  shows "\<not> complete d"
proof
  assume "complete d"
  then obtain e' r where "wf_endpoint e'" "d = encode_address e' @ r"
    using encoded_decompose by blast
  moreover from this assms(2) have "length (encode_address e') = length (encode_address e)"
    by (intro encode_address_prefix_free [OF _ assms(1), of e' "r @ t" rest]) simp_all
  ultimately show False
    using assms(3) by simp
qed

lemma request_prefix:
  assumes "wf_endpoint e" and "d @ t = [5, 1, 0] @ encode_address e @ rest" and "length d < 3 + length (encode_address e)"
  shows "\<not> complete (drop 3 d)" "length d \<ge> 2 \<longrightarrow> d ! 1 = 1"
proof -
  have "\<not> complete (drop 3 d)" if "3 \<le> length d"
  proof (rule incomplete_prefix [OF assms(1)])
    show "drop 3 d @ t = encode_address e @ rest"
      using arg_cong [OF assms(2), of "drop 3"] that by simp
  qed (use assms(3) that in simp)
  then show "\<not> complete (drop 3 d)"
    by (cases "3 \<le> length d") (simp_all add: complete_def)
  show "length d \<ge> 2 \<longrightarrow> d ! 1 = 1"
    using arg_cong [OF assms(2), of "\<lambda>xs. xs ! 1"] by (auto simp: nth_append split: if_splits)
qed

lemma awaiting_run:
  assumes "heap_ok (lib_heap L)" and "wf_endpoint e"
  shows "awaiting c acc s \<Longrightarrow> [] \<notin> set evs \<Longrightarrow> (acc @ concat evs) @ t = [5, 1, 0] @ encode_address e @ rest \<Longrightarrow>
    length (acc @ concat evs) < 3 + length (encode_address e) \<Longrightarrow>
    \<exists>s'. relay_run U L la lp (reads c evs) s = Inr s' \<and> awaiting c (acc @ concat evs) s' \<and> same_rest c s s'"
proof (induction evs arbitrary: acc s)
  case Nil
  then show ?case by (simp add: same_rest_refl)
next
  case (Cons ev evs)
  have eq: "(acc @ ev) @ (concat evs @ t) = [5, 1, 0] @ encode_address e @ rest"
    "((acc @ ev) @ concat evs) @ t = [5, 1, 0] @ encode_address e @ rest"
    using Cons.prems(3) by simp_all
  have l: "length (acc @ ev) < 3 + length (encode_address e)" "length ((acc @ ev) @ concat evs) < 3 + length (encode_address e)"
    using Cons.prems(4) by simp_all
  obtain s1 where s1: "relay_step U L la lp (ReadCb c (int (length ev)) ev) s = Inr s1" "awaiting c (acc @ ev) s1" "same_rest c s s1"
    using awaiting_step [OF assms(1) Cons.prems(1), of ev U la lp] request_prefix [OF assms(2) eq(1) l(1)] Cons.prems(2) by auto
  obtain s2 where "relay_run U L la lp (reads c evs) s1 = Inr s2" "awaiting c ((acc @ ev) @ concat evs) s2" "same_rest c s1 s2"
    using Cons.IH [OF s1(2) _ eq(2) l(2)] Cons.prems(2) by auto
  with s1 show ?case
    by (auto intro: same_rest_trans)
qed

text \<open>A client that is accepted and greets.\<close>

lemma accept_ok:
  assumes "accepting U" and "heap_ok (lib_heap L)" and "relaying ci s" and "1 < length g" and "hd g = 5"
  defines "c \<equiv> rl_next s"
  shows "\<exists>s'. relay_run U L la lp [ListenCb, ReadCb c (int (length g)) g] s = Inr s' \<and> awaiting c [] s' \<and> relaying ci s' \<and>
    rl_out s' = rl_out s @ [UvAccept c, UvReadStart c, UvWrite c [5, 0]] \<and> rl_next s' = Suc c \<and> rl_world s' = rl_world s \<and>
    rl_address s' = rl_address s \<and> rl_remoteAddr s' = rl_remoteAddr s"
proof -
  obtain b where b: "Buffer_newBuf (lib_heap L) = Inr b" "wf_buffer b" "contents b = []"
    by (rule Buffer_newBuf_ok [OF assms(2)]) (rule that; assumption)
  let ?em = "new_emitter\<lparr>em_data := one_shot HandShakeReceive, em_error := one_shot c, em_close := one_shot c\<rparr>"
  let ?s1 = "s\<lparr>rl_conns := (rl_conns s)(c \<mapsto> hs_context c b), rl_em := (rl_em s)(c := ?em), rl_closing := (rl_closing s)(c := False),
    rl_next := Suc c, rl_calls := Suc (Suc (Suc (rl_calls s))), rl_out := rl_out s @ [UvAccept c, UvReadStart c]\<rparr>"
  have 1: "relay_step U L la lp ListenCb s = Inr ?s1"
    using assms(1) b(1)
    by (simp add: relay_step_def onListen_def new_handle_def Let_def accepting_def new_ConnectionContext_def registers
        accepted_calls [OF assms(1)] upd_em_def emit_def put_context_def hs_context_def handler_once_def new_emitter_def
        new_handler_def c_def)
  have g: "g \<noteq> []" "g ! 0 = 5"
    using assms(4,5) by (cases g; simp)+
  let ?s2 = "finished c (data_once c HandShakeSendCallBack (emit (UvWrite c [5, 0]) (running c ?s1)))"
  have 2: "relay_step U L la lp (ReadCb c (int (length g)) g) ?s1 = Inr ?s2"
    using assms(4) g by (subst read_one_shot [of ?s1 c HandShakeReceive])
      (simp_all add: run_data_def handShakeReceive_def read_byte_def accepted_calls [OF assms(1)])
  have "awaiting c [] ?s2"
    unfolding awaiting_def
    by (rule conjI, rule exI [of _ b])
      (use b assms(3) in \<open>simp_all add: data_once_def settle_busy guarded_def resting_def idle_def wants_def relaying_def new_emitter_def\<close>)
  then show ?thesis
    using 1 2 assms(3) by (intro exI [of _ ?s2]) (simp add: relaying_def data_once_def)
qed

lemma handshake_run:
  assumes "accepting U" and "lib_laws L HM S" and "wf_cipher ci" and "relaying ci s"
    and "1 < length greeting" and "hd greeting = 5" and "wf_endpoint e"
    and "[] \<notin> set (evs @ [ev])" and "concat evs @ ev = [5, 1, 0] @ encode_address e @ rest"
    and "length (concat evs) < 3 + length (encode_address e)"
  shows "\<exists>s'. relay_run U L la lp (ListenCb # reads (rl_next s) (greeting # evs @ [ev])) s = Inr s' \<and> relaying ci s' \<and>
    connecting L HM ci (randombytes_buf L (w_draws (rl_world s)) (ci_key_len ci)) (rl_next s) (Suc (rl_next s))
      (encode_address e @ rest) s' \<and>
    rl_out s' = rl_out s @ [UvAccept (rl_next s), UvReadStart (rl_next s), UvWrite (rl_next s) [5, 0],
      UvConnect (Suc (rl_next s)) (rl_remoteAddr s)] \<and>
    (\<exists>a. rl_address s' = store_endpoint e a) \<and> w_pp (rl_world s') = w_pp (rl_world s)"
proof -
  let ?c = "rl_next s"
  note h = lib_lawsD(1) [OF assms(2)]
  obtain s1 where s1: "relay_run U L la lp [ListenCb, ReadCb ?c (int (length greeting)) greeting] s = Inr s1" "awaiting ?c [] s1"
    "relaying ci s1" "rl_out s1 = rl_out s @ [UvAccept ?c, UvReadStart ?c, UvWrite ?c [5, 0]]" "rl_next s1 = Suc ?c"
    "rl_world s1 = rl_world s" "rl_remoteAddr s1 = rl_remoteAddr s"
    using accept_ok [OF assms(1) h assms(4-6)] by blast
  obtain s2 where s2: "relay_run U L la lp (reads ?c evs) s1 = Inr s2" "awaiting ?c (concat evs) s2" "same_rest ?c s1 s2"
    using awaiting_run [OF h assms(7) s1(2), of evs ev rest U la lp] assms(8-10) by auto
  have r2: "relaying ci s2"
    using relaying_rest [OF s2(3) awaiting_address [OF s2(2)] s1(3)] .
  obtain s3 where s3: "relay_step U L la lp (ReadCb ?c (int (length ev)) ev) s2 = Inr s3" "relaying ci s3"
    "connecting L HM ci (randombytes_buf L (w_draws (rl_world s2)) (ci_key_len ci)) ?c (rl_next s2) (encode_address e @ rest) s3"
    "rl_out s3 = rl_out s2 @ [UvConnect (rl_next s2) (rl_remoteAddr s2)]" "rl_address s3 = store_endpoint e (rl_address s2)"
    "w_pp (rl_world s3) = w_pp (rl_world s2)"
    using request_complete [OF assms(1-3) r2 s2(2) _ assms(9,7)] assms(8) by auto
  have "relay_run U L la lp (ListenCb # reads ?c (greeting # evs @ [ev])) s = Inr s3"
    using relay_run_append [of U L la lp "[ListenCb, ReadCb ?c (int (length greeting)) greeting]" "reads ?c evs @ reads ?c [ev]" s]
      relay_run_append [of U L la lp "reads ?c evs" "reads ?c [ev]" s1] s1(1) s2(1) s3(1) by simp
  then show ?thesis
    using s1(4-7) s2(3) s3 by (intro exI [of _ s3]) (auto simp: same_rest_def)
qed

section \<open>Property\<close>

text \<open>C3: a SOCKS5 client connects, however its request is cut into pieces. After a new client is accepted and has
  sent a greeting, the bytes \<^verbatim>\<open>05 01 00\<close>, an address and anything behind it may arrive in any number of
  non-empty reads (of which only the last completes the address). The relay answers the greeting, stores the
  address, and then asks libuv once for a connection to the address of the server; the address and the bytes behind it are kept
  to be sent first, the cipher contexts are fresh, the listeners for the server's events are registered, and the replay filter is
  untouched.\<close>

theorem socks5_request_connects:
  assumes "accepting U" and "lib_laws L HM S" and "wf_cipher ci" and "relaying ci s"
    and "1 < length greeting" and "hd greeting = 5" and "wf_endpoint e"
    and "[] \<notin> set (evs @ [ev])" and "concat evs @ ev = [5, 1, 0] @ encode_address e @ rest"
    and "length (concat evs) < 3 + length (encode_address e)"
  shows "\<exists>s'. relay_run U L la lp (ListenCb # reads (rl_next s) (greeting # evs @ [ev])) s = Inr s' \<and> relaying ci s' \<and>
    connecting L HM ci (randombytes_buf L (w_draws (rl_world s)) (ci_key_len ci)) (rl_next s) (Suc (rl_next s))
      (encode_address e @ rest) s' \<and>
    rl_out s' = rl_out s @ [UvAccept (rl_next s), UvReadStart (rl_next s), UvWrite (rl_next s) [5, 0],
      UvConnect (Suc (rl_next s)) (rl_remoteAddr s)] \<and>
    (\<exists>a. rl_address s' = store_endpoint e a) \<and> w_pp (rl_world s') = w_pp (rl_world s)"
  using assms by (rule handshake_run)

end
