(* ===== verification/SS_TcpStream.thy ===== *)
theory SS_TcpStream
  imports SS_TcpHandshake
begin

text \<open>
  The relay in stream mode. From the established connection on, what the client sends is encrypted frame by frame
  and written to the server, and what the server sends is decrypted and written to the client. The predicates
  \<open>flushing\<close> (the first frame is on its way) and \<open>streaming\<close> name the states of a connection.
\<close>

section \<open>States\<close>

definition flushing ::
  "crypto_lib \<Rightarrow> (bytes \<Rightarrow> bytes \<Rightarrow> bytes) \<Rightarrow> cipher_t \<Rightarrow> bytes \<Rightarrow> hid \<Rightarrow> hid \<Rightarrow> cipher_ctx_t \<Rightarrow> relay \<Rightarrow> bool" where
  "flushing L HM ci salt c r d s \<longleftrightarrow>
     (\<exists>b b' e. rl_conns s c = Some \<lparr>cc_localBuf = b, cc_remoteBuf = Some b', cc_e_ctx = Some e, cc_d_ctx = Some d,
          cc_client = c, cc_remote = Some r\<rparr> \<and> wf_buffer b \<and> wf_buffer b' \<and> sending L HM ci salt e 1 \<and> cx_init e \<noteq> 0) \<and>
     em_data (rl_em s c) = new_handler \<and> resting c r s \<and> guarded c c s \<and> guarded r c s \<and> c \<noteq> r \<and>
     em_data (rl_em s r) = lasting (RemoteRecv c) \<and> em_write (rl_em s r) = one_shot c \<and> em_end (rl_em s r) = one_shot c"

definition streaming ::
  "crypto_lib \<Rightarrow> (bytes \<Rightarrow> bytes \<Rightarrow> bytes) \<Rightarrow> cipher_t \<Rightarrow> bytes \<Rightarrow> nat \<Rightarrow> hid \<Rightarrow> hid \<Rightarrow> cipher_ctx_t \<Rightarrow> relay \<Rightarrow> bool" where
  "streaming L HM ci salt j c r d s \<longleftrightarrow>
     (\<exists>b b' e. rl_conns s c = Some \<lparr>cc_localBuf = b, cc_remoteBuf = Some b', cc_e_ctx = Some e, cc_d_ctx = Some d,
          cc_client = c, cc_remote = Some r\<rparr> \<and> wf_buffer b \<and> wf_buffer b' \<and> b_len b' = 0 \<and>
          sending L HM ci salt e j \<and> cx_init e \<noteq> 0) \<and>
     em_data (rl_em s c) = lasting SockStream \<and> resting c r s \<and> guarded c c s \<and> guarded r c s \<and> c \<noteq> r \<and>
     em_data (rl_em s r) = lasting (RemoteRecv c) \<and> em_end (rl_em s r) = one_shot c"

lemma streaming_emit [simp]: "streaming L HM ci salt j c r d (emit k s) = streaming L HM ci salt j c r d s"
  by (simp add: streaming_def guarded_def resting_def)

lemma relaying_upd [simp]:
  "relaying ci (emit k s) = relaying ci s" "relaying ci (put_context c x s) = relaying ci s" "relaying ci (upd_em h f s) = relaying ci s"
  by (simp_all add: relaying_def)

lemma wf_clear: "wf_buffer b \<Longrightarrow> wf_buffer (Buffer_clear b)" "b_len (Buffer_clear b) = 0"
  by (simp_all add: Buffer_clear_def wf_buffer_def wf_block_def)

lemma contents_empty: "wf_buffer b \<Longrightarrow> b_len b = 0 \<Longrightarrow> contents b = []"
  by (simp add: contents_def)

section \<open>The connection is established\<close>

abbreviation socks5_reply :: bytes where
  "socks5_reply \<equiv> [5, 0, 0, 1, 0, 0, 0, 0, 0, 0]"

lemma encrypt_env:
  assumes "lib_laws L HM S" and "sending L HM ci salt e j" and "wf_world w" and "wf_buffer b" and "payload_ok (contents b)"
  obtains b' e' w' where "Buffer_ssEncrypt L w (aead_env ci) b (Some e) = Inr (0, b', Some e', w')" "wf_buffer b'"
    "contents b' = (if cx_init e = 0 then salt else []) @ frame S ci (subkey HM ci salt) j (contents b)"
    "sending L HM ci salt e' (Suc j)" "cx_init e' \<noteq> 0" "wf_world w'"
  using aead_encrypt_ok [OF assms, of BUF_DEFAULT_CAPACITY]
  by (auto simp: Buffer_ssEncrypt_def aead_env_def aead_crypto_def)

lemma remoteConnected_ok:
  assumes "accepting U" and "lib_laws L HM S" and "relaying ci s" and "payload_ok req"
    and "rl_conns s c = Some \<lparr>cc_localBuf = b, cc_remoteBuf = None, cc_e_ctx = Some e, cc_d_ctx = Some d,
        cc_client = c, cc_remote = Some r\<rparr>"
    and "wf_buffer b" and "contents b = req" and "sending L HM ci salt e 0" and "cx_init e = 0"
  obtains b' e' w' where "remoteConnected U L r c s =
      Inr (emit (UvWrite r (salt @ frame S ci (subkey HM ci salt) 0 req)) (write_once r c (put_context c
        \<lparr>cc_localBuf = Buffer_clear b, cc_remoteBuf = Some b', cc_e_ctx = Some e', cc_d_ctx = Some d, cc_client = c, cc_remote = Some r\<rparr>
        ((emit (UvWrite c socks5_reply) (emit (UvReadStart r) s))\<lparr>rl_world := w'\<rparr>))))"
    "wf_buffer b'" "sending L HM ci salt e' 1" "cx_init e' \<noteq> 0" "wf_world w'"
proof -
  have lb: "b_len b \<le> BUF_DEFAULT_CAPACITY"
    using assms(4,6,7) by (auto simp: payload_ok_def)
  have w: "wf_world (rl_world s)" "rl_cipher s = aead_env ci"
    using assms(3) by (simp_all add: relaying_def)
  obtain n where n: "Buffer_newBuf (lib_heap L) = Inr n" "wf_buffer n" "contents n = []" "b_cap n = BUF_DEFAULT_CAPACITY"
    by (rule Buffer_newBuf_ok [OF lib_lawsD(1) [OF assms(2)]]) (rule that; assumption)
  let ?m = "n\<lparr>b_data := contents b @ drop (b_len b) (b_data n), b_len := b_len b\<rparr>"
  have m: "Buffer_copy_buffer n b = Inr ?m" "wf_buffer ?m" "contents ?m = req"
    using Buffer_copy_buffer_ok [OF n(2) assms(6)] lb n(2,4) assms(6,7) by (auto simp: wf_buffer_def wf_block_def contents_def)
  obtain b' e' w' where enc: "Buffer_ssEncrypt L (rl_world s) (aead_env ci) ?m (Some e) = Inr (0, b', Some e', w')" "wf_buffer b'"
    "contents b' = salt @ frame S ci (subkey HM ci salt) 0 req" "sending L HM ci salt e' 1" "cx_init e' \<noteq> 0" "wf_world w'"
    by (rule encrypt_env [OF assms(2,8) w(1) m(2)]) (use assms(4,9) m(3) in simp_all)
  have d: "read_mem (b_data b') 0 (b_len b') = Inr (contents b')"
    using Buffer_duplicate_ok [OF enc(2)] by (simp add: Buffer_duplicateDataToArray_def)
  show ?thesis
    by (rule that [of b' e' w', OF _ enc(2,4-6)])
      (use assms(5) w(2) n(1) m(1) enc(1,3) d in \<open>simp add: remoteConnected_def accepted_calls [OF assms(1)] context_of_def Let_def\<close>)
qed

lemma connect_publish:
  assumes "em_connect (rl_em s r) = one_shot c"
  shows "relay_step U L la lp (ConnectCb r 0) s =
    bnd (remoteConnected U L r c (upd_em r (\<lambda>e. e\<lparr>em_connect := busy c\<rparr>) s))
      (\<lambda>s. Inr (upd_em r (\<lambda>e. e\<lparr>em_connect := settle (em_connect (rl_em s r))\<rparr>) s))"
  using assms publish_one_shot [of "\<lambda>s. em_connect (rl_em s r)" s c "\<lambda>x. upd_em r (\<lambda>e. e\<lparr>em_connect := x\<rparr>)" "remoteConnected U L r"]
  by (simp add: relay_step_def publish_connect_def)

lemma write_publish:
  assumes "em_write (rl_em s r) = one_shot c"
  shows "relay_step U L la lp (WriteCb r 0) s =
    bnd (remoteWritten c (upd_em r (\<lambda>e. e\<lparr>em_write := busy c\<rparr>) s))
      (\<lambda>s. Inr (upd_em r (\<lambda>e. e\<lparr>em_write := settle (em_write (rl_em s r))\<rparr>) s))"
  using assms publish_one_shot [of "\<lambda>s. em_write (rl_em s r)" s c "\<lambda>x. upd_em r (\<lambda>e. e\<lparr>em_write := x\<rparr>)" remoteWritten]
  by (simp add: relay_step_def publish_write_def)

lemma connected_step:
  assumes "accepting U" and "lib_laws L HM S" and "relaying ci s" and "payload_ok req" and "connecting L HM ci salt c r req s"
  obtains s' d where "relay_step U L la lp (ConnectCb r 0) s = Inr s'" "relaying ci s'" "flushing L HM ci salt c r d s'"
    "fresh_receiver L ci d"
    "rl_out s' = rl_out s @ [UvReadStart r, UvWrite c socks5_reply, UvWrite r (salt @ frame S ci (subkey HM ci salt) 0 req)]"
proof -
  obtain b e d where x: "rl_conns s c = Some \<lparr>cc_localBuf = b, cc_remoteBuf = None, cc_e_ctx = Some e, cc_d_ctx = Some d,
        cc_client = c, cc_remote = Some r\<rparr>" "wf_buffer b" "contents b = req" "sending L HM ci salt e 0" "cx_init e = 0"
      "fresh_receiver L ci d"
    and h: "em_data (rl_em s c) = new_handler" "guarded c c s \<and> resting c r s" "guarded r c s" "c \<noteq> r" "em_data (rl_em s r) = lasting (RemoteRecv c)"
      "em_connect (rl_em s r) = one_shot c" "em_write (rl_em s r) = new_handler" "em_end (rl_em s r) = one_shot c"
    using assms(5) by (auto simp: connecting_def)
  let ?s0 = "upd_em r (\<lambda>e. e\<lparr>em_connect := busy c\<rparr>) s"
  obtain b' e' w' where run: "remoteConnected U L r c ?s0 =
      Inr (emit (UvWrite r (salt @ frame S ci (subkey HM ci salt) 0 req)) (write_once r c (put_context c
        \<lparr>cc_localBuf = Buffer_clear b, cc_remoteBuf = Some b', cc_e_ctx = Some e', cc_d_ctx = Some d, cc_client = c, cc_remote = Some r\<rparr>
        ((emit (UvWrite c socks5_reply) (emit (UvReadStart r) ?s0))\<lparr>rl_world := w'\<rparr>))))"
    and b': "wf_buffer b'" "sending L HM ci salt e' 1" "cx_init e' \<noteq> 0" "wf_world w'"
    by (rule remoteConnected_ok [OF assms(1,2) _ assms(4), of ci ?s0 c b e d r salt]) (use assms(3) x in simp_all)
  show ?thesis
  proof (rule that [of _ d])
    show "relay_step U L la lp (ConnectCb r 0) s = Inr (upd_em r (\<lambda>e. e\<lparr>em_connect := new_handler\<rparr>)
      (emit (UvWrite r (salt @ frame S ci (subkey HM ci salt) 0 req)) (write_once r c (put_context c
        \<lparr>cc_localBuf = Buffer_clear b, cc_remoteBuf = Some b', cc_e_ctx = Some e', cc_d_ctx = Some d, cc_client = c, cc_remote = Some r\<rparr>
        ((emit (UvWrite c socks5_reply) (emit (UvReadStart r) ?s0))\<lparr>rl_world := w'\<rparr>)))))" (is "_ = Inr ?s")
      unfolding connect_publish [OF h(6)] run by (simp add: write_once_def settle_busy)
    show "relaying ci ?s"
      using assms(3) b'(4) by (simp add: relaying_def write_once_def)
    show "flushing L HM ci salt c r d ?s"
      unfolding flushing_def
      by (rule conjI, rule exI [of _ "Buffer_clear b"], rule exI [of _ b'], rule exI [of _ e'])
        (use b' x(2) wf_clear(1) h in \<open>simp_all add: write_once_def guarded_def resting_def idle_def handler_once_def new_handler_def\<close>)
  qed (simp_all add: x(6) write_once_def)
qed

lemma written_step:
  assumes "flushing L HM ci salt c r d s" and "relaying ci s"
  obtains s' where "relay_step U L la lp (WriteCb r 0) s = Inr s'" "relaying ci s'" "streaming L HM ci salt 1 c r d s'"
    "rl_out s' = rl_out s" "rl_world s' = rl_world s"
proof -
  obtain b b' e where x: "rl_conns s c = Some \<lparr>cc_localBuf = b, cc_remoteBuf = Some b', cc_e_ctx = Some e, cc_d_ctx = Some d,
        cc_client = c, cc_remote = Some r\<rparr>" "wf_buffer b" "wf_buffer b'" "sending L HM ci salt e 1" "cx_init e \<noteq> 0"
    and h: "em_data (rl_em s c) = new_handler" "guarded c c s \<and> resting c r s" "guarded r c s" "c \<noteq> r" "em_data (rl_em s r) = lasting (RemoteRecv c)"
      "em_write (rl_em s r) = one_shot c" "em_end (rl_em s r) = one_shot c"
    using assms(1) by (auto simp: flushing_def)
  let ?x = "\<lparr>cc_localBuf = b, cc_remoteBuf = Some (Buffer_clear b'), cc_e_ctx = Some e, cc_d_ctx = Some d,
        cc_client = c, cc_remote = Some r\<rparr>"
  let ?s = "upd_em r (\<lambda>e. e\<lparr>em_write := new_handler\<rparr>) (put_context c ?x (data_on c SockStream (upd_em r (\<lambda>e. e\<lparr>em_write := busy c\<rparr>) s)))"
  show ?thesis
  proof (rule that [of ?s])
    show "relay_step U L la lp (WriteCb r 0) s = Inr ?s"
      unfolding write_publish [OF h(6)] using x(1) h(4)
      by (simp add: remoteWritten_def context_of_def Let_def data_on_def settle_busy)
    show "relaying ci ?s"
      using assms(2) by (simp add: data_on_def)
    show "streaming L HM ci salt 1 c r d ?s"
      unfolding streaming_def
      by (rule conjI, rule exI [of _ b], rule exI [of _ "Buffer_clear b'"], rule exI [of _ e])
        (use x wf_clear h in \<open>simp_all add: data_on_def guarded_def resting_def idle_def handler_on_def new_handler_def\<close>)
  qed (simp_all add: data_on_def)
qed

section \<open>From the client to the server\<close>

definition walking :: "hid \<Rightarrow> data_listener \<Rightarrow> relay \<Rightarrow> relay" where
  "walking h l s = upd_em h (\<lambda>e. e\<lparr>em_data := lasting_busy l\<rparr>) s"

lemma walking_simps [simp]:
  "rl_conns (walking h l s) = rl_conns s"
  "rl_em (walking h l s) = (rl_em s)(h := (rl_em s h)\<lparr>em_data := lasting_busy l\<rparr>)"
  "rl_closing (walking h l s) = rl_closing s" "rl_next (walking h l s) = rl_next s" "rl_out (walking h l s) = rl_out s"
  "rl_world (walking h l s) = rl_world s" "rl_cipher (walking h l s) = rl_cipher s" "rl_address (walking h l s) = rl_address s"
  "rl_tx (walking h l s) = rl_tx s" "rl_rx (walking h l s) = rl_rx s" "relaying ci (walking h l s) = relaying ci s"
  by (simp_all add: walking_def)

lemma settle_walking: "settle (lasting_busy l) = lasting l"
  by (simp add: settle_def)

lemma read_lasting:
  assumes "em_data (rl_em s h) = lasting l" and "ev \<noteq> []" and "run_data U L la lp ev h l (walking h l s) = Inr t"
    and "em_data (rl_em t h) = lasting_busy l"
  shows "relay_step U L la lp (ReadCb h (int (length ev)) ev) s = Inr (finished h t)"
  using assms publish_lasting [of "\<lambda>s. em_data (rl_em s h)" s l "\<lambda>x. upd_em h (\<lambda>e. e\<lparr>em_data := x\<rparr>)" "run_data U L la lp ev h"]
  by (simp add: relay_step_def readCallback_def publish_data_def walking_def finished_def)

lemma sockStream_ok:
  assumes "accepting U" and "lib_laws L HM S" and "relaying ci s" and "payload_ok ev" and "\<not> rl_closing s c"
    and "rl_conns s c = Some \<lparr>cc_localBuf = b, cc_remoteBuf = Some b', cc_e_ctx = Some e, cc_d_ctx = Some d,
        cc_client = c, cc_remote = Some r\<rparr>"
    and "wf_buffer b'" and "b_len b' = 0" and "sending L HM ci salt e j" and "cx_init e \<noteq> 0"
  obtains b'' e' t where "sockStream U L ev c s = Inr t"
    "rl_conns t = (rl_conns s)(c \<mapsto> \<lparr>cc_localBuf = b, cc_remoteBuf = Some b'', cc_e_ctx = Some e', cc_d_ctx = Some d,
        cc_client = c, cc_remote = Some r\<rparr>)"
    "rl_em t = rl_em s" "rl_closing t = rl_closing s" "rl_out t = rl_out s @ [UvWrite r (frame S ci (subkey HM ci salt) j ev)]"
    "relaying ci t" "rl_tx t = rl_tx s + of_nat (length ev)"
    "wf_buffer b''" "b_len b'' = 0" "sending L HM ci salt e' (Suc j)" "cx_init e' \<noteq> 0"
proof -
  have w: "wf_world (rl_world s)" "rl_cipher s = aead_env ci"
    using assms(3) by (simp_all add: relaying_def)
  obtain m where m: "Buffer_copy (lib_heap L) b' ev = Inr m" "wf_buffer m" "contents m = ev"
    by (rule Buffer_copy_ok [OF lib_lawsD(1) [OF assms(2)] assms(7), of ev])
      (use contents_empty [OF assms(7,8)] in \<open>auto intro: that\<close>)
  have lm: "b_len m = length ev"
    using m(3) length_contents [OF m(2)] by simp
  obtain n e' w' where enc: "Buffer_ssEncrypt L (rl_world s) (aead_env ci) m (Some e) = Inr (0, n, Some e', w')" "wf_buffer n"
    "contents n = frame S ci (subkey HM ci salt) j ev" "sending L HM ci salt e' (Suc j)" "cx_init e' \<noteq> 0" "wf_world w'"
    by (rule encrypt_env [OF assms(2,9) w(1) m(2)]) (use assms(4,10) m(3) in simp_all)
  have "b_len n = length ev + 34"
    using enc(3) length_contents [OF enc(2)] frame_length [OF lib_lawsD(4) [OF assms(2)]] by simp
  then have ln: "b_len n \<noteq> 0"
    by simp
  let ?x = "\<lparr>cc_localBuf = b, cc_remoteBuf = Some n, cc_e_ctx = Some e', cc_d_ctx = Some d, cc_client = c, cc_remote = Some r\<rparr>"
  let ?t = "put_context c (?x\<lparr>cc_remoteBuf := Some (Buffer_clear n)\<rparr>) (emit (UvWrite r (contents n)) (put_context c ?x
    (s\<lparr>rl_tx := rl_tx s + of_nat (length ev), rl_world := w'\<rparr>)))"
  show ?thesis
  proof (rule that [of ?t "Buffer_clear n" e'])
    show "sockStream U L ev c s = Inr ?t"
      using assms(5,6) w(2) m(1) enc(1) ln lm Buffer_duplicate_ok [OF enc(2)]
      by (simp add: sockStream_def Let_def accepted_calls [OF assms(1)])
    show "relaying ci ?t"
      using assms(3) enc(6) by (simp add: relaying_def)
  qed (use enc wf_clear in simp_all)
qed

lemma upload_step:
  assumes "accepting U" and "lib_laws L HM S" and "relaying ci s" and "payload_ok ev" and "streaming L HM ci salt j c r d s"
  obtains s' where "relay_step U L la lp (ReadCb c (int (length ev)) ev) s = Inr s'" "relaying ci s'"
    "streaming L HM ci salt (Suc j) c r d s'" "rl_out s' = rl_out s @ [UvWrite r (frame S ci (subkey HM ci salt) j ev)]"
    "rl_tx s' = rl_tx s + of_nat (length ev)"
proof -
  obtain b b' e where x: "rl_conns s c = Some \<lparr>cc_localBuf = b, cc_remoteBuf = Some b', cc_e_ctx = Some e, cc_d_ctx = Some d,
        cc_client = c, cc_remote = Some r\<rparr>" "wf_buffer b" "wf_buffer b'" "b_len b' = 0" "sending L HM ci salt e j" "cx_init e \<noteq> 0"
    and h: "em_data (rl_em s c) = lasting SockStream" "guarded c c s \<and> resting c r s" "guarded r c s" "c \<noteq> r"
      "em_data (rl_em s r) = lasting (RemoteRecv c)" "em_end (rl_em s r) = one_shot c"
    using assms(5) by (auto simp: streaming_def)
  let ?s0 = "walking c SockStream s"
  have pre: "relaying ci ?s0" "\<not> rl_closing ?s0 c" "rl_conns ?s0 c = Some \<lparr>cc_localBuf = b, cc_remoteBuf = Some b',
      cc_e_ctx = Some e, cc_d_ctx = Some d, cc_client = c, cc_remote = Some r\<rparr>"
    using assms(3) h(2) x(1) by (simp_all add: guarded_def)
  obtain b'' e' t where t: "sockStream U L ev c ?s0 = Inr t"
    "rl_conns t = (rl_conns ?s0)(c \<mapsto> \<lparr>cc_localBuf = b, cc_remoteBuf = Some b'', cc_e_ctx = Some e', cc_d_ctx = Some d,
        cc_client = c, cc_remote = Some r\<rparr>)"
    "rl_em t = rl_em ?s0" "rl_closing t = rl_closing ?s0" "rl_out t = rl_out ?s0 @ [UvWrite r (frame S ci (subkey HM ci salt) j ev)]"
    "relaying ci t" "rl_tx t = rl_tx ?s0 + of_nat (length ev)"
    "wf_buffer b''" "b_len b'' = 0" "sending L HM ci salt e' (Suc j)" "cx_init e' \<noteq> 0"
    by (rule sockStream_ok [OF assms(1,2) pre(1) assms(4) pre(2,3) x(3-6)]) (rule that; assumption)
  show ?thesis
  proof (rule that [of "finished c t"])
    show "relay_step U L la lp (ReadCb c (int (length ev)) ev) s = Inr (finished c t)"
      by (rule read_lasting [OF h(1)]) (use assms(4) t(1,3) in \<open>simp_all add: payload_ok_def run_data_def\<close>)
    show "streaming L HM ci salt (Suc j) c r d (finished c t)"
      unfolding streaming_def
      by (rule conjI, rule exI [of _ b], rule exI [of _ b''], rule exI [of _ e'])
        (use t x(2) h in \<open>simp_all add: guarded_def resting_def idle_def settle_walking\<close>)
  qed (use t in \<open>simp_all add: relaying_def finished_def\<close>)
qed

text \<open>What was written to a handle.\<close>

definition written :: "hid \<Rightarrow> uv_call list \<Rightarrow> bytes" where
  "written h out = concat (map (\<lambda>k. case k of UvWrite h' d \<Rightarrow> if h' = h then d else [] | _ \<Rightarrow> []) out)"

lemma written_simps [simp]:
  "written h [] = []" "written h (xs @ ys) = written h xs @ written h ys" "written h (UvWrite h' d # xs) = (if h' = h then d else []) @ written h xs"
  "written h (UvConnect x a # xs) = written h xs" "written h (UvReadStart x # xs) = written h xs" "written h (UvAccept x # xs) = written h xs"
  "written h (UvClose x # xs) = written h xs"
  by (simp_all add: written_def)

lemma upload_run:
  assumes "accepting U" and "lib_laws L HM S"
  shows "relaying ci s \<Longrightarrow> \<forall>m\<in>set ms. payload_ok m \<Longrightarrow> streaming L HM ci salt j c r d s \<Longrightarrow>
    \<exists>s' new. relay_run U L la lp (reads c ms) s = Inr s' \<and> relaying ci s' \<and> streaming L HM ci salt (j + length ms) c r d s' \<and>
      rl_out s' = rl_out s @ new \<and> written r new = wire S ci (subkey HM ci salt) j ms \<and> written c new = [] \<and> rl_tx s' = rl_tx s + of_nat (length (concat ms))"
proof (induction ms arbitrary: s j)
  case (Cons m ms)
  obtain s1 where s1: "relay_step U L la lp (ReadCb c (int (length m)) m) s = Inr s1" "relaying ci s1"
    "streaming L HM ci salt (Suc j) c r d s1" "rl_out s1 = rl_out s @ [UvWrite r (frame S ci (subkey HM ci salt) j m)]"
    "rl_tx s1 = rl_tx s + of_nat (length m)"
    by (rule upload_step [OF assms Cons.prems(1) _ Cons.prems(3)]) (use Cons.prems(2) in \<open>auto intro: that\<close>)
  obtain s2 new where "relay_run U L la lp (reads c ms) s1 = Inr s2" "relaying ci s2"
    "streaming L HM ci salt (Suc j + length ms) c r d s2" "rl_out s2 = rl_out s1 @ new"
    "written r new = wire S ci (subkey HM ci salt) (Suc j) ms" "written c new = []" "rl_tx s2 = rl_tx s1 + of_nat (length (concat ms))"
    using Cons.IH [OF s1(2) _ s1(3)] Cons.prems(2) by auto
  moreover have "c \<noteq> r"
    using Cons.prems(3) by (simp add: streaming_def)
  ultimately show ?case
    using s1 by (intro exI [of _ s2] exI [of _ "UvWrite r (frame S ci (subkey HM ci salt) j m) # new"]) (simp add: algebra_simps)
qed (auto intro: exI [of _ "[]"])

section \<open>From the server to the client\<close>

lemma decrypt_env:
  assumes "lib_laws L HM S" and "receiving L HM S ci salt msgs w d B n" and "wf_buffer b"
    and "length salt = ci_key_len ci" and "\<forall>m\<in>set msgs. payload_ok m"
    and "B @ contents b @ tail = salt @ wire S ci (subkey HM ci salt) 0 msgs"
  obtains err b' d' w' n' where "Buffer_ssDecrypt L w (aead_env ci) b (Some d) = Inr (err, b', Some d', w')" "n \<le> n'" "wf_buffer b'"
    "receiving L HM S ci salt msgs w' d' (B @ contents b) n'"
    "err = CRYPTO_OK \<and> contents b' = concat (take (n' - n) (drop n msgs)) \<or> err = CRYPTO_NEED_MORE \<and> n' = n"
proof -
  obtain err b' d' w' n' where run: "aead_decrypt L w b d BUF_DEFAULT_CAPACITY = Inr (err, b', d', w')" "n \<le> n'"
    "receiving L HM S ci salt msgs w' d' (B @ contents b) n'"
    "err = CRYPTO_OK \<and> contents b' = concat (take (n' - n) (drop n msgs)) \<or> err = CRYPTO_NEED_MORE \<and> n' = n"
    using receiving_step [OF assms, of BUF_DEFAULT_CAPACITY] by blast
  have rc: "receiver L HM ci d (2 * n)" "wf_world w"
    using assms(2) by (simp_all add: receiving_def)
  have "call_result L HM S ci (2 * n) w d (chunk_bytes d @ contents b) b (err, b', d', w')"
    using aead_decrypt_result [OF assms(1) rc assms(3), of BUF_DEFAULT_CAPACITY] run(1) by auto
  then have "wf_buffer b'"
    using run(4) assms(3) by (auto simp: call_result_def frames_result_def split: if_splits)
  with run show ?thesis
    by (intro that) (auto simp: Buffer_ssDecrypt_def aead_env_def aead_crypto_def aead_decrypt_ptr_def)
qed

text \<open>What \<^verbatim>\<open>remoteRecv\<close> finds and leaves; \<open>n\<close> messages have been delivered after the bytes \<open>B\<close> of the server's stream.\<close>

definition downloading ::
  "crypto_lib \<Rightarrow> (bytes \<Rightarrow> bytes \<Rightarrow> bytes) \<Rightarrow> aead_spec \<Rightarrow> cipher_t \<Rightarrow> bytes \<Rightarrow> bytes list \<Rightarrow> hid \<Rightarrow> hid \<Rightarrow> bytes \<Rightarrow> nat \<Rightarrow> relay \<Rightarrow> bool" where
  "downloading L HM S ci salt msgs c r B n s \<longleftrightarrow>
     (\<exists>x d. rl_conns s c = Some x \<and> cc_client x = c \<and> cc_remote x = Some r \<and> cc_d_ctx x = Some d \<and> wf_buffer (cc_localBuf x) \<and>
        receiving L HM S ci salt msgs (rl_world s) d B n) \<and> relaying ci s"

text \<open>What the download leaves alone.\<close>

definition same_em :: "relay \<Rightarrow> relay \<Rightarrow> bool" where
  "same_em s s' \<longleftrightarrow> rl_em s' = rl_em s \<and> rl_closing s' = rl_closing s \<and> rl_rx s' = rl_rx s"

lemma remoteRecv_round_ok:
  assumes "accepting U" and "lib_laws L HM S" and "length salt = ci_key_len ci" and "\<forall>m\<in>set msgs. payload_ok m"
    and "downloading L HM S ci salt msgs c r B n s" and "B @ seg @ tail = salt @ wire S ci (subkey HM ci salt) 0 msgs"
  obtains s' n' new where "remoteRecv_round U L c seg s = Inr (True, s')" "downloading L HM S ci salt msgs c r (B @ seg) n' s'"
    "n \<le> n'" "rl_out s' = rl_out s @ new" "written c new = concat (take (n' - n) (drop n msgs))" "same_em s s'"
    "\<forall>k\<in>set new. \<exists>p. k = UvWrite c p"
proof -
  obtain x d where x: "rl_conns s c = Some x" "cc_client x = c" "cc_remote x = Some r" "cc_d_ctx x = Some d" "wf_buffer (cc_localBuf x)"
    and rc: "receiving L HM S ci salt msgs (rl_world s) d B n" and rel: "relaying ci s"
    using assms(5) by (auto simp: downloading_def)
  note h = lib_lawsD(1) [OF assms(2)]
  let ?b = "Buffer_bufRealloc (lib_heap L) (cc_localBuf x) BUF_DEFAULT_CAPACITY"
  obtain b where b: "Buffer_copyFromBegin (lib_heap L) ?b seg (length seg) = Inr b" "wf_buffer b" "contents b = seg"
    by (rule Buffer_copyFromBegin_ok [OF h bufRealloc_wf(1) [OF h x(5)], of "length seg" seg BUF_DEFAULT_CAPACITY])
      (auto intro: that)
  have B: "B @ contents b @ tail = salt @ wire S ci (subkey HM ci salt) 0 msgs"
    using assms(6) b(3) by simp
  obtain err b' d' w' n' where dec: "Buffer_ssDecrypt L (rl_world s) (aead_env ci) b (Some d) = Inr (err, b', Some d', w')" "n \<le> n'"
    "wf_buffer b'" "receiving L HM S ci salt msgs w' d' (B @ seg) n'"
    "err = CRYPTO_OK \<and> contents b' = concat (take (n' - n) (drop n msgs)) \<or> err = CRYPTO_NEED_MORE \<and> n' = n"
    by (rule decrypt_env [OF assms(2) rc b(2) assms(3,4) B, unfolded b(3)]) (rule that; assumption)
  have env: "rl_cipher s = aead_env ci"
    using rel by (simp add: relaying_def)
  let ?x = "x\<lparr>cc_localBuf := b', cc_d_ctx := Some d'\<rparr>"
  let ?s1 = "put_context c ?x (s\<lparr>rl_world := w'\<rparr>)"
  have wfw: "wf_world w'"
    using dec(4) by (simp add: receiving_def)
  have dl: "downloading L HM S ci salt msgs c r (B @ seg) n' (put_context c (?x\<lparr>cc_localBuf := Buffer_clear b'\<rparr>) t)"
    if "rl_world t = w'" "relaying ci t" for t
    unfolding downloading_def
    by (rule conjI, rule exI [of _ "?x\<lparr>cc_localBuf := Buffer_clear b'\<rparr>"], rule exI [of _ d']) (use that x dec(3,4) wf_clear(1) in simp_all)
  from dec(5) show ?thesis
  proof
    assume e: "err = CRYPTO_OK \<and> contents b' = concat (take (n' - n) (drop n msgs))"
    let ?s' = "put_context c (?x\<lparr>cc_localBuf := Buffer_clear b'\<rparr>) (emit (UvWrite c (contents b')) ?s1)"
    show ?thesis
    proof (rule that [of ?s' n' "[UvWrite c (contents b')]"])
      show "remoteRecv_round U L c seg s = Inr (True, ?s')"
        using x e b(1) dec(1) env Buffer_duplicate_ok [OF dec(3)]
        by (simp add: remoteRecv_round_def context_of_def Let_def accepted_calls [OF assms(1)])
      show "downloading L HM S ci salt msgs c r (B @ seg) n' ?s'"
        by (rule dl) (use rel wfw in \<open>simp_all add: relaying_def\<close>)
    qed (use dec(2) e in \<open>simp_all add: same_em_def\<close>)
  next
    assume e: "err = CRYPTO_NEED_MORE \<and> n' = n"
    let ?s' = "put_context c (?x\<lparr>cc_localBuf := Buffer_clear b'\<rparr>) ?s1"
    show ?thesis
    proof (rule that [of ?s' n' "[]"])
      show "remoteRecv_round U L c seg s = Inr (True, ?s')"
        using x e b(1) dec(1) env by (simp add: remoteRecv_round_def context_of_def Let_def)
      show "downloading L HM S ci salt msgs c r (B @ seg) n' ?s'"
        by (rule dl) (use rel wfw in \<open>simp_all add: relaying_def\<close>)
    qed (use dec(2) e in \<open>simp_all add: same_em_def\<close>)
  qed
qed

lemma take_split: "n \<le> n1 \<Longrightarrow> n1 \<le> n2 \<Longrightarrow> take (n2 - n) (drop n ms) = take (n1 - n) (drop n ms) @ take (n2 - n1) (drop n1 ms)"
  using take_add [of "n1 - n" "n2 - n1" "drop n ms"] by simp

lemma remoteRecv_loop_ok:
  assumes "accepting U" and "lib_laws L HM S" and "length salt = ci_key_len ci" and "\<forall>m\<in>set msgs. payload_ok m"
  shows "downloading L HM S ci salt msgs c r B n s \<Longrightarrow> B @ data @ tail = salt @ wire S ci (subkey HM ci salt) 0 msgs \<Longrightarrow>
    \<exists>s' n' new. remoteRecv_loop U L c data s = Inr s' \<and> downloading L HM S ci salt msgs c r (B @ data) n' s' \<and> n \<le> n' \<and>
      rl_out s' = rl_out s @ new \<and> written c new = concat (take (n' - n) (drop n msgs)) \<and> same_em s s' \<and>
      (\<forall>k\<in>set new. \<exists>p. k = UvWrite c p)"
proof (induction "length data" arbitrary: data s B n rule: less_induct)
  case less
  show ?case
  proof (cases "data = []")
    case True
    then show ?thesis
      using less.prems by (intro exI [of _ s] exI [of _ n] exI [of _ "[]"]) (simp add: remoteRecv_loop.simps same_em_def)
  next
    case False
    let ?seg = "take BUF_DEFAULT_CAPACITY data" and ?rest = "drop BUF_DEFAULT_CAPACITY data"
    have eq: "B @ ?seg @ (?rest @ tail) = salt @ wire S ci (subkey HM ci salt) 0 msgs"
      "(B @ ?seg) @ ?rest @ tail = salt @ wire S ci (subkey HM ci salt) 0 msgs"
      using less.prems(2) append_take_drop_id [of BUF_DEFAULT_CAPACITY data] by (metis append.assoc)+
    obtain s1 n1 new1 where 1: "remoteRecv_round U L c ?seg s = Inr (True, s1)" "downloading L HM S ci salt msgs c r (B @ ?seg) n1 s1"
      "n \<le> n1" "rl_out s1 = rl_out s @ new1" "written c new1 = concat (take (n1 - n) (drop n msgs))" "same_em s s1"
      "\<forall>k\<in>set new1. \<exists>p. k = UvWrite c p"
      by (rule remoteRecv_round_ok [OF assms less.prems(1) eq(1)]) (rule that; assumption)
    have "length ?rest < length data"
      using False by simp
    from less.hyps [OF this 1(2) eq(2)] obtain s2 n2 new2 where 2: "remoteRecv_loop U L c ?rest s1 = Inr s2"
      "downloading L HM S ci salt msgs c r ((B @ ?seg) @ ?rest) n2 s2" "n1 \<le> n2" "rl_out s2 = rl_out s1 @ new2"
      "written c new2 = concat (take (n2 - n1) (drop n1 msgs))" "same_em s1 s2" "\<forall>k\<in>set new2. \<exists>p. k = UvWrite c p"
      by blast
    have "remoteRecv_loop U L c data s = Inr s2"
      using False 1(1) 2(1) by (subst remoteRecv_loop.simps) simp
    moreover have "downloading L HM S ci salt msgs c r (B @ data) n2 s2"
      using 2(2) by (simp only: append.assoc append_take_drop_id)
    ultimately show ?thesis
      using 1 2 take_split [OF 1(3) 2(3), of msgs]
      by (intro exI [of _ s2] exI [of _ n2] exI [of _ "new1 @ new2"]) (auto simp: same_em_def)
  qed
qed

lemma download_step:
  assumes "accepting U" and "lib_laws L HM S" and "length salt = ci_key_len ci" and "\<forall>m\<in>set msgs. payload_ok m"
    and "downloading L HM S ci salt msgs c r B n s" and "B @ ev @ tail = salt @ wire S ci (subkey HM ci salt) 0 msgs"
    and "em_data (rl_em s r) = lasting (RemoteRecv c)" and "\<not> rl_closing s r" and "ev \<noteq> []"
  shows "\<exists>s' n' new. relay_step U L la lp (ReadCb r (int (length ev)) ev) s = Inr s' \<and>
    downloading L HM S ci salt msgs c r (B @ ev) n' s' \<and> n \<le> n' \<and> rl_out s' = rl_out s @ new \<and>
    written c new = concat (take (n' - n) (drop n msgs)) \<and> (\<forall>k\<in>set new. \<exists>p. k = UvWrite c p) \<and>
    rl_em s' = rl_em s \<and> rl_closing s' = rl_closing s \<and> rl_rx s' = rl_rx s + of_nat (length ev)"
proof -
  let ?s0 = "(walking r (RemoteRecv c) s)\<lparr>rl_rx := rl_rx s + of_nat (length ev)\<rparr>"
  have d0: "downloading L HM S ci salt msgs c r B n ?s0"
    using assms(5) by (simp add: downloading_def relaying_def)
  obtain t n' new where t: "remoteRecv_loop U L c ev ?s0 = Inr t" "downloading L HM S ci salt msgs c r (B @ ev) n' t" "n \<le> n'"
    "rl_out t = rl_out ?s0 @ new" "written c new = concat (take (n' - n) (drop n msgs))" "same_em ?s0 t"
    "\<forall>k\<in>set new. \<exists>p. k = UvWrite c p"
    using remoteRecv_loop_ok [OF assms(1-4) d0 assms(6)] by blast
  have em: "rl_em t = (rl_em s)(r := (rl_em s r)\<lparr>em_data := lasting_busy (RemoteRecv c)\<rparr>)"
    "rl_closing t = rl_closing s" "rl_rx t = rl_rx s + of_nat (length ev)"
    using t(6) by (simp_all add: same_em_def)
  have "relay_step U L la lp (ReadCb r (int (length ev)) ev) s = Inr (finished r t)"
    by (rule read_lasting [OF assms(7)]) (use assms(8,9) t(1) em(1) in \<open>simp_all add: run_data_def remoteRecv_def\<close>)
  moreover have "rl_em (finished r t) = rl_em s"
    using em(1) assms(7) by (auto simp: fun_eq_iff settle_walking)
  moreover have "downloading L HM S ci salt msgs c r (B @ ev) n' (finished r t)"
    using t(2) by (simp add: downloading_def relaying_def)
  ultimately show ?thesis
    using t(3-5,7) em(2,3) by (intro exI [of _ "finished r t"] exI [of _ n'] exI [of _ new]) (simp add: finished_def)
qed

lemma download_run:
  assumes "accepting U" and "lib_laws L HM S" and "length salt = ci_key_len ci" and "\<forall>m\<in>set msgs. payload_ok m"
  shows "downloading L HM S ci salt msgs c r B n s \<Longrightarrow> B @ concat evs @ tail = salt @ wire S ci (subkey HM ci salt) 0 msgs \<Longrightarrow>
    em_data (rl_em s r) = lasting (RemoteRecv c) \<Longrightarrow> \<not> rl_closing s r \<Longrightarrow> [] \<notin> set evs \<Longrightarrow>
    \<exists>s' n' new. relay_run U L la lp (reads r evs) s = Inr s' \<and> downloading L HM S ci salt msgs c r (B @ concat evs) n' s' \<and> n \<le> n' \<and>
      rl_out s' = rl_out s @ new \<and> written c new = concat (take (n' - n) (drop n msgs)) \<and> (\<forall>k\<in>set new. \<exists>p. k = UvWrite c p) \<and>
      rl_rx s' = rl_rx s + of_nat (length (concat evs))"
proof (induction evs arbitrary: s B n)
  case Nil
  then show ?case
    by (intro exI [of _ s] exI [of _ n] exI [of _ "[]"]) simp
next
  case (Cons ev evs)
  have eq: "B @ ev @ (concat evs @ tail) = salt @ wire S ci (subkey HM ci salt) 0 msgs"
    "(B @ ev) @ concat evs @ tail = salt @ wire S ci (subkey HM ci salt) 0 msgs"
    using Cons.prems(2) by simp_all
  obtain s1 n1 new1 where 1: "relay_step U L la lp (ReadCb r (int (length ev)) ev) s = Inr s1"
    "downloading L HM S ci salt msgs c r (B @ ev) n1 s1" "n \<le> n1" "rl_out s1 = rl_out s @ new1"
    "written c new1 = concat (take (n1 - n) (drop n msgs))" "\<forall>k\<in>set new1. \<exists>p. k = UvWrite c p"
    "rl_em s1 = rl_em s" "rl_closing s1 = rl_closing s" "rl_rx s1 = rl_rx s + of_nat (length ev)"
    using download_step [OF assms Cons.prems(1) eq(1) Cons.prems(3,4), of la lp] Cons.prems(5) by auto
  obtain s2 n2 new2 where 2: "relay_run U L la lp (reads r evs) s1 = Inr s2"
    "downloading L HM S ci salt msgs c r ((B @ ev) @ concat evs) n2 s2" "n1 \<le> n2" "rl_out s2 = rl_out s1 @ new2"
    "written c new2 = concat (take (n2 - n1) (drop n1 msgs))" "\<forall>k\<in>set new2. \<exists>p. k = UvWrite c p"
    "rl_rx s2 = rl_rx s1 + of_nat (length (concat evs))"
    using Cons.IH [OF 1(2) eq(2)] Cons.prems(3-5) 1(7,8) by auto
  show ?case
    using 1 2 take_split [OF 1(3) 2(3), of msgs]
    by (intro exI [of _ s2] exI [of _ n2] exI [of _ "new1 @ new2"]) (auto simp: algebra_simps)
qed

lemma download_all:
  assumes "accepting U" and "lib_laws L HM S" and "length salt = ci_key_len ci" and "\<forall>m\<in>set msgs. payload_ok m" and "msgs \<noteq> []"
    and "downloading L HM S ci salt msgs c r [] 0 s" and "concat evs = salt @ wire S ci (subkey HM ci salt) 0 msgs"
    and "em_data (rl_em s r) = lasting (RemoteRecv c)" and "\<not> rl_closing s r" and "[] \<notin> set evs"
  shows "\<exists>s' new. relay_run U L la lp (reads r evs) s = Inr s' \<and> rl_out s' = rl_out s @ new \<and> written c new = concat msgs \<and>
    (\<forall>k\<in>set new. \<exists>p. k = UvWrite c p) \<and> rl_rx s' = rl_rx s + of_nat (length (concat evs))"
proof -
  obtain s' n new where s': "relay_run U L la lp (reads r evs) s = Inr s'"
    "downloading L HM S ci salt msgs c r ([] @ concat evs) n s'" "rl_out s' = rl_out s @ new"
    "written c new = concat (take (n - 0) (drop 0 msgs))" "\<forall>k\<in>set new. \<exists>p. k = UvWrite c p"
    "rl_rx s' = rl_rx s + of_nat (length (concat evs))"
    using download_run [OF assms(1-4,6) _ assms(8-10), where tail = "[]" and la = la and lp = lp] assms(7) by auto
  have "n = length msgs"
    using s'(2) receiving_all [OF lib_lawsD(4) [OF assms(2)] _ assms(3,5)] assms(7) by (auto simp: downloading_def)
  with s' show ?thesis by auto
qed

section \<open>Properties\<close>

text \<open>The connection \<open>r\<close> of client \<open>c\<close> is ready for the first bytes of the server.\<close>

definition awaits_server :: "crypto_lib \<Rightarrow> cipher_t \<Rightarrow> hid \<Rightarrow> hid \<Rightarrow> relay \<Rightarrow> bool" where
  "awaits_server L ci c r s \<longleftrightarrow>
     (\<exists>x d. rl_conns s c = Some x \<and> cc_client x = c \<and> cc_remote x = Some r \<and> cc_d_ctx x = Some d \<and> wf_buffer (cc_localBuf x) \<and>
        fresh_receiver L ci d) \<and> em_data (rl_em s r) = lasting (RemoteRecv c) \<and> \<not> rl_closing s r"

lemma connecting_awaits: "connecting L HM ci salt c r req s \<Longrightarrow> awaits_server L ci c r s"
  by (fastforce simp: connecting_def awaits_server_def guarded_def)

lemma streaming_awaits: "streaming L HM ci salt j c r d s \<Longrightarrow> fresh_receiver L ci d \<Longrightarrow> awaits_server L ci c r s"
  by (fastforce simp: streaming_def awaits_server_def guarded_def)

text \<open>A client is accepted and requests a connection, and the connection is established: the first write, with the
  requested address, is under way.\<close>

lemma accepted_flushing:
  assumes "accepting U" and "lib_laws L HM S" and "wf_cipher ci" and "relaying ci s"
    and "1 < length greeting" and "hd greeting = 5" and "wf_endpoint e"
    and "[] \<notin> set (evs @ [ev])" and "concat evs @ ev = [5, 1, 0] @ encode_address e @ rest"
    and "length (concat evs) < 3 + length (encode_address e)" and "payload_ok (encode_address e @ rest)"
  defines "salt \<equiv> randombytes_buf L (w_draws (rl_world s)) (ci_key_len ci)" and "c \<equiv> rl_next s" and "r \<equiv> Suc (rl_next s)"
  obtains s2 d new where "relay_run U L la lp ((ListenCb # reads c (greeting # evs @ [ev])) @ [ConnectCb r 0]) s = Inr s2"
    "relaying ci s2" "flushing L HM ci salt c r d s2" "fresh_receiver L ci d" "rl_out s2 = rl_out s @ new"
    "written c new = [5, 0] @ socks5_reply"
    "written r new = salt @ wire S ci (subkey HM ci salt) 0 [encode_address e @ rest]"
proof -
  obtain s1 where s1: "relay_run U L la lp (ListenCb # reads c (greeting # evs @ [ev])) s = Inr s1" "relaying ci s1"
    "connecting L HM ci salt c r (encode_address e @ rest) s1"
    "rl_out s1 = rl_out s @ [UvAccept c, UvReadStart c, UvWrite c [5, 0], UvConnect r (rl_remoteAddr s)]"
    using handshake_run [OF assms(1-10)] unfolding salt_def c_def r_def by blast
  obtain s2 d where s2: "relay_step U L la lp (ConnectCb r 0) s1 = Inr s2" "relaying ci s2" "flushing L HM ci salt c r d s2"
    "fresh_receiver L ci d"
    "rl_out s2 = rl_out s1 @ [UvReadStart r, UvWrite c socks5_reply, UvWrite r (salt @ frame S ci (subkey HM ci salt) 0 (encode_address e @ rest))]"
    by (rule connected_step [OF assms(1,2) s1(2) assms(11) s1(3)]) (rule that; assumption)
  show ?thesis
  proof (rule that [OF _ s2(2-4)])
    show "relay_run U L la lp ((ListenCb # reads c (greeting # evs @ [ev])) @ [ConnectCb r 0]) s = Inr s2"
      unfolding relay_run_append s1(1) using s2(1) by simp
    show "rl_out s2 = rl_out s @ [UvAccept c, UvReadStart c, UvWrite c [5, 0], UvConnect r (rl_remoteAddr s), UvReadStart r, UvWrite c socks5_reply,
        UvWrite r (salt @ frame S ci (subkey HM ci salt) 0 (encode_address e @ rest))]"
      using s1(4) s2(5) by simp
  qed (simp_all add: c_def r_def)
qed

lemma flushing_uploads:
  assumes "accepting U" and "lib_laws L HM S" and "relaying ci s" and "flushing L HM ci salt c r d s" and "\<forall>m\<in>set ms. payload_ok m"
  obtains s' new where "relay_run U L la lp (WriteCb r 0 # reads c ms) s = Inr s'" "streaming L HM ci salt (1 + length ms) c r d s'"
    "rl_out s' = rl_out s @ new" "written r new = wire S ci (subkey HM ci salt) 1 ms" "written c new = []"
proof -
  obtain s3 where s3: "relay_step U L la lp (WriteCb r 0) s = Inr s3" "relaying ci s3" "streaming L HM ci salt 1 c r d s3"
    "rl_out s3 = rl_out s"
    by (rule written_step [OF assms(4,3)]) (rule that; assumption)
  obtain s4 new where "relay_run U L la lp (reads c ms) s3 = Inr s4" "streaming L HM ci salt (1 + length ms) c r d s4"
    "rl_out s4 = rl_out s3 @ new" "written r new = wire S ci (subkey HM ci salt) 1 ms" "written c new = []"
    using upload_run [OF assms(1,2) s3(2) assms(5) s3(3)] by blast
  with s3(1,4) show ?thesis
    by (intro that [of s4 new]) simp_all
qed

text \<open>C1: what a client sends reaches the server. A client is accepted, greets, and requests a connection; the
  connection is established and the first write has finished; then the client sends the reads \<open>ms\<close> (each of at
  most 0x3FFF bytes, as the address with the bytes behind it). However the network cuts the bytes written to the
  server handle, a server in another process with the same key, whose replay filter has not seen the salt,
  decrypts exactly the requested address, the bytes behind it and the data of all reads, in order. The client gets
  the two SOCKS5 answers and nothing else.\<close>

theorem relay_upload:
  assumes "accepting U" and "lib_laws L HM S" and "wf_cipher ci" and "relaying ci s"
    and "1 < length greeting" and "hd greeting = 5" and "wf_endpoint e"
    and "[] \<notin> set (evs @ [ev])" and "concat evs @ ev = [5, 1, 0] @ encode_address e @ rest"
    and "length (concat evs) < 3 + length (encode_address e)"
    and "\<forall>m\<in>set ((encode_address e @ rest) # ms). payload_ok m"
    and "lib_laws L' HM S" and "wf_world w'" and "\<not> seen w' (randombytes_buf L (w_draws (rl_world s)) (ci_key_len ci))"
  shows "\<exists>s' new. let c = rl_next s; r = Suc c in
    relay_run U L la lp ((ListenCb # reads c (greeting # evs @ [ev])) @ [ConnectCb r 0, WriteCb r 0] @ reads c ms) s = Inr s' \<and>
    rl_out s' = rl_out s @ new \<and> written c new = [5, 0] @ socks5_reply \<and> awaits_server L ci c r s' \<and>
    (\<forall>frags cap. (\<forall>f\<in>set frags. wf_buffer f) \<longrightarrow> concat (map contents frags) = written r new \<longrightarrow>
      (\<exists>ctx es ctx2 w2. aead_ctx_init L' w' ci 0 = Inr (ctx, w') \<and>
        receive_all L' w' ctx cap frags = Inr (es, encode_address e @ rest @ concat ms, ctx2, w2) \<and> CRYPTO_ERROR \<notin> set es))"
proof -
  let ?c = "rl_next s" and ?salt = "randombytes_buf L (w_draws (rl_world s)) (ci_key_len ci)" and ?req = "encode_address e @ rest"
  let ?r = "Suc ?c"
  have po: "payload_ok ?req" "\<forall>m\<in>set ms. payload_ok m"
    using assms(11) by simp_all
  obtain s2 d new1 where s2: "relay_run U L la lp ((ListenCb # reads ?c (greeting # evs @ [ev])) @ [ConnectCb ?r 0]) s = Inr s2"
    "relaying ci s2" "flushing L HM ci ?salt ?c ?r d s2" "fresh_receiver L ci d" "rl_out s2 = rl_out s @ new1"
    "written ?c new1 = [5, 0] @ socks5_reply" "written ?r new1 = ?salt @ wire S ci (subkey HM ci ?salt) 0 [?req]"
    by (rule accepted_flushing [OF assms(1-10) po(1)]) (rule that; assumption)
  obtain s4 new2 where s4: "relay_run U L la lp (WriteCb ?r 0 # reads ?c ms) s2 = Inr s4" "streaming L HM ci ?salt (1 + length ms) ?c ?r d s4"
    "rl_out s4 = rl_out s2 @ new2" "written ?r new2 = wire S ci (subkey HM ci ?salt) 1 ms" "written ?c new2 = []"
    by (rule flushing_uploads [OF assms(1,2) s2(2,3) po(2)]) (rule that; assumption)
  have wr: "written ?r (new1 @ new2) = ?salt @ wire S ci (subkey HM ci ?salt) 0 (?req # ms)"
    using s2(7) s4(4) by simp
  have run: "relay_run U L la lp ((ListenCb # reads ?c (greeting # evs @ [ev])) @ [ConnectCb ?r 0, WriteCb ?r 0] @ reads ?c ms) s = Inr s4"
    using relay_run_append [of U L la lp "(ListenCb # reads ?c (greeting # evs @ [ev])) @ [ConnectCb ?r 0]" "WriteCb ?r 0 # reads ?c ms" s,
      unfolded s2(1) bnd_Inr s4(1)]
    by (simp only: append.assoc append.simps)
  have dl: "\<exists>ctx es ctx2 w2. aead_ctx_init L' w' ci 0 = Inr (ctx, w') \<and>
      receive_all L' w' ctx cap frags = Inr (es, ?req @ concat ms, ctx2, w2) \<and> CRYPTO_ERROR \<notin> set es"
    if "\<forall>f\<in>set frags. wf_buffer f" "concat (map contents frags) = written ?r (new1 @ new2)" for frags cap
    using receive_wire [OF assms(12,3,13,14) lib_lawsD(2) [OF assms(2)] assms(11) _ that(1), of cap] that(2) wr by simp
  show ?thesis
    unfolding Let_def
    by (rule exI [of _ s4], rule exI [of _ "new1 @ new2"])
      (use run s2(5,6) s4(3,5) streaming_awaits [OF s4(2) s2(4)] dl in simp)
qed

text \<open>C2: what the server sends reaches the client. The server, in another process with the same key, sends the
  messages \<open>bs\<close>; however the network cuts the bytes, a connection that awaits the server's first bytes writes
  exactly the messages to its client, in order, and does nothing else, provided its replay filter has not seen the
  salt. The counter of received bytes grows by what arrived.\<close>

theorem relay_download:
  assumes "accepting U" and "lib_laws L HM S" and "lib_laws L' HM S" and "wf_cipher ci" and "relaying ci s" and "awaits_server L ci c r s"
    and "wf_world w'" and "\<forall>b\<in>set bs. wf_buffer b \<and> payload_ok (contents b)" and "bs \<noteq> []"
    and "\<not> seen (rl_world s) (randombytes_buf L' (w_draws w') (ci_key_len ci))"
  shows "\<exists>ctx w1 sent ctx2 w2. aead_ctx_init L' w' ci 1 = Inr (ctx, w1) \<and> send_all L' w1 ctx cap bs = Inr (sent, ctx2, w2) \<and>
    (\<forall>evs. [] \<notin> set evs \<longrightarrow> concat evs = sent \<longrightarrow>
      (\<exists>s' new. relay_run U L la lp (reads r evs) s = Inr s' \<and> rl_out s' = rl_out s @ new \<and>
        written c new = concat (map contents bs) \<and> (\<forall>k\<in>set new. \<exists>p. k = UvWrite c p) \<and>
        rl_rx s' = rl_rx s + of_nat (length sent)))"
proof -
  let ?salt = "randombytes_buf L' (w_draws w') (ci_key_len ci)" and ?ms = "map contents bs"
  let ?sent = "?salt @ wire S ci (subkey HM ci ?salt) 0 ?ms"
  have ls: "length ?salt = ci_key_len ci"
    using assms(3) by (rule lib_lawsD)
  obtain ctx w1 where i: "aead_ctx_init L' w' ci 1 = Inr (ctx, w1)" "wf_world w1" "sending L' HM ci ?salt ctx 0" "cx_init ctx = 0"
    using sending_init [OF assms(3,4,7)] by blast
  obtain ctx2 w2 where snd: "send_all L' w1 ctx cap bs = Inr (?sent, ctx2, w2)"
    using send_all_wire [OF assms(3) i(3,2), of bs cap] assms(8,9) i(4) by auto
  have ok: "\<forall>m\<in>set ?ms. payload_ok m" "?ms \<noteq> []"
    using assms(8,9) by simp_all
  have em: "em_data (rl_em s r) = lasting (RemoteRecv c)" "\<not> rl_closing s r"
    using assms(6) by (simp_all add: awaits_server_def)
  have "downloading L HM S ci ?salt ?ms c r [] 0 s"
    using assms(5,6) fresh_receiver_receiving [OF _ assms(4) _ assms(10)]
    by (fastforce simp: downloading_def awaits_server_def relaying_def)
  note dl = download_all [OF assms(1,2) ls ok this _ em]
  have "\<exists>s' new. relay_run U L la lp (reads r evs) s = Inr s' \<and> rl_out s' = rl_out s @ new \<and>
        written c new = concat ?ms \<and> (\<forall>k\<in>set new. \<exists>p. k = UvWrite c p) \<and> rl_rx s' = rl_rx s + of_nat (length ?sent)"
    if "[] \<notin> set evs" "concat evs = ?sent" for evs
    using dl [OF that(2,1)] unfolding that(2) .
  then show ?thesis
    by (intro exI [of _ ctx] exI [of _ w1] exI [of _ ?sent] exI [of _ ctx2] exI [of _ w2]) (use i(1) snd in blast)
qed

end
