(* ===== verification/SS_TcpErrors.thy ===== *)
theory SS_TcpErrors
  imports SS_TcpStream
begin

text \<open>
  How connections of the TCP relay end: an error, the end of the server's stream or a closed handle takes the
  connection down completely, and no later callback finds any of it. The remaining properties show where the code
  does not do what it means to: data that arrives before the first write to the server has finished is lost, a
  large read of the client ends the process, and an error inside a listener leaves it with a destroyed context.
\<close>

section \<open>Taking a connection down\<close>

text \<open>The two handles of a connection and its context refer to each other.\<close>

definition linked :: "hid \<Rightarrow> hid \<Rightarrow> relay \<Rightarrow> bool" where
  "linked c r s \<longleftrightarrow> (\<exists>x. rl_conns s c = Some x \<and> cc_client x = c \<and> cc_remote x = Some r) \<and> c \<noteq> r \<and>
     guarded c c s \<and> guarded r c s \<and> em_end (rl_em s r) = one_shot c \<and> resting c r s"

lemma connecting_linked: "connecting L HM ci salt c r req s \<Longrightarrow> linked c r s"
  by (auto simp: connecting_def linked_def)

lemma flushing_linked: "flushing L HM ci salt c r d s \<Longrightarrow> linked c r s"
  by (auto simp: flushing_def linked_def)

lemma streaming_linked: "streaming L HM ci salt j c r d s \<Longrightarrow> linked c r s"
  by (auto simp: streaming_def linked_def)

definition torn_down :: "hid \<Rightarrow> hid \<Rightarrow> relay \<Rightarrow> relay" where
  "torn_down c r s = s\<lparr>rl_conns := (rl_conns s)(c := None), rl_em := (rl_em s)(c := new_emitter, r := new_emitter),
     rl_closing := (rl_closing s)(c := True, r := True), rl_out := rl_out s @ [UvClose r, UvClose c]\<rparr>"

lemma clear_quiet: "at_rest h \<Longrightarrow> handler_clear h = new_handler"
  by (cases h) (simp add: at_rest_def handler_clear_def new_handler_def)

lemma clear_busy: "handler_clear (busy l) = busy l"
  by (simp add: handler_clear_def busy_def)

lemma clear_idle: "idle e \<Longrightarrow> emitter_clear e = new_emitter"
  by (simp add: emitter_clear_def idle_def clear_quiet new_emitter_def)

text \<open>The emitter of the handle whose listener runs is cleared but for the running handler.\<close>

lemma clear_running:
  assumes "idle e"
  shows "emitter_clear (e\<lparr>em_error := busy c\<rparr>) = new_emitter\<lparr>em_error := busy c\<rparr>"
    "emitter_clear (e\<lparr>em_end := busy c\<rparr>) = new_emitter\<lparr>em_end := busy c\<rparr>"
    "emitter_clear (e\<lparr>em_close := busy c\<rparr>) = new_emitter\<lparr>em_close := busy c\<rparr>"
  using assms by (simp_all add: emitter_clear_def idle_def clear_quiet new_emitter_def clear_busy)

lemma panic_linked:
  assumes "linked c r s" and "rl_conns t = rl_conns s" and "rl_closing t = rl_closing s"
  shows "panic c t = t\<lparr>rl_conns := (rl_conns s)(c := None),
    rl_em := (rl_em t)(r := emitter_clear (rl_em t r), c := emitter_clear (rl_em t c)),
    rl_closing := (rl_closing s)(r := True, c := True), rl_out := rl_out t @ [UvClose r, UvClose c]\<rparr>"
  using assms by (auto simp: panic_def destroy_context_def handle_close_def upd_em_def linked_def guarded_def Let_def)

lemma new_emitter_id:
  "new_emitter\<lparr>em_error := new_handler\<rparr> = new_emitter" "new_emitter\<lparr>em_end := new_handler\<rparr> = new_emitter"
  "new_emitter\<lparr>em_close := new_handler\<rparr> = new_emitter" "em_error new_emitter = new_handler"
  "em_end new_emitter = new_handler" "em_close new_emitter = new_handler"
  by (simp_all add: new_emitter_def)

lemma publish_error_linked:
  assumes "linked c r s" and "h \<in> {c, r}"
  shows "publish_error h s = Inr (torn_down c r s)"
proof -
  have e: "em_error (rl_em s h) = one_shot c" "idle (rl_em s c)" "idle (rl_em s r)" "c \<noteq> r"
    using assms by (auto simp: linked_def guarded_def resting_def)
  have "publish_error h s = bnd (run_panic c (upd_em h (\<lambda>e. e\<lparr>em_error := busy c\<rparr>) s))
      (\<lambda>s. Inr (upd_em h (\<lambda>e. e\<lparr>em_error := settle (em_error (rl_em s h))\<rparr>) s))"
    using e(1) publish_one_shot [of "\<lambda>s. em_error (rl_em s h)" s c "\<lambda>x. upd_em h (\<lambda>e. e\<lparr>em_error := x\<rparr>)" run_panic]
    by (simp add: publish_error_def)
  then show ?thesis
    using assms(2) e(2-4)
    by (auto simp: run_panic_def panic_linked [OF assms(1)] torn_down_def upd_em_def clear_running clear_idle settle_busy
        new_emitter_id fun_eq_iff)
qed

lemma publish_close_linked:
  assumes "linked c r s" and "h \<in> {c, r}"
  shows "publish_close h s = Inr (torn_down c r s)"
proof -
  have e: "em_close (rl_em s h) = one_shot c" "idle (rl_em s c)" "idle (rl_em s r)" "c \<noteq> r"
    using assms by (auto simp: linked_def guarded_def resting_def)
  have "publish_close h s = bnd (run_panic c (upd_em h (\<lambda>e. e\<lparr>em_close := busy c\<rparr>) s))
      (\<lambda>s. Inr (upd_em h (\<lambda>e. e\<lparr>em_close := settle (em_close (rl_em s h))\<rparr>) s))"
    using e(1) publish_one_shot [of "\<lambda>s. em_close (rl_em s h)" s c "\<lambda>x. upd_em h (\<lambda>e. e\<lparr>em_close := x\<rparr>)" run_panic]
    by (simp add: publish_close_def)
  then show ?thesis
    using assms(2) e(2-4)
    by (auto simp: run_panic_def panic_linked [OF assms(1)] torn_down_def upd_em_def clear_running clear_idle settle_busy
        new_emitter_id fun_eq_iff)
qed

lemma publish_end_linked:
  assumes "linked c r s"
  shows "publish_end r s = Inr (torn_down c r s)"
proof -
  have e: "em_end (rl_em s r) = one_shot c" "idle (rl_em s c)" "idle (rl_em s r)" "c \<noteq> r"
    using assms by (auto simp: linked_def resting_def)
  have "publish_end r s = bnd (run_panic c (upd_em r (\<lambda>e. e\<lparr>em_end := busy c\<rparr>) s))
      (\<lambda>s. Inr (upd_em r (\<lambda>e. e\<lparr>em_end := settle (em_end (rl_em s r))\<rparr>) s))"
    using e(1) publish_one_shot [of "\<lambda>s. em_end (rl_em s r)" s c "\<lambda>x. upd_em r (\<lambda>e. e\<lparr>em_end := x\<rparr>)" run_panic]
    by (simp add: publish_end_def)
  then show ?thesis
    using e(2-4)
    by (auto simp: run_panic_def panic_linked [OF assms] torn_down_def upd_em_def clear_running clear_idle settle_busy
        new_emitter_id fun_eq_iff)
qed

section \<open>Silence afterwards\<close>

lemma upd_em_same: "f (rl_em s h) = rl_em s h \<Longrightarrow> upd_em h f s = s"
  by (simp add: upd_em_def fun_upd_idem)

lemma publish_nobody:
  assumes "get s = new_handler" and "\<And>h. get (put h s) = h" and "\<And>h. put new_handler (put h s) = s"
  shows "handler_publish get put run s = Inr s"
  using assms by (simp add: handler_publish_def publish_on_def Let_def new_handler_def take_once_def settle_def)

lemma nobody_listens:
  "em_error (rl_em s h) = new_handler \<Longrightarrow> publish_error h s = Inr s"
  "em_end (rl_em s h) = new_handler \<Longrightarrow> publish_end h s = Inr s"
  "em_close (rl_em s h) = new_handler \<Longrightarrow> publish_close h s = Inr s"
  "em_data (rl_em s h) = new_handler \<Longrightarrow> publish_data U L la lp ev h s = Inr s"
  "em_connect (rl_em s h) = new_handler \<Longrightarrow> publish_connect U L h s = Inr s"
  "em_write (rl_em s h) = new_handler \<Longrightarrow> publish_write h s = Inr s"
  unfolding publish_error_def publish_end_def publish_close_def publish_data_def publish_connect_def publish_write_def
  by (rule publish_nobody; simp add: upd_em_def fun_upd_idem)+

fun callback_of :: "uv_callback \<Rightarrow> hid option" where
  "callback_of ListenCb = None"
| "callback_of (ReadCb h n d) = Some h"
| "callback_of (ConnectCb h st) = Some h"
| "callback_of (WriteCb h st) = Some h"
| "callback_of (CloseCb h) = Some h"

lemma silent_step:
  assumes "rl_em s h = new_emitter" and "callback_of cb = Some h"
  shows "relay_step U L la lp cb s = Inr s"
  using assms by (cases cb) (auto simp: relay_step_def readCallback_def nobody_listens new_emitter_def)

lemma silent_run:
  assumes "\<forall>h\<in>H. rl_em s h = new_emitter" and "\<forall>cb\<in>set cbs. \<exists>h\<in>H. callback_of cb = Some h"
  shows "relay_run U L la lp cbs s = Inr s"
  using assms(2)
proof (induction cbs)
  case (Cons cb cbs)
  then obtain h where "h \<in> H" "callback_of cb = Some h" by auto
  with Cons assms(1) silent_step [of s h cb U L la lp] show ?case by auto
qed simp

section \<open>Properties\<close>

text \<open>The callbacks that report a failure or an end on one of the two handles. The end of the client's stream is not
  among them.\<close>

fun fatal :: "hid \<Rightarrow> hid \<Rightarrow> uv_callback \<Rightarrow> bool" where
  "fatal c r ListenCb \<longleftrightarrow> False"
| "fatal c r (ReadCb h n d) \<longleftrightarrow> n < 0 \<and> (h = r \<or> h = c \<and> n \<noteq> UV_EOF)"
| "fatal c r (ConnectCb h st) \<longleftrightarrow> h = r \<and> st \<noteq> 0"
| "fatal c r (WriteCb h st) \<longleftrightarrow> (h = c \<or> h = r) \<and> st \<noteq> 0"
| "fatal c r (CloseCb h) \<longleftrightarrow> h = c \<or> h = r"

text \<open>C4: a failure takes the whole connection down, and nothing of it is used afterwards. Whatever state a connection
  is in, once the relay tries to reach the server: an error of a read, a write or the connection attempt, the end
  of the server's stream, or a closed handle removes its context, closes both handles exactly once, server first,
  and leaves every other connection alone. Any callbacks that libuv still delivers for the two handles have no
  effect, so no listener touches the destroyed context.\<close>

theorem connection_torn_down:
  assumes "linked c r s" and "fatal c r cb" and "\<forall>k\<in>set later. callback_of k \<in> {Some c, Some r}"
  shows "relay_run U L la lp (cb # later) s = Inr (torn_down c r s)"
proof -
  have "relay_step U L la lp cb s = Inr (torn_down c r s)"
    using assms(1,2) publish_error_linked publish_close_linked publish_end_linked
    by (cases cb) (auto simp: relay_step_def readCallback_def)
  moreover have "relay_run U L la lp later (torn_down c r s) = Inr (torn_down c r s)"
    by (rule silent_run [of "{c, r}"]) (use assms(3) in \<open>auto simp: torn_down_def\<close>)
  ultimately show ?thesis by simp
qed

text \<open>While the first write to the server is under way, the client has no listener for its data.\<close>

lemma flushing_ignores:
  assumes "flushing L HM ci salt c r d s"
  shows "relay_run U L la lp (reads c evs) s = Inr s"
proof (induction evs)
  case (Cons ev evs)
  have "relay_step U L la lp (ReadCb c (int (length ev)) ev) s = Inr s"
    using assms nobody_listens(4) [of s c U L la lp] by (simp add: flushing_def relay_step_def readCallback_def)
  with Cons show ?case by simp
qed simp

text \<open>C38: data that the client sends too early is lost. A client is accepted, greets and requests a connection, and the
  connection is established; \<^verbatim>\<open>remoteConnected\<close> sends it the SOCKS5 reply, which allows it to send, but the listener
  for its data is registered by \<^verbatim>\<open>remoteWritten\<close>, when the first write to the server has finished. Whatever the client
  sends between the two (\<open>early\<close>) never reaches the server: from the bytes written to the server handle it decrypts
  exactly the requested address, the bytes behind it and what the client sent later (\<open>ms\<close>).\<close>

theorem early_data_lost:
  assumes "accepting U" and "lib_laws L HM S" and "wf_cipher ci" and "relaying ci s"
    and "1 < length greeting" and "hd greeting = 5" and "wf_endpoint e"
    and "[] \<notin> set (evs @ [ev])" and "concat evs @ ev = [5, 1, 0] @ encode_address e @ rest"
    and "length (concat evs) < 3 + length (encode_address e)"
    and "\<forall>m\<in>set ((encode_address e @ rest) # ms). payload_ok m"
    and "lib_laws L' HM S" and "wf_world w'" and "\<not> seen w' (randombytes_buf L (w_draws (rl_world s)) (ci_key_len ci))"
  shows "\<exists>s1 new1 s' new. let c = rl_next s; r = Suc c in
    relay_run U L la lp ((ListenCb # reads c (greeting # evs @ [ev])) @ [ConnectCb r 0]) s = Inr s1 \<and>
    rl_out s1 = rl_out s @ new1 \<and> written c new1 = [5, 0] @ socks5_reply \<and>
    relay_run U L la lp (reads c early @ [WriteCb r 0] @ reads c ms) s1 = Inr s' \<and>
    rl_out s' = rl_out s @ new \<and> written c new = [5, 0] @ socks5_reply \<and>
    (\<forall>frags cap. (\<forall>f\<in>set frags. wf_buffer f) \<longrightarrow> concat (map contents frags) = written r new \<longrightarrow>
      (\<exists>ctx es ctx2 w2. aead_ctx_init L' w' ci 0 = Inr (ctx, w') \<and>
        receive_all L' w' ctx cap frags = Inr (es, encode_address e @ rest @ concat ms, ctx2, w2) \<and> CRYPTO_ERROR \<notin> set es))"
proof -
  let ?c = "rl_next s" and ?salt = "randombytes_buf L (w_draws (rl_world s)) (ci_key_len ci)" and ?req = "encode_address e @ rest"
  let ?r = "Suc ?c"
  have po: "payload_ok ?req" "\<forall>m\<in>set ms. payload_ok m"
    using assms(11) by simp_all
  obtain s1 d new1 where s1: "relay_run U L la lp ((ListenCb # reads ?c (greeting # evs @ [ev])) @ [ConnectCb ?r 0]) s = Inr s1"
    "relaying ci s1" "flushing L HM ci ?salt ?c ?r d s1" "fresh_receiver L ci d" "rl_out s1 = rl_out s @ new1"
    "written ?c new1 = [5, 0] @ socks5_reply" "written ?r new1 = ?salt @ wire S ci (subkey HM ci ?salt) 0 [?req]"
    by (rule accepted_flushing [OF assms(1-10) po(1)]) (rule that; assumption)
  obtain s' new2 where s': "relay_run U L la lp (WriteCb ?r 0 # reads ?c ms) s1 = Inr s'"
    "rl_out s' = rl_out s1 @ new2" "written ?r new2 = wire S ci (subkey HM ci ?salt) 1 ms" "written ?c new2 = []"
    by (rule flushing_uploads [OF assms(1,2) s1(2,3) po(2)]) (rule that; assumption)
  have run: "relay_run U L la lp (reads ?c early @ [WriteCb ?r 0] @ reads ?c ms) s1 = Inr s'"
    using relay_run_append [of U L la lp "reads ?c early" "WriteCb ?r 0 # reads ?c ms" s1, unfolded flushing_ignores [OF s1(3)] bnd_Inr s'(1)]
    by (simp only: append.simps)
  have wr: "written ?r (new1 @ new2) = ?salt @ wire S ci (subkey HM ci ?salt) 0 (?req # ms)"
    using s1(7) s'(3) by simp
  have dl: "\<exists>ctx es ctx2 w2. aead_ctx_init L' w' ci 0 = Inr (ctx, w') \<and>
      receive_all L' w' ctx cap frags = Inr (es, ?req @ concat ms, ctx2, w2) \<and> CRYPTO_ERROR \<notin> set es"
    if "\<forall>f\<in>set frags. wf_buffer f" "concat (map contents frags) = written ?r (new1 @ new2)" for frags cap
    using receive_wire [OF assms(12,3,13,14) lib_lawsD(2) [OF assms(2)] assms(11) _ that(1), of cap] that(2) wr by simp
  show ?thesis
    unfolding Let_def
    by (rule exI [of _ s1], rule exI [of _ new1], rule exI [of _ s'], rule exI [of _ "new1 @ new2"])
      (use run s1(1,5,6) s'(2,4) dl in simp)
qed

text \<open>The end of the client's stream goes unnoticed: there is no listener for it, so the connection stays as it is
  until the server ends it or a write fails.\<close>

theorem client_end_ignored:
  assumes "linked c r s"
  shows "relay_step U L la lp (ReadCb c UV_EOF ev) s = Inr s"
  using assms nobody_listens(2) [of s c] by (simp add: linked_def resting_def relay_step_def readCallback_def)

lemma aead_encrypt_large:
  assumes "lib_laws L HM S" and "sending L HM ci salt e j" and "cx_init e \<noteq> 0" and "wf_world w"
    and "CHUNK_SIZE_MASK < b_len b" and "b_len b < 65536"
  shows "aead_encrypt L w b (Some e) cap = Inl ASSERT_FAILED"
proof -
  obtain tmp where "brealloc (lib_heap L) (w_tmp w Tmp_aead_encrypt) (2 * ci_tag_len (cx_cipher e) + b_len b + CHUNK_SIZE_LEN) cap = Inr tmp"
    using brealloc_ok [OF lib_lawsD(1) [OF assms(1)] wf_world_tmp [OF assms(4)]] by metis
  moreover have "unat (of_nat (b_len b) :: u16) = b_len b"
    using assms(6) by (simp add: unsigned_of_nat take_bit_nat_eq_self)
  ultimately show ?thesis
    using assms(3,5) by (simp add: aead_encrypt_def Let_def aead_chunk_encrypt_def assertc_def)
qed

text \<open>C39: one large read of a client ends the process. libuv reads up to 64 KB at once and \<^verbatim>\<open>sockStream\<close> encrypts the
  whole event in one call, while a frame holds at most 0x3FFF bytes: for a read of 0x4000 to 0xFFFF bytes the
  assertion of \<^verbatim>\<open>aead_chunk_encrypt\<close> fails.\<close>

theorem large_read_aborts:
  assumes "lib_laws L HM S" and "relaying ci s" and "streaming L HM ci salt j c r d s"
    and "CHUNK_SIZE_MASK < length ev" and "length ev < 65536"
  shows "relay_step U L la lp (ReadCb c (int (length ev)) ev) s = Inl ASSERT_FAILED"
proof -
  obtain b b' e where x: "rl_conns s c = Some \<lparr>cc_localBuf = b, cc_remoteBuf = Some b', cc_e_ctx = Some e, cc_d_ctx = Some d,
        cc_client = c, cc_remote = Some r\<rparr>" "wf_buffer b'" "b_len b' = 0" "sending L HM ci salt e j" "cx_init e \<noteq> 0"
    and h: "em_data (rl_em s c) = lasting SockStream" "guarded c c s"
    using assms(3) by (auto simp: streaming_def)
  obtain m where m: "Buffer_copy (lib_heap L) b' ev = Inr m" "wf_buffer m" "contents m = ev"
    by (rule Buffer_copy_ok [OF lib_lawsD(1) [OF assms(1)] x(2), of ev]) (use contents_empty [OF x(2,3)] in \<open>auto intro: that\<close>)
  have lm: "b_len m = length ev"
    using m(3) length_contents [OF m(2)] by simp
  have w: "wf_world (rl_world s)" "rl_cipher s = aead_env ci"
    using assms(2) by (simp_all add: relaying_def)
  have "Buffer_ssEncrypt L (rl_world s) (aead_env ci) m (Some e) = Inl ASSERT_FAILED"
    using aead_encrypt_large [OF assms(1) x(4,5) w(1), of m] assms(4,5) lm
    by (simp add: Buffer_ssEncrypt_def aead_env_def aead_crypto_def)
  then have "run_data U L la lp ev c SockStream (walking c SockStream s) = Inl ASSERT_FAILED"
    using x(1) h(2) m(1) w(2) by (simp add: run_data_def sockStream_def guarded_def Let_def)
  moreover have "ev \<noteq> []"
    using assms(4) by auto
  ultimately show ?thesis
    using h(1) publish_lasting [of "\<lambda>s. em_data (rl_em s c)" s SockStream "\<lambda>x. upd_em c (\<lambda>e. e\<lparr>em_data := x\<rparr>)" "run_data U L la lp ev c"]
    by (simp add: relay_step_def readCallback_def publish_data_def walking_def)
qed

lemma publish_error_removes:
  assumes "em_error (rl_em s h) = one_shot c"
  obtains t where "publish_error h s = Inr t" "rl_conns t c = None"
proof -
  let ?p = "panic c (upd_em h (\<lambda>e. e\<lparr>em_error := busy c\<rparr>) s)"
  have none: "rl_conns ?p c = None"
    by (simp add: panic_def destroy_context_def handle_close_def upd_em_def Let_def split: option.splits)
  show ?thesis
    by (rule that [of "upd_em h (\<lambda>e. e\<lparr>em_error := settle (em_error (rl_em ?p h))\<rparr>) ?p"])
      (use assms none publish_one_shot [of "\<lambda>s. em_error (rl_em s h)" s c "\<lambda>x. upd_em h (\<lambda>e. e\<lparr>em_error := x\<rparr>)" run_panic]
        in \<open>simp_all add: publish_error_def run_panic_def\<close>)
qed

text \<open>A failing read leaves the listener for the established connection with a destroyed context: when libuv
  refuses to start reading from the server, the error listener has removed the context before \<^verbatim>\<open>h.read()\<close>
  returns, and the next statement uses it.\<close>

theorem connect_use_after_free:
  assumes "connecting L HM ci salt c r req s" and "uv_rc U (rl_calls s) \<noteq> 0"
  shows "relay_step U L la lp (ConnectCb r 0) s = Inl UB"
proof -
  have h: "em_connect (rl_em s r) = one_shot c" "em_error (rl_em s r) = one_shot c"
    using assms(1) by (simp_all add: connecting_def guarded_def)
  let ?s = "upd_em r (\<lambda>e. e\<lparr>em_connect := busy c\<rparr>) s"
  have "em_error (rl_em (?s\<lparr>rl_calls := Suc (rl_calls s)\<rparr>) r) = one_shot c"
    using h(2) by simp
  then obtain t where "publish_error r (?s\<lparr>rl_calls := Suc (rl_calls s)\<rparr>) = Inr t" "rl_conns t c = None"
    by (rule publish_error_removes)
  then show ?thesis
    unfolding connect_publish [OF h(1)] using assms(2)
    by (simp add: remoteConnected_def tcp_read_def uv_do_def Let_def context_of_def)
qed

end
