(* ===== verification/SS_UdpRelay.thy ===== *)
theory SS_UdpRelay
  imports SS_Net SS_TcpRelay
begin

text \<open>
  The UDP relay: \<^verbatim>\<open>src/UDPRelay.cpp\<close> and \<^verbatim>\<open>src/UDPConnectionContext.cpp\<close>. Per client address there is a socket towards
  the server and a timer. libuv is the environment: a datagram for the local server, a datagram for one of the
  sockets and an expired timer are the steps; the calls the relay makes are the list \<open>ur_out\<close> in their order. Errors
  of these calls are only logged, so their codes do not matter, except that a handle that cannot be
  created is the null pointer.

  An event carries a block of memory and the number of bytes received; uvw allocates the block before the size of
  the datagram is known, so it may be longer.

  Client addresses are the \<^verbatim>\<open>uvw::Addr\<close> of the events. uvw makes them from, and turns them back into, an IPv4 address
  (\<^verbatim>\<open>recv\<close> and \<^verbatim>\<open>send\<close> with their default \<^verbatim>\<open>IPv4\<close>); this conversion is outside the model, which therefore speaks about a
  local server that is bound to an IPv4 address.
\<close>

section \<open>State\<close>

text \<open>\<^verbatim>\<open>uvw::Addr\<close>.\<close>

type_synonym uaddr = "bytes \<times> nat"

record UDPConnectionContext =
  uc_srcAddr :: uaddr
  uc_remoteBuf :: buffer_t
  uc_remote :: hid
  uc_timer :: hid

datatype udest = ToServer sockaddr | ToClient uaddr

datatype udp_call =
    UdpBind hid int | UdpRecvStart hid | UdpSend hid udest bytes | TimerStart hid int int | TimerAgain hid | TimerStop hid
  | HandleClose hid

text \<open>The listeners of a socket (for datagrams) and of a timer (for its expiry) are about one client.\<close>

record udp_relay =
  ur_cache :: "uaddr \<rightharpoonup> UDPConnectionContext"
  ur_server :: "hid option"
  ur_listening :: bool
  ur_localBuf :: "buffer_t option"
  ur_remoteAddr :: sockaddr
  ur_timeout :: int
  ur_packet_size :: int
  ur_buf_size :: int
  ur_em :: "hid \<Rightarrow> uaddr handler"
  ur_closing :: "hid \<Rightarrow> bool"
  ur_next :: hid
  ur_calls :: nat
  ur_out :: "udp_call list"
  ur_world :: world
  ur_cipher :: CipherEnv

section \<open>Handles and timers\<close>

definition udp_call_uv :: "udp_call \<Rightarrow> udp_relay \<Rightarrow> udp_relay" where
  "udp_call_uv k s = s\<lparr>ur_out := ur_out s @ [k]\<rparr>"

definition udp_new_handle :: "uv_env \<Rightarrow> udp_relay \<Rightarrow> hid option \<times> udp_relay" where
  "udp_new_handle U s =
     (let h = ur_next s; rc = uv_rc U (ur_calls s);
          s = s\<lparr>ur_calls := Suc (ur_calls s), ur_next := Suc h, ur_em := (ur_em s)(h := new_handler),
                ur_closing := (ur_closing s)(h := False)\<rparr>
      in (if rc = 0 then Some h else None, s))"

definition udp_on :: "hid \<Rightarrow> uaddr \<Rightarrow> udp_relay \<Rightarrow> udp_relay" where
  "udp_on h a s = s\<lparr>ur_em := (ur_em s)(h := handler_on a (ur_em s h))\<rparr>"

definition udp_clear :: "hid \<Rightarrow> udp_relay \<Rightarrow> udp_relay" where
  "udp_clear h s = s\<lparr>ur_em := (ur_em s)(h := handler_clear (ur_em s h))\<rparr>"

definition udp_close :: "hid \<Rightarrow> udp_relay \<Rightarrow> udp_relay" where
  "udp_close h s =
     (if ur_closing s h then s else udp_call_uv (HandleClose h) (s\<lparr>ur_closing := (ur_closing s)(h := True)\<rparr>))"

section \<open>Connection contexts\<close>

definition new_UDPConnectionContext :: "crypto_lib \<Rightarrow> uaddr \<Rightarrow> hid \<Rightarrow> hid \<Rightarrow> UDPConnectionContext res" where
  "new_UDPConnectionContext L addr remoteSocket timer =
     bnd (Buffer_newBuf (lib_heap L)) (\<lambda>b.
       Inr \<lparr>uc_srcAddr = addr, uc_remoteBuf = b, uc_remote = remoteSocket, uc_timer = timer\<rparr>)"

definition destroy_udp_context :: "UDPConnectionContext \<Rightarrow> udp_relay \<Rightarrow> udp_relay" where
  "destroy_udp_context x s =
     (let s = udp_call_uv (TimerStop (uc_timer x)) s;
          s = udp_close (uc_timer x) s;
          s = udp_clear (uc_remote x) s
      in udp_close (uc_remote x) s)"

definition initTimer :: "uv_env \<Rightarrow> uaddr \<Rightarrow> int \<Rightarrow> udp_relay \<Rightarrow> (hid \<times> udp_relay) res" where
  "initTimer U addr timeout s =
     (let (t, s) = udp_new_handle U s in
      case t of None \<Rightarrow> Inl UB
      | Some t \<Rightarrow> Inr (t, udp_call_uv (TimerStart t timeout timeout) (udp_on t addr s)))"

definition resetTimeoutTimer :: "UDPConnectionContext \<Rightarrow> udp_relay \<Rightarrow> udp_relay" where
  "resetTimeoutTimer x s = udp_call_uv (TimerAgain (uc_timer x)) s"

definition udp_panic :: "uaddr \<Rightarrow> udp_relay \<Rightarrow> udp_relay" where
  "udp_panic addr s =
     (case ur_cache s addr of None \<Rightarrow> s
      | Some x \<Rightarrow> destroy_udp_context x (s\<lparr>ur_cache := (ur_cache s)(addr := None)\<rparr>))"

text \<open>The timer's listener.\<close>

definition udp_timeout :: "hid \<Rightarrow> uaddr \<Rightarrow> udp_relay \<Rightarrow> udp_relay res" where
  "udp_timeout h addr s = Inr (udp_panic addr (udp_close h (udp_call_uv (TimerStop h) s)))"

section \<open>The header\<close>

definition udp_load16_be :: "bytes \<Rightarrow> nat \<Rightarrow> u16 res" where
  "udp_load16_be buf off =
     bnd (read_byte buf off) (\<lambda>b0. bnd (read_byte buf (off + 1)) (\<lambda>b1. Inr (push_bit 8 (ucast b0) OR ucast b1)))"

text \<open>The output parameters may be null. \<^verbatim>\<open>buf_len\<close> is the number the caller claims.\<close>

definition parse_storage_ip :: "bytes \<Rightarrow> int \<Rightarrow> nat \<Rightarrow> sockaddr option \<Rightarrow> sockaddr option res" where
  "parse_storage_ip buf af n storage =
     (case storage of None \<Rightarrow> Inr None
      | Some st \<Rightarrow>
        bnd (read_mem buf 1 n) (\<lambda>a. bnd (read_mem buf (1 + n) 2) (\<lambda>p.
          Inr (Some \<lparr>sa_family = af, sa_addr = a, sa_port = p\<rparr>))))"

definition parse_storage_name :: "net_env \<Rightarrow> bytes \<Rightarrow> nat \<Rightarrow> sockaddr option \<Rightarrow> sockaddr option res" where
  "parse_storage_name N buf name_len storage =
     (case storage of None \<Rightarrow> Inr None
      | Some st \<Rightarrow>
        bnd (read_mem buf 2 name_len) (\<lambda>name.
        bnd (read_mem buf (2 + name_len) 2) (\<lambda>p.
        let tmp = takeWhile (\<lambda>b. b \<noteq> 0) name;
            (rc, st) = net_ip4_addr N tmp 0;
            st = (if rc = 0 then st\<lparr>sa_port := p\<rparr> else st);
            (rc, st6) = net_ip6_addr N tmp 0;
            st = (if rc = 0 then st6\<lparr>sa_port := p\<rparr> else st6)
        in Inr (Some st))))"

definition parse_host_ip :: "net_env \<Rightarrow> bytes \<Rightarrow> int \<Rightarrow> nat \<Rightarrow> bytes option \<Rightarrow> bytes option res" where
  "parse_host_ip N buf af n host =
     (case host of None \<Rightarrow> Inr None
      | Some h \<Rightarrow> bnd (read_mem buf 1 n) (\<lambda>a. bnd (write_mem h 0 (net_inet_ntop N af a)) (\<lambda>h. Inr (Some h))))"

definition parse_host_name :: "bytes \<Rightarrow> nat \<Rightarrow> bytes option \<Rightarrow> bytes option res" where
  "parse_host_name buf name_len host =
     (case host of None \<Rightarrow> Inr None
      | Some h \<Rightarrow> bnd (read_mem buf 2 name_len) (\<lambda>name. bnd (write_mem h 0 name) (\<lambda>h. Inr (Some h))))"

abbreviation (input) ADDRTYPE_MASK :: byte where "ADDRTYPE_MASK \<equiv> 0xF"

definition parseUDPRelayHeader ::
  "net_env \<Rightarrow> bytes \<Rightarrow> nat \<Rightarrow> bytes option \<Rightarrow> bytes option \<Rightarrow> sockaddr option
   \<Rightarrow> (nat \<times> bytes option \<times> bytes option \<times> sockaddr option) res" where
  "parseUDPRelayHeader N buf buf_len host port storage =
     bnd (read_byte buf 0) (\<lambda>atyp.
     bnd (if atyp AND ADDRTYPE_MASK = 1 then
            if buf_len \<ge> 4 + 3 then
              bnd (parse_storage_ip buf AF_INET 4 storage) (\<lambda>storage.
              bnd (parse_host_ip N buf AF_INET 4 host) (\<lambda>host. Inr (1 + 4, host, storage)))
            else Inr (1, host, storage)
          else if atyp AND ADDRTYPE_MASK = 3 then
            bnd (read_byte buf 1) (\<lambda>n.
            let name_len = unat n in
            if name_len + 4 \<le> buf_len then
              bnd (parse_storage_name N buf name_len storage) (\<lambda>storage.
              bnd (parse_host_name buf name_len host) (\<lambda>host. Inr (1 + (1 + name_len), host, storage)))
            else Inr (1, host, storage))
          else if atyp AND ADDRTYPE_MASK = 4 then
            if buf_len \<ge> 16 + 3 then
              bnd (parse_storage_ip buf AF_INET6 16 storage) (\<lambda>storage.
              bnd (parse_host_ip N buf AF_INET6 16 host) (\<lambda>host. Inr (1 + 16, host, storage)))
            else Inr (1, host, storage)
          else Inr (1, host, storage)) (\<lambda>(offset, host, storage).
     if offset = 1 then Inr (0, host, port, storage)
     else
       bnd (case port of None \<Rightarrow> Inr None
            | Some p \<Rightarrow>
              bnd (udp_load16_be buf offset) (\<lambda>v.
              bnd (write_mem p 0 (sprintf_d (uint v) @ [0])) (\<lambda>p. Inr (Some p)))) (\<lambda>port.
         Inr (offset + 2, host, port, storage))))"

section \<open>The relay\<close>

abbreviation (input) PACKET_HEADER_SIZE :: int where "PACKET_HEADER_SIZE \<equiv> 95"

definition new_UDPRelay :: "CipherEnv \<Rightarrow> int \<Rightarrow> hid \<Rightarrow> world \<Rightarrow> udp_relay" where
  "new_UDPRelay env timeout next w =
     \<lparr>ur_cache = Map.empty, ur_server = None, ur_listening = False, ur_localBuf = None,
      ur_remoteAddr = \<lparr>sa_family = 0, sa_addr = [], sa_port = []\<rparr>, ur_timeout = timeout,
      ur_packet_size = int DEFAULT_PACKET_SIZE, ur_buf_size = int DEFAULT_PACKET_SIZE * 2, ur_em = (\<lambda>_. new_handler),
      ur_closing = (\<lambda>_. False), ur_next = next, ur_calls = 0, ur_out = [], ur_world = w, ur_cipher = env\<rparr>"

text \<open>The destructor; \<open>order\<close> lists the keys as the hash table holds them.\<close>

definition destroy_UDPRelay :: "uaddr list \<Rightarrow> udp_relay \<Rightarrow> udp_relay" where
  "destroy_UDPRelay order s =
     (let s = fold udp_panic order s in
      case ur_server s of None \<Rightarrow> s
      | Some h \<Rightarrow> udp_close h (udp_clear h (s\<lparr>ur_listening := False\<rparr>)))"

text \<open>\<^verbatim>\<open>packet_size\<close> and \<^verbatim>\<open>buf_size\<close> are computed without the overflow of \<^verbatim>\<open>int\<close>, which needs an \<^verbatim>\<open>mtu\<close> above \<open>2 ^ 30\<close>;
  nothing reads the two.\<close>

definition initUDPRelay ::
  "net_env \<Rightarrow> uv_env \<Rightarrow> int \<Rightarrow> bytes \<Rightarrow> int \<Rightarrow> sockaddr \<Rightarrow> udp_relay \<Rightarrow> (int \<times> udp_relay) res" where
  "initUDPRelay N U mtu host port remote_addr s =
     (let s = s\<lparr>ur_remoteAddr := remote_addr\<rparr>;
          s = (if mtu > 0 then s\<lparr>ur_packet_size := mtu - PACKET_HEADER_SIZE, ur_buf_size := (mtu - PACKET_HEADER_SIZE) * 2\<rparr> else s);
          (server, s) = udp_new_handle U s
      in case server of None \<Rightarrow> Inl UB
      | Some h \<Rightarrow>
        let s = s\<lparr>ur_server := Some h\<rparr> in
        bnd (ssr_get_sock_addr N host port \<lparr>sa_family = 0, sa_addr = [], sa_port = []\<rparr> 0) (\<lambda>(af, localStorage).
        if af = -1 then Inr (-1, s)
        else
          Inr (0, udp_call_uv (UdpRecvStart h) ((udp_call_uv (UdpBind h (sa_family localStorage)) s)\<lparr>ur_listening := True\<rparr>))))"

text \<open>A new client: its socket towards the server, bound to any address of the server's family, its timer and its
  listener.\<close>

definition newRemote :: "uv_env \<Rightarrow> crypto_lib \<Rightarrow> uaddr \<Rightarrow> udp_relay \<Rightarrow> (UDPConnectionContext \<times> udp_relay) res" where
  "newRemote U L sender s =
     (let (remoteSocket, s) = udp_new_handle U s in
      case remoteSocket of None \<Rightarrow> Inl UB
      | Some r \<Rightarrow>
        let s = udp_call_uv (UdpBind r (if sa_family (ur_remoteAddr s) = AF_INET6 then AF_INET6 else AF_INET)) s in
        bnd (initTimer U sender (ur_timeout s) s) (\<lambda>(t, s).
        bnd (new_UDPConnectionContext L sender r t) (\<lambda>x.
          Inr (x, udp_call_uv (UdpRecvStart r) (udp_on r sender (s\<lparr>ur_cache := (ur_cache s)(sender \<mapsto> x)\<rparr>))))))"

definition usub64 :: "nat \<Rightarrow> nat \<Rightarrow> nat" where
  "usub64 a b = (if a < b then a + 2 ^ 64 - b else a - b)"

text \<open>The end of \<^verbatim>\<open>serverRecv\<close>: the datagram without the three bytes in front is encrypted and sent.\<close>

definition udp_forward :: "crypto_lib \<Rightarrow> uaddr \<Rightarrow> bytes \<Rightarrow> nat \<Rightarrow> UDPConnectionContext \<times> udp_relay \<Rightarrow> udp_relay res" where
  "udp_forward L sender data len = (\<lambda>(x, s).
     case ur_localBuf s of None \<Rightarrow> Inl UB
     | Some b \<Rightarrow>
       bnd (Buffer_copyFromBegin (lib_heap L) b (drop 3 data) (usub64 len 3)) (\<lambda>b.
       bnd (Buffer_ssEncryptAll L (ur_world s) (ur_cipher s) b) (\<lambda>(err, b, w).
       let s = s\<lparr>ur_localBuf := Some b, ur_world := w\<rparr> in
       if err \<noteq> 0 then Inr (udp_panic sender s)
       else
         bnd (Buffer_duplicateDataToArray b) (\<lambda>d.
           Inr ((udp_call_uv (UdpSend (uc_remote x) (ToServer (ur_remoteAddr s)) d) s)
             \<lparr>ur_localBuf := Some (Buffer_setLength b 0)\<rparr>)))))"

text \<open>The context of the sender, old or new.\<close>

definition udp_context_for :: "uv_env \<Rightarrow> crypto_lib \<Rightarrow> uaddr \<Rightarrow> udp_relay \<Rightarrow> (UDPConnectionContext \<times> udp_relay) res" where
  "udp_context_for U L a s =
     (case ur_cache s a of None \<Rightarrow> newRemote U L a s | Some x \<Rightarrow> Inr (x, resetTimeoutTimer x s))"

definition serverRecv :: "net_env \<Rightarrow> uv_env \<Rightarrow> crypto_lib \<Rightarrow> uaddr \<Rightarrow> bytes \<Rightarrow> nat \<Rightarrow> udp_relay \<Rightarrow> udp_relay res" where
  "serverRecv N U L sender data len s =
     bnd (read_byte data 2) (\<lambda>frag.
     bnd (parseUDPRelayHeader N (drop 3 data) (usub64 len 3) (Some (replicate 257 0)) (Some (replicate 65 0))
            (Some \<lparr>sa_family = 0, sa_addr = [], sa_port = []\<rparr>)) (\<lambda>(addr_header_len, _).
     if addr_header_len = 0 then Inr (udp_panic sender s)
     else
       let s = (case ur_cache s sender of None \<Rightarrow> s
                | Some x \<Rightarrow> if uc_srcAddr x \<noteq> sender then udp_panic sender s else s)
       in
       if frag \<noteq> 0 then Inr (udp_panic sender s)
       else bnd (udp_context_for U L sender s) (udp_forward L sender data len)))"

definition udp_remoteRecv :: "net_env \<Rightarrow> crypto_lib \<Rightarrow> bytes \<Rightarrow> nat \<Rightarrow> uaddr \<Rightarrow> udp_relay \<Rightarrow> udp_relay res" where
  "udp_remoteRecv N L data len localSrcAddr s =
     (case ur_cache s localSrcAddr of None \<Rightarrow> Inr (udp_panic localSrcAddr s)
      | Some x \<Rightarrow>
        bnd (read_mem data 0 len) (\<lambda>ev.
        bnd (Buffer_copy_udp (lib_heap L) (uc_remoteBuf x) ev) (\<lambda>b.
        bnd (Buffer_ssDecryptALl L (ur_world s) (ur_cipher s) b) (\<lambda>(err, b, w).
        let x = x\<lparr>uc_remoteBuf := b\<rparr>;
            s = s\<lparr>ur_world := w, ur_cache := (ur_cache s)(localSrcAddr \<mapsto> x)\<rparr>
        in
        if err \<noteq> 0 then Inr (udp_panic localSrcAddr s)
        else
          bnd (parseUDPRelayHeader N (b_data b) (b_len b) None None None) (\<lambda>(n, _).
          if n = 0 then Inr (udp_panic localSrcAddr s)
          else
            bnd (read_mem (b_data b) 0 (b_len b)) (\<lambda>d.
            let s = resetTimeoutTimer x s in
            case ur_server s of None \<Rightarrow> Inl UB
            | Some h \<Rightarrow>
              Inr ((udp_call_uv (UdpSend h (ToClient (uc_srcAddr x)) ([0, 0, 0] @ d)) s)
                \<lparr>ur_cache := (ur_cache s)(localSrcAddr \<mapsto> x\<lparr>uc_remoteBuf := Buffer_setLength b 0\<rparr>)\<rparr>)))))))"

section \<open>Steps\<close>

datatype udp_callback = ServerDatagram uaddr bytes nat | RemoteDatagram hid bytes nat | TimerExpired hid

definition udp_publish :: "hid \<Rightarrow> (uaddr \<Rightarrow> udp_relay \<Rightarrow> udp_relay res) \<Rightarrow> udp_relay \<Rightarrow> udp_relay res" where
  "udp_publish h = handler_publish (\<lambda>s. ur_em s h) (\<lambda>x s. s\<lparr>ur_em := (ur_em s)(h := x)\<rparr>)"

text \<open>The listener of the local server starts with a new buffer for every datagram.\<close>

definition onServerDatagram :: "net_env \<Rightarrow> uv_env \<Rightarrow> crypto_lib \<Rightarrow> uaddr \<Rightarrow> bytes \<Rightarrow> nat \<Rightarrow> udp_relay \<Rightarrow> udp_relay res" where
  "onServerDatagram N U L sender data len s =
     bnd (Buffer_newBuf (lib_heap L)) (\<lambda>b. serverRecv N U L sender data len (s\<lparr>ur_localBuf := Some b\<rparr>))"

definition udp_step :: "net_env \<Rightarrow> uv_env \<Rightarrow> crypto_lib \<Rightarrow> udp_callback \<Rightarrow> udp_relay \<Rightarrow> udp_relay res" where
  "udp_step N U L cb s =
     (case cb of
        ServerDatagram a data len \<Rightarrow> if ur_listening s then onServerDatagram N U L a data len s else Inr s
      | RemoteDatagram h data len \<Rightarrow> udp_publish h (udp_remoteRecv N L data len) s
      | TimerExpired h \<Rightarrow> udp_publish h (udp_timeout h) s)"

fun udp_run :: "net_env \<Rightarrow> uv_env \<Rightarrow> crypto_lib \<Rightarrow> udp_callback list \<Rightarrow> udp_relay \<Rightarrow> udp_relay res" where
  "udp_run N U L [] s = Inr s"
| "udp_run N U L (cb # cbs) s = bnd (udp_step N U L cb s) (udp_run N U L cbs)"

end
