(* ===== verification/SS_UdpSession.thy ===== *)
theory SS_UdpSession
  imports SS_UdpRelay SS_TcpHandshake SS_TcpErrors
begin

text \<open>
  The UDP relay as a whole: the invariant \<open>wf_udp\<close> of its table of clients, which every callback keeps whatever the
  datagrams contain, and the way of a request and of a reply through it.
\<close>

section \<open>The header\<close>

text \<open>The number of bytes of the address in front of a datagram, zero when there is none.\<close>

definition header_length :: "bytes \<Rightarrow> nat \<Rightarrow> nat" where
  "header_length d n =
     (let t = d ! 0 AND 0xF in
      if t = 1 \<and> 7 \<le> n then 7
      else if t = 3 \<and> unat (d ! 1) + 4 \<le> n then unat (d ! 1) + 4
      else if t = 4 \<and> 19 \<le> n then 19
      else 0)"

text \<open>libuv writes at most \<^verbatim>\<open>INET6_ADDRSTRLEN\<close> characters.\<close>

definition ntop_ok :: "net_env \<Rightarrow> bool" where
  "ntop_ok N \<longleftrightarrow> (\<forall>af a. length (net_inet_ntop N af a) \<le> 46)"

lemma length_sprintf_port: "length (sprintf_d (uint (v :: u16))) \<le> 5"
proof -
  have "unat v < 2 ^ 16"
    using unsigned_less [of v] by simp
  then have "nat (uint v) < 10 ^ Suc 4"
    by simp
  then have "length (dec_digits (nat (uint v))) \<le> Suc 4"
    by (rule length_dec_digits)
  then show ?thesis
    by (simp add: sprintf_d_def)
qed

lemma parse_storage_ok:
  "1 + n + 2 \<le> length buf \<Longrightarrow> \<exists>st. parse_storage_ip buf af n storage = Inr st"
  "2 + n + 2 \<le> length buf \<Longrightarrow> \<exists>st. parse_storage_name N buf n storage = Inr st"
  by (auto simp: parse_storage_ip_def parse_storage_name_def mem_simps Let_def split: option.splits prod.splits)

lemma parse_host_ok:
  "ntop_ok N \<Longrightarrow> host = None \<or> (\<exists>h. host = Some h \<and> length h = 257) \<Longrightarrow> 1 + n \<le> length buf \<Longrightarrow>
    \<exists>h'. parse_host_ip N buf af n host = Inr h'"
  "host = None \<or> (\<exists>h. host = Some h \<and> length h = 257) \<Longrightarrow> 2 + n \<le> length buf \<Longrightarrow> n < 256 \<Longrightarrow>
    \<exists>h'. parse_host_name buf n host = Inr h'"
proof -
  assume "ntop_ok N"
  have "length (net_inet_ntop N af a) \<le> 257" for af a
    by (rule le_trans [of _ 46]) (use \<open>ntop_ok N\<close> in \<open>simp_all add: ntop_ok_def\<close>)
  then show "host = None \<or> (\<exists>h. host = Some h \<and> length h = 257) \<Longrightarrow> 1 + n \<le> length buf \<Longrightarrow>
      \<exists>h'. parse_host_ip N buf af n host = Inr h'"
    by (auto simp: parse_host_ip_def mem_simps)
qed (auto simp: parse_host_name_def mem_simps)

lemma parse_header_ok:
  assumes "ntop_ok N" and "n \<le> length buf" and "2 \<le> length buf" and "host = None \<or> (\<exists>h. host = Some h \<and> length h = 257)"
    and "port = None \<or> (\<exists>p. port = Some p \<and> length p = 65)"
  shows "\<exists>h p st. parseUDPRelayHeader N buf n host port storage = Inr (header_length buf n, h, p, st)"
proof -
  have wr: "\<exists>q. write_mem p 0 (sprintf_d (uint v) @ [0]) = Inr q" if "length p = 65" for p and v :: u16
    using length_sprintf_port [of v] that by (simp add: mem_simps)
  have fin: "\<exists>p. (case port of None \<Rightarrow> Inr None
            | Some p \<Rightarrow>
              bnd (udp_load16_be buf off) (\<lambda>v.
              bnd (write_mem p 0 (sprintf_d (uint v) @ [0])) (\<lambda>p. Inr (Some p)))) = Inr p" if "off + 2 \<le> length buf" for off
    using assms(5) that wr [of "the port" "push_bit 8 (ucast (buf ! off)) OR ucast (buf ! Suc off)"]
    by (auto simp: udp_load16_be_def mem_simps)
  have b: "read_byte buf 0 = Inr (buf ! 0)" "read_byte buf 1 = Inr (buf ! 1)"
    using assms(3) by (auto simp: read_byte_def)
  have nm: "unat (buf ! 1) < 256"
    using unsigned_less [of "buf ! 1"] by simp
  consider (v4) "buf ! 0 AND 0xF = 1" "7 \<le> n" | (name) "buf ! 0 AND 0xF = 3" "unat (buf ! 1) + 4 \<le> n" | (v6) "buf ! 0 AND 0xF = 4" "19 \<le> n"
    | (bad) "buf ! 0 AND 0xF = 1 \<Longrightarrow> n < 7" "buf ! 0 AND 0xF = 3 \<Longrightarrow> n < unat (buf ! 1) + 4" "buf ! 0 AND 0xF = 4 \<Longrightarrow> n < 19"
    by linarith
  then show ?thesis
  proof cases
    case v4
    then have l: "1 + 4 + 2 \<le> length buf" "1 + 4 \<le> length buf"
      using assms(2) by simp_all
    from parse_storage_ok(1) [OF l(1), of AF_INET storage] parse_host_ok(1) [OF assms(1,4) l(2), of AF_INET] fin [of 5] v4 l b
    show ?thesis by (auto simp: parseUDPRelayHeader_def header_length_def)
  next
    case v6
    then have l: "1 + 16 + 2 \<le> length buf" "1 + 16 \<le> length buf"
      using assms(2) by simp_all
    from parse_storage_ok(1) [OF l(1), of AF_INET6 storage] parse_host_ok(1) [OF assms(1,4) l(2), of AF_INET6] fin [of 17] v6 l b
    show ?thesis by (auto simp: parseUDPRelayHeader_def header_length_def)
  next
    case name
    then have l: "2 + unat (buf ! 1) + 2 \<le> length buf" "2 + unat (buf ! 1) \<le> length buf"
      using assms(2) by simp_all
    from parse_storage_ok(2) [OF l(1), of N storage] parse_host_ok(2) [OF assms(4) l(2) nm] fin [of "Suc (Suc (unat (buf ! Suc 0)))"] name l b
    show ?thesis by (auto simp: parseUDPRelayHeader_def header_length_def)
  next
    case bad
    then show ?thesis
      using b by (auto simp: parseUDPRelayHeader_def header_length_def Let_def)
  qed
qed

lemma header_length_encoded:
  assumes "wf_endpoint e" and "length (encode_address e) \<le> n"
  shows "header_length (encode_address e @ rest) n \<noteq> 0"
  using assms by (cases e) (auto simp: header_length_def unat_len Let_def)

section \<open>The invariant\<close>

text \<open>The context of client \<open>a\<close>: its socket and its timer are open and bound to it, and its buffer is empty.\<close>

definition wf_uctx :: "uaddr \<Rightarrow> UDPConnectionContext \<Rightarrow> udp_relay \<Rightarrow> bool" where
  "wf_uctx a x s \<longleftrightarrow> uc_srcAddr x = a \<and> wf_buffer (uc_remoteBuf x) \<and> b_len (uc_remoteBuf x) = 0 \<and> 2 \<le> b_cap (uc_remoteBuf x) \<and>
     uc_remote x < ur_next s \<and> uc_timer x < ur_next s \<and> uc_remote x \<noteq> uc_timer x \<and>
     \<not> ur_closing s (uc_remote x) \<and> \<not> ur_closing s (uc_timer x) \<and>
     ur_em s (uc_remote x) = lasting a \<and> ur_em s (uc_timer x) = lasting a"

text \<open>The table of clients; every open handle with a listener belongs to one of them.\<close>

definition wf_udp :: "cipher_t \<Rightarrow> udp_relay \<Rightarrow> bool" where
  "wf_udp ci s \<longleftrightarrow> wf_world (ur_world s) \<and> ur_cipher s = aead_env ci \<and> wf_cipher ci \<and>
     (\<exists>h. ur_server s = Some h \<and> h < ur_next s \<and> ur_em s h = new_handler) \<and>
     (\<forall>a x. ur_cache s a = Some x \<longrightarrow> wf_uctx a x s) \<and>
     (\<forall>h. \<not> ur_closing s h \<longrightarrow> ur_em s h \<noteq> new_handler \<longrightarrow>
        (\<exists>a x. ur_cache s a = Some x \<and> (h = uc_remote x \<or> h = uc_timer x)))"

lemma wf_udpD:
  assumes "wf_udp ci s"
  shows "wf_world (ur_world s)" "ur_cipher s = aead_env ci" "wf_cipher ci"
    "\<exists>h. ur_server s = Some h \<and> h < ur_next s \<and> ur_em s h = new_handler"
    "ur_cache s a = Some x \<Longrightarrow> wf_uctx a x s"
    "\<not> ur_closing s h \<Longrightarrow> ur_em s h \<noteq> new_handler \<Longrightarrow> \<exists>a x. ur_cache s a = Some x \<and> (h = uc_remote x \<or> h = uc_timer x)"
  using assms unfolding wf_udp_def by blast+

lemma lasting_ne [simp]: "lasting a \<noteq> new_handler" "new_handler \<noteq> lasting a"
  by (simp_all add: new_handler_def)

text \<open>Two clients share no handle.\<close>

lemma handles_apart:
  assumes "wf_uctx a x s" and "wf_uctx b y s" and "a \<noteq> b"
  shows "uc_remote x \<noteq> uc_remote y" "uc_remote x \<noteq> uc_timer y" "uc_timer x \<noteq> uc_remote y" "uc_timer x \<noteq> uc_timer y"
  using assms by (auto simp: wf_uctx_def)

definition udp_gone :: "uaddr \<Rightarrow> UDPConnectionContext \<Rightarrow> udp_relay \<Rightarrow> udp_relay" where
  "udp_gone a x s = s\<lparr>ur_cache := (ur_cache s)(a := None),
     ur_em := (ur_em s)(uc_remote x := new_handler),
     ur_closing := (ur_closing s)(uc_timer x := True, uc_remote x := True),
     ur_out := ur_out s @ [TimerStop (uc_timer x), HandleClose (uc_timer x), HandleClose (uc_remote x)]\<rparr>"

lemma wf_udp_out [simp]: "wf_udp ci (s\<lparr>ur_out := k\<rparr>) = wf_udp ci s" "wf_udp ci (s\<lparr>ur_localBuf := b\<rparr>) = wf_udp ci s"
  by (simp_all add: wf_udp_def wf_uctx_def)

lemma wf_udp_call [simp]: "wf_udp ci (udp_call_uv k s) = wf_udp ci s"
  by (simp add: udp_call_uv_def)

lemma wf_udp_world: "wf_udp ci s \<Longrightarrow> wf_world w \<Longrightarrow> wf_udp ci (s\<lparr>ur_world := w\<rparr>)"
  by (simp add: wf_udp_def wf_uctx_def)

lemma wf_udp_gone:
  assumes "wf_udp ci s" and "ur_cache s a = Some x"
  shows "wf_udp ci (udp_gone a x s)"
proof -
  have x: "wf_uctx a x s" and all: "\<And>b y. ur_cache s b = Some y \<Longrightarrow> wf_uctx b y s"
    using wf_udpD(5) [OF assms(1)] assms(2) by blast+
  note owner = wf_udpD(6) [OF assms(1)]
  have ctx: "wf_uctx b y (udp_gone a x s)" if "ur_cache s b = Some y" "b \<noteq> a" for b y
    using all [OF that(1)] handles_apart [OF x all [OF that(1)] that(2) [symmetric]] by (simp add: wf_uctx_def udp_gone_def)
  have "\<exists>b y. ur_cache (udp_gone a x s) b = Some y \<and> (h = uc_remote y \<or> h = uc_timer y)"
    if "\<not> ur_closing (udp_gone a x s) h" "ur_em (udp_gone a x s) h \<noteq> new_handler" for h
  proof -
    have h: "h \<noteq> uc_remote x" "h \<noteq> uc_timer x" "\<not> ur_closing s h" "ur_em s h \<noteq> new_handler"
      using that by (auto simp: udp_gone_def split: if_splits)
    from owner [OF h(3,4)] obtain b y where "ur_cache s b = Some y" "h = uc_remote y \<or> h = uc_timer y" by blast
    with h(1,2) assms(2) show ?thesis
      by (intro exI [of _ b] exI [of _ y]) (auto simp: udp_gone_def)
  qed
  moreover have "wf_uctx b y (udp_gone a x s)" if "ur_cache (udp_gone a x s) b = Some y" for b y
    using that ctx by (auto simp: udp_gone_def split: if_splits)
  moreover have "\<exists>h. ur_server (udp_gone a x s) = Some h \<and> h < ur_next (udp_gone a x s) \<and> ur_em (udp_gone a x s) h = new_handler"
    using wf_udpD(4) [OF assms(1)] by (auto simp: udp_gone_def)
  moreover have "wf_world (ur_world (udp_gone a x s))" "ur_cipher (udp_gone a x s) = aead_env ci"
    using wf_udpD(1,2) [OF assms(1)] by (simp_all add: udp_gone_def)
  ultimately show ?thesis
    using wf_udpD(3) [OF assms(1)] unfolding wf_udp_def by blast
qed

lemma udp_panic_cached:
  assumes "wf_uctx a x s" and "ur_cache s a = Some x"
  shows "udp_panic a s = udp_gone a x s"
  using assms by (simp add: udp_panic_def destroy_udp_context_def udp_close_def udp_clear_def udp_call_uv_def udp_gone_def Let_def
      wf_uctx_def clear_quiet)

lemma udp_panic_ok: "wf_udp ci s \<Longrightarrow> wf_udp ci (udp_panic a s)"
proof (cases "ur_cache s a")
  case (Some x)
  assume "wf_udp ci s"
  with Some wf_udp_gone [of ci s a x] udp_panic_cached [of a x s] wf_udpD(5) [of ci s a x] show ?thesis
    by simp
qed (simp add: udp_panic_def)

section \<open>Publishing\<close>

abbreviation em_running :: "hid \<Rightarrow> uaddr \<Rightarrow> udp_relay \<Rightarrow> udp_relay" where
  "em_running h a s \<equiv> s\<lparr>ur_em := (ur_em s)(h := lasting_busy a)\<rparr>"

abbreviation em_settled :: "hid \<Rightarrow> udp_relay \<Rightarrow> udp_relay" where
  "em_settled h s \<equiv> s\<lparr>ur_em := (ur_em s)(h := settle (ur_em s h))\<rparr>"

lemma udp_publish_lasting:
  assumes "ur_em s h = lasting a" and "run a (em_running h a s) = Inr t" and "length (h_onL (ur_em t h)) = 1"
  shows "udp_publish h run s = Inr (em_settled h t)"
  using publish_lasting [of "\<lambda>s. ur_em s h" s a "\<lambda>x s. s\<lparr>ur_em := (ur_em s)(h := x)\<rparr>" run] assms
  by (simp add: udp_publish_def)

lemma udp_publish_none: "ur_em s h = new_handler \<Longrightarrow> udp_publish h run s = Inr s"
  unfolding udp_publish_def by (rule publish_nobody) (simp_all add: fun_upd_idem)

text \<open>Destroying a context from inside one of its own listeners.\<close>

lemma panic_inside:
  assumes "wf_uctx a x s" and "ur_cache s a = Some x"
  shows "em_settled (uc_remote x) (udp_panic a (em_running (uc_remote x) a s)) = udp_gone a x s"
    "length (h_onL (ur_em (udp_panic a (em_running (uc_remote x) a s)) (uc_remote x))) = 1"
    "em_settled (uc_timer x) (udp_panic a (udp_close (uc_timer x) (udp_call_uv (TimerStop (uc_timer x)) (em_running (uc_timer x) a s)))) =
       (udp_gone a x s)\<lparr>ur_out := ur_out s @ [TimerStop (uc_timer x), HandleClose (uc_timer x), TimerStop (uc_timer x), HandleClose (uc_remote x)]\<rparr>"
    "length (h_onL (ur_em (udp_panic a (udp_close (uc_timer x) (udp_call_uv (TimerStop (uc_timer x)) (em_running (uc_timer x) a s)))) (uc_timer x))) = 1"
  using assms
  by (auto simp: udp_panic_def destroy_udp_context_def udp_close_def udp_clear_def udp_call_uv_def udp_gone_def Let_def
      wf_uctx_def handler_clear_def settle_def new_handler_def fun_eq_iff)

section \<open>Packets\<close>

lemma buf_assign_cap: "buf_assign h b src n cap = Inr b' \<Longrightarrow> b_cap b \<le> b_cap b'"
  by (auto simp: buf_assign_def brealloc_def buf_store_def bnd_Inr_iff Let_def split: if_splits)

lemma aead_decrypt_all_cap: "aead_decrypt_all L w b c cap = Inr (e, b', w') \<Longrightarrow> b_cap b \<le> b_cap b'"
  by (auto simp: aead_decrypt_all_def Let_def bnd_Inr_iff split: if_splits prod.splits dest!: buf_assign_cap)

lemma decrypt_all_env:
  assumes "lib_laws L HM S" and "wf_cipher ci" and "wf_world w" and "wf_buffer b"
  obtains err b' w' where "Buffer_ssDecryptALl L w (aead_env ci) b = Inr (err, b', w')" "wf_buffer b'" "wf_world w'" "b_cap b \<le> b_cap b'"
    "err = CRYPTO_OK \<or> err = CRYPTO_ERROR" "err = CRYPTO_OK \<longrightarrow> contents b = packet HM S ci (take (ci_key_len ci) (contents b)) (contents b')"
    "\<forall>m. \<not> seen w (take (ci_key_len ci) (contents b)) \<longrightarrow> contents b = packet HM S ci (take (ci_key_len ci) (contents b)) m \<longrightarrow> m \<noteq> [] \<longrightarrow>
      length (take (ci_key_len ci) (contents b)) = ci_key_len ci \<longrightarrow> err = CRYPTO_OK \<and> contents b' = m"
proof -
  have tl: "ci_tag_len ci = 16"
    using assms(2) by (rule wf_cipher_sizes)
  have eq: "Buffer_ssDecryptALl L w (aead_env ci) b = aead_decrypt_all L w b ci (DEFAULT_PACKET_SIZE * 2)"
    by (simp add: Buffer_ssDecryptALl_def aead_env_def aead_crypto_def)
  note inj = packet_inj [OF assms(1,2)]
  show ?thesis
  proof (cases "ci_key_len ci + 16 < b_len b")
    case False
    then have "Buffer_ssDecryptALl L w (aead_env ci) b = Inr (CRYPTO_ERROR, b, w)"
      unfolding eq using aead_decrypt_all_short [of b ci] tl by simp
    moreover have False if "contents b = packet HM S ci (take (ci_key_len ci) (contents b)) m" "m \<noteq> []"
      "length (take (ci_key_len ci) (contents b)) = ci_key_len ci" for m
      using packet_parts(2) [OF that(3) lib_lawsD(4) [OF assms(1)], of HM m] that False length_contents [OF assms(4)] by simp
    ultimately show ?thesis
      using assms(3,4) by (intro that) auto
  next
    case True
    show ?thesis
    proof (rule aead_decrypt_all_long [OF assms True, of "DEFAULT_PACKET_SIZE * 2"])
      fix w' assume "seen w (take (ci_key_len ci) (contents b))" "aead_decrypt_all L w b ci (DEFAULT_PACKET_SIZE * 2) = Inr (CRYPTO_ERROR, b, w')"
        "wf_world w'"
      then show ?thesis
        by (intro that [of CRYPTO_ERROR b w']) (use eq assms(4) in simp_all)
    next
      fix m' b' w' assume a: "contents b = packet HM S ci (take (ci_key_len ci) (contents b)) m'"
        "aead_decrypt_all L w b ci (DEFAULT_PACKET_SIZE * 2) = Inr (CRYPTO_OK, b', w')" "wf_buffer b'" "contents b' = m'" "wf_world w'"
      have "m' = m" if "contents b = packet HM S ci (take (ci_key_len ci) (contents b)) m"
        "length (take (ci_key_len ci) (contents b)) = ci_key_len ci" for m
        using inj [OF that(2), of m' m] a(1) that(1) by metis
      then show ?thesis
        by (intro that [of CRYPTO_OK b' w']) (use a eq aead_decrypt_all_cap [OF a(2)] in auto)
    next
      fix w' assume f: "\<nexists>m. contents b = packet HM S ci (take (ci_key_len ci) (contents b)) m"
        "aead_decrypt_all L w b ci (DEFAULT_PACKET_SIZE * 2) = Inr (CRYPTO_ERROR, b, w')" "wf_world w'"
      show ?thesis
        by (rule that [of CRYPTO_ERROR b w']) (use f eq assms(4) in auto)
    qed
  qed
qed

section \<open>A datagram of a client\<close>

definition no_sends :: "udp_call list \<Rightarrow> bool" where
  "no_sends ks \<longleftrightarrow> (\<forall>h d p. UdpSend h d p \<notin> set ks)"

lemma newRemote_ok:
  assumes "accepting U" and "heap_ok (lib_heap L)"
  obtains b x where "wf_buffer b" "b_len b = 0" "b_cap b = BUF_DEFAULT_CAPACITY"
    "x = \<lparr>uc_srcAddr = a, uc_remoteBuf = b, uc_remote = ur_next s, uc_timer = Suc (ur_next s)\<rparr>"
    "newRemote U L a s = Inr (x, s\<lparr>ur_cache := (ur_cache s)(a \<mapsto> x),
       ur_em := (ur_em s)(ur_next s := lasting a, Suc (ur_next s) := lasting a),
       ur_closing := (ur_closing s)(ur_next s := False, Suc (ur_next s) := False), ur_next := Suc (Suc (ur_next s)),
       ur_calls := Suc (Suc (ur_calls s)),
       ur_out := ur_out s @ [UdpBind (ur_next s) (if sa_family (ur_remoteAddr s) = AF_INET6 then AF_INET6 else AF_INET),
         TimerStart (Suc (ur_next s)) (ur_timeout s) (ur_timeout s), UdpRecvStart (ur_next s)]\<rparr>)"
proof -
  obtain b where b: "Buffer_newBuf (lib_heap L) = Inr b" "wf_buffer b" "b_len b = 0" "b_cap b = BUF_DEFAULT_CAPACITY"
    by (rule Buffer_newBuf_ok [OF assms(2)]) (rule that; assumption)
  show ?thesis
    by (rule that [OF b(2-4) refl])
      (use assms(1) b(1) in \<open>simp add: newRemote_def udp_new_handle_def initTimer_def new_UDPConnectionContext_def accepting_def Let_def
        udp_on_def udp_call_uv_def handler_on_def new_handler_def fun_eq_iff\<close>)
qed

lemma context_for_ok:
  assumes "accepting U" and "heap_ok (lib_heap L)" and "wf_udp ci s"
  obtains x s1 new where "udp_context_for U L a s = Inr (x, s1)" "wf_udp ci s1" "ur_cache s1 = (ur_cache s)(a \<mapsto> x)"
    "ur_out s1 = ur_out s @ new" "no_sends new" "ur_world s1 = ur_world s" "ur_localBuf s1 = ur_localBuf s"
    "ur_remoteAddr s1 = ur_remoteAddr s" "ur_server s1 = ur_server s" "ur_listening s1 = ur_listening s"
proof (cases "ur_cache s a")
  case (Some x)
  show ?thesis
    by (rule that [of x "udp_call_uv (TimerAgain (uc_timer x)) s" "[TimerAgain (uc_timer x)]"])
      (use Some assms(3) in \<open>simp_all add: udp_context_for_def resetTimeoutTimer_def no_sends_def udp_call_uv_def fun_upd_idem\<close>)
next
  case None
  let ?r = "ur_next s" and ?t = "Suc (ur_next s)"
  obtain b x where b: "wf_buffer b" "b_len b = 0" "b_cap b = BUF_DEFAULT_CAPACITY"
    and x: "x = \<lparr>uc_srcAddr = a, uc_remoteBuf = b, uc_remote = ?r, uc_timer = ?t\<rparr>"
    and run: "newRemote U L a s = Inr (x, s\<lparr>ur_cache := (ur_cache s)(a \<mapsto> x),
       ur_em := (ur_em s)(?r := lasting a, ?t := lasting a),
       ur_closing := (ur_closing s)(?r := False, ?t := False), ur_next := Suc ?t,
       ur_calls := Suc (Suc (ur_calls s)),
       ur_out := ur_out s @ [UdpBind ?r (if sa_family (ur_remoteAddr s) = AF_INET6 then AF_INET6 else AF_INET),
         TimerStart ?t (ur_timeout s) (ur_timeout s), UdpRecvStart ?r]\<rparr>)" (is "_ = Inr (x, ?s)")
    by (rule newRemote_ok [OF assms(1,2)]) (rule that; assumption)
  have wx: "wf_uctx a x ?s"
    using b by (simp add: wf_uctx_def x)
  have wy: "wf_uctx c y ?s" if "ur_cache s c = Some y" for c y
    using wf_udpD(5) [OF assms(3) that] by (simp add: wf_uctx_def)
  have "wf_uctx c y ?s" if "ur_cache ?s c = Some y" for c y
    using that wx wy by (auto split: if_splits)
  moreover have "\<exists>c y. ur_cache ?s c = Some y \<and> (h = uc_remote y \<or> h = uc_timer y)"
    if "\<not> ur_closing ?s h" "ur_em ?s h \<noteq> new_handler" for h
  proof (cases "h = ?r \<or> h = ?t")
    case True
    then show ?thesis by (intro exI [of _ a] exI [of _ x]) (auto simp: x)
  next
    case False
    then have "\<not> ur_closing s h" "ur_em s h \<noteq> new_handler"
      using that by simp_all
    then obtain c y where "ur_cache s c = Some y" "h = uc_remote y \<or> h = uc_timer y"
      using wf_udpD(6) [OF assms(3)] by blast
    with None show ?thesis by (intro exI [of _ c] exI [of _ y]) auto
  qed
  moreover obtain h where "ur_server s = Some h" "h < ur_next s" "ur_em s h = new_handler"
    using wf_udpD(4) [OF assms(3)] by blast
  then have "\<exists>h. ur_server ?s = Some h \<and> h < ur_next ?s \<and> ur_em ?s h = new_handler"
    by (intro exI [of _ h]) simp
  moreover have "wf_world (ur_world ?s)" "ur_cipher ?s = aead_env ci" "wf_cipher ci"
    using wf_udpD(1-3) [OF assms(3)] by simp_all
  ultimately have "wf_udp ci ?s"
    unfolding wf_udp_def by blast
  moreover have "no_sends [UdpBind ?r f, TimerStart ?t i j, UdpRecvStart ?r]" for f i j
    by (simp add: no_sends_def)
  ultimately show ?thesis
    by (intro that [of x ?s]) (use None run in \<open>simp_all add: udp_context_for_def\<close>)
qed

lemma serverRecv_cases:
  assumes "accepting U" and "lib_laws L HM S" and "ntop_ok N" and "wf_udp ci s" and "3 \<le> len" and "len \<le> length data"
    and "5 \<le> length data"
  obtains
    (dropped) b where "header_length (drop 3 data) (len - 3) = 0 \<or> data ! 2 \<noteq> 0"
      "onServerDatagram N U L a data len s = Inr (udp_panic a (s\<lparr>ur_localBuf := Some b\<rparr>))"
  | (sent) x s' new where "header_length (drop 3 data) (len - 3) \<noteq> 0" "data ! 2 = 0"
      "onServerDatagram N U L a data len s = Inr s'" "wf_udp ci s'" "ur_cache s' = (ur_cache s)(a \<mapsto> x)"
      "ur_out s' = ur_out s @ new @ [UdpSend (uc_remote x) (ToServer (ur_remoteAddr s))
         (packet HM S ci (randombytes_buf L (w_draws (ur_world s)) (ci_key_len ci)) (take (len - 3) (drop 3 data)))]"
      "no_sends new" "ur_server s' = ur_server s" "ur_listening s' = ur_listening s"
proof -
  note h = lib_lawsD(1) [OF assms(2)]
  obtain b where b: "Buffer_newBuf (lib_heap L) = Inr b" "wf_buffer b"
    by (rule Buffer_newBuf_ok [OF h]) (rule that; assumption)
  let ?s = "s\<lparr>ur_localBuf := Some b\<rparr>" and ?d = "drop 3 data"
  have u: "usub64 len 3 = len - 3"
    using assms(5) by (simp add: usub64_def)
  have l: "len - 3 \<le> length ?d" "2 \<le> length ?d"
    using assms(6,7) by simp_all
  obtain hst prt st where parse: "parseUDPRelayHeader N ?d (len - 3) (Some (replicate 257 0)) (Some (replicate 65 0))
      (Some \<lparr>sa_family = 0, sa_addr = [], sa_port = []\<rparr>) = Inr (header_length ?d (len - 3), hst, prt, st)"
    using parse_header_ok [OF assms(3) l] by fastforce
  have rb: "read_byte data 2 = Inr (data ! 2)"
    using assms(7) by (simp add: read_byte_def)
  have src: "uc_srcAddr x = a" if "ur_cache ?s a = Some x" for x
    using wf_udpD(5) [OF assms(4), of a x] that by (simp add: wf_uctx_def)
  have skip: "(case ur_cache ?s a of None \<Rightarrow> ?s | Some x \<Rightarrow> if uc_srcAddr x \<noteq> a then udp_panic a ?s else ?s) = ?s"
    using src by (cases "ur_cache ?s a") simp_all
  show ?thesis
  proof (cases "header_length ?d (len - 3) = 0 \<or> data ! 2 \<noteq> 0")
    case True
    show ?thesis
    proof (rule dropped [OF True, of b])
      show "onServerDatagram N U L a data len s = Inr (udp_panic a ?s)"
        using True
      proof
        assume "header_length ?d (len - 3) = 0"
        then show ?thesis
          using b(1) rb parse by (simp add: onServerDatagram_def serverRecv_def u)
      next
        assume "data ! 2 \<noteq> 0"
        then show ?thesis
          using b(1) rb parse skip by (simp add: onServerDatagram_def serverRecv_def u Let_def)
      qed
    qed
  next
    case False
    have wf: "wf_udp ci ?s"
      using assms(4) by simp
    obtain x s1 new where c: "udp_context_for U L a ?s = Inr (x, s1)" "wf_udp ci s1" "ur_cache s1 = (ur_cache ?s)(a \<mapsto> x)"
      "ur_out s1 = ur_out ?s @ new" "no_sends new" "ur_world s1 = ur_world ?s" "ur_localBuf s1 = ur_localBuf ?s"
      "ur_remoteAddr s1 = ur_remoteAddr ?s" "ur_server s1 = ur_server ?s" "ur_listening s1 = ur_listening ?s"
      by (rule context_for_ok [OF assms(1) h wf]) (rule that; assumption)
    obtain b1 where b1: "Buffer_copyFromBegin (lib_heap L) b ?d (len - 3) = Inr b1" "wf_buffer b1" "contents b1 = take (len - 3) ?d"
      by (rule Buffer_copyFromBegin_ok [OF h b(2) l(1)]) (rule that; assumption)
    let ?pkt = "packet HM S ci (randombytes_buf L (w_draws (ur_world s)) (ci_key_len ci)) (take (len - 3) ?d)"
    have w: "wf_world (ur_world s)" "ur_cipher s1 = aead_env ci" "wf_cipher ci"
      using wf_udpD(1-3) [OF assms(4)] wf_udpD(2) [OF c(2)] by simp_all
    obtain b2 w2 where enc: "aead_encrypt_all L (ur_world s) b1 ci (DEFAULT_PACKET_SIZE * 2) = Inr (CRYPTO_OK, b2, w2)" "wf_buffer b2"
      "contents b2 = ?pkt" "wf_world w2"
      using aead_encrypt_all_spec [OF assms(2) w(3,1) b1(2), of "DEFAULT_PACKET_SIZE * 2"] b1(3) by auto
    have enc': "Buffer_ssEncryptAll L (ur_world s) (aead_env ci) b1 = Inr (0, b2, w2)"
      using enc(1) by (simp add: Buffer_ssEncryptAll_def aead_env_def aead_crypto_def)
    let ?s' = "(udp_call_uv (UdpSend (uc_remote x) (ToServer (ur_remoteAddr s)) ?pkt) (s1\<lparr>ur_localBuf := Some b2, ur_world := w2\<rparr>))
        \<lparr>ur_localBuf := Some (Buffer_setLength b2 0)\<rparr>"
    show ?thesis
    proof (rule sent [of ?s' x new])
      show "onServerDatagram N U L a data len s = Inr ?s'"
        using False b(1) rb parse skip c b1(1) enc' w(2) Buffer_duplicate_ok [OF enc(2)] enc(3)
        by (simp add: onServerDatagram_def serverRecv_def u Let_def udp_forward_def)
      show "wf_udp ci ?s'"
        using wf_udp_world [OF c(2) enc(4)] by (simp add: udp_call_uv_def wf_udp_def wf_uctx_def)
    qed (use False c in \<open>simp_all add: udp_call_uv_def\<close>)
  qed
qed

section \<open>A datagram of the server\<close>

lemma header_length_take: "n \<le> length d \<Longrightarrow> header_length (take n d) n = header_length d n"
  by (cases "2 \<le> n") (auto simp: header_length_def Let_def)

lemma Buffer_copy_cap: "Buffer_copy h b xs = Inr b' \<Longrightarrow> 2 \<le> b_cap b \<Longrightarrow> 2 \<le> b_cap b'"
  by (auto simp: Buffer_copy_def Buffer_append_def Buffer_bufRealloc_def bnd_Inr_iff split: if_splits)

lemma wf_udp_rebuffer:
  assumes "wf_udp ci s" and "ur_cache s a = Some x" and "wf_buffer b" and "b_len b = 0" and "2 \<le> b_cap b"
  shows "wf_udp ci (s\<lparr>ur_cache := (ur_cache s)(a \<mapsto> x\<lparr>uc_remoteBuf := b\<rparr>)\<rparr>)" (is "wf_udp ci ?s")
proof -
  have x: "wf_uctx a x s"
    using wf_udpD(5) [OF assms(1,2)] .
  have "wf_uctx c y ?s" if "ur_cache ?s c = Some y" for c y
    using that x wf_udpD(5) [OF assms(1), of c y] assms(3-5) by (auto simp: wf_uctx_def split: if_splits)
  moreover have "\<exists>c y. ur_cache ?s c = Some y \<and> (h = uc_remote y \<or> h = uc_timer y)"
    if "\<not> ur_closing ?s h" "ur_em ?s h \<noteq> new_handler" for h
  proof -
    have hs: "\<not> ur_closing s h" "ur_em s h \<noteq> new_handler"
      using that by simp_all
    obtain c y where "ur_cache s c = Some y" "h = uc_remote y \<or> h = uc_timer y"
      using wf_udpD(6) [OF assms(1) hs] by blast
    with assms(2) show ?thesis
      by (cases "c = a") (auto intro!: exI [of _ c] simp del: split_paired_Ex)
  qed
  moreover have "\<exists>h. ur_server ?s = Some h \<and> h < ur_next ?s \<and> ur_em ?s h = new_handler" "wf_world (ur_world ?s)"
    "ur_cipher ?s = aead_env ci" "wf_cipher ci"
    using wf_udpD(1-4) [OF assms(1)] by simp_all
  ultimately show ?thesis
    unfolding wf_udp_def by blast
qed

lemma remoteRecv_cases:
  assumes "lib_laws L HM S" and "ntop_ok N" and "wf_udp ci s" and "ur_cache s a = Some x" and "len \<le> length data"
    and "ur_server s = Some srv"
  defines "salt \<equiv> take (ci_key_len ci) (take len data)"
  obtains
    (dropped) s' where "udp_step N U L (RemoteDatagram (uc_remote x) data len) s = Inr s'" "wf_udp ci s'" "ur_cache s' = (ur_cache s)(a := None)"
      "\<And>m. take len data = packet HM S ci salt m \<Longrightarrow> length salt = ci_key_len ci \<Longrightarrow> \<not> seen (ur_world s) salt \<Longrightarrow>
        m = [] \<or> header_length m (length m) = 0"
  | (sent) s' m x' where "udp_step N U L (RemoteDatagram (uc_remote x) data len) s = Inr s'" "wf_udp ci s'"
      "ur_cache s' = (ur_cache s)(a \<mapsto> x')" "uc_remote x' = uc_remote x" "take len data = packet HM S ci salt m"
      "ur_out s' = ur_out s @ [TimerAgain (uc_timer x), UdpSend srv (ToClient a) ([0, 0, 0] @ m)]"
proof -
  note h = lib_lawsD(1) [OF assms(1)]
  let ?r = "uc_remote x" and ?run = "udp_remoteRecv N L data len"
  let ?s = "em_running ?r a s"
  have x: "wf_uctx a x s"
    using wf_udpD(5) [OF assms(3,4)] .
  have xr: "wf_buffer (uc_remoteBuf x)" "contents (uc_remoteBuf x) = []" "2 \<le> b_cap (uc_remoteBuf x)" "ur_em s ?r = lasting a" "uc_srcAddr x = a"
    using x contents_empty by (auto simp: wf_uctx_def)
  have rd: "read_mem data 0 len = Inr (take len data)"
    using assms(5) by (simp add: read_mem_ok)
  obtain b where b: "Buffer_copy (lib_heap L) (uc_remoteBuf x) (take len data) = Inr b" "wf_buffer b" "contents b = take len data"
    by (rule Buffer_copy_ok [OF h xr(1), of "take len data"]) (use xr(2) in \<open>auto intro: that\<close>)
  have bc: "2 \<le> b_cap b"
    using Buffer_copy_cap [OF b(1) xr(3)] .
  have cph: "ur_cipher s = aead_env ci" "wf_world (ur_world s)" "wf_cipher ci"
    using wf_udpD(1-3) [OF assms(3)] by simp_all
  obtain err b' w' where dec: "Buffer_ssDecryptALl L (ur_world s) (aead_env ci) b = Inr (err, b', w')" "wf_buffer b'" "wf_world w'"
    "b_cap b \<le> b_cap b'" "err = CRYPTO_OK \<or> err = CRYPTO_ERROR" "err = CRYPTO_OK \<longrightarrow> take len data = packet HM S ci salt (contents b')"
    "\<forall>m. \<not> seen (ur_world s) salt \<longrightarrow> take len data = packet HM S ci salt m \<longrightarrow> m \<noteq> [] \<longrightarrow>
      length salt = ci_key_len ci \<longrightarrow> err = CRYPTO_OK \<and> contents b' = m"
    by (rule decrypt_all_env [OF assms(1) cph(3,2) b(2), unfolded b(3), folded salt_def]) (rule that; assumption)
  let ?x = "x\<lparr>uc_remoteBuf := b'\<rparr>" and ?hl = "header_length (b_data b') (b_len b')"
  let ?t = "?s\<lparr>ur_world := w', ur_cache := (ur_cache s)(a \<mapsto> ?x)\<rparr>" and ?u = "s\<lparr>ur_world := w'\<rparr>"
  have lb: "b_len b' \<le> length (b_data b')" "2 \<le> length (b_data b')"
    using dec(2,4) bc by (simp_all add: wf_bufferD)
  obtain hst prt st where parse: "parseUDPRelayHeader N (b_data b') (b_len b') None None None = Inr (?hl, hst, prt, st)"
    using parse_header_ok [OF assms(2) lb, of None None None] by auto
  have hlc: "header_length (contents b') (length (contents b')) = ?hl"
    using header_length_take [OF lb(1)] lb(1) by (simp add: contents_def)
  have start: "?run a ?s = (if err \<noteq> 0 then Inr (udp_panic a ?t) else if ?hl = 0 then Inr (udp_panic a ?t)
      else Inr ((udp_call_uv (UdpSend srv (ToClient a) ([0, 0, 0] @ contents b')) (resetTimeoutTimer ?x ?t))
        \<lparr>ur_cache := (ur_cache s)(a \<mapsto> x\<lparr>uc_remoteBuf := Buffer_setLength b' 0\<rparr>)\<rparr>))"
    using assms(4,6) rd b(1) dec(1) parse cph(1) lb(1) xr(5)
    by (simp add: udp_remoteRecv_def Buffer_copy_udp_eq Let_def read_mem_ok contents_def resetTimeoutTimer_def udp_call_uv_def)
  show ?thesis
  proof (cases "err \<noteq> 0 \<or> ?hl = 0")
    case True
    have pan: "em_settled ?r (udp_panic a ?t) = udp_gone a x ?u" "length (h_onL (ur_em (udp_panic a ?t) ?r)) = 1"
      using x by (auto simp: udp_panic_def destroy_udp_context_def udp_close_def udp_clear_def udp_call_uv_def udp_gone_def Let_def
          wf_uctx_def handler_clear_def settle_def new_handler_def fun_eq_iff)
    have run: "?run a ?s = Inr (udp_panic a ?t)"
      unfolding start using True by auto
    show ?thesis
    proof (rule dropped [of "udp_gone a x ?u"])
      show "udp_step N U L (RemoteDatagram ?r data len) s = Inr (udp_gone a x ?u)"
        using udp_publish_lasting [of s ?r a ?run, OF xr(4) run pan(2)] pan(1) by (simp add: udp_step_def)
      show "wf_udp ci (udp_gone a x ?u)"
        using wf_udp_gone [OF wf_udp_world [OF assms(3) dec(3)], of a x] assms(4) by simp
      show "m = [] \<or> header_length m (length m) = 0" if "take len data = packet HM S ci salt m" "length salt = ci_key_len ci"
        "\<not> seen (ur_world s) salt" for m
      proof (cases "m = []")
        case False
        then have "err = CRYPTO_OK" "contents b' = m"
          using dec(7) that by blast+
        with True hlc show ?thesis by simp
      qed simp
    qed (simp add: udp_gone_def)
  next
    case False
    let ?v = "(udp_call_uv (UdpSend srv (ToClient a) ([0, 0, 0] @ contents b')) (resetTimeoutTimer ?x ?t))
        \<lparr>ur_cache := (ur_cache s)(a \<mapsto> x\<lparr>uc_remoteBuf := Buffer_setLength b' 0\<rparr>)\<rparr>"
    have run: "?run a ?s = Inr ?v"
      unfolding start using False by simp
    have em: "em_settled ?r ?v = (?u\<lparr>ur_cache := (ur_cache ?u)(a \<mapsto> x\<lparr>uc_remoteBuf := Buffer_setLength b' 0\<rparr>)\<rparr>)
        \<lparr>ur_out := ur_out s @ [TimerAgain (uc_timer x), UdpSend srv (ToClient a) ([0, 0, 0] @ contents b')]\<rparr>"
      using xr(4) by (simp add: udp_call_uv_def resetTimeoutTimer_def settle_def fun_eq_iff)
    have nb: "wf_buffer (Buffer_setLength b' 0)" "b_len (Buffer_setLength b' 0) = 0" "2 \<le> b_cap (Buffer_setLength b' 0)"
      using dec(2,4) bc by (simp_all add: Buffer_setLength_def wf_buffer_def wf_block_def)
    show ?thesis
    proof (rule sent [of "em_settled ?r ?v" "x\<lparr>uc_remoteBuf := Buffer_setLength b' 0\<rparr>" "contents b'"])
      show "udp_step N U L (RemoteDatagram ?r data len) s = Inr (em_settled ?r ?v)"
        using udp_publish_lasting [of s ?r a ?run, OF xr(4) run] by (simp add: udp_step_def udp_call_uv_def resetTimeoutTimer_def)
      show "wf_udp ci (em_settled ?r ?v)"
        unfolding em using wf_udp_rebuffer [OF wf_udp_world [OF assms(3) dec(3)] _ nb, of a x] assms(4) by simp
      show "take len data = packet HM S ci salt (contents b')"
        using dec(5,6) False by simp
      show "ur_out (em_settled ?r ?v) = ur_out s @ [TimerAgain (uc_timer x), UdpSend srv (ToClient a) ([0, 0, 0] @ contents b')]"
        unfolding em by simp
    qed simp_all
  qed
qed

section \<open>Properties\<close>

text \<open>The callbacks libuv makes: for open handles, with the memory uvw allocated, and of the kind of the handle. A datagram
  of a client has at least the three bytes in front of the address.\<close>

fun valid_callback :: "udp_relay \<Rightarrow> udp_callback \<Rightarrow> bool" where
  "valid_callback s (ServerDatagram a data len) \<longleftrightarrow> 3 \<le> len \<and> len \<le> length data \<and> 5 \<le> length data"
| "valid_callback s (RemoteDatagram h data len) \<longleftrightarrow> len \<le> length data \<and> \<not> ur_closing s h \<and> (\<forall>x\<in>ran (ur_cache s). h \<noteq> uc_timer x)"
| "valid_callback s (TimerExpired h) \<longleftrightarrow> \<not> ur_closing s h \<and> (\<forall>x\<in>ran (ur_cache s). h \<noteq> uc_remote x)"

lemma timer_step:
  assumes "wf_udp ci s" and "ur_cache s a = Some x"
  shows "udp_step N U L (TimerExpired (uc_timer x)) s =
    Inr ((udp_gone a x s)\<lparr>ur_out := ur_out s @ [TimerStop (uc_timer x), HandleClose (uc_timer x), TimerStop (uc_timer x), HandleClose (uc_remote x)]\<rparr>)"
proof -
  have x: "wf_uctx a x s" "ur_em s (uc_timer x) = lasting a"
    using wf_udpD(5) [OF assms] by (simp_all add: wf_uctx_def)
  show ?thesis
    using udp_publish_lasting [OF x(2), of "udp_timeout (uc_timer x)"] panic_inside(3,4) [OF x(1) assms(2)]
    by (simp add: udp_step_def udp_timeout_def)
qed

lemma udp_step_safe:
  assumes "accepting U" and "lib_laws L HM S" and "ntop_ok N" and "wf_udp ci s" and "valid_callback s cb"
  shows "\<exists>s'. udp_step N U L cb s = Inr s' \<and> wf_udp ci s'"
proof (cases cb)
  case (ServerDatagram a data len)
  show ?thesis
  proof (cases "ur_listening s")
    case True
    have l: "3 \<le> len" "len \<le> length data" "5 \<le> length data"
      using assms(5) ServerDatagram by simp_all
    show ?thesis
      by (rule serverRecv_cases [OF assms(1-4) l, of a])
        (use True ServerDatagram udp_panic_ok assms(4) in \<open>simp_all add: udp_step_def\<close>)
  qed (use ServerDatagram assms(4) in \<open>simp add: udp_step_def\<close>)
next
  case (RemoteDatagram h data len)
  obtain srv where srv: "ur_server s = Some srv"
    using wf_udpD(4) [OF assms(4)] by blast
  show ?thesis
  proof (cases "ur_em s h = new_handler")
    case True
    then show ?thesis using RemoteDatagram assms(4) udp_publish_none [of s h] by (simp add: udp_step_def)
  next
    case False
    then obtain a x where x: "ur_cache s a = Some x" "h = uc_remote x"
      using wf_udpD(6) [OF assms(4) _ False] assms(5) RemoteDatagram by (auto simp: ran_def simp del: split_paired_Ex)
    have l: "len \<le> length data"
      using assms(5) RemoteDatagram by simp
    show ?thesis
      by (rule remoteRecv_cases [OF assms(2-4) x(1) l srv, of U]) (use RemoteDatagram x(2) in simp_all)
  qed
next
  case (TimerExpired h)
  show ?thesis
  proof (cases "ur_em s h = new_handler")
    case True
    then show ?thesis using TimerExpired assms(4) udp_publish_none [of s h] by (simp add: udp_step_def)
  next
    case False
    then obtain a x where x: "ur_cache s a = Some x" "h = uc_timer x"
      using wf_udpD(6) [OF assms(4) _ False] assms(5) TimerExpired by (auto simp: ran_def simp del: split_paired_Ex)
    show ?thesis
      using timer_step [OF assms(4) x(1), of N U L] wf_udp_gone [OF assms(4) x(1)] TimerExpired x(2) by simp
  qed
qed

text \<open>Runs of the relay in which every callback is one that libuv can make in the state it finds.\<close>

inductive udp_reach :: "net_env \<Rightarrow> uv_env \<Rightarrow> crypto_lib \<Rightarrow> udp_relay \<Rightarrow> udp_callback list \<Rightarrow> udp_relay res \<Rightarrow> bool"
  for N U L where
  reach_end: "udp_reach N U L s [] (Inr s)"
| reach_step: "valid_callback s cb \<Longrightarrow> udp_step N U L cb s = Inr t \<Longrightarrow> udp_reach N U L t cbs r \<Longrightarrow> udp_reach N U L s (cb # cbs) r"
| reach_fault: "valid_callback s cb \<Longrightarrow> udp_step N U L cb s = Inl e \<Longrightarrow> udp_reach N U L s (cb # cbs) (Inl e)"

inductive_cases udp_reach_faultE: "udp_reach N U L s cbs (Inl e)"

text \<open>C5: the UDP relay survives every sequence of datagrams and time-outs. Whatever clients and servers send, of any
  length and content (a client at least the three bytes in front of the address), no step reads or writes
  outside its memory or uses a destroyed context, and the table stays consistent: every client has exactly one
  open socket and one open timer of its own, with an empty buffer, and no open handle belongs to nobody.\<close>

theorem udp_relay_safe:
  assumes "udp_reach N U L s cbs r" and "accepting U" and "lib_laws L HM S" and "ntop_ok N" and "wf_udp ci s"
  shows "\<exists>s'. r = Inr s' \<and> wf_udp ci s'"
  using assms(1,5)
proof (induction rule: udp_reach.induct)
  case (reach_step s cb t cbs r)
  then show ?case
    using udp_step_safe [OF assms(2-4) reach_step.prems reach_step.hyps(1)] by simp
next
  case (reach_fault s cb e cbs)
  then show ?case
    using udp_step_safe [OF assms(2-4) reach_fault.prems reach_fault.hyps(1)] by simp
qed simp

text \<open>A packet is opened by every process with the same key that has not seen its salt.\<close>

lemma packet_opens:
  assumes "lib_laws L HM S" and "lib_laws L' HM S" and "wf_cipher ci" and "wf_world w'" and "length salt = ci_key_len ci"
    and "\<not> seen w' salt" and "m \<noteq> []" and "wf_buffer b" and "contents b = packet HM S ci salt m"
  shows "\<exists>b' w2. aead_decrypt_all L' w' b ci cap = Inr (CRYPTO_OK, b', w2) \<and> contents b' = m"
proof -
  have tk: "take (ci_key_len ci) (contents b) = salt"
    using packet_parts [OF assms(5) lib_lawsD(4) [OF assms(1)], of HM m] assms(9) by auto
  have cond: "(\<exists>m. m \<noteq> [] \<and> contents b = packet HM S ci salt m) \<and> length salt = ci_key_len ci \<and> \<not> seen w' salt"
    using assms by blast
  obtain b' w2 where d: "aead_decrypt_all L' w' b ci cap = Inr (CRYPTO_OK, b', w2)" "contents b = packet HM S ci salt (contents b')"
    using packet_result [OF assms(2,3,4,8), of cap] unfolding Let_def tk if_P [OF cond] by blast
  have "contents b' = m"
    using packet_inj [OF assms(1,3,5), of "contents b'" m] d(2) assms(9) by simp
  with d(1) show ?thesis by blast
qed

text \<open>C6: a request reaches the server. A datagram of client \<open>a\<close> with an address and a payload leads to exactly one
  datagram, sent from the socket of \<open>a\<close> (a new one for a new client) to the server; a server in another process with
  the same key, whose replay filter has not seen the salt, decrypts exactly the address and the payload.\<close>

theorem udp_request:
  assumes "accepting U" and "lib_laws L HM S" and "lib_laws L' HM S" and "ntop_ok N" and "wf_udp ci s" and "ur_listening s"
    and "wf_endpoint e" and "take len data = [0, 0, 0] @ encode_address e @ payload" and "len \<le> length data"
    and "wf_world w'" and "\<not> seen w' (randombytes_buf L (w_draws (ur_world s)) (ci_key_len ci))"
  shows "\<exists>s' x new pkt. udp_step N U L (ServerDatagram a data len) s = Inr s' \<and> wf_udp ci s' \<and>
    ur_cache s' = (ur_cache s)(a \<mapsto> x) \<and> uc_srcAddr x = a \<and>
    ur_out s' = ur_out s @ new @ [UdpSend (uc_remote x) (ToServer (ur_remoteAddr s)) pkt] \<and> no_sends new \<and>
    (\<forall>b cap. wf_buffer b \<longrightarrow> contents b = pkt \<longrightarrow>
      (\<exists>b' w2. aead_decrypt_all L' w' b ci cap = Inr (CRYPTO_OK, b', w2) \<and> contents b' = encode_address e @ payload))"
proof -
  let ?salt = "randombytes_buf L (w_draws (ur_world s)) (ci_key_len ci)" and ?m = "encode_address e @ payload"
  note wc = wf_udpD(3) [OF assms(5)]
  have ls: "length ?salt = ci_key_len ci"
    using assms(2) by (rule lib_lawsD)
  have ne: "2 \<le> length (encode_address e)"
    using assms(7) by (cases e) auto
  have "length (take len data) = 3 + length ?m"
    using assms(8) by simp
  then have l: "3 \<le> len" "5 \<le> length data" "len - 3 = length ?m" "len = 3 + length ?m"
    using assms(9) ne by simp_all
  have d: "take (len - 3) (drop 3 data) = ?m"
    using arg_cong [OF assms(8), of "drop 3"] by (simp add: drop_take)
  have frag: "data ! 2 = 0"
    using arg_cong [OF assms(8), of "\<lambda>xs. xs ! 2"] l(1) assms(9) by simp
  have "drop 3 data = ?m @ drop (len - 3) (drop 3 data)"
    using append_take_drop_id [of "len - 3" "drop 3 data"] d by simp
  then have hl: "header_length (drop 3 data) (len - 3) \<noteq> 0"
    using header_length_encoded [OF assms(7), of "len - 3" "payload @ drop (len - 3) (drop 3 data)"] l(3) by simp
  obtain x s' new where s': "onServerDatagram N U L a data len s = Inr s'" "wf_udp ci s'" "ur_cache s' = (ur_cache s)(a \<mapsto> x)"
    "ur_out s' = ur_out s @ new @ [UdpSend (uc_remote x) (ToServer (ur_remoteAddr s)) (packet HM S ci ?salt ?m)]" "no_sends new"
  proof (rule serverRecv_cases [OF assms(1,2,4,5) l(1) assms(9) l(2), of a], goal_cases)
    case (1 b)
    then show thesis using hl frag by simp
  next
    case (2 x s' new)
    show thesis
      by (rule that [OF 2(4-6) _ 2(8)]) (use 2(7) d in simp)
  qed
  have "?m \<noteq> []"
    using ne by auto
  note opens = packet_opens [OF assms(2,3) wc assms(10) ls assms(11) this]
  have "uc_srcAddr x = a"
    using wf_udpD(5) [OF s'(2), of a x] s'(3) by (simp add: wf_uctx_def)
  then show ?thesis
    using opens s' assms(6)
    by (intro exI [of _ s'] exI [of _ x] exI [of _ new] exI [of _ "packet HM S ci ?salt ?m"]) (simp add: udp_step_def)
qed

text \<open>C7: a reply reaches the client that asked. A packet that a server with the same key made of an address and a
  payload, arriving at the socket of client \<open>a\<close> with a salt the replay filter has not seen, leads to exactly one
  datagram, sent from the local server to \<open>a\<close>: three zero bytes, the address and the payload. The time-out starts
  anew and the client keeps its socket.\<close>

theorem udp_reply:
  assumes "lib_laws L HM S" and "lib_laws L' HM S" and "ntop_ok N" and "wf_udp ci s" and "ur_cache s a = Some x" and "ur_server s = Some srv"
    and "wf_endpoint e" and "wf_buffer b" and "contents b = encode_address e @ payload" and "wf_world w'"
    and "\<not> seen (ur_world s) (randombytes_buf L' (w_draws w') (ci_key_len ci))"
  shows "\<exists>b1 w1. aead_encrypt_all L' w' b ci cap = Inr (CRYPTO_OK, b1, w1) \<and>
    (\<forall>tail. \<exists>s' x'. udp_step N U L (RemoteDatagram (uc_remote x) (contents b1 @ tail) (b_len b1)) s = Inr s' \<and> wf_udp ci s' \<and>
      ur_cache s' = (ur_cache s)(a \<mapsto> x') \<and> uc_remote x' = uc_remote x \<and>
      ur_out s' = ur_out s @ [TimerAgain (uc_timer x), UdpSend srv (ToClient a) ([0, 0, 0] @ encode_address e @ payload)])"
proof -
  let ?salt = "randombytes_buf L' (w_draws w') (ci_key_len ci)" and ?m = "encode_address e @ payload"
  note wc = wf_udpD(3) [OF assms(4)]
  have ls: "length ?salt = ci_key_len ci"
    using assms(2) by (rule lib_lawsD)
  obtain b1 w1 where b1: "aead_encrypt_all L' w' b ci cap = Inr (CRYPTO_OK, b1, w1)" "wf_buffer b1" "contents b1 = packet HM S ci ?salt ?m"
    using aead_encrypt_all_spec [OF assms(2) wc assms(10,8), of cap] assms(9) by auto
  have hl: "header_length ?m (length ?m) \<noteq> 0" "?m \<noteq> []"
    using header_length_encoded [OF assms(7)] assms(7) by simp (cases e; simp)
  have "\<exists>s' x'. udp_step N U L (RemoteDatagram (uc_remote x) (contents b1 @ tail) (b_len b1)) s = Inr s' \<and> wf_udp ci s' \<and>
      ur_cache s' = (ur_cache s)(a \<mapsto> x') \<and> uc_remote x' = uc_remote x \<and>
      ur_out s' = ur_out s @ [TimerAgain (uc_timer x), UdpSend srv (ToClient a) ([0, 0, 0] @ ?m)]" for tail
  proof -
    have tk: "take (b_len b1) (contents b1 @ tail) = packet HM S ci ?salt ?m" "b_len b1 \<le> length (contents b1 @ tail)"
      "take (ci_key_len ci) (packet HM S ci ?salt ?m) = ?salt"
      using b1(2,3) length_contents [OF b1(2)] packet_parts(1) [OF ls lib_lawsD(4) [OF assms(2)]] by simp_all
    show ?thesis
    proof (rule remoteRecv_cases [OF assms(1,3,4,5) tk(2) assms(6), of U, unfolded tk(1,3)], goal_cases)
      case (1 s')
      then show ?case
        using 1(4) [OF refl ls assms(11)] hl by simp
    next
      case (2 s' m x')
      then have "m = ?m"
        using packet_inj [OF assms(1) wc ls, of m ?m] by simp
      with 2 show ?case by auto
    qed
  qed
  with b1(1) show ?thesis by blast
qed

end
