(* ===== verification/SS_Cache.thy ===== *)
theory SS_Cache
  imports Complex_Main SS_Buffer "HOL-Library.Multiset"
begin

text \<open>
  The cache of \<^verbatim>\<open>src/cache.c\<close>. The hash table of \<^verbatim>\<open>uthash.h\<close> keeps its entries in the order in which they were added,
  which is the order \<^verbatim>\<open>HASH_ITER\<close> follows, and so the model is the list of entries, oldest first. When several entries
  have the same key, the position in the bucket decides which one \<^verbatim>\<open>HASH_FIND\<close> returns: the parameter \<open>pick\<close> stands for it.
  Entries have an address; the release of memory is a log. The clock is a parameter of each call.
\<close>

record cache_entry =
  ce_addr :: nat
  ce_key :: bytes
  ce_data :: "nat option"  \<comment> \<open>a pointer\<close>
  ce_ts :: real

record cache =
  ca_max :: nat
  ca_entries :: "cache_entry list"
  ca_free_cb :: bool

datatype release = FreeCb bytes nat | FreeData nat | FreeKey nat | FreeEntry nat | FreeCache

abbreviation (input) EINVAL :: int where "EINVAL \<equiv> 22"
abbreviation (input) ENOMEM :: int where "ENOMEM \<equiv> 12"
abbreviation (input) SIZEOF_CACHE :: nat where "SIZEOF_CACHE \<equiv> 24"


section \<open>The hash table\<close>




section \<open>The operations\<close>

definition free_entry :: "cache \<Rightarrow> cache_entry \<Rightarrow> release list" where
  "free_entry c e =
     (case ce_data e of None \<Rightarrow> [] | Some p \<Rightarrow> if ca_free_cb c then [FreeCb (ce_key e) p] else [FreeData p]) @
     [FreeKey (ce_addr e), FreeEntry (ce_addr e)]"

definition cache_create :: "heap \<Rightarrow> bool \<Rightarrow> nat \<Rightarrow> bool \<Rightarrow> int \<times> cache option" where
  "cache_create h dst capacity free_cb =
     (if \<not> dst then (EINVAL, None)
      else if \<not> avail h SIZEOF_CACHE then (ENOMEM, None)
      else (0, Some \<lparr>ca_max = capacity, ca_entries = [], ca_free_cb = free_cb\<rparr>))"

definition cache_delete :: "cache option \<Rightarrow> int \<Rightarrow> int \<times> release list" where
  "cache_delete cache keep_data =
     (case cache of None \<Rightarrow> (EINVAL, [])
      | Some c \<Rightarrow> (0, (if keep_data \<noteq> 0 then [] else concat (map (free_entry c) (ca_entries c))) @ [FreeCache]))"








section \<open>Invariant\<close>







section \<open>Lemmas\<close>









section \<open>Properties\<close>


end
