(* ===== verification/SS_Getopt.thy ===== *)
theory SS_Getopt
  imports SS_Prelude
begin

text \<open>
  The option parser of \<^verbatim>\<open>src/win/getopt.c\<close>, which the program uses on Windows. The static and global variables are a
  record. Strings are their bytes without the terminator; \<^verbatim>\<open>nargv\<close> is the list of the arguments, behind which there is
  a null pointer. \<^verbatim>\<open>place\<close> points into an argument: the model keeps the rest of the argument and whether \<^verbatim>\<open>place\<close> is its
  start. The index -1 is \<open>None\<close>. Messages on the standard error are omitted.
\<close>

section \<open>State\<close>

record long_option =
  lo_name :: bytes
  lo_has_arg :: int
  lo_flag :: "nat option"
  lo_val :: int

abbreviation (input) no_argument :: int where "no_argument \<equiv> 0"
abbreviation (input) required_argument :: int where "required_argument \<equiv> 1"
abbreviation (input) optional_argument :: int where "optional_argument \<equiv> 2"

record getopt_state =
  go_argv :: "bytes list"
  go_optind :: nat
  go_optopt :: int
  go_optreset :: int
  go_optarg :: "bytes option"
  go_place :: bytes
  go_place_start :: bool
  go_nonopt_start :: "nat option"
  go_nonopt_end :: "nat option"
  go_posixly_correct :: int
  go_flags :: "nat \<Rightarrow> int"
  go_idx :: int

definition getopt_init :: "bytes list \<Rightarrow> getopt_state" where
  "getopt_init argv = \<lparr>go_argv = argv, go_optind = 1, go_optopt = 63, go_optreset = 0, go_optarg = None, go_place = [],
     go_place_start = False, go_nonopt_start = None, go_nonopt_end = None, go_posixly_correct = -1, go_flags = (\<lambda>_. 0), go_idx = 0\<rparr>"

definition argv_at :: "bytes list \<Rightarrow> nat \<Rightarrow> bytes option res" where
  "argv_at argv i = (if i < length argv then Inr (Some (argv ! i)) else if i = length argv then Inr None else Inl UB)"

text \<open>A \<^verbatim>\<open>char\<close> as an \<^verbatim>\<open>int\<close>.\<close>

definition char_int :: "byte \<Rightarrow> int" where
  "char_int b = sint b"

abbreviation (input) BADCH :: int where "BADCH \<equiv> 63"
abbreviation (input) INORDER :: int where "INORDER \<equiv> 1"

definition BADARG :: "bytes \<Rightarrow> int" where
  "BADARG options = (if options \<noteq> [] \<and> hd options = 58 then 58 else 63)"

section \<open>Permutation\<close>

text \<open>A division by zero is undefined.\<close>

function gcd_loop :: "nat \<Rightarrow> nat \<Rightarrow> nat res" where
  "gcd_loop a b = (if b = 0 then Inl UB else let c = a mod b in if c = 0 then Inr b else gcd_loop b c)"
  by pat_completeness auto
termination
  by (relation "measure snd") auto

declare gcd_loop.simps [simp del]

definition swap_args :: "nat \<Rightarrow> nat \<Rightarrow> bytes list \<Rightarrow> bytes list res" where
  "swap_args p q argv = (if p < length argv \<and> q < length argv then Inr (argv[p := argv ! q, q := argv ! p]) else Inl UB)"

fun permute_cycle :: "nat \<Rightarrow> nat \<Rightarrow> nat \<Rightarrow> nat \<Rightarrow> nat \<Rightarrow> nat \<Rightarrow> bytes list \<Rightarrow> bytes list res" where
  "permute_cycle nonopt_end nnonopts nopts cstart pos 0 argv = Inr argv"
| "permute_cycle nonopt_end nnonopts nopts cstart pos (Suc j) argv =
     (let pos = (if pos \<ge> nonopt_end then pos - nnonopts else pos + nopts) in
      bnd (swap_args pos cstart argv) (permute_cycle nonopt_end nnonopts nopts cstart pos j))"

fun permute_cycles :: "nat \<Rightarrow> nat \<Rightarrow> nat \<Rightarrow> nat \<Rightarrow> nat \<Rightarrow> nat \<Rightarrow> bytes list \<Rightarrow> bytes list res" where
  "permute_cycles nonopt_end nnonopts nopts cyclelen i 0 argv = Inr argv"
| "permute_cycles nonopt_end nnonopts nopts cyclelen i (Suc k) argv =
     bnd (permute_cycle nonopt_end nnonopts nopts (nonopt_end + i) (nonopt_end + i) cyclelen argv)
       (permute_cycles nonopt_end nnonopts nopts cyclelen (Suc i) k)"

definition permute_args :: "nat \<Rightarrow> nat \<Rightarrow> nat \<Rightarrow> bytes list \<Rightarrow> bytes list res" where
  "permute_args nonopt_start nonopt_end opt_end argv =
     (let nnonopts = nonopt_end - nonopt_start; nopts = opt_end - nonopt_end in
      bnd (gcd_loop nnonopts nopts) (\<lambda>ncycle.
      let cyclelen = (opt_end - nonopt_start) div ncycle in
      permute_cycles nonopt_end nnonopts nopts cyclelen 0 ncycle argv))"

section \<open>Long options\<close>

definition identical_interpretation :: "long_option \<Rightarrow> long_option \<Rightarrow> bool" where
  "identical_interpretation x y \<longleftrightarrow> lo_has_arg x = lo_has_arg y \<and> lo_flag x = lo_flag y \<and> lo_val x = lo_val y"

text \<open>The loop over the table from index \<open>i\<close> on: the matching index and whether the abbreviation is ambiguous.\<close>

fun match_long :: "long_option list \<Rightarrow> bytes \<Rightarrow> bool \<Rightarrow> nat \<Rightarrow> long_option list \<Rightarrow> nat option \<Rightarrow> bool \<Rightarrow> nat option \<times> bool" where
  "match_long table name short_too i [] match ambiguous = (match, ambiguous)"
| "match_long table name short_too i (opt # opts) match ambiguous =
     (if take (length name) (lo_name opt) \<noteq> name then match_long table name short_too (Suc i) opts match ambiguous
      else if length (lo_name opt) = length name then (Some i, False)
      else if short_too \<and> length name = 1 then match_long table name short_too (Suc i) opts match ambiguous
      else case match of
             None \<Rightarrow> match_long table name short_too (Suc i) opts (Some i) ambiguous
           | Some m \<Rightarrow> match_long table name short_too (Suc i) opts match (ambiguous \<or> \<not> identical_interpretation opt (table ! m)))"

definition store_option :: "long_option \<Rightarrow> nat \<Rightarrow> bool \<Rightarrow> getopt_state \<Rightarrow> int \<times> getopt_state" where
  "store_option opt m has_idx s =
     (let s = (if has_idx then s\<lparr>go_idx := int m\<rparr> else s) in
      case lo_flag opt of None \<Rightarrow> (lo_val opt, s) | Some a \<Rightarrow> (0, s\<lparr>go_flags := (go_flags s)(a := lo_val opt)\<rparr>))"

definition parse_long_options ::
  "bytes \<Rightarrow> long_option list \<Rightarrow> bool \<Rightarrow> bool \<Rightarrow> getopt_state \<Rightarrow> (int \<times> getopt_state) res" where
  "parse_long_options options long_options has_idx short_too s =
     (let current_argv = go_place s;
          s = s\<lparr>go_optind := go_optind s + 1\<rparr>;
          name = takeWhile (\<lambda>b. b \<noteq> 61) current_argv;
          has_equal = (if 61 \<in> set current_argv then Some (drop (length name + 1) current_argv) else None);
          (match, ambiguous) = match_long long_options name short_too 0 long_options None False
      in
      if ambiguous then Inr (BADCH, s\<lparr>go_optopt := 0\<rparr>)
      else case match of
        None \<Rightarrow>
          if short_too then Inr (-1, s\<lparr>go_optind := go_optind s - 1\<rparr>) else Inr (BADCH, s\<lparr>go_optopt := 0\<rparr>)
      | Some m \<Rightarrow>
          let opt = long_options ! m; badopt = (if lo_flag opt = None then lo_val opt else 0) in
          if lo_has_arg opt = no_argument \<and> has_equal \<noteq> None then Inr (BADARG options, s\<lparr>go_optopt := badopt\<rparr>)
          else
            bnd (if lo_has_arg opt = required_argument \<or> lo_has_arg opt = optional_argument then
                   if has_equal \<noteq> None then Inr (s\<lparr>go_optarg := has_equal\<rparr>)
                   else if lo_has_arg opt = required_argument then
                     bnd (argv_at (go_argv s) (go_optind s)) (\<lambda>a. Inr (s\<lparr>go_optarg := a, go_optind := go_optind s + 1\<rparr>))
                   else Inr s
                 else Inr s) (\<lambda>s.
            if lo_has_arg opt = required_argument \<and> go_optarg s = None
            then Inr (BADARG options, s\<lparr>go_optopt := badopt, go_optind := go_optind s - 1\<rparr>)
            else Inr (store_option opt m has_idx s)))"

section \<open>The parser\<close>

text \<open>The flags: permute, all arguments in order, long options only.\<close>

record getopt_flags =
  fl_permute :: bool
  fl_allargs :: bool
  fl_longonly :: bool

text \<open>The permutation at the end of the options; \<^verbatim>\<open>optind\<close> is moved back to the first other argument.\<close>

definition permute_back :: "getopt_state \<Rightarrow> getopt_state res" where
  "permute_back s =
     (case (go_nonopt_start s, go_nonopt_end s) of
        (Some a, Some e) \<Rightarrow>
          bnd (permute_args a e (go_optind s) (go_argv s)) (\<lambda>argv.
            Inr (s\<lparr>go_argv := argv, go_optind := go_optind s - (e - a)\<rparr>))
      | _ \<Rightarrow> Inr s)"

text \<open>The end of the options: nothing is pending any more.\<close>

definition getopt_end :: "getopt_state \<Rightarrow> (int option \<times> getopt_state) res" where
  "getopt_end s =
     bnd (if go_nonopt_end s \<noteq> None then permute_back s else Inr s) (\<lambda>s.
       Inr (Some (-1), s\<lparr>go_place := [], go_place_start := False, go_nonopt_start := None, go_nonopt_end := None\<rparr>))"

text \<open>An argument that is no option: the ones collected so far are moved behind the options that followed them.\<close>

definition skip_argument :: "getopt_state \<Rightarrow> getopt_state res" where
  "skip_argument s =
     (case go_nonopt_start s of
        None \<Rightarrow> Inr (s\<lparr>go_nonopt_start := Some (go_optind s)\<rparr>)
      | Some a \<Rightarrow>
        (case go_nonopt_end s of None \<Rightarrow> Inr s
         | Some e \<Rightarrow>
           bnd (permute_args a e (go_optind s) (go_argv s)) (\<lambda>argv.
             Inr (s\<lparr>go_argv := argv, go_nonopt_start := Some (go_optind s - (e - a)), go_nonopt_end := None\<rparr>))))"

text \<open>An argument that starts with a dash.\<close>

definition open_argument :: "bytes \<Rightarrow> getopt_state \<Rightarrow> (int option \<times> getopt_state) res" where
  "open_argument arg s =
     (let s = (if go_nonopt_start s \<noteq> None \<and> go_nonopt_end s = None then s\<lparr>go_nonopt_end := Some (go_optind s)\<rparr> else s) in
      if tl arg = [45] then getopt_end (s\<lparr>go_optind := go_optind s + 1\<rparr>)
      else if tl arg = [] then Inr (None, s\<lparr>go_place := arg, go_place_start := True\<rparr>)
      else Inr (None, s\<lparr>go_place := tl arg, go_place_start := False\<rparr>))"

text \<open>The scanning pointer is moved to the next option. \<open>Some r\<close> is a return of the function.\<close>

function getopt_start :: "getopt_flags \<Rightarrow> bytes \<Rightarrow> nat \<Rightarrow> getopt_state \<Rightarrow> (int option \<times> getopt_state) res" where
  "getopt_start fl options nargc s =
     (if go_optreset s = 0 \<and> go_place s \<noteq> [] then Inr (None, s)
      else
        let s = s\<lparr>go_optreset := 0\<rparr> in
        if go_optind s \<ge> nargc then
          getopt_end (case (go_nonopt_end s, go_nonopt_start s) of (None, Some a) \<Rightarrow> s\<lparr>go_optind := a\<rparr> | _ \<Rightarrow> s)
        else
          bnd (argv_at (go_argv s) (go_optind s)) (\<lambda>arg.
          case arg of None \<Rightarrow> Inl UB
          | Some arg \<Rightarrow>
            if arg = [] \<or> hd arg \<noteq> 45 \<or> (tl arg = [] \<and> 45 \<notin> set options) then
              let s = s\<lparr>go_place := [], go_place_start := False\<rparr> in
              if fl_allargs fl then Inr (Some INORDER, s\<lparr>go_optarg := Some arg, go_optind := go_optind s + 1\<rparr>)
              else if \<not> fl_permute fl then Inr (Some (-1), s)
              else bnd (skip_argument s) (\<lambda>t. getopt_start fl options nargc (t\<lparr>go_place := [], go_optreset := 0, go_optind := go_optind s + 1\<rparr>))
            else open_argument arg s))"
  by pat_completeness auto
termination
  by (relation "measure (\<lambda>(fl, options, nargc, s). nargc - go_optind s)") auto

declare getopt_start.simps [simp del]

text \<open>What follows the option letter in the list of options.\<close>

definition after_letter :: "byte \<Rightarrow> bytes \<Rightarrow> bytes" where
  "after_letter c options = tl (dropWhile (\<lambda>b. b \<noteq> c) options)"

text \<open>The option letter \<^verbatim>\<open>W\<close> in front of a long option, in the same or in the next argument; \<open>rest\<close> is what follows the
  letter.\<close>

definition letter_W :: "bytes \<Rightarrow> long_option list \<Rightarrow> bool \<Rightarrow> nat \<Rightarrow> byte \<Rightarrow> bytes \<Rightarrow> getopt_state \<Rightarrow> (int \<times> getopt_state) res" where
  "letter_W options table has_idx nargc c rest s =
     (if rest = [] \<and> go_optind s + 1 \<ge> nargc
      then Inr (BADARG options, s\<lparr>go_optind := go_optind s + 1, go_optopt := char_int c\<rparr>)
      else
        bnd (if rest \<noteq> [] then Inr s
             else bnd (argv_at (go_argv s) (go_optind s + 1)) (\<lambda>a.
               case a of None \<Rightarrow> Inl UB | Some a \<Rightarrow> Inr (s\<lparr>go_optind := go_optind s + 1, go_place := a\<rparr>))) (\<lambda>s.
        bnd (parse_long_options options table has_idx False s) (\<lambda>(r, s). Inr (r, s\<lparr>go_place := []\<rparr>))))"

text \<open>An option letter, with its argument where it takes one; \<open>oli\<close> follows the letter in the list of options.\<close>

definition letter_argument :: "bytes \<Rightarrow> nat \<Rightarrow> byte \<Rightarrow> bytes \<Rightarrow> bytes \<Rightarrow> getopt_state \<Rightarrow> (int \<times> getopt_state) res" where
  "letter_argument options nargc c oli rest s =
     (if oli = [] \<or> hd oli \<noteq> 58 then
        Inr (char_int c, s\<lparr>go_optind := (if rest = [] then go_optind s + 1 else go_optind s)\<rparr>)
      else if rest \<noteq> [] then
        Inr (char_int c, s\<lparr>go_optarg := Some rest, go_place := [], go_optind := go_optind s + 1\<rparr>)
      else if tl oli = [] \<or> hd (tl oli) \<noteq> 58 then
        if go_optind s + 1 \<ge> nargc
        then Inr (BADARG options, s\<lparr>go_optarg := None, go_optind := go_optind s + 1, go_optopt := char_int c\<rparr>)
        else
          bnd (argv_at (go_argv s) (go_optind s + 1)) (\<lambda>a.
            Inr (char_int c, s\<lparr>go_optarg := a, go_place := [], go_optind := go_optind s + 2\<rparr>))
      else Inr (char_int c, s\<lparr>go_optarg := None, go_place := [], go_optind := go_optind s + 1\<rparr>))"

text \<open>The option letter at \<^verbatim>\<open>place\<close>.\<close>

definition getopt_letter ::
  "bytes \<Rightarrow> long_option list option \<Rightarrow> bool \<Rightarrow> nat \<Rightarrow> getopt_state \<Rightarrow> (int \<times> getopt_state) res" where
  "getopt_letter options long_options has_idx nargc s =
     (case go_place s of [] \<Rightarrow> Inl UB
      | c # rest \<Rightarrow>
        let s = s\<lparr>go_place := rest, go_place_start := False\<rparr>; oli = after_letter c options in
        if c = 58 \<or> (c = 45 \<and> rest \<noteq> []) \<or> c \<notin> set options then
          if c = 45 \<and> rest = [] then Inr (-1, s)
          else Inr (BADCH, s\<lparr>go_optind := (if rest = [] then go_optind s + 1 else go_optind s), go_optopt := char_int c\<rparr>)
        else if long_options \<noteq> None \<and> c = 87 \<and> oli \<noteq> [] \<and> hd oli = 59
        then letter_W options (the long_options) has_idx nargc c rest s
        else letter_argument options nargc c oli rest s)"

text \<open>The option at \<^verbatim>\<open>place\<close>: a long one first, where there are any.\<close>

definition getopt_option ::
  "getopt_flags \<Rightarrow> bytes \<Rightarrow> long_option list option \<Rightarrow> bool \<Rightarrow> nat \<Rightarrow> getopt_state \<Rightarrow> (int \<times> getopt_state) res" where
  "getopt_option fl options long_options has_idx nargc s =
     (let dash = (go_place s \<noteq> [] \<and> hd (go_place s) = 45) in
      case long_options of
        None \<Rightarrow> getopt_letter options long_options has_idx nargc s
      | Some table \<Rightarrow>
        if \<not> go_place_start s \<and> (dash \<or> fl_longonly fl) then
          let short_too = (\<not> dash \<and> hd (go_place s) \<noteq> 58 \<and> hd (go_place s) \<in> set options);
              s = (if dash then s\<lparr>go_place := tl (go_place s)\<rparr> else s)
          in bnd (parse_long_options options table has_idx short_too s) (\<lambda>(r, s).
            if r \<noteq> -1 then Inr (r, s\<lparr>go_place := [], go_place_start := False\<rparr>)
            else getopt_letter options long_options has_idx nargc s)
        else getopt_letter options long_options has_idx nargc s)"

text \<open>What is set up before the scan; \<open>posix\<close> tells whether the environment variable \<^verbatim>\<open>POSIXLY_CORRECT\<close> is set.\<close>

definition getopt_prepare :: "bool \<Rightarrow> bytes \<Rightarrow> getopt_flags \<Rightarrow> getopt_state \<Rightarrow> getopt_flags \<times> bytes \<times> getopt_state" where
  "getopt_prepare posix options fl s =
     (let s = (if go_optind s = 0 then s\<lparr>go_optind := 1, go_optreset := 1\<rparr> else s);
          s = (if go_posixly_correct s = -1 \<or> go_optreset s \<noteq> 0 then s\<lparr>go_posixly_correct := (if posix then 1 else 0)\<rparr> else s);
          minus = (options \<noteq> [] \<and> hd options = 45); plus = (options \<noteq> [] \<and> hd options = 43);
          fl = (if minus then fl\<lparr>fl_allargs := True\<rparr> else if go_posixly_correct s \<noteq> 0 \<or> plus then fl\<lparr>fl_permute := False\<rparr> else fl);
          options = (if minus \<or> plus then tl options else options);
          s = s\<lparr>go_optarg := None\<rparr>;
          s = (if go_optreset s \<noteq> 0 then s\<lparr>go_nonopt_start := None, go_nonopt_end := None\<rparr> else s)
      in (fl, options, s))"

definition getopt_internal ::
  "bool \<Rightarrow> nat \<Rightarrow> bytes option \<Rightarrow> long_option list option \<Rightarrow> bool \<Rightarrow> getopt_flags \<Rightarrow> getopt_state \<Rightarrow> (int \<times> getopt_state) res" where
  "getopt_internal posix nargc options long_options has_idx fl s =
     (case options of None \<Rightarrow> Inr (-1, s)
      | Some options \<Rightarrow>
        let (fl, options, s) = getopt_prepare posix options fl s in
        bnd (getopt_start fl options nargc s) (\<lambda>(r, s).
          case r of Some r \<Rightarrow> Inr (r, s) | None \<Rightarrow> getopt_option fl options long_options has_idx nargc s))"

definition getopt :: "bool \<Rightarrow> nat \<Rightarrow> bytes option \<Rightarrow> getopt_state \<Rightarrow> (int \<times> getopt_state) res" where
  "getopt posix nargc options s =
     getopt_internal posix nargc options None False \<lparr>fl_permute = False, fl_allargs = False, fl_longonly = False\<rparr> s"

definition getopt_long ::
  "bool \<Rightarrow> nat \<Rightarrow> bytes option \<Rightarrow> long_option list option \<Rightarrow> bool \<Rightarrow> getopt_state \<Rightarrow> (int \<times> getopt_state) res" where
  "getopt_long posix nargc options long_options has_idx s =
     getopt_internal posix nargc options long_options has_idx \<lparr>fl_permute = True, fl_allargs = False, fl_longonly = False\<rparr> s"

definition getopt_long_only ::
  "bool \<Rightarrow> nat \<Rightarrow> bytes option \<Rightarrow> long_option list option \<Rightarrow> bool \<Rightarrow> getopt_state \<Rightarrow> (int \<times> getopt_state) res" where
  "getopt_long_only posix nargc options long_options has_idx s =
     getopt_internal posix nargc options long_options has_idx \<lparr>fl_permute = True, fl_allargs = False, fl_longonly = True\<rparr> s"

section \<open>The permutation exchanges two blocks\<close>

lemma gcd_loop_gcd:
  assumes "0 < b"
  shows "gcd_loop a b = Inr (gcd a b)"
  using assms
proof (induction a b rule: gcd_loop.induct)
  case (1 a b)
  show ?case
  proof (cases "a mod b = 0")
    case True
    then have "gcd a b = b" by (simp add: mod_eq_0_iff_dvd gcd_proj2_iff)
    with True 1 show ?thesis by (subst gcd_loop.simps) (simp add: Let_def)
  next
    case False
    with 1 have "gcd_loop b (a mod b) = Inr (gcd b (a mod b))" by simp
    with False 1(2) show ?thesis by (subst gcd_loop.simps) (simp add: Let_def gcd_red_nat [of a b] gcd.commute)
  qed
qed

text \<open>The \<open>k\<close>-th place of a cycle: \<open>m\<close> arguments are behind the first place \<open>a\<close>, then \<open>n\<close> others.\<close>

definition orbit :: "nat \<Rightarrow> nat \<Rightarrow> nat \<Rightarrow> nat \<Rightarrow> nat \<Rightarrow> nat" where
  "orbit a m n c k = a + (c + k * n) mod (m + n)"

lemma orbit_less: "0 < n \<Longrightarrow> orbit a m n c k < a + m + n"
  by (simp add: orbit_def add.assoc)

lemma orbit_Suc:
  assumes "0 < n"
  shows "(if a + m \<le> orbit a m n c k then orbit a m n c k - m else orbit a m n c k + n) = orbit a m n c (Suc k)"
proof -
  define q where "q = (c + k * n) mod (m + n)"
  have q: "q < m + n" using assms by (simp add: q_def)
  have "(c + Suc k * n) mod (m + n) = (q + n) mod (m + n)"
    unfolding q_def mod_add_left_eq by (simp add: ac_simps)
  moreover have "(q + n) mod (m + n) = (if m \<le> q then q - m else q + n)"
    using q by (auto simp: mod_if)
  ultimately show ?thesis unfolding orbit_def q_def [symmetric] by auto
qed

lemma period:
  fixes m n :: nat
  assumes "0 < n"
  shows "((m + n) div gcd m n) * n = (n div gcd m n) * (m + n)" and "0 < (m + n) div gcd m n"
proof -
  have d: "gcd m n dvd m + n" "gcd m n dvd n" by simp_all
  show "((m + n) div gcd m n) * n = (n div gcd m n) * (m + n)"
    using d by (metis div_mult_swap mult.commute)
  show "0 < (m + n) div gcd m n"
    using assms d by (metis add_gr_0 dvd_div_eq_0_iff gr_zeroI neq0_conv)
qed

lemma orbit_eq_iff_mod:
  assumes "orbit a m n c j = orbit a m n c k" and "j \<le> k" and "0 < n"
  shows "(m + n) div gcd m n dvd k - j"
proof -
  let ?g = "gcd m n"
  have "(c + k * n) mod (m + n) = (c + j * n) mod (m + n)"
    using assms by (simp add: orbit_def)
  then have "m + n dvd (c + k * n) - (c + j * n)" by (rule mod_eq_dvd_iff_nat [THEN iffD1, rotated]) (use assms in simp)
  then have "m + n dvd (k - j) * n" by (simp add: diff_mult_distrib)
  then have *: "(m + n) div ?g * ?g dvd (k - j) * (n div ?g) * ?g"
    by (metis dvd_add dvd_div_mult_self gcd_dvd1 gcd_dvd2 mult.assoc)
  have "?g \<noteq> 0" using assms by simp
  then have "(m + n) div ?g dvd (k - j) * (n div ?g)" using * dvd_times_right_cancel_iff by blast
  moreover have "coprime ((m + n) div ?g) (n div ?g)"
  proof -
    have "gcd (m + n) n = ?g" using gcd_add1 [of m n] by simp
    then show ?thesis using div_gcd_coprime [of "m + n" n] assms by simp
  qed
  ultimately show ?thesis by (simp add: coprime_dvd_mult_left_iff)
qed

lemma orbit_inj:
  assumes "orbit a m n c j = orbit a m n c k" and "j < (m + n) div gcd m n" and "k < (m + n) div gcd m n" and "0 < n"
  shows "j = k"
proof (rule ccontr)
  assume "j \<noteq> k"
  then consider "j < k" | "k < j" by linarith
  then show False
  proof cases
    case 1
    with orbit_eq_iff_mod [OF assms(1) _ assms(4)] have "(m + n) div gcd m n dvd k - j" by simp
    with 1 assms show False by (meson dvd_imp_le less_imp_diff_less not_le zero_less_diff)
  next
    case 2
    with orbit_eq_iff_mod [OF assms(1) [symmetric] _ assms(4)] have "(m + n) div gcd m n dvd j - k" by simp
    with 2 assms show False by (meson dvd_imp_le less_imp_diff_less not_le zero_less_diff)
  qed
qed

lemma orbit_period: "0 < n \<Longrightarrow> orbit a m n c ((m + n) div gcd m n) = orbit a m n c 0"
  unfolding orbit_def period(1) by simp

lemma orbit_covers:
  assumes "q < m + n" and "c < m + n" and "q mod gcd m n = c mod gcd m n" and "0 < n"
  obtains k where "k < (m + n) div gcd m n" and "a + q = orbit a m n c k"
proof -
  let ?g = "gcd m n" and ?N = "m + n" and ?L = "(m + n) div gcd m n"
  obtain x y where xy: "n * x = ?N * y + gcd n ?N" using bezout_nat [of n ?N] assms(4) by blast
  have g: "gcd n ?N = ?g" using gcd_add1 [of m n] by (simp add: gcd.commute)
  have "(q + ?N) mod ?g = c mod ?g"
    using assms(3) by (metis dvd_add gcd_dvd1 gcd_dvd2 mod_add_self2 mod_add_right_eq dvd_eq_mod_eq_0 add_0_right)
  then have "?g dvd (q + ?N) - c" by (rule mod_eq_dvd_iff_nat [THEN iffD1, rotated]) (use assms in simp)
  then obtain t where t: "q + ?N - c = ?g * t" by (rule dvdE)
  define k where "k = x * t"
  have "c + k * n = q + ?N + ?N * (y * t)"
  proof -
    have "k * n = (?N * y + ?g) * t" unfolding k_def using xy g by (simp add: ac_simps)
    also have "\<dots> = ?N * (y * t) + (q + ?N - c)" unfolding t by (simp only: add_mult_distrib mult.assoc)
    finally show ?thesis using assms by simp
  qed
  then have k: "(c + k * n) mod ?N = q" using assms(1) by simp
  have "k * n = (k mod ?L) * n + (k div ?L) * (?L * n)"
    by (metis add.commute distrib_right div_mult_mod_eq mult.assoc)
  then have "c + k * n = c + (k mod ?L) * n + ?N * (k div ?L * (n div ?g))"
    using period(1) [OF assms(4), of m] by (simp add: ac_simps)
  then have "(c + k mod ?L * n) mod ?N = (c + k * n) mod ?N" by (metis mod_mult_self2)
  then have "a + q = orbit a m n c (k mod ?L)" using k by (simp add: orbit_def)
  moreover have "k mod ?L < ?L" using period(2) [OF assms(4)] by simp
  ultimately show thesis by (rule that [rotated])
qed

text \<open>What \<open>k\<close> rounds of a cycle have done to the arguments \<open>B\<close>.\<close>

definition cycled :: "(nat \<Rightarrow> nat) \<Rightarrow> nat \<Rightarrow> bytes list \<Rightarrow> bytes list \<Rightarrow> bool" where
  "cycled p k B A \<longleftrightarrow> length A = length B \<and> A ! p 0 = B ! p k \<and> (\<forall>j<k. A ! p (Suc j) = B ! p j) \<and>
     (\<forall>q<length B. (\<forall>j\<le>k. q \<noteq> p j) \<longrightarrow> A ! q = B ! q)"

lemma cycled_0: "cycled p 0 B B"
  by (simp add: cycled_def)

lemma cycled_Suc:
  assumes "cycled p k B A" and "\<And>i j. p i = p j \<Longrightarrow> i \<le> Suc k \<Longrightarrow> j \<le> Suc k \<Longrightarrow> i = j" and "\<And>j. p j < length B"
  shows "cycled p (Suc k) B (A[p (Suc k) := A ! p 0, p 0 := A ! p (Suc k)])" (is "cycled _ _ _ ?C")
proof -
  have A: "length A = length B" "A ! p 0 = B ! p k" "\<And>j. j < k \<Longrightarrow> A ! p (Suc j) = B ! p j"
    "\<And>q. q < length B \<Longrightarrow> \<forall>j\<le>k. q \<noteq> p j \<Longrightarrow> A ! q = B ! q"
    using assms(1) by (auto simp: cycled_def)
  have 1: "?C ! p 0 = B ! p (Suc k)"
  proof -
    have "\<forall>j\<le>k. p (Suc k) \<noteq> p j" using assms(2) by fastforce
    then show ?thesis using A(1) A(4) [OF assms(3)] assms(3) by simp
  qed
  have 2: "?C ! p (Suc j) = B ! p j" if "j < Suc k" for j
  proof (cases "j = k")
    case True
    have "p (Suc k) \<noteq> p 0" using assms(2) [of "Suc k" 0] by auto
    with True show ?thesis using A assms(3) by simp
  next
    case False
    with that have "j < k" by simp
    moreover have "p (Suc j) \<noteq> p (Suc k)" "p (Suc j) \<noteq> p 0"
      using assms(2) [of "Suc j" "Suc k"] assms(2) [of "Suc j" 0] \<open>j < k\<close> by auto
    ultimately show ?thesis using A(3) by simp
  qed
  have 3: "?C ! q = B ! q" if "q < length B" "\<forall>j\<le>Suc k. q \<noteq> p j" for q
    using A(4) [OF that(1)] that(2) by (metis le0 le_SucI le_refl nth_list_update_neq)
  show ?thesis using 1 2 3 A(1) by (simp add: cycled_def)
qed

lemma permute_cycle_run:
  assumes "0 < n" and L: "L = (m + n) div gcd m n" and "a + m + n \<le> length B" and "cycled (orbit a m n c) k B A" and "Suc (k + j) = L"
  shows "\<exists>A'. permute_cycle (a + m) m n (orbit a m n c 0) (orbit a m n c k) (Suc j) A = Inr A' \<and>
           cycled (orbit a m n c) (L - 1) B A'"
  using assms(4,5)
proof (induction j arbitrary: k A)
  case 0
  have len: "length A = length B" using 0 by (simp add: cycled_def)
  have "orbit a m n c (Suc k) = orbit a m n c 0" using orbit_period [OF assms(1), of a m c, folded L] 0 by simp
  moreover have "orbit a m n c 0 < length B" using orbit_less [OF assms(1), of a m c 0] assms(3) by simp
  ultimately show ?case using 0 len
    by (auto simp add: orbit_Suc [OF assms(1)] swap_args_def Let_def del: One_nat_def)
next
  case (Suc j)
  let ?p = "orbit a m n c"
  have b: "?p i < length B" for i using orbit_less [OF assms(1), of a m c i] assms(3) by simp
  have len: "length A = length B" using Suc by (simp add: cycled_def)
  have "cycled ?p (Suc k) B (A[?p (Suc k) := A ! ?p 0, ?p 0 := A ! ?p (Suc k)])"
  proof (rule cycled_Suc [OF Suc.prems(1) _ b])
    fix i i'
    assume eq: "?p i = ?p i'" and "i \<le> Suc k" "i' \<le> Suc k"
    with Suc.prems(2) have "i < L" "i' < L" by simp_all
    with eq show "i = i'" unfolding L by (rule orbit_inj) (rule assms(1))
  qed
  moreover have "Suc (Suc k + j) = L" using Suc.prems(2) by simp
  ultimately obtain A' where
    "permute_cycle (a + m) m n (?p 0) (?p (Suc k)) (Suc j) (A[?p (Suc k) := A ! ?p 0, ?p 0 := A ! ?p (Suc k)]) = Inr A'"
    "cycled ?p (L - 1) B A'"
    using Suc.IH by blast
  then show ?case using b len
    by (subst permute_cycle.simps) (simp add: orbit_Suc [OF assms(1)] swap_args_def Let_def list_update_swap del: permute_cycle.simps)
qed

lemma mod_class:
  fixes m n :: nat
  assumes "gcd m n dvd d"
  shows "(c + d) mod (m + n) mod gcd m n = c mod gcd m n"
proof -
  have "(c + d) mod (m + n) mod gcd m n = (c + d) mod gcd m n" by (simp add: mod_mod_cancel)
  also have "\<dots> = c mod gcd m n" using assms by (elim dvdE) simp
  finally show ?thesis .
qed

lemma permute_cycle_class:
  assumes "0 < n" and "a + m + n \<le> length B" and "i < gcd m n"
  shows "\<exists>A. permute_cycle (a + m) m n (a + m + i) (a + m + i) ((m + n) div gcd m n) B = Inr A \<and> length A = length B \<and>
           (\<forall>q<m + n. A ! (a + (q + n) mod (m + n)) =
              B ! (if q mod gcd m n = i then a + q else a + (q + n) mod (m + n))) \<and>
           (\<forall>q<length B. q < a \<or> a + m + n \<le> q \<longrightarrow> A ! q = B ! q)"
proof -
  let ?p = "orbit a m n (m + i)" and ?g = "gcd m n"
  define L where "L = (m + n) div ?g"
  have "?g \<le> n" using assms(1) by (simp add: gcd_le2_nat)
  with assms(3) have i: "m + i < m + n" by simp
  then have p0: "?p 0 = a + m + i" by (simp add: orbit_def)
  have L0: "0 < L" using period(2) [OF assms(1)] by (simp add: L_def)
  then obtain A where A: "permute_cycle (a + m) m n (?p 0) (?p 0) L B = Inr A" "cycled ?p (L - 1) B A"
    using permute_cycle_run [OF assms(1) L_def assms(2) cycled_0, of "L - 1"] by auto
  have cl: "(m + i) mod ?g = i" using assms(3) by (metis gcd_dvd1 mod_add_left_eq dvd_eq_mod_eq_0 add_0 mod_less)
  have step: "orbit a m n c (Suc k) = a + (q + n) mod (m + n)" if "a + q = orbit a m n c k" for q k c
  proof -
    have "q = (c + k * n) mod (m + n)" using that by (simp add: orbit_def)
    then have "(q + n) mod (m + n) = (c + k * n + n) mod (m + n)" by (simp add: mod_add_left_eq)
    then show ?thesis unfolding orbit_def by (simp add: ac_simps)
  qed
  have wrap: "A ! ?p (Suc k) = B ! ?p k" if "k < L" for k
  proof (cases "Suc k = L")
    case True
    then have "?p (Suc k) = ?p 0" using orbit_period [OF assms(1), of a m "m + i", folded L_def] by simp
    with A(2) True show ?thesis by (auto simp: cycled_def)
  next
    case False
    with that A(2) show ?thesis by (simp add: cycled_def)
  qed
  have mod_g: "((c + k * n) mod (m + n)) mod ?g = c mod ?g" for c k
    by (rule mod_class) simp
  have out: "A ! q = B ! q" if "q < length B" "\<forall>k<L. q \<noteq> ?p k" for q
    using A(2) that L0 by (simp add: cycled_def)
  have "A ! (a + (q + n) mod (m + n)) = B ! (if q mod ?g = i then a + q else a + (q + n) mod (m + n))" if q: "q < m + n" for q
  proof (cases "q mod ?g = i")
    case True
    then obtain k where k: "k < L" "a + q = ?p k"
      using orbit_covers [OF q i _ assms(1), of a, folded L_def] cl by metis
    show ?thesis using wrap [OF k(1)] step [OF k(2)] k(2) True by simp
  next
    case False
    have "a + (q + n) mod (m + n) \<noteq> ?p k" for k
    proof
      assume "a + (q + n) mod (m + n) = ?p k"
      then have "(q + n) mod (m + n) mod ?g = ((m + i) + k * n) mod (m + n) mod ?g" by (simp add: orbit_def)
      then show False using mod_g [of q 1] mod_g [of "m + i" k] cl False by simp
    qed
    moreover have "(q + n) mod (m + n) < m + n" using assms(1) by simp
    ultimately show ?thesis using out [of "a + (q + n) mod (m + n)"] assms(2) False by (simp del: mod_less_divisor)
  qed
  moreover have "A ! q = B ! q" if "q < length B" "q < a \<or> a + m + n \<le> q" for q
  proof -
    have "?p k < a + m + n" "a \<le> ?p k" for k using orbit_less [OF assms(1)] by (simp_all add: orbit_def)
    then have "\<forall>k<L. q \<noteq> ?p k" using that(2) by (metis leD)
    with that show ?thesis using out by blast
  qed
  moreover have "length A = length B" using A(2) by (simp add: cycled_def)
  ultimately show ?thesis using A(1) unfolding p0 L_def by blast
qed

text \<open>The block exchange that the permutation carries out, read place by place.\<close>

lemma permute_cycles_run:
  assumes "0 < n" and "a + m + n \<le> length B" and "i + k = gcd m n" and "length A = length B"
    and "\<And>q. q < m + n \<Longrightarrow> A ! (a + (q + n) mod (m + n)) = B ! (if q mod gcd m n < i then a + q else a + (q + n) mod (m + n))"
    and "\<And>q. q < length B \<Longrightarrow> q < a \<or> a + m + n \<le> q \<Longrightarrow> A ! q = B ! q"
  shows "\<exists>C. permute_cycles (a + m) m n ((m + n) div gcd m n) i k A = Inr C \<and> length C = length B \<and>
           (\<forall>q<m + n. C ! (a + (q + n) mod (m + n)) = B ! (a + q)) \<and>
           (\<forall>q<length B. q < a \<or> a + m + n \<le> q \<longrightarrow> C ! q = B ! q)"
  using assms(3-6)
proof (induction k arbitrary: i A)
  case 0
  have "q mod gcd m n < i" for q using 0(1) assms(1) by simp
  then show ?case using 0 by simp
next
  case (Suc k)
  have i: "i < gcd m n" using Suc.prems(1) by simp
  then obtain A' where A': "permute_cycle (a + m) m n (a + m + i) (a + m + i) ((m + n) div gcd m n) A = Inr A'"
    "length A' = length A"
    "\<forall>q<m + n. A' ! (a + (q + n) mod (m + n)) = A ! (if q mod gcd m n = i then a + q else a + (q + n) mod (m + n))"
    "\<forall>q<length A. q < a \<or> a + m + n \<le> q \<longrightarrow> A' ! q = A ! q"
    using permute_cycle_class [of n a m A i] assms(1,2) Suc.prems(2) by auto
  have pre: "\<exists>r<m + n. q = (r + n) mod (m + n) \<and> r mod gcd m n = q mod gcd m n" if "q < m + n" for q
  proof (intro exI conjI)
    have "((q + m) mod (m + n) + n) mod (m + n) = (q + (m + n)) mod (m + n)"
      unfolding mod_add_left_eq by (simp add: ac_simps)
    then show "q = ((q + m) mod (m + n) + n) mod (m + n)" using that by simp
    show "(q + m) mod (m + n) < m + n" using assms(1) by simp
    show "(q + m) mod (m + n) mod gcd m n = q mod gcd m n"
      by (rule mod_class) simp
  qed
  have "A' ! (a + (q + n) mod (m + n)) = B ! (if q mod gcd m n < Suc i then a + q else a + (q + n) mod (m + n))"
    if q: "q < m + n" for q
  proof (cases "q mod gcd m n = i")
    case True
    obtain r where r: "r < m + n" "q = (r + n) mod (m + n)" "r mod gcd m n = q mod gcd m n" using pre [OF q] by blast
    have "A ! (a + q) = B ! (a + q)" using Suc.prems(3) [OF r(1)] r(2,3) True by simp
    then show ?thesis using A'(3) q True by simp
  next
    case False
    then show ?thesis using A'(3) q Suc.prems(3) [OF q] by (simp add: less_Suc_eq)
  qed
  moreover have "A' ! q = B ! q" if "q < length B" "q < a \<or> a + m + n \<le> q" for q
    using A'(4) Suc.prems(2,4) that by metis
  moreover have "Suc i + k = gcd m n" "length A' = length B" using Suc.prems A'(2) by simp_all
  ultimately show ?case using Suc.IH [of "Suc i" A'] A'(1) by simp
qed

lemma block_nth:
  assumes "length a = i" and "length x = m" and "length y = n" and "q < m + n" and "0 < n"
  shows "(a @ y @ x @ b) ! (i + (q + n) mod (m + n)) = (a @ x @ y @ b) ! (i + q)"
proof (cases "q < m")
  case True
  then show ?thesis using assms by (simp add: nth_append)
next
  case False
  then have "(q + n) mod (m + n) = q - m" using assms(4,5) by (simp add: mod_if)
  moreover obtain r where "q = m + r" using False by (metis le_Suc_ex not_less)
  ultimately show ?thesis using assms by (simp add: nth_append)
qed

lemma permute_blocks:
  assumes "y \<noteq> []"
  shows "permute_args (length a) (length a + length x) (length a + length x + length y) (a @ x @ y @ b) = Inr (a @ y @ x @ b)"
proof -
  define i m n where "i = length a" and "m = length x" and "n = length y"
  let ?B = "a @ x @ y @ b"
  have n: "0 < n" using assms by (simp add: n_def)
  have "i + m + n \<le> length ?B" "0 + gcd m n = gcd m n" by (simp_all add: i_def m_def n_def)
  from permute_cycles_run [OF n this refl]
  obtain C where C: "permute_cycles (i + m) m n ((m + n) div gcd m n) 0 (gcd m n) ?B = Inr C" "length C = length ?B"
    "\<forall>q<m + n. C ! (i + (q + n) mod (m + n)) = ?B ! (i + q)"
    "\<forall>q<length ?B. q < i \<or> i + m + n \<le> q \<longrightarrow> C ! q = ?B ! q"
    by auto
  have "C = a @ y @ x @ b"
  proof (rule nth_equalityI)
    show "length C = length (a @ y @ x @ b)" using C(2) by simp
    fix q assume q: "q < length C"
    show "C ! q = (a @ y @ x @ b) ! q"
    proof (cases "q < i \<or> i + m + n \<le> q")
      case True
      then have "C ! q = ?B ! q" using C(4) q unfolding C(2) by blast
      also have "\<dots> = (a @ y @ x @ b) ! q"
        using True by (auto simp: nth_append i_def m_def n_def add.commute add.left_commute)
      finally show ?thesis .
    next
      case False
      define r where "r = (q - i + m) mod (m + n)"
      have "r < m + n" using n by (simp add: r_def)
      moreover have "(r + n) mod (m + n) = q - i"
      proof -
        have "(r + n) mod (m + n) = (q - i + (m + n)) mod (m + n)" unfolding r_def mod_add_left_eq by (simp add: ac_simps)
        moreover have "q - i < m + n" using False by linarith
        ultimately show ?thesis by simp
      qed
      ultimately have "C ! (i + (q - i)) = (a @ y @ x @ b) ! (i + (q - i))"
        using C(3) block_nth [OF i_def [symmetric] m_def [symmetric] n_def [symmetric] _ n, of r b] by metis
      then show ?thesis using False by simp
    qed
  qed
  then show ?thesis using C(1) n by (simp add: permute_args_def gcd_loop_gcd i_def m_def n_def)
qed

text \<open>C34: Where options follow other arguments, \<^verbatim>\<open>permute_args\<close> exchanges the two blocks: the options come first, the order within
  each of the blocks is kept, and the arguments around them stay.\<close>

theorem permute_args_exchanges:
  assumes "y \<noteq> []"
  shows "permute_args (length a) (length a + length x) (length a + length x + length y) (a @ x @ y @ b) = Inr (a @ y @ x @ b)"
  using assms by (rule permute_blocks)

end
