(* ===== verification/SS_WitnessRelay.thy ===== *)
theory SS_WitnessRelay
  imports SS_Demo SS_TcpErrors SS_UdpSession SS_Cache SS_Getopt
begin

text \<open>
  The properties of buffers, events, the two relays, the cache and the option parser applied to concrete inputs, with the
  libraries of \<^verbatim>\<open>SS_Demo\<close> and a libuv that accepts every call.
\<close>

section \<open>Buffers, events, cache, options, name resolution\<close>

theorem Buffer_collects_witness:
  "\<exists>b1 b2. Buffer_copy_all demo_heap (buf_of [9]) [[1, 2], [], [3]] = Inr b1 \<and> wf_buffer b1 \<and>
    contents b1 = contents (buf_of [9]) @ concat [[1, 2], [], [3]] \<and>
    Buffer_drop b1 (b_len (buf_of [9])) = Inr b2 \<and> wf_buffer b2 \<and> Buffer_duplicateDataToArray b2 = Inr (concat [[1, 2], [], [3]])"
  by (rule Buffer_collects) (simp_all add: heap_ok_def demo_heap_def)

text \<open>Listeners that note their calls and register themselves once more; the listener 2 erases the oldest waiting one-shot
  listener.\<close>

definition noting :: "nat \<Rightarrow> nat handler \<times> nat list \<Rightarrow> (nat handler \<times> nat list) res" where
  "noting l s = bnd (if l = 2 then handler_erase (Current 0 0) (fst s) else Inr (fst s)) (\<lambda>h. Inr (handler_once l h, snd s @ [l]))"

lemma noting_erases: "erasing fst noting (\<lambda>l. ({}, if l = 2 then {0} else {}))"
proof -
  have "cur[0 := (True, snd (cur ! 0))] = mark {0} cur" if "0 < length cur" for cur :: "(bool \<times> nat) list"
    using that by (intro nth_equalityI) (auto simp: mark_nth nth_list_update)
  then show ?thesis
    by (auto simp: erasing_def noting_def handler_erase_def erase_at_def handler_once_def bnd_Inr_iff split: if_splits)
qed

theorem emitter_publish_witness:
  "handler_publish fst (\<lambda>h s. (h, snd s)) noting (handler_once 4 (handler_once 3 (handler_on 2 (handler_on 1 new_handler))), []) =
    Inr (handler_once 4 (handler_once 1 (handler_once 2 (handler_on 2 (handler_on 1 new_handler)))), [2, 1, 4])"
  using emitter_publish [OF noting_erases, of "handler_once 4 (handler_once 3 (handler_on 2 (handler_on 1 new_handler)))" "[]"]
  by (simp add: noting_def handler_once_def handler_on_def new_handler_def handler_erase_def erase_at_def mark_def)



theorem permute_args_exchanges_witness:
  "permute_args (length [[1 :: byte]]) (length [[1 :: byte]] + length [[2], [3 :: byte]])
     (length [[1 :: byte]] + length [[2], [3 :: byte]] + length [[45, 97], [45, 98], [45, 99], [45, 100 :: byte]])
     ([[1]] @ [[2], [3]] @ [[45, 97], [45, 98], [45, 99], [45, 100]] @ [[4]]) =
   Inr ([[1]] @ [[45, 97], [45, 98], [45, 99], [45, 100]] @ [[2], [3]] @ [[4]])"
  by (rule permute_args_exchanges) simp




text \<open>A network in which every name has an IPv6 and an IPv4 address, and where only names are asked for.\<close>

definition demo_addr :: "int \<Rightarrow> sockaddr" where
  "demo_addr af = \<lparr>sa_family = af, sa_addr = [1], sa_port = [0, 80]\<rparr>"

definition demo_net :: net_env where
  "demo_net = \<lparr>net_ip4_addr = (\<lambda>_ _. (-22, demo_addr AF_INET)), net_ip6_addr = (\<lambda>_ _. (-22, demo_addr AF_INET6)),
     net_getaddrinfo = (\<lambda>_ _. Some [\<lparr>ai_family = AF_INET6, ai_addr = demo_addr AF_INET6\<rparr>, \<lparr>ai_family = AF_INET, ai_addr = demo_addr AF_INET\<rparr>]),
     net_inet_ntop = (\<lambda>_ a. take 16 a)\<rparr>"

theorem get_sock_addr_prefers_witness:
  "\<exists>af st'. ssr_get_sock_addr demo_net [97] 80 (demo_addr 0) 0 = Inr (af, st') \<and>
    (af = -1 \<longleftrightarrow> net_getaddrinfo demo_net [97] (sprintf_d 80) \<in> {None, Some []}) \<and>
    (\<forall>ais. net_getaddrinfo demo_net [97] (sprintf_d 80) = Some ais \<longrightarrow> ais \<noteq> [] \<longrightarrow>
      (\<exists>i<length ais.
        (let preferred = (\<lambda>rp. ai_family rp = (if (0 :: int) \<noteq> 0 then AF_INET6 else AF_INET)) in
         if \<exists>rp\<in>set ais. preferred rp then preferred (ais ! i) \<and> (\<forall>j<i. \<not> preferred (ais ! j)) else i = 0) \<and>
        (if ai_family (ais ! i) \<in> {AF_INET, AF_INET6} then af = ai_family (ais ! i) \<and> st' = ai_addr (ais ! i)
         else af = AF_INET \<and> st' = snd (net_ip6_addr demo_net [97] 80))))"
  by (rule get_sock_addr_prefers) (simp_all add: demo_net_def)

section \<open>The TCP relay\<close>

definition demo_uv :: uv_env where
  "demo_uv = \<lparr>uv_rc = (\<lambda>_. 0), uv_ip4_addr = (\<lambda>_ _. None)\<rparr>"

definition demo_relay :: relay where
  "demo_relay = \<lparr>rl_conns = Map.empty, rl_em = (\<lambda>_. new_emitter), rl_closing = (\<lambda>_. False), rl_next = 0, rl_calls = 0, rl_out = [],
     rl_world = demo_world, rl_cipher = aead_env (demo_cipher 3),
     rl_address = \<lparr>s5_type = SOCKS5_ADDRTYPE_INVALID, s5_addr = replicate 256 0, s5_port = 0\<rparr>, rl_remoteAddr = demo_addr AF_INET, rl_tx = 0, rl_rx = 0\<rparr>"

definition demo_endpoint :: endpoint where
  "demo_endpoint = Ipv4 [127, 0, 0, 1] 80"

definition demo_pieces :: "bytes list" where
  "demo_pieces = [[5], [1, 0, 1], [127, 0]]"

definition demo_last :: bytes where
  "demo_last = [0, 1, 0, 80, 71, 69, 84]"

lemma demo_accepting: "accepting demo_uv"
  by (simp add: accepting_def demo_uv_def)

lemma demo_relaying: "relaying (demo_cipher 3) demo_relay"
  by (simp add: relaying_def demo_relay_def wf_demo_world)

lemma demo_request:
  "wf_endpoint demo_endpoint" "[] \<notin> set (demo_pieces @ [demo_last])"
  "concat demo_pieces @ demo_last = [5, 1, 0] @ encode_address demo_endpoint @ [71, 69, 84]"
  "length (concat demo_pieces) < 3 + length (encode_address demo_endpoint)"
  by (simp_all add: demo_endpoint_def demo_pieces_def demo_last_def be16_def)

lemmas demo_tcp = demo_accepting demo_laws [of 0] wf_demo_cipher [of 3, simplified] demo_relaying

theorem socks5_request_connects_witness:
  "\<exists>s'. relay_run demo_uv (demo 0) ''127.0.0.1'' 1080 (ListenCb # reads (rl_next demo_relay) ([5, 1, 0] # demo_pieces @ [demo_last])) demo_relay = Inr s' \<and>
    relaying (demo_cipher 3) s' \<and>
    connecting (demo 0) demo_HM (demo_cipher 3) (randombytes_buf (demo 0) (w_draws (rl_world demo_relay)) (ci_key_len (demo_cipher 3)))
      (rl_next demo_relay) (Suc (rl_next demo_relay)) (encode_address demo_endpoint @ [71, 69, 84]) s' \<and>
    rl_out s' = rl_out demo_relay @ [UvAccept (rl_next demo_relay), UvReadStart (rl_next demo_relay),
      UvWrite (rl_next demo_relay) [5, 0], UvConnect (Suc (rl_next demo_relay)) (rl_remoteAddr demo_relay)] \<and>
    (\<exists>a. rl_address s' = store_endpoint demo_endpoint a) \<and> w_pp (rl_world s') = w_pp (rl_world demo_relay)"
  by (rule socks5_request_connects [OF demo_tcp _ _ demo_request]) simp_all

definition demo_salt :: "nat \<Rightarrow> bytes" where
  "demo_salt d = randombytes_buf (demo 0) d (ci_key_len (demo_cipher 3))"

abbreviation demo_run :: "uv_callback list \<Rightarrow> relay \<Rightarrow> relay res" where
  "demo_run \<equiv> relay_run demo_uv (demo 0) ''127.0.0.1'' 1080"

abbreviation demo_step :: "uv_callback \<Rightarrow> relay \<Rightarrow> relay res" where
  "demo_step \<equiv> relay_step demo_uv (demo 0) ''127.0.0.1'' 1080"

text \<open>A connection in each of the states behind the handshake: client 0, server handle 1.\<close>

lemma demo_connecting:
  obtains s where "relaying (demo_cipher 3) s" "connecting (demo 0) demo_HM (demo_cipher 3) (demo_salt 0) 0 1 (encode_address demo_endpoint @ [71, 69, 84]) s"
    "w_pp (rl_world s) = demo_pp"
proof -
  have "1 < length [5 :: byte, 1, 0]" "hd [5 :: byte, 1, 0] = 5" by simp_all
  from handshake_run [OF demo_tcp this demo_request, of "''127.0.0.1''" 1080]
  show thesis using that by (auto simp: demo_salt_def demo_relay_def demo_world_def)
qed

lemma demo_payload: "payload_ok (encode_address demo_endpoint @ [71, 69, 84])"
  by (simp add: payload_ok_def demo_endpoint_def be16_def)

lemma demo_flushing:
  obtains s d where "relaying (demo_cipher 3) s" "flushing (demo 0) demo_HM (demo_cipher 3) (demo_salt 0) 0 1 d s"
proof -
  obtain s where "relaying (demo_cipher 3) s"
    "connecting (demo 0) demo_HM (demo_cipher 3) (demo_salt 0) 0 1 (encode_address demo_endpoint @ [71, 69, 84]) s"
    by (rule demo_connecting)
  from connected_step [OF demo_accepting demo_laws this(1) demo_payload this(2), of "''127.0.0.1''" 1080]
  show thesis using that by metis
qed

lemma demo_streaming:
  obtains s d where "relaying (demo_cipher 3) s" "streaming (demo 0) demo_HM (demo_cipher 3) (demo_salt 0) 1 0 1 d s"
proof -
  obtain s d where "relaying (demo_cipher 3) s" "flushing (demo 0) demo_HM (demo_cipher 3) (demo_salt 0) 0 1 d s"
    by (rule demo_flushing)
  from written_step [OF this(2,1), of demo_uv "''127.0.0.1''" 1080]
  show thesis using that by metis
qed

theorem connection_torn_down_witness:
  "\<exists>s. linked 0 1 s \<and> demo_run [ReadCb 1 UV_EOF [], ReadCb 0 3 [1, 2, 3], CloseCb 1, CloseCb 0] s = Inr (torn_down 0 1 s)"
proof -
  obtain s d where "streaming (demo 0) demo_HM (demo_cipher 3) (demo_salt 0) 1 0 1 d s" by (rule demo_streaming)
  then have linked: "linked 0 1 s" by (rule streaming_linked)
  moreover have "demo_run (ReadCb 1 UV_EOF [] # [ReadCb 0 3 [1, 2, 3], CloseCb 1, CloseCb 0]) s = Inr (torn_down 0 1 s)"
    by (rule connection_torn_down [OF linked]) simp_all
  ultimately show ?thesis by blast
qed

theorem early_data_lost_witness:
  "\<exists>s1 new1 s' new. let c = rl_next demo_relay; r = Suc c in
    demo_run ((ListenCb # reads c ([5, 1, 0] # demo_pieces @ [demo_last])) @ [ConnectCb r 0]) demo_relay = Inr s1 \<and>
    rl_out s1 = rl_out demo_relay @ new1 \<and> written c new1 = [5, 0] @ socks5_reply \<and>
    demo_run (reads c [[8, 8], [9]] @ [WriteCb r 0] @ reads c [[1, 2], [3]]) s1 = Inr s' \<and>
    rl_out s' = rl_out demo_relay @ new \<and> written c new = [5, 0] @ socks5_reply \<and>
    (\<forall>frags cap. (\<forall>f\<in>set frags. wf_buffer f) \<longrightarrow> concat (map contents frags) = written r new \<longrightarrow>
      (\<exists>ctx es ctx2 w2. aead_ctx_init (demo 1) demo_world (demo_cipher 3) 0 = Inr (ctx, demo_world) \<and>
        receive_all (demo 1) demo_world ctx cap frags =
          Inr (es, encode_address demo_endpoint @ [71, 69, 84] @ concat [[1, 2], [3]], ctx2, w2) \<and> CRYPTO_ERROR \<notin> set es))"
  by (rule early_data_lost [OF demo_tcp _ _ demo_request _ demo_laws wf_demo_world demo_unseen])
    (simp_all add: payload_ok_def demo_endpoint_def be16_def)

theorem large_read_aborts_witness:
  "\<exists>s d. streaming (demo 0) demo_HM (demo_cipher 3) (demo_salt 0) 1 0 1 d s \<and>
    demo_step (ReadCb 0 (int (length (replicate 20000 (7 :: byte)))) (replicate 20000 7)) s = Inl ASSERT_FAILED"
proof -
  obtain s d where s: "relaying (demo_cipher 3) s" "streaming (demo 0) demo_HM (demo_cipher 3) (demo_salt 0) 1 0 1 d s"
    by (rule demo_streaming)
  moreover have "demo_step (ReadCb 0 (int (length (replicate 20000 (7 :: byte)))) (replicate 20000 7)) s = Inl ASSERT_FAILED"
    by (rule large_read_aborts [OF demo_laws s]) simp_all
  ultimately show ?thesis by blast
qed

theorem relay_upload_witness:
  "\<exists>s' new. let c = rl_next demo_relay; r = Suc c in
    demo_run ((ListenCb # reads c ([5, 1, 0] # demo_pieces @ [demo_last])) @ [ConnectCb r 0, WriteCb r 0] @ reads c [[1, 2], [3]]) demo_relay = Inr s' \<and>
    rl_out s' = rl_out demo_relay @ new \<and> written c new = [5, 0] @ socks5_reply \<and> awaits_server (demo 0) (demo_cipher 3) c r s' \<and>
    (\<forall>frags cap. (\<forall>f\<in>set frags. wf_buffer f) \<longrightarrow> concat (map contents frags) = written r new \<longrightarrow>
      (\<exists>ctx es ctx2 w2. aead_ctx_init (demo 1) demo_world (demo_cipher 3) 0 = Inr (ctx, demo_world) \<and>
        receive_all (demo 1) demo_world ctx cap frags =
          Inr (es, encode_address demo_endpoint @ [71, 69, 84] @ concat [[1, 2], [3]], ctx2, w2) \<and> CRYPTO_ERROR \<notin> set es))"
  by (rule relay_upload [OF demo_tcp _ _ demo_request _ demo_laws wf_demo_world demo_unseen])
    (simp_all add: payload_ok_def demo_endpoint_def be16_def)

theorem relay_download_witness:
  "\<exists>s. awaits_server (demo 0) (demo_cipher 3) 0 1 s \<and>
    (\<exists>ctx w1 sent ctx2 w2. aead_ctx_init (demo 1) demo_world (demo_cipher 3) 1 = Inr (ctx, w1) \<and>
      send_all (demo 1) w1 ctx 2048 [buf_of [1, 2], buf_of [3]] = Inr (sent, ctx2, w2) \<and>
      (\<forall>evs. [] \<notin> set evs \<longrightarrow> concat evs = sent \<longrightarrow>
        (\<exists>s' new. demo_run (reads 1 evs) s = Inr s' \<and> rl_out s' = rl_out s @ new \<and>
          written 0 new = concat (map contents [buf_of [1, 2], buf_of [3]]) \<and> (\<forall>k\<in>set new. \<exists>p. k = UvWrite 0 p) \<and>
          rl_rx s' = rl_rx s + of_nat (length sent))))"
proof -
  obtain s where s: "relaying (demo_cipher 3) s" "w_pp (rl_world s) = demo_pp"
    and conn: "connecting (demo 0) demo_HM (demo_cipher 3) (demo_salt 0) 0 1 (encode_address demo_endpoint @ [71, 69, 84]) s"
    by (rule demo_connecting)
  have aw: "awaits_server (demo 0) (demo_cipher 3) 0 1 s" using conn by (rule connecting_awaits)
  have unseen: "\<not> seen (rl_world s) salt" for salt
    using demo_unseen [of salt] s(2) by (simp add: seen_def demo_world_def)
  have ok: "\<forall>b\<in>set [buf_of [1, 2], buf_of [3]]. wf_buffer b \<and> payload_ok (contents b)" by (simp add: payload_ok_def)
  from relay_download [OF demo_accepting demo_laws demo_laws wf_demo_cipher s(1) aw wf_demo_world ok _ unseen, of 1 2048]
  show ?thesis using aw by fastforce
qed

section \<open>The UDP relay\<close>

definition demo_client :: uaddr where
  "demo_client = ([49], 4000)"

definition demo_uctx :: UDPConnectionContext where
  "demo_uctx = \<lparr>uc_srcAddr = demo_client, uc_remoteBuf = \<lparr>b_idx = 0, b_len = 0, b_cap = 64, b_data = replicate 64 0\<rparr>, uc_remote = 1, uc_timer = 2\<rparr>"

text \<open>A relay that knows one client, with socket 1 and timer 2; its server is handle 0.\<close>

definition demo_udp :: udp_relay where
  "demo_udp = \<lparr>ur_cache = [demo_client \<mapsto> demo_uctx], ur_server = Some 0, ur_listening = True, ur_localBuf = None,
     ur_remoteAddr = demo_addr AF_INET, ur_timeout = 60000, ur_packet_size = 1405, ur_buf_size = 2810,
     ur_em = (\<lambda>h. if h = 1 \<or> h = 2 then lasting demo_client else new_handler), ur_closing = (\<lambda>_. False), ur_next = 3, ur_calls = 0,
     ur_out = [], ur_world = demo_world, ur_cipher = aead_env (demo_cipher 3)\<rparr>"

lemma wf_demo_uctx: "wf_uctx demo_client demo_uctx demo_udp"
  by (simp add: wf_uctx_def demo_uctx_def demo_udp_def wf_buffer_def wf_block_def)

lemma wf_demo_udp: "wf_udp (demo_cipher 3) demo_udp"
proof -
  have "\<exists>a x. ur_cache demo_udp a = Some x \<and> (h = uc_remote x \<or> h = uc_timer x)" if "ur_em demo_udp h \<noteq> new_handler" for h
  proof (rule exI [of _ demo_client], rule exI [of _ demo_uctx])
    show "ur_cache demo_udp demo_client = Some demo_uctx \<and> (h = uc_remote demo_uctx \<or> h = uc_timer demo_uctx)"
      using that by (auto simp: demo_udp_def demo_uctx_def split: if_splits)
  qed
  moreover have "wf_uctx a x demo_udp" if "ur_cache demo_udp a = Some x" for a x
    using that wf_demo_uctx by (auto simp: demo_udp_def split: if_splits)
  moreover have "\<exists>h. ur_server demo_udp = Some h \<and> h < ur_next demo_udp \<and> ur_em demo_udp h = new_handler"
    by (simp add: demo_udp_def)
  moreover have "wf_world (ur_world demo_udp)" "ur_cipher demo_udp = aead_env (demo_cipher 3)"
    by (simp_all add: demo_udp_def wf_demo_world)
  ultimately show ?thesis using wf_demo_cipher [of 3] unfolding wf_udp_def by blast
qed

lemma demo_ntop: "ntop_ok demo_net"
  by (auto simp: ntop_ok_def demo_net_def)

theorem udp_relay_safe_witness:
  "\<exists>r s'. udp_reach demo_net demo_uv (demo 0) demo_udp [RemoteDatagram 1 [1, 2, 3] 2] r \<and> r = Inr s' \<and> wf_udp (demo_cipher 3) s'"
proof -
  let ?cb = "RemoteDatagram 1 [1, 2, 3] 2"
  have "valid_callback demo_udp ?cb" by (simp add: demo_udp_def demo_uctx_def)
  then have "\<exists>r. udp_reach demo_net demo_uv (demo 0) demo_udp [?cb] r"
    by (cases "udp_step demo_net demo_uv (demo 0) ?cb demo_udp") (blast intro: reach_end reach_step reach_fault)+
  then show ?thesis using udp_relay_safe [OF _ demo_accepting demo_laws demo_ntop wf_demo_udp] by blast
qed

definition demo_datagram :: bytes where
  "demo_datagram = [0, 0, 0] @ encode_address demo_endpoint @ [81, 82]"

theorem udp_request_witness:
  "\<exists>s' x new pkt. udp_step demo_net demo_uv (demo 0) (ServerDatagram ([50], 5000) (demo_datagram @ replicate 9 0) (length demo_datagram)) demo_udp = Inr s' \<and>
    wf_udp (demo_cipher 3) s' \<and> ur_cache s' = (ur_cache demo_udp)(([50], 5000) \<mapsto> x) \<and> uc_srcAddr x = ([50], 5000) \<and>
    ur_out s' = ur_out demo_udp @ new @ [UdpSend (uc_remote x) (ToServer (ur_remoteAddr demo_udp)) pkt] \<and> no_sends new \<and>
    (\<forall>b cap. wf_buffer b \<longrightarrow> contents b = pkt \<longrightarrow>
      (\<exists>b' w2. aead_decrypt_all (demo 1) demo_world b (demo_cipher 3) cap = Inr (CRYPTO_OK, b', w2) \<and>
        contents b' = encode_address demo_endpoint @ [81, 82]))"
  by (rule udp_request [OF demo_accepting demo_laws demo_laws demo_ntop wf_demo_udp _ demo_request(1) _ _ wf_demo_world demo_unseen])
    (simp_all add: demo_udp_def demo_datagram_def)

theorem udp_reply_witness:
  "\<exists>b1 w1. aead_encrypt_all (demo 1) demo_world (buf_of (encode_address demo_endpoint @ [83])) (demo_cipher 3) 2048 = Inr (CRYPTO_OK, b1, w1) \<and>
    (\<forall>tail. \<exists>s' x'. udp_step demo_net demo_uv (demo 0) (RemoteDatagram (uc_remote demo_uctx) (contents b1 @ tail) (b_len b1)) demo_udp = Inr s' \<and>
      wf_udp (demo_cipher 3) s' \<and> ur_cache s' = (ur_cache demo_udp)(demo_client \<mapsto> x') \<and> uc_remote x' = uc_remote demo_uctx \<and>
      ur_out s' = ur_out demo_udp @ [TimerAgain (uc_timer demo_uctx),
        UdpSend 0 (ToClient demo_client) ([0, 0, 0] @ encode_address demo_endpoint @ [83])])"
proof -
  have "ur_cache demo_udp demo_client = Some demo_uctx" "ur_server demo_udp = Some 0" "ur_world demo_udp = demo_world"
    by (simp_all add: demo_udp_def)
  then show ?thesis
    by (intro udp_reply [OF demo_laws demo_laws demo_ntop wf_demo_udp _ _ demo_request(1) _ _ wf_demo_world]) (simp_all add: demo_unseen)
qed

end
