(* ===== verification/SS_Main.thy ===== *)
theory SS_Main
  imports SS_Getopt SS_Net
begin

text \<open>
  The command line of \<^verbatim>\<open>src/ss_local.cpp\<close>: the profile of \<^verbatim>\<open>src/shadowsocks.h\<close> and the option loop of \<^verbatim>\<open>main\<close>, over
  \<^verbatim>\<open>getopt_long\<close> of \<^verbatim>\<open>src/win/getopt.c\<close>. The usage text and the messages are output only and omitted.
\<close>

section \<open>The profile\<close>

record profile_t =
  pf_remote_host :: "bytes option"
  pf_local_addr :: "bytes option"
  pf_method :: "bytes option"
  pf_password :: "bytes option"
  pf_remote_port :: int
  pf_local_port :: int
  pf_timeout :: int
  pf_plugin :: "bytes option"
  pf_plugin_opts :: "bytes option"
  pf_key :: "bytes option"
  pf_acl :: "bytes option"
  pf_fast_open :: int
  pf_mode :: int
  pf_mtu :: int
  pf_verbose :: int
  pf_ipv6first :: int

definition cstr :: "string \<Rightarrow> bytes" where
  "cstr = map of_char"

definition default_profile :: profile_t where
  "default_profile = \<lparr>pf_remote_host = Some (cstr ''127.0.0.1''), pf_local_addr = Some (cstr ''0.0.0.0''),
     pf_method = Some (cstr ''chacha20-ietf-poly1305''), pf_password = Some (cstr ''shadowsocksr-uvw''), pf_remote_port = 0,
     pf_local_port = 0, pf_timeout = 60000, pf_plugin = None, pf_plugin_opts = None, pf_key = None, pf_acl = None,
     pf_fast_open = 0, pf_mode = 0, pf_mtu = 1500, pf_verbose = 0, pf_ipv6first = 0\<rparr>"

section \<open>The options\<close>

abbreviation (input) GETOPT_VAL_HELP :: int where "GETOPT_VAL_HELP \<equiv> 257"
abbreviation (input) GETOPT_VAL_MTU :: int where "GETOPT_VAL_MTU \<equiv> 258"
abbreviation (input) GETOPT_VAL_PLUGIN :: int where "GETOPT_VAL_PLUGIN \<equiv> 259"
abbreviation (input) GETOPT_VAL_PLUGIN_OPTS :: int where "GETOPT_VAL_PLUGIN_OPTS \<equiv> 260"
abbreviation (input) GETOPT_VAL_PASSWORD :: int where "GETOPT_VAL_PASSWORD \<equiv> 261"
abbreviation (input) GETOPT_VAL_KEY :: int where "GETOPT_VAL_KEY \<equiv> 262"

definition long_opt :: "string \<Rightarrow> int \<Rightarrow> int \<Rightarrow> long_option" where
  "long_opt n a v = \<lparr>lo_name = cstr n, lo_has_arg = a, lo_flag = None, lo_val = v\<rparr>"

definition long_options :: "long_option list" where
  "long_options =
     [long_opt ''mtu'' required_argument GETOPT_VAL_MTU,
      long_opt ''plugin'' required_argument GETOPT_VAL_PLUGIN,
      long_opt ''plugin-opts'' required_argument GETOPT_VAL_PLUGIN_OPTS,
      long_opt ''password'' required_argument GETOPT_VAL_PASSWORD,
      long_opt ''key'' required_argument GETOPT_VAL_KEY,
      long_opt ''help'' no_argument GETOPT_VAL_HELP]"

definition short_options :: bytes where
  "short_options = cstr ''s:p:l:k:t:m:i:b:L::huvA6''"

text \<open>A number of an option. A value outside the range of \<^verbatim>\<open>int\<close> is undefined, for \<^verbatim>\<open>atoi\<close> and for the product
  of the time-out.\<close>

definition int_range :: "int \<Rightarrow> int res" where
  "int_range n = (if - (2 ^ 31) \<le> n \<and> n < 2 ^ 31 then Inr n else Inl UB)"

definition atoi_arg :: "bytes option \<Rightarrow> int res" where
  "atoi_arg a = (case a of None \<Rightarrow> Inl UB | Some a \<Rightarrow> int_range (atoi a))"

text \<open>How \<^verbatim>\<open>main\<close> goes on after an option: with the profile and \<^verbatim>\<open>opterr\<close>, or it exits.\<close>

datatype main_result = Parsed profile_t int | Exit int

definition main_switch :: "int \<Rightarrow> bytes option \<Rightarrow> profile_t \<Rightarrow> int \<Rightarrow> main_result res" where
  "main_switch c optarg p opterr =
     (if c = GETOPT_VAL_MTU then bnd (atoi_arg optarg) (\<lambda>n. Inr (Parsed (p\<lparr>pf_mtu := n\<rparr>) opterr))
      else if c = GETOPT_VAL_PLUGIN then Inr (Parsed (p\<lparr>pf_plugin := optarg\<rparr>) opterr)
      else if c = GETOPT_VAL_PLUGIN_OPTS then Inr (Parsed (p\<lparr>pf_plugin_opts := optarg\<rparr>) opterr)
      else if c = GETOPT_VAL_PASSWORD then Inr (Parsed (p\<lparr>pf_password := optarg\<rparr>) opterr)
      else if c = GETOPT_VAL_KEY then Inr (Parsed (p\<lparr>pf_key := optarg\<rparr>) opterr)
      else if c = 115 then Inr (Parsed (p\<lparr>pf_remote_host := optarg\<rparr>) opterr)
      else if c = 112 then bnd (atoi_arg optarg) (\<lambda>n. Inr (Parsed (p\<lparr>pf_remote_port := n\<rparr>) opterr))
      else if c = 108 then bnd (atoi_arg optarg) (\<lambda>n. Inr (Parsed (p\<lparr>pf_local_port := n\<rparr>) opterr))
      else if c = 107 then Inr (Parsed (p\<lparr>pf_password := optarg\<rparr>) opterr)
      else if c = 116 then bnd (atoi_arg optarg) (\<lambda>n. bnd (int_range (n * 1000)) (\<lambda>n. Inr (Parsed (p\<lparr>pf_timeout := n\<rparr>) opterr)))
      else if c = 109 then Inr (Parsed (p\<lparr>pf_method := optarg\<rparr>) opterr)
      else if c = 54 then Inr (Parsed (p\<lparr>pf_ipv6first := 1\<rparr>) opterr)
      else if c = 98 then Inr (Parsed (p\<lparr>pf_local_addr := optarg\<rparr>) opterr)
      else if c = 117 then Inr (Parsed (p\<lparr>pf_mode := 1\<rparr>) opterr)
      else if c = 118 then Inr (Parsed (p\<lparr>pf_verbose := 1\<rparr>) opterr)
      else if c = GETOPT_VAL_HELP \<or> c = 104 then Inr (Exit 0)
      else if c = 63 then Inr (Parsed p 1)
      else Inr (Parsed p opterr))"

section \<open>The parser makes progress\<close>

text \<open>What is left to parse: arguments, whether the current one has to be opened, its remaining characters.\<close>

definition pending :: "nat \<Rightarrow> getopt_state rel" where
  "pending nargc = measures [\<lambda>s. nargc - go_optind s,
     \<lambda>s. if (go_place s = [] \<or> go_optreset s \<noteq> 0) \<and> go_optind s < nargc then 1 else 0, \<lambda>s. length (go_place s)]"

lemma wf_pending: "wf (pending nargc)"
  by (simp add: pending_def)

lemma store_option_keeps:
  assumes "store_option opt m has_idx s = (r, s')"
  shows "go_optind s' = go_optind s \<and> go_place s' = go_place s \<and> go_optreset s' = go_optreset s"
  using assms by (auto simp: store_option_def Let_def split: if_splits option.splits)

lemma parse_long_options_progress:
  assumes "parse_long_options options table has_idx short_too s = Inr (r, s')"
  shows "go_optreset s' = go_optreset s \<and> go_place s' = go_place s \<and>
    (go_optind s < go_optind s' \<or> r = -1 \<and> short_too \<and> go_optind s' = go_optind s)"
  using assms unfolding parse_long_options_def Let_def
  by (auto simp: bnd_Inr_iff argv_at_def split: if_splits option.splits prod.splits dest!: store_option_keeps)

text \<open>An option was taken: the index went on, or the argument is not finished; what is left of it got shorter.\<close>

definition advanced :: "getopt_state \<Rightarrow> getopt_state \<Rightarrow> bool" where
  "advanced s s' \<longleftrightarrow> go_optreset s' = go_optreset s \<and> length (go_place s') < length (go_place s) \<and>
     (go_optind s < go_optind s' \<or> go_optind s' = go_optind s \<and> go_place s' \<noteq> [])"

lemma letter_W_progress:
  assumes "letter_W options table has_idx nargc c rest s = Inr (r, s')" and "go_place s = rest"
  shows "go_optreset s' = go_optreset s \<and> go_place s' = [] \<and> go_optind s < go_optind s'"
proof (cases "rest = [] \<and> nargc \<le> go_optind s + 1")
  case True
  then show ?thesis using assms by (auto simp: letter_W_def)
next
  case False
  then obtain t r' s1 where "parse_long_options options table has_idx False t = Inr (r', s1)" "s' = s1\<lparr>go_place := []\<rparr>"
    "go_optreset t = go_optreset s" "go_optind s \<le> go_optind t"
    using assms(1) by (auto simp: letter_W_def bnd_Inr_iff split: if_splits option.splits)
  then show ?thesis using parse_long_options_progress by fastforce
qed

lemma letter_argument_progress:
  assumes "letter_argument options nargc c oli rest s = Inr (r, s')" and "go_place s = rest"
  shows "go_optreset s' = go_optreset s \<and> length (go_place s') \<le> length rest \<and>
    (go_optind s < go_optind s' \<or> go_optind s' = go_optind s \<and> go_place s' \<noteq> [])"
  using assms by (auto simp: letter_argument_def bnd_Inr_iff split: if_splits)

lemma getopt_letter_progress:
  assumes "getopt_letter options table has_idx nargc s = Inr (r, s')" and "r \<noteq> -1"
  shows "advanced s s'"
proof (cases "go_place s")
  case Nil
  with assms(1) show ?thesis by (simp add: getopt_letter_def)
next
  case (Cons c rest)
  let ?s = "s\<lparr>go_place := rest, go_place_start := False\<rparr>"
  consider "s' = ?s\<lparr>go_optind := (if rest = [] then go_optind s + 1 else go_optind s), go_optopt := char_int c\<rparr>"
    | t where "letter_W options t has_idx nargc c rest ?s = Inr (r, s')"
    | oli where "letter_argument options nargc c oli rest ?s = Inr (r, s')"
    using assms Cons by (auto simp: getopt_letter_def Let_def split: if_splits)
  then show ?thesis
  proof cases
    case 1
    then show ?thesis using Cons by (auto simp: advanced_def)
  next
    case 2
    from letter_W_progress [OF 2] Cons show ?thesis by (simp add: advanced_def)
  next
    case 3
    from letter_argument_progress [OF 3] Cons show ?thesis by (auto simp: advanced_def)
  qed
qed

lemma getopt_option_progress:
  assumes "getopt_option flags options table has_idx nargc s = Inr (r, s')" and "r \<noteq> -1" and "go_place s \<noteq> []"
  shows "advanced s s'"
proof -
  consider "getopt_letter options table has_idx nargc s = Inr (r, s')"
    | t short_too s1 r1 s2 where "table = Some t" "parse_long_options options t has_idx short_too s1 = Inr (r1, s2)"
      "s1 = s \<and> \<not> short_too \<or> s1 = s \<or> s1 = s\<lparr>go_place := tl (go_place s)\<rparr> \<and> \<not> short_too"
      "r1 \<noteq> -1 \<and> r = r1 \<and> s' = s2\<lparr>go_place := [], go_place_start := False\<rparr> \<or> getopt_letter options table has_idx nargc s2 = Inr (r, s')"
    using assms(1) unfolding getopt_option_def Let_def
    by (auto simp: bnd_Inr_iff split: if_splits option.splits prod.splits)
  then show ?thesis
  proof cases
    case 1
    then show ?thesis using assms(2) by (rule getopt_letter_progress)
  next
    case 2
    note p = parse_long_options_progress [OF 2(2)]
    from 2(4) show ?thesis
    proof
      assume "r1 \<noteq> -1 \<and> r = r1 \<and> s' = s2\<lparr>go_place := [], go_place_start := False\<rparr>"
      with p 2(3) assms(3) show ?thesis by (auto simp: advanced_def)
    next
      assume "getopt_letter options table has_idx nargc s2 = Inr (r, s')"
      then have "advanced s2 s'" using assms(2) by (rule getopt_letter_progress)
      with p 2(3) show ?thesis by (auto simp: advanced_def)
    qed
  qed
qed

lemma getopt_end_result: "getopt_end s = Inr (r, s') \<Longrightarrow> r = Some (-1)"
  by (auto simp: getopt_end_def bnd_Inr_iff split: if_splits)

lemma open_argument_progress:
  assumes "open_argument arg s = Inr (r, s')" and "arg \<noteq> []"
  shows "r = Some (-1) \<or> r = None \<and> go_place s' \<noteq> [] \<and> go_optreset s' = go_optreset s \<and> go_optind s' = go_optind s"
  using assms by (auto simp: open_argument_def Let_def split: if_splits dest: getopt_end_result)

lemma getopt_start_progress:
  assumes "getopt_start flags options nargc s = Inr (r, s')"
  shows "r = Some (-1) \<or> go_optreset s' = 0 \<and> go_optind s \<le> go_optind s' \<and>
    (if r = None then go_place s' \<noteq> [] \<and> (s' = s \<or> (go_place s = [] \<or> go_optreset s \<noteq> 0) \<and> go_optind s < nargc)
     else go_optind s < go_optind s' \<and> go_optind s < nargc)"
  using assms
proof (induction "nargc - go_optind s" arbitrary: s rule: less_induct)
  case less
  show ?case
  proof (cases "go_optreset s = 0 \<and> go_place s \<noteq> [] \<or> nargc \<le> go_optind s")
    case True
    then show ?thesis using less.prems
      by (subst (asm) getopt_start.simps) (auto simp: Let_def split: if_splits dest: getopt_end_result)
  next
    case False
    then have next_arg: "go_place s = [] \<or> go_optreset s \<noteq> 0" "go_optind s < nargc" by auto
    with less.prems obtain arg where arg: "argv_at (go_argv s) (go_optind s) = Inr (Some arg)"
      by (subst (asm) getopt_start.simps) (auto simp: bnd_Inr_iff Let_def split: if_splits option.splits)
    let ?s = "s\<lparr>go_optreset := 0, go_place := [], go_place_start := False\<rparr>"
    consider "arg \<noteq> []" "open_argument arg (s\<lparr>go_optreset := 0\<rparr>) = Inr (r, s')" | "r = Some (-1)"
      | "r = Some 1" "s' = ?s\<lparr>go_optarg := Some arg, go_optind := go_optind s + 1\<rparr>"
      | t where "getopt_start flags options nargc (t\<lparr>go_place := [], go_optreset := 0, go_optind := go_optind s + 1\<rparr>) = Inr (r, s')"
      using less.prems next_arg arg
      by (subst (asm) getopt_start.simps) (auto simp: bnd_Inr_iff Let_def split: if_splits)
    then show ?thesis
    proof cases
      case 1
      then show ?thesis using open_argument_progress [OF 1(2,1)] next_arg by auto
    next
      case (4 t)
      have "nargc - go_optind (t\<lparr>go_place := [], go_optreset := 0, go_optind := go_optind s + 1\<rparr>) < nargc - go_optind s"
        using next_arg(2) by simp
      from less.hyps [OF this 4] next_arg show ?thesis by (auto split: if_splits)
    qed (use next_arg in auto)
  qed
qed

lemma getopt_prepare_keeps:
  "go_place (snd (snd (getopt_prepare posix options flags s))) = go_place s"
  "go_optind (snd (snd (getopt_prepare posix options flags s))) = go_optind s \<and>
    go_optreset (snd (snd (getopt_prepare posix options flags s))) = go_optreset s \<or>
   go_optind s = 0 \<and> go_optind (snd (snd (getopt_prepare posix options flags s))) = 1 \<and>
    go_optreset (snd (snd (getopt_prepare posix options flags s))) = 1"
  by (simp_all add: getopt_prepare_def Let_def)

text \<open>Every call that returns an option leaves less to parse.\<close>

lemma getopt_internal_progress:
  assumes "getopt_internal posix nargc (Some options) table has_idx flags s = Inr (r, s')" and "r \<noteq> -1"
  shows "(s', s) \<in> pending nargc"
proof -
  obtain flags' options' s1 where prep: "getopt_prepare posix options flags s = (flags', options', s1)"
    by (metis prod_cases3)
  have s1: "go_place s1 = go_place s"
    "go_optind s1 = go_optind s \<and> go_optreset s1 = go_optreset s \<or> go_optind s = 0 \<and> go_optind s1 = 1 \<and> go_optreset s1 = 1"
    using getopt_prepare_keeps [of posix options flags s] by (simp_all add: prep)
  obtain r1 s2 where start: "getopt_start flags' options' nargc s1 = Inr (r1, s2)"
    and body: "(case r1 of Some r \<Rightarrow> Inr (r, s2) | None \<Rightarrow> getopt_option flags' options' table has_idx nargc s2) = Inr (r, s')"
    using assms(1) by (auto simp: getopt_internal_def prep bnd_Inr_iff)
  then have opt: "r1 = Some r \<and> s' = s2 \<or> r1 = None \<and> getopt_option flags' options' table has_idx nargc s2 = Inr (r, s')"
    by (cases r1) auto
  have r1: "r1 \<noteq> Some (-1)" using opt assms(2) by auto
  note p = getopt_start_progress [OF start]
  show ?thesis
  proof (cases r1)
    case None
    then have "advanced s2 s'" using opt p assms(2) by (auto intro: getopt_option_progress)
    with p None s1 show ?thesis by (auto simp: pending_def advanced_def)
  next
    case (Some a)
    with p opt r1 s1 show ?thesis by (auto simp: pending_def)
  qed
qed

section \<open>The option loop\<close>

text \<open>The loop of \<^verbatim>\<open>main\<close>. It ends because every call of the parser leaves less to parse.\<close>

abbreviation main_getopt :: "bool \<Rightarrow> nat \<Rightarrow> getopt_state \<Rightarrow> (int \<times> getopt_state) res" where
  "main_getopt posix nargc \<equiv> getopt_long posix nargc (Some short_options) (Some long_options) True"

function main_options :: "bool \<Rightarrow> nat \<Rightarrow> getopt_state \<Rightarrow> profile_t \<Rightarrow> int \<Rightarrow> main_result res" where
  "main_options posix argc s p opterr =
     (case main_getopt posix argc s of
        Inl e \<Rightarrow> Inl e
      | Inr (c, s') \<Rightarrow>
        if c = -1 then Inr (Parsed p opterr)
        else
          (case main_switch c (go_optarg s') p opterr of
             Inl e \<Rightarrow> Inl e
           | Inr (Exit n) \<Rightarrow> Inr (Exit n)
           | Inr (Parsed p opterr) \<Rightarrow> main_options posix argc s' p opterr))"
  by pat_completeness auto
termination
  by (relation "measures [\<lambda>(_, n, s, _). n - go_optind s,
        \<lambda>(_, n, s, _). if (go_place s = [] \<or> go_optreset s \<noteq> 0) \<and> go_optind s < n then 1 else 0, \<lambda>(_, _, s, _). length (go_place s)]")
    (auto simp: getopt_long_def pending_def dest!: getopt_internal_progress)

declare main_options.simps [simp del]

text \<open>\<^verbatim>\<open>main\<close> up to the start of the server: \<open>Parsed p 0\<close> starts it with \<open>p\<close>. Both ports are mandatory.\<close>

definition ss_main :: "bool \<Rightarrow> bytes list \<Rightarrow> main_result res" where
  "ss_main posix argv =
     bnd (main_options posix (length argv) (getopt_init argv) default_profile 0) (\<lambda>r.
       case r of Exit n \<Rightarrow> Inr (Exit n)
       | Parsed p opterr \<Rightarrow>
         let opterr = (if pf_local_port p = 0 \<or> pf_remote_port p = 0 then 1 else opterr)
         in if opterr \<noteq> 0 then Inr (Exit 1) else Inr (Parsed p 0))"

end
