(* ===== verification/SS_GetoptRun.thy ===== *)
theory SS_GetoptRun
  imports SS_Main "HOL-Library.Multiset"
begin

text \<open>
  A whole run of the option parser: it ends on every argument vector, never reads or writes outside it, and only
  permutes it.
\<close>

section \<open>Invariant\<close>

text \<open>Skipped arguments lie behind one another: the other arguments, then the options that followed them.\<close>

definition scanning :: "nat \<Rightarrow> getopt_state \<Rightarrow> bool" where
  "scanning nargc s \<longleftrightarrow> length (go_argv s) = nargc \<and> go_optreset s = 0 \<and> 1 \<le> go_optind s \<and> go_optind s \<le> nargc \<and>
     (go_place s \<noteq> [] \<longrightarrow> go_optind s < nargc) \<and>
     (case (go_nonopt_start s, go_nonopt_end s) of
        (None, None) \<Rightarrow> True
      | (None, Some e) \<Rightarrow> False
      | (Some a, None) \<Rightarrow> a < go_optind s
      | (Some a, Some e) \<Rightarrow> a < e \<and> e \<le> go_optind s \<and> (go_place s = [] \<longrightarrow> e < go_optind s))"

lemma permute_args_ok:
  assumes "a < e" and "e < i" and "i \<le> length argv"
  shows "\<exists>argv'. permute_args a e i argv = Inr argv' \<and> mset argv' = mset argv"
proof -
  define p x y q where "p = take a argv" and "x = take (e - a) (drop a argv)" and "y = take (i - e) (drop e argv)" and "q = drop i argv"
  have "argv = p @ x @ y @ q"
    using assms unfolding p_def x_def y_def q_def
    by (metis append_assoc append_take_drop_id drop_drop le_add_diff_inverse2 less_imp_le_nat)
  moreover have "length p = a" "length p + length x = e" "length p + length x + length y = i" "y \<noteq> []"
    using assms by (simp_all add: p_def x_def y_def)
  ultimately show ?thesis
    using permute_blocks [of y p x q] by auto
qed

lemma getopt_end_ok:
  assumes "length (go_argv s) = nargc" and "go_optind s \<le> nargc"
    and "\<And>e. go_nonopt_end s = Some e \<Longrightarrow> \<exists>a. go_nonopt_start s = Some a \<and> a < e \<and> e < go_optind s"
  shows "\<exists>s'. getopt_end s = Inr (Some (-1), s') \<and> mset (go_argv s') = mset (go_argv s) \<and> go_optind s' \<le> nargc"
proof (cases "go_nonopt_end s")
  case None
  then show ?thesis using assms(2) by (simp add: getopt_end_def)
next
  case (Some e)
  then obtain a where a: "go_nonopt_start s = Some a" "a < e" "e < go_optind s" using assms(3) by blast
  moreover obtain argv' where "permute_args a e (go_optind s) (go_argv s) = Inr argv'" "mset argv' = mset (go_argv s)"
    using permute_args_ok [OF a(2,3)] assms(1,2) by blast
  ultimately show ?thesis using Some assms(2) by (simp add: getopt_end_def permute_back_def)
qed

lemma skip_argument_ok:
  assumes "scanning nargc s" and "go_place s = []" and "go_optind s < nargc"
  shows "\<exists>t. skip_argument s = Inr t \<and> mset (go_argv t) = mset (go_argv s) \<and>
    scanning nargc (t\<lparr>go_place := [], go_optreset := 0, go_optind := go_optind s + 1\<rparr>)"
proof (cases "go_nonopt_start s")
  case None
  then show ?thesis using assms by (auto simp: skip_argument_def scanning_def split: option.splits)
next
  case (Some a)
  show ?thesis
  proof (cases "go_nonopt_end s")
    case None
    then show ?thesis using assms Some by (auto simp: skip_argument_def scanning_def)
  next
    case e: (Some e)
    with Some assms have ae: "a < e" "e < go_optind s" "go_optind s \<le> length (go_argv s)" by (auto simp: scanning_def)
    obtain argv' where "permute_args a e (go_optind s) (go_argv s) = Inr argv'" "mset argv' = mset (go_argv s)"
      using permute_args_ok [OF ae] by blast
    moreover from this have "length argv' = length (go_argv s)" by (metis mset_eq_length)
    ultimately show ?thesis using Some e assms by (auto simp: skip_argument_def scanning_def)
  qed
qed

lemma open_argument_ok:
  assumes "scanning nargc s" and "go_place s = []" and "go_optind s < nargc" and "arg \<noteq> []"
  shows "\<exists>r s'. open_argument arg s = Inr (r, s') \<and> mset (go_argv s') = mset (go_argv s) \<and> go_optind s' \<le> nargc \<and>
    (r = Some (-1) \<or> r = None \<and> scanning nargc s' \<and> go_place s' \<noteq> [])"
proof (cases "tl arg = [45]")
  case True
  let ?s = "(if go_nonopt_start s \<noteq> None \<and> go_nonopt_end s = None then s\<lparr>go_nonopt_end := Some (go_optind s)\<rparr> else s)\<lparr>go_optind := go_optind s + 1\<rparr>"
  have "\<exists>s'. getopt_end ?s = Inr (Some (-1), s') \<and> mset (go_argv s') = mset (go_argv ?s) \<and> go_optind s' \<le> nargc"
    by (rule getopt_end_ok) (use assms in \<open>auto simp: scanning_def split: option.splits\<close>)
  with True show ?thesis by (auto simp: open_argument_def Let_def split: if_splits)
next
  case False
  then show ?thesis using assms by (auto simp: open_argument_def Let_def scanning_def split: option.splits)
qed

lemma getopt_start_ok:
  assumes "scanning nargc s"
  shows "\<exists>r s'. getopt_start flags options nargc s = Inr (r, s') \<and> mset (go_argv s') = mset (go_argv s) \<and> go_optind s' \<le> nargc \<and>
    (r = Some (-1) \<or> scanning nargc s' \<and> (r = None \<longrightarrow> go_place s' \<noteq> []))"
  using assms
proof (induction "nargc - go_optind s" arbitrary: s rule: less_induct)
  case less
  have s: "s\<lparr>go_optreset := 0\<rparr> = s" using less.prems by (simp add: scanning_def)
  show ?case
  proof (cases "go_place s \<noteq> [] \<or> nargc \<le> go_optind s")
    case True
    let ?s = "case (go_nonopt_end s, go_nonopt_start s) of (None, Some a) \<Rightarrow> s\<lparr>go_optind := a\<rparr> | _ \<Rightarrow> s"
    have "\<exists>s'. getopt_end ?s = Inr (Some (-1), s') \<and> mset (go_argv s') = mset (go_argv ?s) \<and> go_optind s' \<le> nargc" if "go_place s = []"
      by (rule getopt_end_ok) (use that less.prems in \<open>auto simp: scanning_def split: option.splits\<close>)
    then show ?thesis using True less.prems
      by (subst getopt_start.simps) (auto simp: Let_def s scanning_def split: option.splits)
  next
    case False
    let ?s = "s\<lparr>go_place := [], go_place_start := False\<rparr>" and ?arg = "go_argv s ! go_optind s"
    have at: "argv_at (go_argv s) (go_optind s) = Inr (Some ?arg)"
      using False less.prems by (simp add: argv_at_def scanning_def)
    have sc: "scanning nargc ?s" using False less.prems by (auto simp: scanning_def split: option.splits)
    then obtain t where t: "skip_argument ?s = Inr t" "mset (go_argv t) = mset (go_argv s)"
      "scanning nargc (t\<lparr>go_place := [], go_optreset := 0, go_optind := go_optind s + 1\<rparr>)"
      using skip_argument_ok [OF sc] False by auto
    have "\<exists>r s'. getopt_start flags options nargc (t\<lparr>go_place := [], go_optreset := 0, go_optind := go_optind s + 1\<rparr>) = Inr (r, s') \<and>
        mset (go_argv s') = mset (go_argv s) \<and> go_optind s' \<le> nargc \<and> (r = Some (-1) \<or> scanning nargc s' \<and> (r = None \<longrightarrow> go_place s' \<noteq> []))"
    proof -
      have "nargc - go_optind (t\<lparr>go_place := [], go_optreset := 0, go_optind := go_optind s + 1\<rparr>) < nargc - go_optind s"
        using False by (simp, linarith)
      from less.hyps [OF this t(3)] show ?thesis using t(2) by simp
    qed
    moreover have "scanning nargc (?s\<lparr>go_optarg := Some ?arg, go_optind := go_optind s + 1\<rparr>)"
      using sc False by (auto simp: scanning_def split: option.splits)
    moreover have "go_optind s \<le> nargc" using False by simp
    ultimately show ?thesis
      using at False open_argument_ok [OF less.prems, of ?arg] t(1)
      by (subst getopt_start.simps) (auto simp: Let_def s)
  qed
qed

section \<open>The option at hand\<close>

lemma scanning_step:
  assumes "scanning nargc s" and "go_place s \<noteq> []" and "go_argv s' = go_argv s" and "go_optreset s' = go_optreset s"
    and "go_nonopt_start s' = go_nonopt_start s" and "go_nonopt_end s' = go_nonopt_end s"
    and "go_optind s' \<le> nargc" and "go_optind s < go_optind s' \<and> go_place s' = [] \<or> go_optind s' = go_optind s \<and> go_place s' \<noteq> []"
  shows "scanning nargc s'"
  using assms by (auto simp: scanning_def split: option.splits)

text \<open>What the parsers of one option leave as it was.\<close>

definition kept :: "getopt_state \<Rightarrow> getopt_state \<Rightarrow> bool" where
  "kept s s' \<longleftrightarrow> go_argv s' = go_argv s \<and> go_optreset s' = go_optreset s \<and> go_nonopt_start s' = go_nonopt_start s \<and>
     go_nonopt_end s' = go_nonopt_end s"

lemma store_option_ok: "\<exists>r s'. store_option opt m has_idx s = (r, s') \<and> kept s s' \<and> go_optind s' = go_optind s \<and> go_place s' = go_place s \<and>
    (lo_val opt \<noteq> -1 \<longrightarrow> r \<noteq> -1)"
  by (auto simp: store_option_def Let_def kept_def split: option.splits)

lemma match_long_bound:
  assumes "match_long table name st i opts m amb = (m', amb')" and "\<And>k. m = Some k \<Longrightarrow> k < i + length opts"
  shows "\<And>k. m' = Some k \<Longrightarrow> k < i + length opts"
  using assms
proof (induction opts arbitrary: i m amb)
  case (Cons opt opts)
  have "k < Suc i + length opts" if "match_long table name st (Suc i) opts m2 amb2 = (m', amb')" "m2 = m \<or> m2 = Some i" "m' = Some k" for m2 amb2 k
    using Cons.IH [OF that(3,1)] Cons.prems(3) that(2) by fastforce
  then show ?case using Cons.prems
    by (auto split: if_splits option.splits)
qed simp

text \<open>The value -1 of a long option would be taken for the end of the options.\<close>

definition proper_table :: "long_option list option \<Rightarrow> bool" where
  "proper_table table \<longleftrightarrow> (case table of None \<Rightarrow> True | Some t \<Rightarrow> \<forall>opt\<in>set t. lo_val opt \<noteq> -1)"

lemma parse_long_options_ok:
  assumes "length (go_argv s) = nargc" and "go_optind s < nargc" and "proper_table (Some table)"
  shows "\<exists>r s'. parse_long_options options table has_idx short_too s = Inr (r, s') \<and> kept s s' \<and> go_place s' = go_place s \<and>
    (r = -1 \<and> short_too \<and> go_optind s' = go_optind s \<or> r \<noteq> -1 \<and> go_optind s < go_optind s' \<and> go_optind s' \<le> nargc)"
proof -
  obtain m amb where ml: "match_long table (takeWhile (\<lambda>b. b \<noteq> 61) (go_place s)) short_too 0 table None False = (m, amb)"
    by fastforce
  show ?thesis
  proof (cases "amb \<or> m = None")
    case True
    then show ?thesis using assms(2) by (auto simp: parse_long_options_def Let_def ml kept_def)
  next
    case False
    then obtain k where k: "m = Some k" "k < length table" using match_long_bound [OF ml] by auto
    then have "lo_val (table ! k) \<noteq> -1" using assms(3) k(2) by (simp add: proper_table_def)
    then have st: "\<exists>r s'. store_option (table ! k) k has_idx t = (r, s') \<and> kept t s' \<and> go_optind s' = go_optind t \<and> go_place s' = go_place t \<and> r \<noteq> -1" for t
      using store_option_ok [of "table ! k" k has_idx t] by blast
    have bad: "BADARG options \<noteq> -1" by (simp add: BADARG_def)
    have at: "argv_at (go_argv s) (Suc (go_optind s)) = Inr (if Suc (go_optind s) < nargc then Some (go_argv s ! Suc (go_optind s)) else None)"
      using assms(1,2) by (auto simp: argv_at_def)
    show ?thesis
      using st [of "s\<lparr>go_optind := go_optind s + 1\<rparr>"] st [of "s\<lparr>go_optind := go_optind s + 1, go_optarg := Some (drop (length (takeWhile (\<lambda>b. b \<noteq> 61) (go_place s)) + 1) (go_place s))\<rparr>"]
        st [of "s\<lparr>go_optarg := Some (go_argv s ! Suc (go_optind s)), go_optind := go_optind s + 2\<rparr>"] bad assms(2) k False
      by (auto simp: parse_long_options_def Let_def ml at kept_def)
  qed
qed

lemma letter_W_effect:
  assumes "length (go_argv s) = nargc" and "go_optind s < nargc" and "proper_table (Some table)"
  shows "\<exists>r s'. letter_W options table has_idx nargc c rest s = Inr (r, s') \<and> kept s s' \<and> go_optind s' \<le> nargc \<and>
    go_optind s < go_optind s' \<and> (go_place s = rest \<longrightarrow> go_place s' = [])"
proof (cases "rest = [] \<and> nargc \<le> go_optind s + 1")
  case True
  then show ?thesis using assms(2) by (auto simp: letter_W_def kept_def)
next
  case False
  let ?s = "if rest \<noteq> [] then s else s\<lparr>go_optind := go_optind s + 1, go_place := go_argv s ! (go_optind s + 1)\<rparr>"
  have "length (go_argv ?s) = nargc" "go_optind ?s < nargc" using assms False by auto
  from parse_long_options_ok [OF this assms(3), of options has_idx False]
  obtain r s' where "parse_long_options options table has_idx False ?s = Inr (r, s')" "kept ?s s'"
    "go_optind ?s < go_optind s'" "go_optind s' \<le> nargc"
    by blast
  then show ?thesis using False assms
    by (intro exI [of _ r] exI [of _ "s'\<lparr>go_place := []\<rparr>"]) (auto simp: letter_W_def argv_at_def kept_def split: if_splits)
qed

lemma letter_argument_effect:
  assumes "length (go_argv s) = nargc" and "go_optind s < nargc" and "go_place s = rest"
  shows "\<exists>r s'. letter_argument options nargc c oli rest s = Inr (r, s') \<and> kept s s' \<and> go_optind s' \<le> nargc \<and>
    (go_optind s < go_optind s' \<and> go_place s' = [] \<or> go_optind s' = go_optind s \<and> go_place s' \<noteq> [])"
proof -
  have at: "argv_at (go_argv s) (Suc (go_optind s)) = Inr (Some (go_argv s ! Suc (go_optind s)))" if "Suc (go_optind s) < nargc"
    using that assms(1) by (simp add: argv_at_def)
  show ?thesis using assms(2,3) by (auto simp: letter_argument_def at kept_def)
qed

lemma getopt_letter_effect:
  assumes "length (go_argv s) = nargc" and "go_optind s < nargc" and "go_place s \<noteq> []" and "proper_table table"
  shows "\<exists>r s'. getopt_letter options table has_idx nargc s = Inr (r, s') \<and> kept s s' \<and> go_optind s' \<le> nargc \<and>
    (r \<noteq> -1 \<longrightarrow> go_optind s < go_optind s' \<and> go_place s' = [] \<or> go_optind s' = go_optind s \<and> go_place s' \<noteq> [])"
proof -
  obtain c rest where c: "go_place s = c # rest" using assms(3) by (cases "go_place s") auto
  let ?s = "s\<lparr>go_place := rest, go_place_start := False\<rparr>" and ?oli = "after_letter c options"
  have s: "length (go_argv ?s) = nargc" "go_optind ?s < nargc" "go_place ?s = rest" using assms(1,2) by simp_all
  let ?bad = "c = 58 \<or> (c = 45 \<and> rest \<noteq> []) \<or> c \<notin> set options"
    and ?W = "table \<noteq> None \<and> c = 87 \<and> ?oli \<noteq> [] \<and> hd ?oli = 59"
  consider ?bad | "\<not> ?bad" ?W | "\<not> ?bad" "\<not> ?W" by blast
  then show ?thesis
  proof cases
    case 1
    then show ?thesis using c assms(2) by (auto simp: getopt_letter_def Let_def kept_def)
  next
    case 2
    then have "getopt_letter options table has_idx nargc s = letter_W options (the table) has_idx nargc c rest ?s"
      unfolding getopt_letter_def Let_def c list.case if_not_P [OF 2(1)] if_P [OF 2(2)] by simp
    moreover from 2 obtain t where "table = Some t" by auto
    ultimately show ?thesis using letter_W_effect [OF s(1,2), of t options has_idx c rest] assms(4) by (auto simp: kept_def)
  next
    case 3
    then have "getopt_letter options table has_idx nargc s = letter_argument options nargc c ?oli rest ?s"
      unfolding getopt_letter_def Let_def c list.case by (simp only: if_False)
    then show ?thesis using letter_argument_effect [OF s, of options c ?oli] by (auto simp: kept_def)
  qed
qed

lemma getopt_letter_ok:
  assumes "scanning nargc s" and "go_place s \<noteq> []" and "proper_table table"
  shows "\<exists>r s'. getopt_letter options table has_idx nargc s = Inr (r, s') \<and> go_argv s' = go_argv s \<and> go_optind s' \<le> nargc \<and>
    (r \<noteq> -1 \<longrightarrow> scanning nargc s')"
proof -
  have "length (go_argv s) = nargc" "go_optind s < nargc" using assms(1,2) by (auto simp: scanning_def)
  from getopt_letter_effect [OF this assms(2,3)]
  obtain r s' where "getopt_letter options table has_idx nargc s = Inr (r, s')" "kept s s'" "go_optind s' \<le> nargc"
    "r \<noteq> -1 \<longrightarrow> go_optind s < go_optind s' \<and> go_place s' = [] \<or> go_optind s' = go_optind s \<and> go_place s' \<noteq> []"
    by blast
  then show ?thesis using scanning_step [OF assms(1,2), of s'] by (auto simp: kept_def)
qed

lemma getopt_option_ok:
  assumes "scanning nargc s" and "go_place s \<noteq> []" and "proper_table table"
  shows "\<exists>r s'. getopt_option flags options table has_idx nargc s = Inr (r, s') \<and> go_argv s' = go_argv s \<and> go_optind s' \<le> nargc \<and>
    (r \<noteq> -1 \<longrightarrow> scanning nargc s')"
proof (cases "\<exists>t. table = Some t \<and> \<not> go_place_start s \<and> (hd (go_place s) = 45 \<or> fl_longonly flags)")
  case False
  then have "getopt_option flags options table has_idx nargc s = getopt_letter options table has_idx nargc s"
    by (auto simp: getopt_option_def Let_def split: option.splits)
  then show ?thesis using getopt_letter_ok [OF assms] by simp
next
  case True
  then obtain t where t: "table = Some t" "\<not> go_place_start s" "hd (go_place s) = 45 \<or> fl_longonly flags" by blast
  have b: "length (go_argv s) = nargc" "go_optind s < nargc" using assms(1,2) by (auto simp: scanning_def)
  let ?short_too = "hd (go_place s) \<noteq> 45 \<and> hd (go_place s) \<noteq> 58 \<and> hd (go_place s) \<in> set options"
  let ?s = "if hd (go_place s) = 45 then s\<lparr>go_place := tl (go_place s)\<rparr> else s"
  have "\<exists>r s'. parse_long_options options t has_idx ?short_too ?s = Inr (r, s') \<and> kept ?s s' \<and> go_place s' = go_place ?s \<and>
      (r = -1 \<and> ?short_too \<and> go_optind s' = go_optind ?s \<or> r \<noteq> -1 \<and> go_optind ?s < go_optind s' \<and> go_optind s' \<le> nargc)"
    by (rule parse_long_options_ok) (use b assms(3) t(1) in simp_all)
  then obtain r s' where p: "parse_long_options options t has_idx ?short_too ?s = Inr (r, s')" "kept ?s s'" "go_place s' = go_place ?s"
    "r = -1 \<and> ?short_too \<and> go_optind s' = go_optind ?s \<or> r \<noteq> -1 \<and> go_optind ?s < go_optind s' \<and> go_optind s' \<le> nargc"
    by blast
  have run: "getopt_option flags options table has_idx nargc s =
      (if r \<noteq> -1 then Inr (r, s'\<lparr>go_place := [], go_place_start := False\<rparr>) else getopt_letter options table has_idx nargc s')"
    using t assms(2) p(1) by (simp add: getopt_option_def Let_def)
  show ?thesis
  proof (cases "r = -1")
    case True
    then have s': "?s = s" "go_optind s' = go_optind s" "kept s s'" "go_place s' = go_place s" using p by auto
    then have sc: "scanning nargc s'"
      using assms(2) b by (intro scanning_step [OF assms(1,2)]) (auto simp: kept_def)
    have "go_place s' \<noteq> []" "go_argv s' = go_argv s"
      using s' assms(2) by (simp_all add: kept_def)
    with getopt_letter_ok [OF sc this(1), of table options has_idx] assms(3) show ?thesis
      unfolding run using True by auto
  next
    case False
    have "scanning nargc (s'\<lparr>go_place := [], go_place_start := False\<rparr>)"
      by (rule scanning_step [OF assms(1,2)]) (use p False in \<open>auto simp: kept_def split: if_splits\<close>)
    then show ?thesis unfolding run using False p by (auto simp: kept_def split: if_splits)
  qed
qed

section \<open>The run\<close>

text \<open>The options that successive calls of \<^verbatim>\<open>getopt_long\<close> return, up to the call that returns -1 or fails.\<close>

inductive option_run :: "bool \<Rightarrow> nat \<Rightarrow> bytes \<Rightarrow> long_option list option \<Rightarrow> bool \<Rightarrow> getopt_state \<Rightarrow> int list \<Rightarrow> getopt_state res \<Rightarrow> bool"
  for posix nargc options table has_idx where
  run_end: "getopt_long posix nargc (Some options) table has_idx s = Inr (-1, s') \<Longrightarrow> option_run posix nargc options table has_idx s [] (Inr s')"
| run_option: "getopt_long posix nargc (Some options) table has_idx s = Inr (c, s') \<Longrightarrow> c \<noteq> -1 \<Longrightarrow>
    option_run posix nargc options table has_idx s' cs r \<Longrightarrow> option_run posix nargc options table has_idx s (c # cs) r"
| run_fault: "getopt_long posix nargc (Some options) table has_idx s = Inl e \<Longrightarrow> option_run posix nargc options table has_idx s [] (Inl e)"

lemma getopt_long_ok:
  assumes "scanning nargc s" and "proper_table table"
  shows "\<exists>r s'. getopt_long posix nargc (Some options) table has_idx s = Inr (r, s') \<and> mset (go_argv s') = mset (go_argv s) \<and>
    go_optind s' \<le> nargc \<and> (r \<noteq> -1 \<longrightarrow> scanning nargc s')"
proof -
  let ?fl = "\<lparr>fl_permute = True, fl_allargs = False, fl_longonly = False\<rparr>"
  obtain fl' options' s1 where prep: "getopt_prepare posix options ?fl s = (fl', options', s1)"
    by (metis prod_cases3)
  have "go_optind s \<noteq> 0" "go_optreset s = 0" using assms(1) by (auto simp: scanning_def)
  then have s1_eq: "s1 = (if go_posixly_correct s = -1 then s\<lparr>go_posixly_correct := (if posix then 1 else 0)\<rparr> else s)\<lparr>go_optarg := None\<rparr>"
    using prep by (auto simp: getopt_prepare_def Let_def)
  have s1: "scanning nargc s1" "go_argv s1 = go_argv s"
    using assms(1) unfolding s1_eq by (auto simp: scanning_def split: option.splits)
  obtain r s2 where start: "getopt_start fl' options' nargc s1 = Inr (r, s2)" "mset (go_argv s2) = mset (go_argv s1)" "go_optind s2 \<le> nargc"
    "r = Some (-1) \<or> scanning nargc s2 \<and> (r = None \<longrightarrow> go_place s2 \<noteq> [])"
    using getopt_start_ok [OF s1(1)] by blast
  show ?thesis
  proof (cases r)
    case None
    then have s2: "scanning nargc s2" "go_place s2 \<noteq> []" using start(4) by simp_all
    from getopt_option_ok [OF s2 assms(2), of fl' options' has_idx] start s1 None show ?thesis
      by (auto simp: getopt_long_def getopt_internal_def prep)
  next
    case (Some a)
    then show ?thesis using start s1 by (auto simp: getopt_long_def getopt_internal_def prep)
  qed
qed

lemma option_run_exists:
  assumes "scanning nargc s" and "proper_table table"
  shows "\<exists>cs s'. option_run posix nargc options table has_idx s cs (Inr s') \<and> mset (go_argv s') = mset (go_argv s) \<and> go_optind s' \<le> nargc"
  using wf_pending [of nargc] assms(1)
proof (induction s rule: wf_induct_rule)
  case (less s)
  obtain r s1 where s1: "getopt_long posix nargc (Some options) table has_idx s = Inr (r, s1)" "mset (go_argv s1) = mset (go_argv s)"
    "go_optind s1 \<le> nargc" "r \<noteq> -1 \<longrightarrow> scanning nargc s1"
    using getopt_long_ok [OF less.prems assms(2)] by blast
  show ?case
  proof (cases "r = -1")
    case True
    with s1 show ?thesis by (auto intro: run_end)
  next
    case False
    then have "(s1, s) \<in> pending nargc" using s1(1) by (auto simp: getopt_long_def intro: getopt_internal_progress)
    from less.IH [OF this] s1(4) False obtain cs s2 where "option_run posix nargc options table has_idx s1 cs (Inr s2)"
      "mset (go_argv s2) = mset (go_argv s1)" "go_optind s2 \<le> nargc" by blast
    with s1(2) show ?thesis using run_option [OF s1(1) False] by auto
  qed
qed

text \<open>C33: option parsing ends and stays within the argument vector. For every argument vector, option string and table of long
  options (none of which has the value -1), calling \<^verbatim>\<open>getopt_long\<close> again and again reaches the call that returns -1
  after finitely many options, without a read outside the vector or a division by zero. The vector is only permuted, and \<^verbatim>\<open>optind\<close> stays within
  its bounds.\<close>

theorem getopt_long_terminates:
  assumes "argv \<noteq> []" and "proper_table table"
  shows "\<exists>cs s'. option_run posix (length argv) options table has_idx (getopt_init argv) cs (Inr s') \<and>
    mset (go_argv s') = mset argv \<and> go_optind s' \<le> length argv"
proof -
  have "scanning (length argv) (getopt_init argv)" "go_argv (getopt_init argv) = argv"
    using assms(1) by (cases argv; simp add: scanning_def getopt_init_def)+
  then show ?thesis using option_run_exists [of "length argv" "getopt_init argv" table posix options has_idx] assms(2) by auto
qed

end
