(* ===== verification/SS_CommandLine.thy ===== *)
theory SS_CommandLine
  imports SS_Main
begin

text \<open>
  The command line as a language: every list of settings, written in any of the forms the parser offers, is read
  back by \<^verbatim>\<open>main\<close> as exactly these settings, in order.
\<close>

section \<open>Settings and how they are written\<close>

datatype setting =
    Host bytes | Port int | LocalPort int | Password bytes | Timeout int | Cipher bytes | Bind bytes | Udp | Verbose | Ipv6
  | Mtu int | Plugin bytes | PluginOpts bytes | Key bytes

fun apply_setting :: "setting \<Rightarrow> profile_t \<Rightarrow> profile_t" where
  "apply_setting (Host h) p = p\<lparr>pf_remote_host := Some h\<rparr>"
| "apply_setting (Port n) p = p\<lparr>pf_remote_port := n\<rparr>"
| "apply_setting (LocalPort n) p = p\<lparr>pf_local_port := n\<rparr>"
| "apply_setting (Password k) p = p\<lparr>pf_password := Some k\<rparr>"
| "apply_setting (Timeout n) p = p\<lparr>pf_timeout := n * 1000\<rparr>"
| "apply_setting (Cipher m) p = p\<lparr>pf_method := Some m\<rparr>"
| "apply_setting (Bind a) p = p\<lparr>pf_local_addr := Some a\<rparr>"
| "apply_setting Udp p = p\<lparr>pf_mode := 1\<rparr>"
| "apply_setting Verbose p = p\<lparr>pf_verbose := 1\<rparr>"
| "apply_setting Ipv6 p = p\<lparr>pf_ipv6first := 1\<rparr>"
| "apply_setting (Mtu n) p = p\<lparr>pf_mtu := n\<rparr>"
| "apply_setting (Plugin f) p = p\<lparr>pf_plugin := Some f\<rparr>"
| "apply_setting (PluginOpts x) p = p\<lparr>pf_plugin_opts := Some x\<rparr>"
| "apply_setting (Key k) p = p\<lparr>pf_key := Some k\<rparr>"

text \<open>An option letter and its value are one argument or two; a long option and its value are joined by an
  equality sign or are two arguments.\<close>

definition short_form :: "char \<Rightarrow> bool \<Rightarrow> bytes \<Rightarrow> bytes list" where
  "short_form c joined a = (if joined \<and> a \<noteq> [] then [45 # of_char c # a] else [[45, of_char c], a])"

definition long_form :: "string \<Rightarrow> bool \<Rightarrow> bytes \<Rightarrow> bytes list" where
  "long_form name joined a = (if joined then [[45, 45] @ cstr name @ [61] @ a] else [[45, 45] @ cstr name, a])"

fun render :: "bool \<times> setting \<Rightarrow> bytes list" where
  "render (j, Host h) = short_form CHR ''s'' j h"
| "render (j, Port n) = short_form CHR ''p'' j (sprintf_d n)"
| "render (j, LocalPort n) = short_form CHR ''l'' j (sprintf_d n)"
| "render (j, Password k) = short_form CHR ''k'' j k"
| "render (j, Timeout n) = short_form CHR ''t'' j (sprintf_d n)"
| "render (j, Cipher m) = short_form CHR ''m'' j m"
| "render (j, Bind a) = short_form CHR ''b'' j a"
| "render (j, Udp) = [cstr ''-u'']"
| "render (j, Verbose) = [cstr ''-v'']"
| "render (j, Ipv6) = [cstr ''-6'']"
| "render (j, Mtu n) = long_form ''mtu'' j (sprintf_d n)"
| "render (j, Plugin f) = long_form ''plugin'' j f"
| "render (j, PluginOpts x) = long_form ''plugin-opts'' j x"
| "render (j, Key k) = long_form ''key'' j k"

text \<open>Numbers have to fit into \<^verbatim>\<open>int\<close>, the time-out in milliseconds too.\<close>

definition int_ok :: "int \<Rightarrow> bool" where
  "int_ok n \<longleftrightarrow> - (2 ^ 31) \<le> n \<and> n < 2 ^ 31"

fun setting_ok :: "setting \<Rightarrow> bool" where
  "setting_ok (Port n) \<longleftrightarrow> int_ok n"
| "setting_ok (LocalPort n) \<longleftrightarrow> int_ok n"
| "setting_ok (Mtu n) \<longleftrightarrow> int_ok n"
| "setting_ok (Timeout n) \<longleftrightarrow> int_ok n \<and> int_ok (n * 1000)"
| "setting_ok _ \<longleftrightarrow> True"

section \<open>One option\<close>

text \<open>The parser is about to read argument \<open>i\<close>; and it has read the dash in front of \<open>pl\<close> in it.\<close>

definition ready :: "bytes list \<Rightarrow> nat \<Rightarrow> getopt_state \<Rightarrow> bool" where
  "ready argv i s \<longleftrightarrow> go_argv s = argv \<and> go_optind s = i \<and> 1 \<le> i \<and> go_place s = [] \<and> go_optreset s = 0 \<and>
     go_nonopt_start s = None \<and> go_nonopt_end s = None"

definition opened :: "bytes list \<Rightarrow> nat \<Rightarrow> bytes \<Rightarrow> getopt_state \<Rightarrow> bool" where
  "opened argv i pl s \<longleftrightarrow> go_argv s = argv \<and> go_optind s = i \<and> 1 \<le> i \<and> go_place s = pl \<and> \<not> go_place_start s \<and> go_optreset s = 0 \<and>
     go_nonopt_start s = None \<and> go_nonopt_end s = None \<and> go_optarg s = None"

lemma short_options_start: "\<not> (short_options \<noteq> [] \<and> hd short_options = 45)" "\<not> (short_options \<noteq> [] \<and> hd short_options = 43)"
  by (simp_all add: short_options_def cstr_def)

lemma getopt_prepare_plain:
  assumes "go_optind s \<noteq> 0" and "go_optreset s = 0"
  shows "snd (snd (getopt_prepare posix options flags s)) =
      (if go_posixly_correct s = -1 then s\<lparr>go_posixly_correct := (if posix then 1 else 0)\<rparr> else s)\<lparr>go_optarg := None\<rparr>"
    and "fst (snd (getopt_prepare posix options flags s)) =
      (if options \<noteq> [] \<and> hd options = 45 \<or> options \<noteq> [] \<and> hd options = 43 then tl options else options)"
    and "fl_longonly (fst (getopt_prepare posix options flags s)) = fl_longonly flags"
  using assms by (simp_all add: getopt_prepare_def Let_def)

lemma main_getopt_opens:
  assumes "ready argv i s" and "i < length argv" and "argv ! i = 45 # pl" and "pl \<noteq> []" and "pl \<noteq> [45]"
  obtains flags s1 where "main_getopt posix (length argv) s = getopt_option flags short_options (Some long_options) True (length argv) s1"
    "opened argv i pl s1" "\<not> fl_longonly flags"
proof -
  let ?flags = "\<lparr>fl_permute = True, fl_allargs = False, fl_longonly = False\<rparr>"
  obtain flags o' s1 where prep: "getopt_prepare posix short_options ?flags s = (flags, o', s1)"
    by (metis prod_cases3)
  have o': "o' = short_options" and flags: "\<not> fl_longonly flags"
    and s1: "go_argv s1 = argv" "go_optind s1 = i" "go_place s1 = []" "go_optreset s1 = 0" "go_nonopt_start s1 = None"
      "go_nonopt_end s1 = None" "go_optarg s1 = None"
    using getopt_prepare_plain [of s posix short_options ?flags] assms(1) short_options_start
    unfolding prep by (auto simp: ready_def)
  let ?s = "s1\<lparr>go_optreset := 0, go_place := pl, go_place_start := False\<rparr>"
  have "getopt_start flags short_options (length argv) s1 = Inr (None, ?s)"
    using s1 assms by (subst getopt_start.simps) (simp add: Let_def argv_at_def open_argument_def)
  then have "main_getopt posix (length argv) s = getopt_option flags short_options (Some long_options) True (length argv) ?s"
    by (simp add: getopt_long_def getopt_internal_def prep o')
  moreover have "opened argv i pl ?s"
    using s1 assms(1) by (simp add: opened_def ready_def)
  ultimately show thesis using that flags by blast
qed

lemma short_letter:
  assumes "opened argv i (c # rest) s" and "i < length argv" and "c \<in> set short_options" and "c \<notin> {45, 58, 87}" and "\<not> fl_longonly flags"
  obtains s1 where "getopt_option flags short_options (Some long_options) True (length argv) s =
      letter_argument short_options (length argv) c (after_letter c short_options) rest s1" "opened argv i rest s1"
proof -
  let ?s = "s\<lparr>go_place := rest, go_place_start := False\<rparr>"
  have "getopt_option flags short_options (Some long_options) True (length argv) s =
      letter_argument short_options (length argv) c (after_letter c short_options) rest ?s"
    using assms by (simp add: getopt_option_def getopt_letter_def Let_def opened_def)
  moreover have "opened argv i rest ?s"
    using assms(1) by (simp add: opened_def)
  ultimately show thesis by (rule that)
qed

definition takes :: "bool \<Rightarrow> bytes list \<Rightarrow> getopt_state \<Rightarrow> int \<Rightarrow> bytes option \<Rightarrow> nat \<Rightarrow> bool" where
  "takes posix argv s c a i \<longleftrightarrow> (\<exists>s'. main_getopt posix (length argv) s = Inr (c, s') \<and> ready argv i s' \<and> go_optarg s' = a)"

lemma short_form_taken:
  assumes "ready argv i s" and "argv = pre @ short_form c j a @ post" and "length pre = i"
    and "of_char c \<in> set short_options" and "of_char c \<notin> {45, 58, 87 :: byte}"
    and "after_letter (of_char c) short_options = 58 # ds" and "ds = [] \<or> hd ds \<noteq> 58"
  shows "takes posix argv s (char_int (of_char c)) (Some a) (i + length (short_form c j a))"
proof -
  have i: "i < length argv" using assms(2,3) by (auto simp: short_form_def)
  show ?thesis
  proof (cases "j \<and> a \<noteq> []")
    case True
    then have "argv ! i = 45 # of_char c # a" using assms(2,3) by (simp add: short_form_def nth_append)
    then obtain flags s1 where run: "main_getopt posix (length argv) s = getopt_option flags short_options (Some long_options) True (length argv) s1"
      "opened argv i (of_char c # a) s1" "\<not> fl_longonly flags"
      by (rule main_getopt_opens [OF assms(1) i]) (use assms(5) True in auto)
    obtain s2 where "getopt_option flags short_options (Some long_options) True (length argv) s1 =
        letter_argument short_options (length argv) (of_char c) (after_letter (of_char c) short_options) a s2" "opened argv i a s2"
      by (rule short_letter [OF run(2) i assms(4,5) run(3)])
    with run(1) assms(6) True show ?thesis
      by (simp add: takes_def letter_argument_def opened_def ready_def short_form_def)
  next
    case False
    then have at: "argv ! i = 45 # [of_char c]" and a: "argv ! Suc i = a" "Suc i < length argv"
      using assms(2,3) by (auto simp: short_form_def nth_append)
    obtain flags s1 where run: "main_getopt posix (length argv) s = getopt_option flags short_options (Some long_options) True (length argv) s1"
      "opened argv i [of_char c] s1" "\<not> fl_longonly flags"
      by (rule main_getopt_opens [OF assms(1) i at]) (use assms(5) in auto)
    obtain s2 where "getopt_option flags short_options (Some long_options) True (length argv) s1 =
        letter_argument short_options (length argv) (of_char c) (after_letter (of_char c) short_options) [] s2" "opened argv i [] s2"
      by (rule short_letter [OF run(2) i assms(4,5) run(3)])
    with run(1) assms(6,7) a False show ?thesis
      by (auto simp: takes_def letter_argument_def opened_def ready_def short_form_def argv_at_def)
  qed
qed

lemma flag_taken:
  assumes "ready argv i s" and "argv = pre @ [[45, c]] @ post" and "length pre = i"
    and "c \<in> set short_options" and "c \<notin> {45, 58, 87 :: byte}" and "after_letter c short_options = [] \<or> hd (after_letter c short_options) \<noteq> 58"
  shows "takes posix argv s (char_int c) None (Suc i)"
proof -
  have i: "i < length argv" and at: "argv ! i = 45 # [c]" using assms(2,3) by auto
  obtain flags s1 where run: "main_getopt posix (length argv) s = getopt_option flags short_options (Some long_options) True (length argv) s1"
    "opened argv i [c] s1" "\<not> fl_longonly flags"
    by (rule main_getopt_opens [OF assms(1) i at]) (use assms(5) in auto)
  obtain s2 where "getopt_option flags short_options (Some long_options) True (length argv) s1 =
      letter_argument short_options (length argv) c (after_letter c short_options) [] s2" "opened argv i [] s2"
    by (rule short_letter [OF run(2) i assms(4,5) run(3)])
  with run(1) assms(6) show ?thesis
    by (auto simp: takes_def letter_argument_def opened_def ready_def)
qed

lemma long_form_taken:
  assumes "ready argv i s" and "argv = pre @ long_form name j a @ post" and "length pre = i" and "name \<noteq> []" and "61 \<notin> set (cstr name)"
    and "match_long long_options (cstr name) False 0 long_options None False = (Some m, False)"
    and "long_options ! m = long_opt name required_argument v" and "v \<noteq> -1"
  shows "takes posix argv s v (Some a) (i + length (long_form name j a))"
proof -
  have i: "i < length argv" using assms(2,3) by (auto simp: long_form_def)
  let ?pl = "45 # cstr name @ (if j then 61 # a else [])"
  have ne: "cstr name \<noteq> []" using assms(4) by (simp add: cstr_def)
  have at: "argv ! i = 45 # ?pl" and a: "\<not> j \<Longrightarrow> argv ! Suc i = a \<and> Suc i < length argv"
    using assms(2,3) by (auto simp: long_form_def nth_append)
  obtain flags s1 where run: "main_getopt posix (length argv) s = getopt_option flags short_options (Some long_options) True (length argv) s1"
    "opened argv i ?pl s1" "\<not> fl_longonly flags"
    by (rule main_getopt_opens [OF assms(1) i at]) (use ne in auto)
  have tw: "takeWhile (\<lambda>b. b \<noteq> 61) (cstr name @ (if j then 61 # a else [])) = cstr name"
    using assms(5) by (auto simp: takeWhile_append takeWhile_eq_all_conv)
  show ?thesis
  proof (cases j)
    case True
    then show ?thesis using run tw assms(5-8) ne
      by (auto simp: takes_def getopt_option_def parse_long_options_def store_option_def Let_def opened_def ready_def long_opt_def long_form_def)
  next
    case False
    have tw': "takeWhile (\<lambda>b. b \<noteq> 61) (cstr name) = cstr name" using tw False by simp
    from False show ?thesis using run assms(5-8) ne a
      by (auto simp: tw' takes_def getopt_option_def parse_long_options_def store_option_def Let_def opened_def ready_def long_opt_def long_form_def argv_at_def)
  qed
qed

section \<open>Every setting is read back\<close>

lemma atoi_sprintf: "atoi (sprintf_d n) = n"
proof (cases "n < 0")
  case True
  have digits: "takeWhile is_digit (dec_digits (nat (- n))) = dec_digits (nat (- n))"
    using dec_digits_digit by (auto simp: takeWhile_eq_all_conv)
  have "\<not> is_space 45" by (simp add: is_space_def)
  then show ?thesis
    using True by (simp add: sprintf_d_def atoi_def dec_value_digits digits del: takeWhile_eq_all_conv)
next
  case False
  then show ?thesis using atoi_digits [of "[]" "nat n"] by (simp add: sprintf_d_def)
qed

lemma sprintf_nonempty: "sprintf_d n \<noteq> []"
  using dec_digits_ne by (simp add: sprintf_d_def)

lemma atoi_arg_ok: "int_ok n \<Longrightarrow> atoi_arg (Some (sprintf_d n)) = Inr n"
  by (simp add: atoi_arg_def atoi_sprintf int_range_def int_ok_def)

text \<open>What one written setting does: it is taken by one call of the parser, and the switch applies it.\<close>

definition reads_setting :: "bool \<Rightarrow> bytes list \<Rightarrow> nat \<Rightarrow> getopt_state \<Rightarrow> setting \<Rightarrow> nat \<Rightarrow> bool" where
  "reads_setting posix argv i s st n \<longleftrightarrow> (\<exists>c a. takes posix argv s c a (i + n) \<and> c \<noteq> -1 \<and>
     (\<forall>p e. main_switch c a p e = Inr (Parsed (apply_setting st p) e)))"

lemma reads_settingI:
  assumes "takes posix argv s c a k" and "k = i + n" and "c \<noteq> -1" and "\<And>p e. main_switch c a p e = Inr (Parsed (apply_setting st p) e)"
  shows "reads_setting posix argv i s st n"
  using assms by (auto simp: reads_setting_def)

lemmas letters = after_letter_def short_options_def cstr_def char_int_def main_switch_def
lemmas long_names = cstr_def main_switch_def long_options_def long_opt_def

lemma setting_taken:
  assumes "ready argv i s" and "argv = pre @ render (j, st) @ post" and "length pre = i" and "setting_ok st"
  shows "reads_setting posix argv i s st (length (render (j, st)))"
proof -
  note short = reads_settingI [OF short_form_taken [OF assms(1) _ assms(3), of _ j _ post] refl]
    and long = reads_settingI [OF long_form_taken [OF assms(1) _ assms(3), of _ j _ post] refl]
    and flag = reads_settingI [OF flag_taken [OF assms(1) _ assms(3), of _ post]]
  show ?thesis
  proof (cases st)
    case (Host h)
    show ?thesis
      unfolding Host render.simps
      by (rule short) (use assms(2,4) Host in \<open>auto simp: letters\<close>)
  next
    case (Port n)
    show ?thesis
      unfolding Port render.simps
      by (rule short) (use assms(2,4) Port in \<open>auto simp: letters atoi_arg_ok int_range_def int_ok_def\<close>)
  next
    case (LocalPort n)
    show ?thesis
      unfolding LocalPort render.simps
      by (rule short) (use assms(2,4) LocalPort in \<open>auto simp: letters atoi_arg_ok int_range_def int_ok_def\<close>)
  next
    case (Password k)
    show ?thesis
      unfolding Password render.simps
      by (rule short) (use assms(2,4) Password in \<open>auto simp: letters\<close>)
  next
    case (Timeout n)
    show ?thesis
      unfolding Timeout render.simps
      by (rule short) (use assms(2,4) Timeout in \<open>auto simp: letters atoi_arg_ok int_range_def int_ok_def\<close>)
  next
    case (Cipher m)
    show ?thesis
      unfolding Cipher render.simps
      by (rule short) (use assms(2,4) Cipher in \<open>auto simp: letters\<close>)
  next
    case (Bind a)
    show ?thesis
      unfolding Bind render.simps
      by (rule short) (use assms(2,4) Bind in \<open>auto simp: letters\<close>)
  next
    case Udp
    show ?thesis
      by (rule flag [of 117]) (use assms(2) Udp in \<open>auto simp: letters\<close>)
  next
    case Verbose
    show ?thesis
      by (rule flag [of 118]) (use assms(2) Verbose in \<open>auto simp: letters\<close>)
  next
    case Ipv6
    show ?thesis
      by (rule flag [of 54]) (use assms(2) Ipv6 in \<open>auto simp: letters\<close>)
  next
    case (Mtu n)
    show ?thesis
      unfolding Mtu render.simps
      by (rule long [of _ _ 0 258]) (use assms(2,4) Mtu in \<open>auto simp: long_names atoi_arg_ok\<close>)
  next
    case (Plugin f)
    show ?thesis
      unfolding Plugin render.simps
      by (rule long [of _ _ 1 259]) (use assms(2,4) Plugin in \<open>auto simp: long_names\<close>)
  next
    case (PluginOpts x)
    show ?thesis
      unfolding PluginOpts render.simps
      by (rule long [of _ _ 2 260]) (use assms(2,4) PluginOpts in \<open>auto simp: long_names\<close>)
  next
    case (Key k)
    show ?thesis
      unfolding Key render.simps
      by (rule long [of _ _ 4 262]) (use assms(2,4) Key in \<open>auto simp: long_names\<close>)
  qed
qed

section \<open>The command line\<close>

lemma no_arguments_left:
  assumes "ready argv (length argv) s"
  shows "\<exists>s'. main_getopt posix (length argv) s = Inr (-1, s')"
proof -
  let ?flags = "\<lparr>fl_permute = True, fl_allargs = False, fl_longonly = False\<rparr>"
  obtain flags o' s1 where prep: "getopt_prepare posix short_options ?flags s = (flags, o', s1)"
    by (metis prod_cases3)
  have s1: "go_optind s1 = length argv" "go_place s1 = []" "go_nonopt_start s1 = None" "go_nonopt_end s1 = None"
  proof -
    have "go_optind s \<noteq> 0" "go_optreset s = 0" using assms by (auto simp: ready_def)
    from getopt_prepare_plain(1) [OF this, of posix short_options ?flags]
    have "s1 = (if go_posixly_correct s = -1 then s\<lparr>go_posixly_correct := (if posix then 1 else 0)\<rparr> else s)\<lparr>go_optarg := None\<rparr>"
      unfolding prep by simp
    then show "go_optind s1 = length argv" "go_place s1 = []" "go_nonopt_start s1 = None" "go_nonopt_end s1 = None"
      using assms by (auto simp: ready_def)
  qed
  have "\<exists>s'. getopt_start flags o' (length argv) s1 = Inr (Some (-1), s')"
    using s1 by (subst getopt_start.simps) (simp add: Let_def getopt_end_def)
  then show ?thesis by (auto simp: getopt_long_def getopt_internal_def prep)
qed

lemma settings_read:
  assumes "ready argv (length pre) s" and "argv = pre @ concat (map render sts)" and "\<forall>x\<in>set sts. setting_ok (snd x)"
  shows "main_options posix (length argv) s p e = Inr (Parsed (fold (apply_setting \<circ> snd) sts p) e)"
  using assms
proof (induction sts arbitrary: pre s p)
  case Nil
  then obtain s' where "main_getopt posix (length argv) s = Inr (-1, s')" using no_arguments_left by fastforce
  then show ?case by (subst main_options.simps) simp
next
  case (Cons x sts)
  obtain j st where x: "x = (j, st)" by (cases x)
  have argv: "argv = pre @ render (j, st) @ concat (map render sts)" using Cons.prems(2) x by simp
  have "setting_ok st" using Cons.prems(3) x by simp
  from setting_taken [OF Cons.prems(1) argv refl this, of posix]
  obtain c s' where s': "main_getopt posix (length argv) s = Inr (c, s')" "ready argv (length (pre @ render (j, st))) s'" "c \<noteq> -1"
    "\<And>p e. main_switch c (go_optarg s') p e = Inr (Parsed (apply_setting st p) e)"
    by (auto simp: reads_setting_def takes_def)
  have "main_options posix (length argv) s' (apply_setting st p) e = Inr (Parsed (fold (apply_setting \<circ> snd) sts (apply_setting st p)) e)"
    by (rule Cons.IH [OF s'(2)]) (use argv Cons.prems(3) in auto)
  with s'(1,3,4) x show ?case by (subst main_options.simps) simp
qed

text \<open>C32: a command line means what it says. Write any list of settings on a command line, each with its value in the same
  argument or in the next one, in any order and with repetitions; \<^verbatim>\<open>main\<close> starts the server with the default profile changed by
  these settings in order, or exits with a failure when a port is missing. The environment variable
  \<^verbatim>\<open>POSIXLY_CORRECT\<close> does not matter.\<close>

theorem command_line_roundtrip:
  assumes "\<forall>x\<in>set sts. setting_ok (snd x)" and "p = fold (apply_setting \<circ> snd) sts default_profile"
  shows "ss_main posix (prog # concat (map render sts)) =
    Inr (if pf_local_port p = 0 \<or> pf_remote_port p = 0 then Exit 1 else Parsed p 0)"
proof -
  let ?argv = "[prog] @ concat (map render sts)"
  have "ready ?argv (length [prog]) (getopt_init ?argv)" by (simp add: ready_def getopt_init_def)
  from settings_read [OF this refl assms(1), of posix default_profile 0] assms(2)
  show ?thesis by (simp add: ss_main_def)
qed

end
