(* ===== verification/SS_Server.thy ===== *)
theory SS_Server
  imports SS_Main SS_UdpRelay
begin

text \<open>
  The life of the local server: \<^verbatim>\<open>loopMain\<close>, \<^verbatim>\<open>listen\<close>, the plugin process and the stop timer of \<^verbatim>\<open>src/local_uv.cpp\<close>, the
  entry points \<^verbatim>\<open>start_ssr_uv_local_server\<close> and \<^verbatim>\<open>stop_ssr_uv_local_server\<close>, the thread of \<^verbatim>\<open>src/SSThread.cpp\<close>, and
  \<^verbatim>\<open>spawn\<close> and \<^verbatim>\<open>stdio\<close> of \<^verbatim>\<open>src/uvw/process.cpp\<close>.

  The state joins the TCP relay and the UDP relay. Timer, listening socket and plugin process are handles of the
  TCP relay's numbering. The static variables of the ciphers are shared: the world is handed over with every event.
  Calls to libuv that are not calls of the relays are the list \<open>sv_out\<close>; an error of one of them is published on a
  handle without a listener for errors (the plugin process has one), so it has no effect.
\<close>

section \<open>State\<close>

datatype server_call =
    SvTimerStart hid int int | SvNoDelay hid bool | SvBind hid sockaddr | SvListen hid | SvSpawn hid bytes "bytes list" "bytes option list" "(int \<times> int) list"
  | SvKill hid int | SvTimerStop hid | SvLoopStop

record server =
  sv_profile :: profile_t
  sv_isStop :: bool
  sv_relay :: relay
  sv_udp :: "udp_relay option"
  sv_timer :: hid
  sv_server :: "hid option"
  sv_plugin :: "hid option"
  sv_plugin_listens :: bool  \<comment> \<open>the one-shot error listener of the process is there\<close>
  sv_pluginPort :: u16
  sv_first :: hid  \<comment> \<open>the first handle of the current loop\<close>
  sv_stopped :: bool
  sv_out :: "server_call list"

text \<open>What the server asks of the system besides libuv's return codes.\<close>

record system =
  sys_uv :: uv_env
  sys_udp_uv :: uv_env
  sys_net :: net_env
  sys_lib :: crypto_lib
  sys_libm :: libm
  sys_free_port :: u16
  sys_PATH :: bytes
  sys_cwd :: bytes

definition no_addr :: sockaddr where
  "no_addr = \<lparr>sa_family = 0, sa_addr = [], sa_port = []\<rparr>"

definition new_relay :: "world \<Rightarrow> relay" where
  "new_relay w = \<lparr>rl_conns = Map.empty, rl_em = (\<lambda>_. new_emitter), rl_closing = (\<lambda>_. False), rl_next = 0, rl_calls = 0, rl_out = [],
     rl_world = w, rl_cipher = \<lparr>ce_crypto = None\<rparr>,
     rl_address = \<lparr>s5_type = SOCKS5_ADDRTYPE_INVALID, s5_addr = replicate 256 0, s5_port = 0\<rparr>, rl_remoteAddr = no_addr, rl_tx = 0, rl_rx = 0\<rparr>"

text \<open>The object \<^verbatim>\<open>TCPRelayImpl\<close> as it is constructed, in a process whose cipher state is \<open>w\<close>.\<close>

definition new_server :: "world \<Rightarrow> server" where
  "new_server w = \<lparr>sv_profile = \<lparr>pf_remote_host = None, pf_local_addr = None, pf_method = None, pf_password = None, pf_remote_port = 0,
       pf_local_port = 0, pf_timeout = 0, pf_plugin = None, pf_plugin_opts = None, pf_key = None, pf_acl = None, pf_fast_open = 0,
       pf_mode = 0, pf_mtu = 0, pf_verbose = 0, pf_ipv6first = 0\<rparr>,
     sv_isStop = False, sv_relay = new_relay w, sv_udp = None, sv_timer = 0, sv_server = None, sv_plugin = None,
     sv_plugin_listens = False, sv_pluginPort = 0, sv_first = 0, sv_stopped = False, sv_out = []\<rparr>"

definition sv_do :: "uv_env \<Rightarrow> server_call \<Rightarrow> server \<Rightarrow> int \<times> server" where
  "sv_do U c s =
     (let rc = uv_rc U (rl_calls (sv_relay s)); s = s\<lparr>sv_relay := (sv_relay s)\<lparr>rl_calls := Suc (rl_calls (sv_relay s))\<rparr>\<rparr>
      in if rc = 0 then (0, s\<lparr>sv_out := sv_out s @ [c]\<rparr>) else (rc, s))"

definition sv_new_handle :: "uv_env \<Rightarrow> server \<Rightarrow> (hid \<times> server) res" where
  "sv_new_handle U s =
     (case new_handle U (sv_relay s) of (None, _) \<Rightarrow> Inl UB | (Some h, r) \<Rightarrow> Inr (h, s\<lparr>sv_relay := r\<rparr>))"

definition sv_close :: "hid \<Rightarrow> server \<Rightarrow> server" where
  "sv_close h s = s\<lparr>sv_relay := handle_close h (sv_relay s)\<rparr>"

text \<open>A character string that is read; the null pointer may not be.\<close>

definition string_of :: "bytes \<Rightarrow> string" where
  "string_of = map (\<lambda>b. char_of (unat b))"

definition cstring :: "bytes option \<Rightarrow> bytes res" where
  "cstring a = (case a of None \<Rightarrow> Inl UB | Some a \<Rightarrow> Inr a)"

section \<open>The plugin\<close>

text \<open>A socket bound to port 0 tells a free port; it is closed again.\<close>

definition getLocalPort :: "system \<Rightarrow> server \<Rightarrow> (u16 \<times> server) res" where
  "getLocalPort Y s =
     bnd (sv_new_handle (sys_uv Y) s) (\<lambda>(h, s).
     let (_, s) = sv_do (sys_uv Y) (SvBind h \<lparr>sa_family = AF_INET, sa_addr = [0, 0, 0, 0], sa_port = [0, 0]\<rparr>) s
     in Inr (sys_free_port Y, sv_close h s))"

text \<open>\<^verbatim>\<open>ProcessHandle::stdio\<close>: the container of a descriptor is changed or added.\<close>

fun process_stdio :: "int \<Rightarrow> int \<Rightarrow> (int \<times> int) list \<Rightarrow> (int \<times> int) list" where
  "process_stdio fd fgs [] = [(fd, fgs)]"
| "process_stdio fd fgs ((fd', fgs') # cs) = (if fd' = fd then (fd, fgs) # cs else (fd', fgs') # process_stdio fd fgs cs)"

abbreviation (input) UV_IGNORE :: int where "UV_IGNORE \<equiv> 0"
abbreviation (input) SIGTERM :: int where "SIGTERM \<equiv> 15"

text \<open>An error of the process handle: the first one closes it.\<close>

definition plugin_error :: "hid \<Rightarrow> server \<Rightarrow> server" where
  "plugin_error h s = (if sv_plugin_listens s then sv_close h (s\<lparr>sv_plugin_listens := False\<rparr>) else s)"

definition process_spawn :: "uv_env \<Rightarrow> hid \<Rightarrow> bytes \<Rightarrow> bytes list \<Rightarrow> bytes option list \<Rightarrow> (int \<times> int) list \<Rightarrow> server \<Rightarrow> server" where
  "process_spawn U h file args env stdio s =
     (let (rc, s) = sv_do U (SvSpawn h file args env stdio) s in if rc \<noteq> 0 then plugin_error h s else s)"

text \<open>The environment as it is passed to \<^verbatim>\<open>spawn\<close>: a vector of pointers, the null pointer among them.\<close>

definition plugin_env :: "system \<Rightarrow> profile_t \<Rightarrow> bytes \<Rightarrow> bytes \<Rightarrow> bytes \<Rightarrow> bytes \<Rightarrow> bytes option list" where
  "plugin_env Y p remote_host remote_port local_host local_port =
     [Some (cstr ''SS_REMOTE_HOST='' @ remote_host), Some (cstr ''SS_REMOTE_PORT='' @ remote_port),
      Some (cstr ''SS_LOCAL_HOST='' @ local_host), Some (cstr ''SS_LOCAL_PORT='' @ local_port)] @
     (case pf_plugin_opts p of None \<Rightarrow> [] | Some x \<Rightarrow> [Some (cstr ''SS_PLUGIN_OPTIONS='' @ x)]) @
     [None, Some (cstr ''PATH='' @ sys_PATH Y @ cstr '':'' @ sys_cwd Y)]"

definition startPlugin :: "system \<Rightarrow> server \<Rightarrow> server res" where
  "startPlugin Y s =
     (case pf_plugin (sv_profile s) of None \<Rightarrow> Inr s
      | Some file \<Rightarrow>
        let p = sv_profile s; r = sv_relay s; h = rl_next r;
            s = s\<lparr>sv_relay := r\<lparr>rl_next := Suc h, rl_em := (rl_em r)(h := new_emitter), rl_closing := (rl_closing r)(h := False)\<rparr>,
                  sv_plugin := Some h\<rparr>;
            stdio = process_stdio 2 UV_IGNORE (process_stdio 1 UV_IGNORE [])
        in
        bnd (cstring (pf_remote_host p)) (\<lambda>remote_host.
        bnd (sprintf_into 8 (pf_remote_port p)) (\<lambda>remote_port.
        bnd (cstring (pf_local_addr p)) (\<lambda>local_host.
        bnd (getLocalPort Y s) (\<lambda>(port, s).
        let s = s\<lparr>sv_pluginPort := port\<rparr> in
        bnd (sprintf_into 8 (uint port)) (\<lambda>local_port.
          Inr (process_spawn (sys_uv Y) h file [file] (plugin_env Y p remote_host remote_port local_host local_port) stdio
                 (s\<lparr>sv_plugin_listens := True\<rparr>))))))))"

section \<open>Start\<close>

definition sv_listen :: "system \<Rightarrow> server \<Rightarrow> (int \<times> server) res" where
  "sv_listen Y s =
     bnd (sv_new_handle (sys_uv Y) s) (\<lambda>(h, s).
     let s = s\<lparr>sv_server := Some h\<rparr>; p = sv_profile s; (_, s) = sv_do (sys_uv Y) (SvNoDelay h True) s in
     bnd (cstring (pf_local_addr p)) (\<lambda>host.
     bnd (ssr_get_sock_addr (sys_net Y) host (pf_local_port p) no_addr 0) (\<lambda>(af, localStorage).
     if af = -1 then Inr (-1, s)
     else
       let (_, s) = sv_do (sys_uv Y) (SvBind h localStorage) s; (_, s) = sv_do (sys_uv Y) (SvListen h) s
       in Inr (0, s))))"

text \<open>The address the TCP relay connects to: the plugin's, where there is one.\<close>

definition tcp_remote :: "system \<Rightarrow> server \<Rightarrow> (int \<times> sockaddr) res" where
  "tcp_remote Y s =
     (let p = sv_profile s in
      bnd (cstring (if sv_pluginPort s \<noteq> 0 then pf_local_addr p else pf_remote_host p)) (\<lambda>host.
        ssr_get_sock_addr (sys_net Y) host (if sv_pluginPort s \<noteq> 0 then uint (sv_pluginPort s) else pf_remote_port p)
          no_addr (pf_ipv6first p)))"

definition start_udp :: "system \<Rightarrow> server \<Rightarrow> (int \<times> server) res" where
  "start_udp Y s =
     (let p = sv_profile s in
      if pf_mode p \<noteq> 1 then Inr (0, s)
      else
        let u = new_UDPRelay (rl_cipher (sv_relay s)) (pf_timeout p) 0 (rl_world (sv_relay s)); s = s\<lparr>sv_udp := Some u\<rparr> in
        bnd (cstring (pf_remote_host p)) (\<lambda>host.
        bnd (ssr_get_sock_addr (sys_net Y) host (pf_remote_port p) no_addr (pf_ipv6first p)) (\<lambda>(af, realRemoteAddr).
        if af = -1 then Inr (-1, s)
        else
          bnd (cstring (pf_local_addr p)) (\<lambda>local_host.
          bnd (initUDPRelay (sys_net Y) (sys_udp_uv Y) (pf_mtu p) local_host (pf_local_port p) realRemoteAddr u) (\<lambda>(res, u).
            Inr (res, s\<lparr>sv_udp := Some u\<rparr>))))))"

text \<open>The start of the plugin, with the checks behind it.\<close>

definition plugin_started :: "system \<Rightarrow> server \<Rightarrow> (bool \<times> server) res" where
  "plugin_started Y s =
     (if pf_plugin (sv_profile s) = None then Inr (True, s)
      else
        bnd (startPlugin Y s) (\<lambda>s.
        let closing = (case sv_plugin s of None \<Rightarrow> False | Some h \<Rightarrow> rl_closing (sv_relay s) h)
        in Inr (\<not> closing \<and> sv_pluginPort s \<noteq> 0, s)))"

text \<open>
  \<^verbatim>\<open>loopMain\<close> up to the event loop; the code 0 means that the loop runs. The object may have run before: what the
  function does not reset is kept, the port and the process of an earlier plugin among it.
\<close>

definition loopMain :: "system \<Rightarrow> profile_t \<Rightarrow> server \<Rightarrow> (int \<times> server) res" where
  "loopMain Y p s =
     (let s = s\<lparr>sv_profile := p, sv_isStop := False, sv_first := rl_next (sv_relay s), sv_stopped := False,
               sv_relay := (sv_relay s)\<lparr>rl_tx := 0, rl_rx := 0\<rparr>\<rparr>;
          (timer, r) = new_handle (sys_uv Y) (sv_relay s)
      in
      bnd (new_CipherEnv (sys_lib Y) (sys_libm Y) (rl_world r) (pf_password p) (map_option string_of (pf_method p)) (pf_key p))
        (\<lambda>(env, w).
      let s = s\<lparr>sv_relay := r\<lparr>rl_world := w, rl_cipher := env\<rparr>\<rparr> in
      if ce_crypto env = None then Inr (-1, s)
      else case timer of None \<Rightarrow> Inl UB
      | Some t \<Rightarrow>
        let (_, s) = sv_do (sys_uv Y) (SvTimerStart t 500 500) (s\<lparr>sv_timer := t\<rparr>) in
        bnd (plugin_started Y s) (\<lambda>(ok, s).
        if \<not> ok then Inr (-1, s)
        else
          bnd (tcp_remote Y s) (\<lambda>(af, addr).
          let s = s\<lparr>sv_relay := (sv_relay s)\<lparr>rl_remoteAddr := addr\<rparr>\<rparr> in
          if af = -1 then Inr (-1, s)
          else
            bnd (start_udp Y s) (\<lambda>(res, s).
            if res \<noteq> 0 then Inr (res, s) else sv_listen Y s)))))"

definition start_ssr_uv_local_server :: "system \<Rightarrow> profile_t \<Rightarrow> server \<Rightarrow> (int \<times> server) res" where
  "start_ssr_uv_local_server Y p s = bnd (loopMain Y p s) (\<lambda>(res, s). if res \<noteq> 0 then Inr (res, s) else Inr (0, s))"

definition stop_ssr_uv_local_server :: "server \<Rightarrow> server" where
  "stop_ssr_uv_local_server s = s\<lparr>sv_isStop := True\<rparr>"

section \<open>Stop\<close>

text \<open>\<open>order\<close> and \<open>uorder\<close> list the keys of the two tables of connections as they are destroyed.\<close>

definition shut_down :: "uv_env \<Rightarrow> hid list \<Rightarrow> uaddr list \<Rightarrow> hid \<Rightarrow> server \<Rightarrow> server" where
  "shut_down U order uorder h s =
     (let s = sv_close h s;
          s = s\<lparr>sv_relay := fold panic order (sv_relay s)\<rparr>;
          s = (if pf_mode (sv_profile s) = 1 then s\<lparr>sv_udp := map_option (destroy_UDPRelay uorder) (sv_udp s)\<rparr> else s)
      in case sv_plugin s of None \<Rightarrow> s
         | Some q \<Rightarrow> (let (rc, s) = sv_do U (SvKill q SIGTERM) s in if rc \<noteq> 0 then plugin_error q s else s))"

text \<open>The number of handles that \<^verbatim>\<open>uv_walk\<close> finds open. Without UDP mode a UDP relay can only be one of an earlier loop.\<close>

definition open_handles :: "server \<Rightarrow> nat" where
  "open_handles s =
     length (filter (\<lambda>h. \<not> rl_closing (sv_relay s) h) [sv_first s..<rl_next (sv_relay s)]) +
     (case sv_udp s of None \<Rightarrow> 0
      | Some u \<Rightarrow> if pf_mode (sv_profile s) = 1 then length (filter (\<lambda>h. \<not> ur_closing u h) [0..<ur_next u]) else 0)"

text \<open>A turn of the stop timer. \<^verbatim>\<open>clear\<close> and \<^verbatim>\<open>close\<close> of the loop concern the loop object only, whose errors nobody listens to.\<close>

definition stop_tick :: "uv_env \<Rightarrow> hid list \<Rightarrow> uaddr list \<Rightarrow> server \<Rightarrow> server res" where
  "stop_tick U order uorder s =
     (if \<not> sv_isStop s then Inr s
      else case sv_server s of None \<Rightarrow> Inl UB
      | Some h \<Rightarrow>
        let s = (if rl_closing (sv_relay s) h then s else shut_down U order uorder h s) in
        if open_handles s \<noteq> 1 then Inr s
        else
          let (_, s) = sv_do U (SvTimerStop (sv_timer s)) s; s = sv_close (sv_timer s) s
          in Inr (s\<lparr>sv_relay := (sv_relay s)\<lparr>rl_cipher := \<lparr>ce_crypto = None\<rparr>\<rparr>, sv_stopped := True, sv_out := sv_out s @ [SvLoopStop]\<rparr>))"

definition plugin_exit :: "server \<Rightarrow> server" where
  "plugin_exit s = (case sv_plugin s of None \<Rightarrow> s | Some q \<Rightarrow> sv_close q s)"

section \<open>Events\<close>

datatype server_event = TcpEvent uv_callback | UdpEvent udp_callback | StopTick "hid list" "uaddr list" | PluginExit | StopRequest

definition server_step :: "system \<Rightarrow> server_event \<Rightarrow> server \<Rightarrow> server res" where
  "server_step Y ev s =
     (case ev of
        TcpEvent cb \<Rightarrow>
          bnd (cstring (pf_local_addr (sv_profile s))) (\<lambda>la.
          bnd (relay_step (sys_uv Y) (sys_lib Y) (string_of la) (pf_local_port (sv_profile s)) cb (sv_relay s)) (\<lambda>r.
            Inr (s\<lparr>sv_relay := r\<rparr>)))
      | UdpEvent cb \<Rightarrow>
          (case sv_udp s of None \<Rightarrow> Inr s
           | Some u \<Rightarrow>
             bnd (udp_step (sys_net Y) (sys_udp_uv Y) (sys_lib Y) cb (u\<lparr>ur_world := rl_world (sv_relay s)\<rparr>)) (\<lambda>u.
               Inr (s\<lparr>sv_udp := Some u, sv_relay := (sv_relay s)\<lparr>rl_world := ur_world u\<rparr>\<rparr>)))
      | StopTick order uorder \<Rightarrow> stop_tick (sys_uv Y) order uorder s
      | PluginExit \<Rightarrow> Inr (plugin_exit s)
      | StopRequest \<Rightarrow> Inr (stop_ssr_uv_local_server s))"

fun server_run :: "system \<Rightarrow> server_event list \<Rightarrow> server \<Rightarrow> server res" where
  "server_run Y [] s = Inr s"
| "server_run Y (ev # evs) s = bnd (server_step Y ev s) (server_run Y evs)"

section \<open>The thread\<close>

record SSThread =
  th_localPort :: int
  th_remotePort :: int
  th_timeout :: int
  th_mtu :: int
  th_mode :: int
  th_local_addr :: bytes
  th_remote_host :: bytes
  th_method :: bytes
  th_password :: bytes
  th_plugin :: bytes
  th_plugin_opts :: bytes
  th_key :: bytes
  th_ipv6first :: int
  th_verbose :: int

definition unless_empty :: "bytes \<Rightarrow> bytes option" where
  "unless_empty a = (if a = [] then None else Some a)"

definition SSThread_run :: "system \<Rightarrow> SSThread \<Rightarrow> server \<Rightarrow> (int \<times> server) res" where
  "SSThread_run Y t s = loopMain Y
     \<lparr>pf_remote_host = Some (th_remote_host t), pf_local_addr = unless_empty (th_local_addr t), pf_method = Some (th_method t),
      pf_password = Some (th_password t), pf_remote_port = th_remotePort t, pf_local_port = th_localPort t, pf_timeout = th_timeout t,
      pf_plugin = unless_empty (th_plugin t), pf_plugin_opts = unless_empty (th_plugin_opts t), pf_key = unless_empty (th_key t),
      pf_acl = None, pf_fast_open = 1, pf_mode = th_mode t, pf_mtu = th_mtu t, pf_verbose = th_verbose t, pf_ipv6first = th_ipv6first t\<rparr> s"

end
