(* ===== verification/SS_TcpHandles.thy ===== *)
theory SS_TcpHandles
  imports SS_TcpRelay
begin

text \<open>
  No handle of the TCP relay is forgotten: every handle it has opened is closing or belongs to a connection in its table,
  after any callbacks and whatever libuv answers. Most operations are \<open>quiet\<close>: they open no handle, keep the handles of
  every connection they keep, and close those of a connection they drop. Only a new client and the connection to the server open
  handles; that the latter does not replace an open one rests on the handshake's listeners being one-shot.
\<close>

section \<open>Quiet operations\<close>

definition conn_owns :: "ConnectionContext \<Rightarrow> hid \<Rightarrow> bool" where
  "conn_owns x h \<longleftrightarrow> h = cc_client x \<or> cc_remote x = Some h"

definition same_handles :: "ConnectionContext \<Rightarrow> ConnectionContext \<Rightarrow> bool" where
  "same_handles x y \<longleftrightarrow> cc_client x = cc_client y \<and> cc_remote x = cc_remote y"

definition handshaking :: "data_listener \<Rightarrow> bool" where
  "handshaking l \<longleftrightarrow> l = HandShakeReceive \<or> l = HandShakeSendCallBack \<or> l = ReadAllAddress"

definition once_of :: "relay \<Rightarrow> hid \<Rightarrow> (bool \<times> data_listener) list" where
  "once_of s h = h_onceL (em_data (rl_em s h))"

definition on_of :: "relay \<Rightarrow> hid \<Rightarrow> (bool \<times> data_listener) list" where
  "on_of s h = h_onL (em_data (rl_em s h))"

definition calm :: "relay \<Rightarrow> bool" where
  "calm s \<longleftrightarrow> (\<forall>h. \<forall>e \<in> set (on_of s h). \<not> handshaking (snd e))"

definition closes_in :: "hid set \<Rightarrow> relay \<Rightarrow> relay \<Rightarrow> bool" where
  "closes_in V s s' \<longleftrightarrow> rl_next s' = rl_next s \<and> (\<forall>h. rl_closing s h \<longrightarrow> rl_closing s' h) \<and>
     (\<forall>h. rl_closing s' h \<longrightarrow> rl_closing s h \<or> h \<in> V \<or> (\<exists>c x. rl_conns s c = Some x \<and> conn_owns x h)) \<and>
     (\<forall>c x'. rl_conns s' c = Some x' \<longrightarrow> (\<exists>x. rl_conns s c = Some x \<and> same_handles x' x)) \<and>
     (\<forall>c x. rl_conns s c = Some x \<longrightarrow> rl_conns s' c = None \<longrightarrow> (\<forall>h. conn_owns x h \<longrightarrow> rl_closing s' h)) \<and>
     (\<forall>h. length (once_of s' h) \<le> length (once_of s h)) \<and> (calm s \<longrightarrow> calm s')"

abbreviation quiet :: "relay \<Rightarrow> relay \<Rightarrow> bool" where
  "quiet \<equiv> closes_in {}"

lemma same_handles_owns: "same_handles x y \<Longrightarrow> conn_owns x h = conn_owns y h"
  by (simp add: same_handles_def conn_owns_def)

lemma same_handles_refl [simp]: "same_handles x x"
  by (simp add: same_handles_def)

lemma quiet_refl: "closes_in V s s"
  by (simp add: closes_in_def)

lemma quiet_trans:
  assumes "closes_in V s t" and "closes_in V t u"
  shows "closes_in V s u"
proof -
  have "rl_closing s h \<or> h \<in> V \<or> (\<exists>c x. rl_conns s c = Some x \<and> conn_owns x h)" if u: "rl_closing u h" for h
  proof -
    consider "rl_closing t h" | "h \<in> V" | c x where "rl_conns t c = Some x" "conn_owns x h"
      using assms(2) u unfolding closes_in_def by blast
    then show ?thesis
    proof cases
      case 1
      with assms(1) show ?thesis unfolding closes_in_def by blast
    next
      case (3 c x)
      then obtain y where "rl_conns s c = Some y" "same_handles x y"
        using assms(1) unfolding closes_in_def by blast
      with 3 same_handles_owns show ?thesis by blast
    qed simp
  qed
  moreover
  have "\<exists>x. rl_conns s c = Some x \<and> same_handles x' x" if "rl_conns u c = Some x'" for c x'
    using assms that unfolding closes_in_def same_handles_def by metis
  moreover have "rl_closing u h" if "rl_conns s c = Some x" "rl_conns u c = None" "conn_owns x h" for c x h
  proof (cases "rl_conns t c")
    case None
    with assms that show ?thesis unfolding closes_in_def by blast
  next
    case (Some y)
    then have "conn_owns y h"
      using assms(1) that same_handles_owns unfolding closes_in_def by (metis option.sel)
    with Some assms(2) that show ?thesis unfolding closes_in_def by blast
  qed
  moreover have "length (once_of u h) \<le> length (once_of s h)" for h
    using assms order_trans unfolding closes_in_def by blast
  moreover have "rl_next u = rl_next s" "\<forall>h. rl_closing s h \<longrightarrow> rl_closing u h" "calm s \<longrightarrow> calm u"
    using assms by (simp_all add: closes_in_def)
  ultimately show ?thesis
    unfolding closes_in_def by blast
qed

text \<open>An update of a handle's other handlers, and of its data handler as the operations change it.\<close>

lemma quiet_upd:
  assumes "\<And>e. length (h_onceL (em_data (f e))) \<le> length (h_onceL (em_data e))"
    and "\<And>e x. x \<in> set (h_onL (em_data (f e))) \<Longrightarrow> handshaking (snd x) \<Longrightarrow> \<exists>y \<in> set (h_onL (em_data e)). snd y = snd x"
  shows "closes_in V s (upd_em h f s)"
proof -
  have "calm (upd_em h f s)" if "calm s"
    using that assms(2) [of _ "rl_em s h"] unfolding calm_def upd_em_def on_of_def by (auto split: if_splits) (metis snd_conv)
  then show ?thesis
    using assms(1) by (simp add: closes_in_def upd_em_def once_of_def)
qed

lemma quiet_close: "h \<in> V \<Longrightarrow> closes_in V s (handle_close h s)"
  by (auto simp: closes_in_def handle_close_def once_of_def on_of_def calm_def)

lemma quiet_fields [simp]:
  "quiet s (s\<lparr>rl_calls := n\<rparr>)" "quiet s (s\<lparr>rl_out := k\<rparr>)" "quiet s (s\<lparr>rl_world := w\<rparr>)" "quiet s (s\<lparr>rl_address := a\<rparr>)"
  "quiet s (s\<lparr>rl_tx := t\<rparr>)" "quiet s (s\<lparr>rl_rx := t\<rparr>)"
  by (simp_all add: closes_in_def once_of_def on_of_def calm_def)

lemma quiet_put: "rl_conns s c = Some x \<Longrightarrow> same_handles x' x \<Longrightarrow> quiet s (put_context c x' s)"
  by (auto simp: closes_in_def put_context_def once_of_def on_of_def calm_def)

lemma quiet_clear: "closes_in V s (upd_em h emitter_clear s)"
  by (rule quiet_upd) (force simp: emitter_clear_def handler_clear_def split: if_splits)+

lemma panic_closes:
  "rl_conns (panic c s) = (rl_conns s)(c := None)"
  "rl_closing (panic c s) h \<longleftrightarrow> rl_closing s h \<or> (\<exists>x. rl_conns s c = Some x \<and> conn_owns x h)"
  by (auto simp: panic_def destroy_context_def Let_def conn_owns_def handle_close_def upd_em_def split: option.splits)

lemma quiet_destroy: "closes_in {h. conn_owns x h} s (destroy_context x s)"
proof -
  have step: "closes_in {h. conn_owns x h} t (handle_close h (upd_em h emitter_clear t))" if "conn_owns x h" for h t
    using that by (intro quiet_trans [OF quiet_clear quiet_close]) simp
  show ?thesis
    unfolding destroy_context_def Let_def
    using quiet_trans [OF step step] step by (auto simp: conn_owns_def split: option.splits)
qed

lemma quiet_panic: "quiet s (panic c s)"
proof (cases "rl_conns s c")
  case None
  then show ?thesis by (simp add: panic_def quiet_refl)
next
  case (Some x)
  let ?t = "s\<lparr>rl_conns := (rl_conns s)(c := None)\<rparr>"
  have "closes_in {h. conn_owns x h} ?t (panic c s)"
    using Some quiet_destroy by (simp add: panic_def)
  then have "rl_next (panic c s) = rl_next s" "\<forall>h. length (once_of (panic c s) h) \<le> length (once_of s h)" "calm s \<longrightarrow> calm (panic c s)"
    by (simp_all add: closes_in_def once_of_def on_of_def calm_def)
  then show ?thesis
    by (auto simp: closes_in_def panic_closes)
qed

lemma quiet_do: "uv_do U k s = (rc, s') \<Longrightarrow> quiet s s'"
  by (auto simp: uv_do_def Let_def intro: quiet_trans [OF quiet_fields(1) quiet_fields(2)] split: if_splits)

section \<open>Publishing\<close>

text \<open>What every listener does to the state, publishing does: for every reflexive and transitive relation.\<close>

definition runs_in :: "('s \<Rightarrow> 's \<Rightarrow> bool) \<Rightarrow> ('l \<Rightarrow> 's \<Rightarrow> 's res) \<Rightarrow> bool" where
  "runs_in R run \<longleftrightarrow> (\<forall>l s s'. run l s = Inr s' \<longrightarrow> R s s')"

locale step_order =
  fixes R :: "'s \<Rightarrow> 's \<Rightarrow> bool"
  assumes step_refl: "R s s"
    and step_trans: "R s t \<Longrightarrow> R t u \<Longrightarrow> R s u"
begin

lemma call_elem_step: "runs_in R run \<Longrightarrow> call_elem run e s = Inr s' \<Longrightarrow> R s s'"
  by (auto simp: call_elem_def runs_in_def step_refl split: if_splits)

lemma walk_on_step: "runs_in R run \<Longrightarrow> walk_on get run b s = Inr s' \<Longrightarrow> R s s'"
proof (induction b arbitrary: s)
  case (Suc b)
  then obtain t where "call_elem run (h_onL (get s) ! b) s = Inr t" "walk_on get run b t = Inr s'"
    by (auto simp: bnd_Inr_iff split: if_splits)
  then show ?case
    using Suc.IH [of t] Suc.prems(1) call_elem_step step_trans by blast
qed (simp add: step_refl)

lemma walk_current_step: "runs_in R run \<Longrightarrow> walk_current get run b s = Inr s' \<Longrightarrow> R s s'"
proof (induction b arbitrary: s)
  case (Suc b)
  then obtain cur t where "call_elem run (cur ! b) s = Inr t" "walk_current get run b t = Inr s'"
    by (auto simp: bnd_Inr_iff split: if_splits list.splits)
  then show ?case
    using Suc.IH [of t] Suc.prems(1) call_elem_step step_trans by blast
qed (simp add: step_refl)

lemma publish_on_step:
  assumes "runs_in R run" and "publish_on get run s = Inr s'"
  shows "R s s'"
proof (cases "h_onL (get s) = []")
  case True
  with assms(2) show ?thesis by (simp add: publish_on_def step_refl)
next
  case False
  then obtain t where "call_elem run (last (h_onL (get s))) s = Inr t" "walk_on get run (length (h_onL (get t)) - 1) t = Inr s'"
    using assms(2) by (auto simp: publish_on_def bnd_Inr_iff)
  then show ?thesis
    using call_elem_step [OF assms(1)] walk_on_step [OF assms(1)] step_trans by blast
qed

lemma publish_step:
  assumes "runs_in R run" and "\<forall>x s. R s (put x s)" and "handler_publish get put run s = Inr s'"
  shows "R s s'"
proof -
  define t where "t = put (take_once (get s)) s"
  obtain t1 t2 where t: "publish_on get run t = Inr t1" "walk_current get run (length (h_onceL (get s))) t1 = Inr t2"
    and s': "s' = put (settle (get t2)) t2"
    using assms(3) by (auto simp: handler_publish_def Let_def bnd_Inr_iff t_def)
  have "R s t" "R t2 s'"
    using assms(2) by (simp_all add: t_def s')
  then show ?thesis
    using publish_on_step [OF assms(1) t(1)] walk_current_step [OF assms(1) t(2)] step_trans by blast
qed

end

interpretation quiet_steps: step_order quiet
  by unfold_locales (fact quiet_refl, fact quiet_trans)

text \<open>The handlers of the events without data.\<close>

lemma quiet_other:
  "quiet s (upd_em h (\<lambda>e. e\<lparr>em_end := a\<rparr>) s)" "quiet s (upd_em h (\<lambda>e. e\<lparr>em_error := a\<rparr>) s)" "quiet s (upd_em h (\<lambda>e. e\<lparr>em_close := a\<rparr>) s)"
  "quiet s (upd_em h (\<lambda>e. e\<lparr>em_connect := a\<rparr>) s)" "quiet s (upd_em h (\<lambda>e. e\<lparr>em_write := a\<rparr>) s)"
  by (rule quiet_upd; auto)+

lemma quiet_register:
  "quiet s (end_once h c s)" "quiet s (error_once h c s)" "quiet s (close_once h c s)" "quiet s (connect_once h c s)" "quiet s (write_once h c s)"
  "\<not> handshaking l \<Longrightarrow> quiet s (data_on h l s)"
  unfolding end_once_def error_once_def close_once_def connect_once_def write_once_def data_on_def
  by (rule quiet_upd; auto simp: handler_on_def)+

lemma quiet_run_panic: "runs_in quiet run_panic"
  using quiet_panic by (auto simp: runs_in_def run_panic_def)

lemma quiet_publish_error: "publish_error h s = Inr s' \<Longrightarrow> quiet s s'"
  unfolding publish_error_def by (rule quiet_steps.publish_step [OF quiet_run_panic]) (simp_all add: quiet_other)

lemma quiet_publish_end: "publish_end h s = Inr s' \<Longrightarrow> quiet s s'"
  unfolding publish_end_def by (rule quiet_steps.publish_step [OF quiet_run_panic]) (simp_all add: quiet_other)

lemma quiet_publish_close: "publish_close h s = Inr s' \<Longrightarrow> quiet s s'"
  unfolding publish_close_def by (rule quiet_steps.publish_step [OF quiet_run_panic]) (simp_all add: quiet_other)

lemma quiet_tcp: "tcp_write U h d s = Inr s' \<Longrightarrow> quiet s s'" "tcp_connect U h a s = Inr s' \<Longrightarrow> quiet s s'" "tcp_read U h s = Inr s' \<Longrightarrow> quiet s s'"
  using quiet_trans [OF quiet_do quiet_publish_error] quiet_do
  by (auto simp: tcp_write_def tcp_connect_def tcp_read_def Let_def split: prod.splits if_splits)

section \<open>The stream is quiet\<close>

lemma context_of_Inr: "context_of c s = Inr x \<longleftrightarrow> rl_conns s c = Some x"
  by (auto simp: context_of_def split: option.splits)

lemma quiet_context:
  assumes "rl_conns s c = Some x" and "same_handles x' x"
  shows "quiet s (put_context c x' (s\<lparr>rl_world := w\<rparr>))"
proof (rule quiet_trans [OF quiet_fields(3)])
  show "quiet (s\<lparr>rl_world := w\<rparr>) (put_context c x' (s\<lparr>rl_world := w\<rparr>))"
    using assms by (intro quiet_put) simp_all
qed

lemma quiet_sockStream:
  assumes "sockStream U L event c s = Inr s'"
  shows "quiet s s'"
proof (cases "rl_closing s c \<or> rl_conns s c = None")
  case True
  then show ?thesis
    using assms by (auto simp: sockStream_def quiet_refl split: if_splits)
next
  case False
  then obtain x b where x: "rl_conns s c = Some x" "cc_remoteBuf x = Some b"
    using assms by (auto simp: sockStream_def split: if_splits option.splits)
  obtain b1 err b2 e w where "Buffer_copy (lib_heap L) b event = Inr b1"
    and enc: "Buffer_ssEncrypt L (rl_world s) (rl_cipher s) b1 (cc_e_ctx x) = Inr (err, b2, e, w)"
    using assms x False by (auto simp: sockStream_def Let_def bnd_Inr_iff)
  define x2 where "x2 = x\<lparr>cc_remoteBuf := Some b2, cc_e_ctx := e\<rparr>"
  define t where "t = put_context c x2 (s\<lparr>rl_tx := rl_tx s + of_nat (b_len b1), rl_world := w\<rparr>)"
  have t: "quiet s t"
    unfolding t_def by (rule quiet_trans [OF quiet_fields(5) quiet_context]) (simp_all add: x x2_def same_handles_def)
  have "quiet t s'"
  proof (cases "err \<noteq> 0 \<or> b_len b2 = 0")
    case True
    then have "s' = panic c t \<or> s' = t"
      using assms x False enc \<open>Buffer_copy _ _ _ = _\<close> by (auto simp: sockStream_def Let_def t_def x2_def split: if_splits)
    then show ?thesis
      using quiet_panic quiet_refl by auto
  next
    case errfree: False
    then obtain r d u where u: "tcp_write U r d t = Inr u"
      and s': "s' = (case rl_conns u c of None \<Rightarrow> u | Some x \<Rightarrow> put_context c (x\<lparr>cc_remoteBuf := map_option Buffer_clear (cc_remoteBuf x)\<rparr>) u)"
      using assms x False enc \<open>Buffer_copy _ _ _ = _\<close>
      by (auto simp: sockStream_def Let_def t_def x2_def bnd_Inr_iff split: if_splits option.splits)
    have "quiet u s'"
      unfolding s' by (auto simp: quiet_refl same_handles_def intro!: quiet_put split: option.splits)
    then show ?thesis
      using quiet_tcp(1) [OF u] quiet_trans by blast
  qed
  with t show ?thesis by (rule quiet_trans)
qed

lemma quiet_remoteRecv_round:
  assumes "remoteRecv_round U L c seg s = Inr (go, s')"
  shows "quiet s s'"
proof -
  obtain x b err b2 d w where x: "rl_conns s c = Some x"
    and "Buffer_copyFromBegin (lib_heap L) (Buffer_bufRealloc (lib_heap L) (cc_localBuf x) BUF_DEFAULT_CAPACITY) seg (length seg) = Inr b"
    and "Buffer_ssDecrypt L (rl_world s) (rl_cipher s) b (cc_d_ctx x) = Inr (err, b2, d, w)"
    using assms by (auto simp: remoteRecv_round_def Let_def bnd_Inr_iff context_of_Inr)
  note facts = this
  define x2 where "x2 = x\<lparr>cc_localBuf := b2, cc_d_ctx := d\<rparr>"
  define t where "t = put_context c x2 (s\<lparr>rl_world := w\<rparr>)"
  have x2: "same_handles x2 x" "rl_conns t c = Some x2"
    by (simp_all add: x2_def same_handles_def t_def put_context_def)
  then have t: "quiet s t"
    unfolding t_def using quiet_context [OF x] by simp
  consider "s' = panic (cc_client x2) t" | "s' = put_context c (x2\<lparr>cc_localBuf := Buffer_clear b2\<rparr>) t"
    | p u y where "tcp_write U (cc_client x2) p t = Inr u" "rl_conns u c = Some y" "s' = put_context c (y\<lparr>cc_localBuf := Buffer_clear (cc_localBuf y)\<rparr>) u"
    using assms facts by (auto simp: remoteRecv_round_def Let_def context_of_Inr bnd_Inr_iff t_def x2_def split: if_splits)
  then have "quiet t s'"
  proof cases
    case 3
    have "quiet u s'"
      unfolding 3 by (rule quiet_put [OF 3(2)]) (simp add: same_handles_def)
    then show ?thesis
      using quiet_tcp(1) [OF 3(1)] quiet_trans by blast
  qed (use x2 in \<open>auto intro: quiet_panic quiet_put simp: same_handles_def\<close>)
  with t show ?thesis by (rule quiet_trans)
qed

lemma quiet_remoteRecv_loop: "remoteRecv_loop U L c data s = Inr s' \<Longrightarrow> quiet s s'"
proof (induction "length data" arbitrary: data s rule: less_induct)
  case less
  show ?case
  proof (cases "data = []")
    case True
    with less.prems show ?thesis by (simp add: remoteRecv_loop.simps quiet_refl)
  next
    case False
    then obtain go t where t: "remoteRecv_round U L c (take BUF_DEFAULT_CAPACITY data) s = Inr (go, t)"
      "(if go then remoteRecv_loop U L c (drop BUF_DEFAULT_CAPACITY data) t else Inr t) = Inr s'"
      using less.prems by (subst (asm) remoteRecv_loop.simps) (auto simp: bnd_Inr_iff)
    have "quiet t s'"
      using t(2) less.hyps [of "drop BUF_DEFAULT_CAPACITY data" t] False by (auto simp: quiet_refl split: if_splits)
    with quiet_remoteRecv_round [OF t(1)] show ?thesis by (rule quiet_trans)
  qed
qed

lemma quiet_remoteRecv: "remoteRecv U L c event r s = Inr s' \<Longrightarrow> quiet s s'"
  using quiet_trans [OF quiet_fields(6) quiet_remoteRecv_loop] by (auto simp: remoteRecv_def quiet_refl split: if_splits)

lemma quiet_remoteConnected:
  assumes "remoteConnected U L h c s = Inr s'"
  shows "quiet s s'"
proof -
  obtain s1 x1 s2 x where s2: "tcp_read U h s = Inr s1" "tcp_write U (cc_client x1) [5, 0, 0, 1, 0, 0, 0, 0, 0, 0] s1 = Inr s2"
    and x: "rl_conns s2 c = Some x" and x1: "rl_conns s1 c = Some x1"
    using assms by (auto simp: remoteConnected_def bnd_Inr_iff context_of_Inr)
  obtain b0 b1 err b e w where bufs: "Buffer_newBuf (lib_heap L) = Inr b0" "Buffer_copy_buffer b0 (cc_localBuf x) = Inr b1"
    "Buffer_ssEncrypt L (rl_world s2) (rl_cipher s2) b1 (cc_e_ctx x) = Inr (err, b, e, w)"
    using assms s2 x1 x by (auto simp: remoteConnected_def bnd_Inr_iff context_of_Inr Let_def)
  define x2 where "x2 = x\<lparr>cc_localBuf := Buffer_clear (cc_localBuf x), cc_remoteBuf := Some b, cc_e_ctx := e\<rparr>"
  define t where "t = put_context c x2 (s2\<lparr>rl_world := w\<rparr>)"
  have t: "quiet s2 t"
    unfolding t_def by (rule quiet_context [OF x]) (simp add: x2_def same_handles_def)
  consider "s' = panic (cc_client x2) t" | r d where "tcp_write U r d (write_once r c t) = Inr s'"
    using assms s2 x1 x bufs by (auto simp: remoteConnected_def bnd_Inr_iff context_of_def Let_def t_def x2_def split: if_splits option.splits)
  then have "quiet t s'"
    by cases (auto intro: quiet_panic quiet_trans [OF quiet_register(5) quiet_tcp(1)])
  then show ?thesis
    using t s2 quiet_tcp quiet_trans by meson
qed

lemma quiet_remoteWritten:
  assumes "remoteWritten c s = Inr s'"
  shows "quiet s s'"
proof -
  obtain x b where x: "rl_conns s c = Some x" "s' = put_context c (x\<lparr>cc_remoteBuf := Some (Buffer_clear b)\<rparr>) (data_on (cc_client x) SockStream s)"
    using assms by (auto simp: remoteWritten_def bnd_Inr_iff context_of_Inr Let_def split: option.splits)
  have "quiet (data_on (cc_client x) SockStream s) s'"
    unfolding x by (rule quiet_put [of _ _ x]) (use x(1) in \<open>simp_all add: same_handles_def data_on_def upd_em_def\<close>)
  then show ?thesis
    using quiet_register(6) [of SockStream] quiet_trans by (simp add: handshaking_def) blast
qed

lemma quiet_publish_connect: "publish_connect U L h s = Inr s' \<Longrightarrow> quiet s s'"
  unfolding publish_connect_def
  by (rule quiet_steps.publish_step [of "remoteConnected U L h"]) (simp_all add: quiet_other runs_in_def quiet_remoteConnected)

lemma quiet_publish_write: "publish_write h s = Inr s' \<Longrightarrow> quiet s s'"
  unfolding publish_write_def
  by (rule quiet_steps.publish_step [of remoteWritten]) (simp_all add: quiet_other runs_in_def quiet_remoteWritten)

section \<open>The invariant\<close>

text \<open>
  \<open>base\<close> are the handles of the loop that are not the relay's (timer, listening socket, plugin); the loop's handles start with \<open>fst\<close>.
\<close>

definition keyed_conns :: "hid set \<Rightarrow> relay \<Rightarrow> bool" where
  "keyed_conns base s \<longleftrightarrow> (\<forall>c x. rl_conns s c = Some x \<longrightarrow> cc_client x = c \<and> (\<forall>h. conn_owns x h \<longrightarrow> h < rl_next s \<and> h \<notin> base))"

definition handles_owned :: "hid \<Rightarrow> hid set \<Rightarrow> relay \<Rightarrow> bool" where
  "handles_owned lo base s \<longleftrightarrow>
     (\<forall>h. lo \<le> h \<longrightarrow> h < rl_next s \<longrightarrow> rl_closing s h \<or> h \<in> base \<or> (\<exists>c x. rl_conns s c = Some x \<and> conn_owns x h))"

text \<open>While a handshake's listener waits, the connection has no remote handle.\<close>

definition handshake_first :: "relay \<Rightarrow> bool" where
  "handshake_first s \<longleftrightarrow> calm s \<and> (\<forall>h. length (once_of s h) \<le> 1) \<and>
     (\<forall>c x. rl_conns s c = Some x \<longrightarrow> once_of s c \<noteq> [] \<longrightarrow> cc_remote x = None)"

text \<open>\<open>K\<close> tells which handles of \<open>base\<close> are closing; the relay leaves them as they are.\<close>

definition tcp_inv :: "hid \<Rightarrow> hid set \<Rightarrow> (hid \<Rightarrow> bool) \<Rightarrow> relay \<Rightarrow> bool" where
  "tcp_inv lo base K s \<longleftrightarrow> keyed_conns base s \<and> handles_owned lo base s \<and> handshake_first s \<and> base \<subseteq> {..<rl_next s} \<and>
     (\<forall>h \<in> base. rl_closing s h = K h)"

lemma keyed_connsD:
  assumes "keyed_conns base s" and "rl_conns s c = Some x"
  shows "cc_client x = c" and "conn_owns x h \<Longrightarrow> h < rl_next s" and "conn_owns x h \<Longrightarrow> h \<notin> base"
  using assms by (auto simp: keyed_conns_def)

lemma quiet_keyed:
  assumes "closes_in V s s'" and "keyed_conns base s"
  shows "keyed_conns base s'"
  unfolding keyed_conns_def
proof (intro allI impI)
  fix c x'
  assume "rl_conns s' c = Some x'"
  then obtain x where x: "rl_conns s c = Some x" "same_handles x' x"
    using assms(1) unfolding closes_in_def by blast
  have "rl_next s' = rl_next s"
    using assms(1) by (simp add: closes_in_def)
  then show "cc_client x' = c \<and> (\<forall>h. conn_owns x' h \<longrightarrow> h < rl_next s' \<and> h \<notin> base)"
    using keyed_connsD [OF assms(2) x(1)] x(2) same_handles_owns [OF x(2)] by (simp add: same_handles_def)
qed

lemma quiet_owned:
  assumes "closes_in V s s'" and "handles_owned lo base s"
  shows "handles_owned lo base s'"
  unfolding handles_owned_def
proof (intro allI impI)
  fix h
  assume "lo \<le> h" "h < rl_next s'"
  then have "rl_closing s h \<or> h \<in> base \<or> (\<exists>c x. rl_conns s c = Some x \<and> conn_owns x h)"
    using assms by (simp add: handles_owned_def closes_in_def)
  then consider "rl_closing s' h" | "h \<in> base" | c x where "rl_conns s c = Some x" "conn_owns x h"
    using assms(1) unfolding closes_in_def by blast
  then show "rl_closing s' h \<or> h \<in> base \<or> (\<exists>c x. rl_conns s' c = Some x \<and> conn_owns x h)"
  proof cases
    case 3
    show ?thesis
    proof (cases "rl_conns s' c")
      case None
      with 3 assms(1) show ?thesis unfolding closes_in_def by blast
    next
      case (Some y)
      then have "conn_owns y h"
        using 3 assms(1) same_handles_owns unfolding closes_in_def by (metis option.sel)
      with Some show ?thesis by blast
    qed
  qed auto
qed

lemma quiet_first:
  assumes "closes_in V s s'" and "handshake_first s"
  shows "handshake_first s'"
proof -
  have "length (once_of s' h) \<le> length (once_of s h)" for h
    using assms(1) by (simp add: closes_in_def)
  moreover have "\<exists>x. rl_conns s c = Some x \<and> cc_remote x' = cc_remote x" if "rl_conns s' c = Some x'" for c x'
    using assms(1) that unfolding closes_in_def same_handles_def by blast
  moreover have "calm s'"
    using assms by (simp add: closes_in_def handshake_first_def)
  ultimately show ?thesis
    using assms(2) unfolding handshake_first_def by (metis le_zero_eq length_0_conv order_trans)
qed

lemma closes_inv:
  assumes "closes_in V s s'" and "V \<inter> base = {}" and "tcp_inv lo base K s"
  shows "tcp_inv lo base K s'"
proof -
  have "rl_closing s' h = rl_closing s h" if "h \<in> base" for h
  proof -
    have "\<not> conn_owns x h" if "rl_conns s c = Some x" for c x
      using keyed_connsD(3) [of base s c x h] that \<open>h \<in> base\<close> assms(3) by (auto simp: tcp_inv_def)
    then show ?thesis
      using assms(1,2) that unfolding closes_in_def by blast
  qed
  moreover have "rl_next s' = rl_next s"
    using assms(1) by (simp add: closes_in_def)
  ultimately show ?thesis
    using quiet_keyed [OF assms(1)] quiet_owned [OF assms(1)] quiet_first [OF assms(1)] assms(3) by (simp add: tcp_inv_def)
qed

lemmas quiet_inv = closes_inv [of "{}", OF _ Int_empty_left]

lemma close_inv: "c \<notin> base \<Longrightarrow> tcp_inv lo base K s \<Longrightarrow> tcp_inv lo base K (handle_close c s)"
  by (rule closes_inv [of "{c}"]) (simp_all add: quiet_close)

text \<open>A handshake's listener runs: no other one waits, and there is no remote handle.\<close>

definition ready_for :: "hid \<Rightarrow> relay \<Rightarrow> bool" where
  "ready_for c s \<longleftrightarrow> once_of s c = [] \<and> (\<forall>x. rl_conns s c = Some x \<longrightarrow> cc_remote x = None)"

lemma quiet_ready: "quiet s s' \<Longrightarrow> ready_for c s \<Longrightarrow> ready_for c s'"
  unfolding ready_for_def closes_in_def same_handles_def by (metis le_zero_eq length_0_conv)

lemma data_once_inv:
  assumes "tcp_inv lo base K s" and "ready_for c s"
  shows "tcp_inv lo base K (data_once c l s)"
proof -
  have "once_of (data_once c l s) h = (if h = c then [(False, l)] else once_of s h)" for h
    using assms(2) by (simp add: once_of_def data_once_def upd_em_def handler_once_def ready_for_def)
  moreover have "on_of (data_once c l s) h = on_of s h" "rl_conns (data_once c l s) = rl_conns s" "rl_next (data_once c l s) = rl_next s"
    "rl_closing (data_once c l s) = rl_closing s" for h
    by (simp_all add: on_of_def data_once_def upd_em_def handler_once_def)
  ultimately show ?thesis
    using assms by (auto simp: tcp_inv_def keyed_conns_def handles_owned_def handshake_first_def calm_def ready_for_def)
qed

text \<open>A new handle that is given to the connection of client \<open>c\<close>, which may be the handle itself.\<close>

lemma new_handle_inv:
  assumes inv: "tcp_inv lo base K s" and new: "new_handle U s = (Some r, t)" and c: "c = r \<and> x' = x \<and> cc_client x = r \<and> cc_remote x = None \<or>
      c \<noteq> r \<and> rl_conns s c = Some x \<and> ready_for c s \<and> x' = x\<lparr>cc_remote := Some r\<rparr>"
  shows "tcp_inv lo base K (put_context c x' t)" and "c = r \<Longrightarrow> ready_for c (put_context c x' t)"
proof -
  let ?t = "put_context c x' t"
  have r: "r = rl_next s" "rl_next t = Suc r" "rl_closing t = (rl_closing s)(r := False)" "rl_conns t = rl_conns s"
    "rl_em t = (rl_em s)(r := new_emitter)"
    using new by (auto simp: new_handle_def Let_def split: if_splits)
  have none: "rl_conns s r = None"
    using inv r(1) by (cases "rl_conns s r") (fastforce simp: tcp_inv_def keyed_conns_def conn_owns_def)+
  have conns: "rl_conns ?t = (rl_conns s)(c \<mapsto> x')" and nx: "rl_next ?t = Suc (rl_next s)" and cl: "rl_closing ?t = (rl_closing s)(r := False)"
    using r by (simp_all add: put_context_def)
  have lists: "once_of ?t h = (if h = r then [] else once_of s h)" "on_of ?t h = (if h = r then [] else on_of s h)" for h
    using r by (simp_all add: once_of_def on_of_def put_context_def new_emitter_def new_handler_def)
  have base: "r \<notin> base" "base \<subseteq> {..<Suc (rl_next s)}"
    using inv r(1) by (auto simp: tcp_inv_def)
  have owns: "conn_owns x' r" and "cc_client x' = c"
    using c inv by (auto simp: conn_owns_def tcp_inv_def keyed_conns_def)
  have "h = r \<or> h < rl_next s \<and> h \<notin> base" if "conn_owns x' h" for h
  proof (cases "h = r")
    case False
    then have "rl_conns s c = Some x" "conn_owns x h"
      using that c by (auto simp: conn_owns_def)
    then show ?thesis
      using inv keyed_connsD(2,3) by (auto simp: tcp_inv_def)
  qed simp
  then have "keyed_conns base ?t"
    using inv base r(1) \<open>cc_client x' = c\<close> unfolding keyed_conns_def tcp_inv_def conns nx
    by (auto split: if_splits simp: less_Suc_eq; blast)
  moreover have "handles_owned lo base ?t"
    unfolding handles_owned_def
  proof (intro allI impI)
    fix h
    assume h: "lo \<le> h" "h < rl_next ?t"
    show "rl_closing ?t h \<or> h \<in> base \<or> (\<exists>c x. rl_conns ?t c = Some x \<and> conn_owns x h)"
    proof (cases "h = r")
      case True
      then show ?thesis using owns conns by auto
    next
      case False
      then have "rl_closing s h \<or> h \<in> base \<or> (\<exists>c x. rl_conns s c = Some x \<and> conn_owns x h)"
        using h inv r(1) nx by (simp add: tcp_inv_def handles_owned_def less_Suc_eq)
      then consider "rl_closing s h" | "h \<in> base" | d y where "rl_conns s d = Some y" "conn_owns y h"
        by blast
      then show ?thesis
      proof cases
        case (3 d y)
        have "conn_owns x' h" if "d = c"
          using that 3 c none by (auto simp: conn_owns_def ready_for_def)
        then show ?thesis
          using 3 conns by (cases "d = c") auto
      qed (use False cl in auto)
    qed
  qed
  moreover have "handshake_first ?t"
    using inv c none unfolding handshake_first_def tcp_inv_def calm_def conns lists by (auto simp: ready_for_def)
  moreover have "\<forall>h \<in> base. rl_closing ?t h = K h"
    using inv base cl by (auto simp: tcp_inv_def)
  ultimately show "tcp_inv lo base K ?t"
    using base nx by (simp add: tcp_inv_def)
  show "ready_for c ?t" if "c = r"
    using that c lists conns by (auto simp: ready_for_def)
qed

section \<open>The handshake keeps the invariant\<close>

lemma quiet_connectRemote:
  assumes "connectRemote U c s = Inr s'"
  shows "quiet s s'"
proof -
  consider "s' = s" | r t where "tcp_connect U r (rl_remoteAddr s) s = Inr t" "s' = connect_once r c (data_on r (RemoteRecv c) t)"
    using assms by (auto simp: connectRemote_def bnd_Inr_iff split: option.splits)
  then show ?thesis
  proof cases
    case 2
    have "quiet t (data_on r (RemoteRecv c) t)"
      by (rule quiet_register(6)) (simp add: handshaking_def)
    then show ?thesis
      using quiet_trans [OF quiet_tcp(2) [OF 2(1)] quiet_trans [OF _ quiet_register(4)]] 2(2) by simp
  qed (simp add: quiet_refl)
qed

lemma startConnect_inv:
  assumes "tcp_inv lo base K s" and "ready_for c s" and "startConnect U c s = Inr s'"
  shows "tcp_inv lo base K s'"
proof -
  obtain x r t where x: "rl_conns s c = Some x" and r: "new_handle U s = (Some r, t)"
    and s': "connectRemote U c (end_once r c (close_once r c (error_once r c (put_context c (x\<lparr>cc_remote := Some r\<rparr>) t)))) = Inr s'"
    using assms(3) by (cases "new_handle U s") (auto simp: startConnect_def bnd_Inr_iff context_of_Inr Let_def split: option.splits)
  have "r = rl_next s"
    using r by (auto simp: new_handle_def Let_def split: if_splits)
  moreover have "c < rl_next s"
    using assms(1) keyed_connsD(2) [of base s c x c] keyed_connsD(1) [of base s c x] x by (simp add: tcp_inv_def conn_owns_def)
  ultimately have "tcp_inv lo base K (put_context c (x\<lparr>cc_remote := Some r\<rparr>) t)"
    using new_handle_inv(1) [OF assms(1) r, of c _ x] x assms(2) by simp
  from quiet_inv [OF quiet_connectRemote [OF s'] quiet_inv [OF quiet_register(1) quiet_inv [OF quiet_register(3) quiet_inv [OF quiet_register(2) this]]]]
  show ?thesis .
qed

lemma ready_inv_quiet: "tcp_inv lo base K s \<and> ready_for c s \<Longrightarrow> quiet s s' \<Longrightarrow> tcp_inv lo base K s' \<and> ready_for c s'"
  using quiet_inv quiet_ready by blast

lemma construct_cipher_keeps:
  assumes "construct_cipher L x s = Inr (x', s')"
  shows "same_handles x' x" and "\<exists>w. s' = s\<lparr>rl_world := w\<rparr>"
proof -
  have "\<exists>w. s = s\<lparr>rl_world := w\<rparr>"
    by (rule exI [of _ "rl_world s"]) simp
  with assms show "same_handles x' x" "\<exists>w. s' = s\<lparr>rl_world := w\<rparr>"
    by (auto simp: construct_cipher_def same_handles_def bnd_Inr_iff split: option.splits if_splits)
qed

lemma addressComplete_inv:
  assumes inv: "tcp_inv lo base K s \<and> ready_for c s" and "rl_conns s c = Some y" and "same_handles x y" and "addressComplete U L c x s = Inr s'"
  shows "tcp_inv lo base K s'"
proof -
  obtain b x2 t where "construct_cipher L (x\<lparr>cc_localBuf := b\<rparr>) s = Inr (x2, t)" and s': "startConnect U c (put_context c x2 t) = Inr s'"
    using assms(4) by (auto simp: addressComplete_def bnd_Inr_iff)
  from construct_cipher_keeps [OF this(1)] obtain w where "same_handles x2 y" "t = s\<lparr>rl_world := w\<rparr>"
    using assms(3) by (auto simp: same_handles_def)
  then have "quiet s (put_context c x2 t)"
    using quiet_context [OF assms(2)] by simp
  from ready_inv_quiet [OF inv this] startConnect_inv [OF _ _ s'] show ?thesis by blast
qed

lemma readAllAddress_inv:
  assumes inv: "tcp_inv lo base K s \<and> ready_for c s" and "readAllAddress U L event c s = Inr s'"
  shows "tcp_inv lo base K s'"
proof -
  obtain x b ok a where x: "rl_conns s c = Some x"
    and s': "(if ok then addressComplete U L c (x\<lparr>cc_localBuf := b\<rparr>) ((put_context c (x\<lparr>cc_localBuf := b\<rparr>) s)\<lparr>rl_address := a\<rparr>)
      else Inr (data_once c ReadAllAddress ((put_context c (x\<lparr>cc_localBuf := b\<rparr>) s)\<lparr>rl_address := a\<rparr>))) = Inr s'"
    using assms(2) by (auto simp: readAllAddress_def bnd_Inr_iff context_of_Inr Let_def)
  let ?x = "x\<lparr>cc_localBuf := b\<rparr>" and ?t = "(put_context c (x\<lparr>cc_localBuf := b\<rparr>) s)\<lparr>rl_address := a\<rparr>"
  have "quiet s ?t"
    by (rule quiet_trans [OF quiet_put [OF x] quiet_fields(4)]) (simp add: same_handles_def)
  from ready_inv_quiet [OF inv this] have t: "tcp_inv lo base K ?t \<and> ready_for c ?t" .
  have "rl_conns ?t c = Some ?x"
    by (simp add: put_context_def)
  from addressComplete_inv [OF t this same_handles_refl] data_once_inv [of lo base K ?t c] t s' show ?thesis
    by (cases ok) auto
qed

lemma handShakeReceive_inv:
  assumes inv: "tcp_inv lo base K s \<and> ready_for c s" and c: "c \<notin> base" and "handShakeReceive U event c s = Inr s'"
  shows "tcp_inv lo base K s'"
proof -
  consider t where "tcp_write U c [5, 0] s = Inr t" "s' = data_once c HandShakeSendCallBack t"
    | t where "tcp_write U c [5, 0] s = Inr t \<or> t = s" "s' = handle_close c t"
    using assms(3) by (cases "1 < length event") (auto simp: handShakeReceive_def bnd_Inr_iff split: if_splits)
  then show ?thesis
  proof cases
    case 1
    from ready_inv_quiet [OF inv quiet_tcp(1) [OF 1(1)]] show ?thesis
      using data_once_inv 1(2) by blast
  next
    case 2
    then have "quiet s t"
      using quiet_tcp(1) quiet_refl by blast
    then show ?thesis
      using 2(2) inv c quiet_inv close_inv by blast
  qed
qed

lemma handShakeSendCallBack_inv:
  assumes inv: "tcp_inv lo base K s \<and> ready_for c s" and c: "c \<notin> base" and "handShakeSendCallBack U L la lp event c s = Inr s'"
  shows "tcp_inv lo base K s'"
proof -
  obtain x b where x: "rl_conns s c = Some x" and "Buffer_copy (lib_heap L) (cc_localBuf x) event = Inr b"
    using assms(3) by (auto simp: handShakeSendCallBack_def bnd_Inr_iff context_of_Inr split: if_splits)
  note facts = this
  define y where "y = x\<lparr>cc_localBuf := b\<rparr>"
  define t where "t = put_context c y s"
  have y: "rl_conns t c = Some y" "rl_conns (t\<lparr>rl_address := a\<rparr>) c = Some y" for a
    by (simp_all add: t_def put_context_def)
  have "quiet s t"
    unfolding t_def by (rule quiet_put [OF x]) (simp add: y_def same_handles_def)
  from ready_inv_quiet [OF inv this] have t: "tcp_inv lo base K t \<and> ready_for c t" .
  consider a where "addressComplete U L c y (t\<lparr>rl_address := a\<rparr>) = Inr s'" | a where "s' = data_once c ReadAllAddress (t\<lparr>rl_address := a\<rparr>)"
    | "udpAsscResponse U L la lp c t = Inr s'" | "s' = handle_close c t" | l where "s' = data_once c l t"
    using assms(3) facts by (auto simp: handShakeSendCallBack_def bnd_Inr_iff context_of_def Let_def t_def y_def split: if_splits)
  then show ?thesis
  proof cases
    case (1 a)
    from addressComplete_inv [OF ready_inv_quiet [OF t quiet_fields(4)] y(2) same_handles_refl 1] show ?thesis .
  next
    case (2 a)
    with ready_inv_quiet [OF t quiet_fields(4)] data_once_inv show ?thesis by blast
  next
    case 3
    then have "quiet t s'"
      unfolding udpAsscResponse_def Let_def by (rule quiet_tcp(1))
    then show ?thesis
      using t quiet_inv by blast
  next
    case 4
    then show ?thesis using t c close_inv by blast
  next
    case 5
    then show ?thesis using t data_once_inv by blast
  qed
qed

section \<open>Callbacks keep the invariant\<close>

lemma run_data_quiet: "\<not> handshaking l \<Longrightarrow> run_data U L la lp event h l s = Inr s' \<Longrightarrow> quiet s s'"
  by (cases l) (auto simp: run_data_def handshaking_def quiet_sockStream quiet_remoteRecv)

lemma run_data_inv:
  assumes "tcp_inv lo base K s \<and> ready_for h s" and "h \<notin> base" and "run_data U L la lp event h l s = Inr s'"
  shows "tcp_inv lo base K s'"
proof (cases l)
  case HandShakeReceive
  then show ?thesis using assms handShakeReceive_inv by (simp add: run_data_def)
next
  case HandShakeSendCallBack
  then show ?thesis using assms handShakeSendCallBack_inv by (simp add: run_data_def)
next
  case ReadAllAddress
  then show ?thesis using assms readAllAddress_inv by (simp add: run_data_def)
qed (use assms quiet_inv [OF run_data_quiet [OF _ assms(3)]] in \<open>auto simp: handshaking_def\<close>)

text \<open>Only listeners outside the handshake are long-lived.\<close>

lemma walk_data:
  assumes "calm s" and "walk_on (\<lambda>s. em_data (rl_em s h)) (run_data U L la lp event h) b s = Inr s'"
  shows "quiet s s'"
  using assms
proof (induction b arbitrary: s)
  case (Suc b)
  let ?e = "h_onL (em_data (rl_em s h)) ! b"
  obtain t where b: "b < length (h_onL (em_data (rl_em s h)))" and t: "call_elem (run_data U L la lp event h) ?e s = Inr t"
    "walk_on (\<lambda>s. em_data (rl_em s h)) (run_data U L la lp event h) b t = Inr s'"
    using Suc.prems by (auto simp: bnd_Inr_iff split: if_splits)
  have "\<not> handshaking (snd ?e)"
    using Suc.prems(1) nth_mem [OF b] unfolding calm_def on_of_def by blast
  then have q: "quiet s t"
    using t(1) run_data_quiet by (auto simp: call_elem_def quiet_refl split: if_splits)
  then have "calm t"
    using Suc.prems(1) by (simp add: closes_in_def)
  from quiet_trans [OF q Suc.IH [OF this t(2)]] show ?case .
qed (simp add: quiet_refl)

lemma publish_on_data:
  assumes "calm s" and "publish_on (\<lambda>s. em_data (rl_em s h)) (run_data U L la lp event h) s = Inr s'"
  shows "quiet s s'"
proof (cases "h_onL (em_data (rl_em s h)) = []")
  case True
  with assms(2) show ?thesis by (simp add: publish_on_def quiet_refl)
next
  case False
  let ?e = "last (h_onL (em_data (rl_em s h)))"
  obtain t b where t: "call_elem (run_data U L la lp event h) ?e s = Inr t"
    "walk_on (\<lambda>s. em_data (rl_em s h)) (run_data U L la lp event h) b t = Inr s'"
    using False assms(2) by (auto simp: publish_on_def bnd_Inr_iff)
  have "\<not> handshaking (snd ?e)"
    using assms(1) last_in_set [OF False] unfolding calm_def on_of_def by blast
  then have q: "quiet s t"
    using t(1) run_data_quiet by (auto simp: call_elem_def quiet_refl split: if_splits)
  then have "calm t"
    using assms(1) by (simp add: closes_in_def)
  from quiet_trans [OF q walk_data [OF this t(2)]] show ?thesis .
qed

lemma publish_data_inv:
  assumes inv: "tcp_inv lo base K s" and "h \<notin> base" and "publish_data U L la lp event h s = Inr s'"
  shows "tcp_inv lo base K s'"
proof -
  let ?put = "\<lambda>x. upd_em h (\<lambda>e. e\<lparr>em_data := x\<rparr>)" and ?run = "run_data U L la lp event h"
  define t where "t = ?put (take_once (em_data (rl_em s h))) s"
  obtain t1 t2 where t1: "publish_on (\<lambda>s. em_data (rl_em s h)) ?run t = Inr t1"
    and t2: "walk_current (\<lambda>s. em_data (rl_em s h)) ?run (length (once_of s h)) t1 = Inr t2"
    and s': "s' = ?put (settle (em_data (rl_em t2 h))) t2"
    using assms(3) by (auto simp: publish_data_def handler_publish_def Let_def bnd_Inr_iff t_def once_of_def)
  have "quiet s t"
    by (auto simp: t_def closes_in_def upd_em_def once_of_def on_of_def calm_def take_once_def)
  then have t: "tcp_inv lo base K t"
    using inv quiet_inv by blast
  have r: "ready_for h t" if "once_of s h \<noteq> []"
    using inv that by (auto simp: t_def ready_for_def once_of_def upd_em_def tcp_inv_def handshake_first_def take_once_def)
  have q1: "quiet t t1"
    using t publish_on_data [OF _ t1] by (simp add: tcp_inv_def handshake_first_def)
  have "tcp_inv lo base K t2"
  proof (cases "once_of s h")
    case Nil
    then show ?thesis using t2 t q1 quiet_inv by auto
  next
    case (Cons e es)
    then have "es = []"
      using inv by (auto simp: tcp_inv_def handshake_first_def dest: spec [of _ h])
    then obtain f where "call_elem ?run f t1 = Inr t2"
      using t2 Cons by (auto simp: bnd_Inr_iff split: list.splits if_splits)
    moreover have "tcp_inv lo base K t1 \<and> ready_for h t1"
      using ready_inv_quiet [OF _ q1] t r Cons by simp
    ultimately show ?thesis
      using run_data_inv [OF _ assms(2)] by (auto simp: call_elem_def split: if_splits)
  qed
  moreover have "quiet t2 s'"
    by (fastforce simp: s' closes_in_def upd_em_def once_of_def on_of_def calm_def settle_def)
  ultimately show ?thesis using quiet_inv by blast
qed

lemma onListen_inv:
  assumes inv: "tcp_inv lo base K s" and "onListen U L s = Inr s'"
  shows "tcp_inv lo base K s'"
proof -
  obtain c t x where c: "new_handle U s = (Some c, t)" and x: "cc_client x = c" "cc_remote x = None"
    and s': "tcp_read U c (snd (uv_do U (UvAccept c) (data_once c HandShakeReceive (error_once c c (close_once c c (put_context c x t)))))) = Inr s'"
    using assms(2) by (cases "new_handle U s") (force simp: onListen_def bnd_Inr_iff new_ConnectionContext_def Let_def split_def split: option.splits)
  let ?t = "error_once c c (close_once c c (put_context c x t))"
  have "tcp_inv lo base K (put_context c x t) \<and> ready_for c (put_context c x t)"
    using new_handle_inv [OF inv c, of c x x] x by simp
  then have "tcp_inv lo base K ?t \<and> ready_for c ?t"
    using ready_inv_quiet quiet_register(2,3) by meson
  then have "tcp_inv lo base K (data_once c HandShakeReceive ?t)"
    using data_once_inv by blast
  moreover have "quiet u (snd (uv_do U k u))" for k u
    using quiet_do [of U k u] by (metis prod.collapse)
  ultimately show ?thesis
    using quiet_inv quiet_tcp(3) [OF s'] by blast
qed

text \<open>The handle a read callback is about.\<close>

fun read_handle :: "uv_callback \<Rightarrow> hid set" where
  "read_handle (ReadCb h _ _) = {h}"
| "read_handle _ = {}"

lemma relay_step_inv:
  assumes "tcp_inv lo base K s" and "read_handle cb \<inter> base = {}" and "relay_step U L la lp cb s = Inr s'"
  shows "tcp_inv lo base K s'"
proof (cases "cb = ListenCb \<or> (\<exists>h n d. cb = ReadCb h n d \<and> n \<noteq> UV_EOF \<and> n > 0)")
  case True
  then show ?thesis
    using assms(2,3) publish_data_inv [OF assms(1)] onListen_inv [OF assms(1)] by (auto simp: relay_step_def readCallback_def)
next
  case False
  have "quiet s s'"
  proof (cases cb)
    case (ReadCb h n d)
    then show ?thesis
      using False assms(3) by (auto simp: relay_step_def readCallback_def quiet_publish_end quiet_publish_error quiet_refl split: if_splits)
  qed (use False assms(3) in \<open>auto simp: relay_step_def quiet_publish_error quiet_publish_close quiet_publish_connect quiet_publish_write
      split: if_splits\<close>)
  then show ?thesis using assms(1) quiet_inv by blast
qed

end
