(* ===== verification/SS_UdpHandles.thy ===== *)
theory SS_UdpHandles
  imports SS_UdpRelay SS_TcpHandles
begin

text \<open>
  No handle of the UDP relay is forgotten: every socket and timer it has opened is closing, or the server's, or belongs to a
  client in its table, after any callbacks and whatever libuv answers.
\<close>

definition uconn_owns :: "UDPConnectionContext \<Rightarrow> hid \<Rightarrow> bool" where
  "uconn_owns x h \<longleftrightarrow> h = uc_remote x \<or> h = uc_timer x"

definition udp_owned :: "udp_relay \<Rightarrow> bool" where
  "udp_owned s \<longleftrightarrow> (\<forall>h < ur_next s. ur_closing s h \<or> ur_server s = Some h \<or> (\<exists>a x. ur_cache s a = Some x \<and> uconn_owns x h))"

section \<open>Quiet operations\<close>

definition udp_quiet :: "udp_relay \<Rightarrow> udp_relay \<Rightarrow> bool" where
  "udp_quiet s s' \<longleftrightarrow> ur_next s' = ur_next s \<and> ur_server s' = ur_server s \<and> (\<forall>h. ur_closing s h \<longrightarrow> ur_closing s' h) \<and>
     (\<forall>a x h. ur_cache s a = Some x \<longrightarrow> uconn_owns x h \<longrightarrow> ur_closing s' h \<or> (\<exists>y. ur_cache s' a = Some y \<and> uconn_owns y h))"

lemma udp_quiet_refl: "udp_quiet s s"
  by (auto simp: udp_quiet_def)

lemma udp_quiet_trans:
  assumes "udp_quiet s t" and "udp_quiet t u"
  shows "udp_quiet s u"
proof -
  have "ur_closing u h \<or> (\<exists>y. ur_cache u a = Some y \<and> uconn_owns y h)" if "ur_cache s a = Some x" "uconn_owns x h" for a x h
    using assms that unfolding udp_quiet_def by metis
  then show ?thesis
    using assms unfolding udp_quiet_def by simp
qed

interpretation udp_steps: step_order udp_quiet
  by unfold_locales (fact udp_quiet_refl, fact udp_quiet_trans)

lemma udp_quiet_owned: "udp_quiet s s' \<Longrightarrow> udp_owned s \<Longrightarrow> udp_owned s'"
  unfolding udp_owned_def udp_quiet_def by metis

lemma udp_quiet_fields [simp]:
  "udp_quiet s (s\<lparr>ur_em := e\<rparr>)" "udp_quiet s (s\<lparr>ur_localBuf := b\<rparr>)" "udp_quiet s (s\<lparr>ur_world := w\<rparr>)" "udp_quiet s (udp_call_uv k s)"
  "udp_quiet s (udp_clear h s)" "udp_quiet s (udp_on h a s)" "udp_quiet s (resetTimeoutTimer x s)"
  by (auto simp: udp_quiet_def udp_call_uv_def udp_clear_def udp_on_def resetTimeoutTimer_def)

lemma udp_quiet_close: "udp_quiet s (udp_close h s)"
  by (auto simp: udp_quiet_def udp_close_def udp_call_uv_def)

lemma udp_quiet_put:
  "ur_cache s a = Some x \<Longrightarrow> uc_remote y = uc_remote x \<Longrightarrow> uc_timer y = uc_timer x \<Longrightarrow> udp_quiet s (s\<lparr>ur_cache := (ur_cache s)(a \<mapsto> y)\<rparr>)"
  by (auto simp: udp_quiet_def uconn_owns_def)

lemma udp_panic_closes:
  "ur_closing (udp_panic a s) h \<longleftrightarrow> ur_closing s h \<or> (\<exists>x. ur_cache s a = Some x \<and> uconn_owns x h)"
  "ur_cache (udp_panic a s) = (ur_cache s)(a := None)" "ur_next (udp_panic a s) = ur_next s" "ur_server (udp_panic a s) = ur_server s"
  by (auto simp: udp_panic_def destroy_udp_context_def Let_def uconn_owns_def udp_close_def udp_clear_def udp_call_uv_def split: option.splits)

lemma udp_quiet_panic: "udp_quiet s (udp_panic a s)"
  by (auto simp: udp_quiet_def udp_panic_closes)

lemma udp_quiet_timeout: "udp_timeout h a s = Inr s' \<Longrightarrow> udp_quiet s s'"
  using udp_quiet_trans [OF udp_quiet_trans [OF udp_quiet_fields(4) udp_quiet_close] udp_quiet_panic [of _ a]] by (auto simp: udp_timeout_def)

lemma udp_quiet_remoteRecv:
  assumes "udp_remoteRecv N L data len a s = Inr s'"
  shows "udp_quiet s s'"
proof (cases "ur_cache s a")
  case None
  then show ?thesis using assms udp_quiet_panic [of s a] by (auto simp: udp_remoteRecv_def)
next
  case (Some x)
  obtain ev b1 err b w where b: "read_mem data 0 len = Inr ev" "Buffer_copy_udp (lib_heap L) (uc_remoteBuf x) ev = Inr b1"
    "Buffer_ssDecryptALl L (ur_world s) (ur_cipher s) b1 = Inr (err, b, w)"
    using assms Some by (auto simp: udp_remoteRecv_def bnd_Inr_iff)
  define t where "t = s\<lparr>ur_world := w, ur_cache := (ur_cache s)(a \<mapsto> x\<lparr>uc_remoteBuf := b\<rparr>)\<rparr>"
  have t: "udp_quiet s t" "ur_cache t a = Some (x\<lparr>uc_remoteBuf := b\<rparr>)"
    using Some by (auto simp: t_def udp_quiet_def uconn_owns_def)
  consider "s' = udp_panic a t"
    | h d y where "s' = (udp_call_uv (UdpSend h (ToClient (uc_srcAddr y)) d) (resetTimeoutTimer y t))
        \<lparr>ur_cache := (ur_cache (resetTimeoutTimer y t))(a \<mapsto> y\<lparr>uc_remoteBuf := Buffer_setLength b 0\<rparr>)\<rparr>" "y = x\<lparr>uc_remoteBuf := b\<rparr>"
    using assms Some b by (auto simp: udp_remoteRecv_def bnd_Inr_iff t_def Let_def split: if_splits option.splits)
  then have "udp_quiet t s'"
    by cases (use t(2) udp_quiet_panic [of t a] in \<open>auto simp: udp_quiet_def uconn_owns_def udp_call_uv_def resetTimeoutTimer_def\<close>)
  with t(1) show ?thesis by (rule udp_quiet_trans)
qed

lemma udp_quiet_publish: "runs_in udp_quiet run \<Longrightarrow> udp_publish h run s = Inr s' \<Longrightarrow> udp_quiet s s'"
  unfolding udp_publish_def by (rule udp_steps.publish_step [of run]) simp_all

section \<open>A new client\<close>

lemma udp_new_handle_Some:
  "udp_new_handle U s = (Some r, t) \<Longrightarrow> r = ur_next s \<and> ur_next t = Suc r \<and> ur_closing t = (ur_closing s)(r := False) \<and>
     ur_cache t = ur_cache s \<and> ur_server t = ur_server s"
  by (auto simp: udp_new_handle_def Let_def split: if_splits)

lemma newRemote_owned:
  assumes "udp_owned s" and "ur_cache s a = None" and "newRemote U L a s = Inr (x, s')"
  shows "udp_owned s'"
proof -
  obtain r s1 where r: "udp_new_handle U s = (Some r, s1)"
    using assms(3) by (cases "udp_new_handle U s") (auto simp: newRemote_def Let_def split: option.splits)
  define s2 where "s2 = udp_call_uv (UdpBind r (if sa_family (ur_remoteAddr s1) = AF_INET6 then AF_INET6 else AF_INET)) s1"
  obtain t s3 where t: "udp_new_handle U s2 = (Some t, s3)"
    and s': "ur_cache s' = (ur_cache s3)(a \<mapsto> x)" "ur_next s' = ur_next s3" "ur_closing s' = ur_closing s3" "ur_server s' = ur_server s3"
    and x: "uc_remote x = r" "uc_timer x = t"
    using assms(3) r
    by (cases "udp_new_handle U s2") (auto simp: newRemote_def initTimer_def new_UDPConnectionContext_def bnd_Inr_iff s2_def Let_def udp_call_uv_def
        udp_on_def split: option.splits)
  have "ur_cache s2 = ur_cache s1" "ur_next s2 = ur_next s1" "ur_closing s2 = ur_closing s1" "ur_server s2 = ur_server s1"
    by (simp_all add: s2_def udp_call_uv_def)
  with udp_new_handle_Some [OF r] udp_new_handle_Some [OF t] s'
  have n: "ur_next s' = Suc (Suc r)" "ur_cache s' = (ur_cache s)(a \<mapsto> x)" "ur_server s' = ur_server s" "r = ur_next s" "t = Suc r"
    "ur_closing s' = (ur_closing s)(r := False, Suc r := False)"
    by simp_all
  show ?thesis
    unfolding udp_owned_def
  proof (intro allI impI)
    fix h
    assume "h < ur_next s'"
    then consider "h = r \<or> h = t" | "h < ur_next s"
      using n by linarith
    then show "ur_closing s' h \<or> ur_server s' = Some h \<or> (\<exists>a x. ur_cache s' a = Some x \<and> uconn_owns x h)"
    proof cases
      case 1
      then have "ur_cache s' a = Some x \<and> uconn_owns x h"
        using x n(2) by (auto simp: uconn_owns_def)
      then show ?thesis by blast
    next
      case 2
      then consider "ur_closing s h \<or> ur_server s = Some h" | d y where "ur_cache s d = Some y" "uconn_owns y h"
        using assms(1) unfolding udp_owned_def by blast
      then show ?thesis
      proof cases
        case (2 d y)
        then have "ur_cache s' d = Some y"
          using n(2) assms(2) by auto
        with 2 show ?thesis by blast
      qed (use 2 n in auto)
    qed
  qed
qed

lemma serverRecv_owned:
  assumes "udp_owned s" and "serverRecv N U L a data len s = Inr s'"
  shows "udp_owned s'"
proof -
  define t where "t = (case ur_cache s a of None \<Rightarrow> s | Some x \<Rightarrow> if uc_srcAddr x \<noteq> a then udp_panic a s else s)"
  have t: "udp_owned t"
    using assms(1) udp_quiet_owned [OF udp_quiet_panic] by (auto simp: t_def split: option.splits)
  consider "s' = udp_panic a s" | "s' = udp_panic a t" | x u where "udp_context_for U L a t = Inr (x, u)" "udp_forward L a data len (x, u) = Inr s'"
    using assms(2) by (auto simp: serverRecv_def bnd_Inr_iff t_def Let_def split: if_splits)
  then show ?thesis
  proof cases
    case 3
    have "udp_owned u"
    proof (cases "ur_cache t a")
      case None
      with 3(1) t newRemote_owned show ?thesis by (simp add: udp_context_for_def)
    next
      case (Some y)
      with 3(1) t udp_quiet_owned [OF udp_quiet_fields(7)] show ?thesis by (auto simp: udp_context_for_def)
    qed
    moreover have "udp_quiet u s'"
    proof -
      obtain b w where "s' = udp_panic a (u\<lparr>ur_localBuf := Some b, ur_world := w\<rparr>) \<or>
          (\<exists>k b'. s' = (udp_call_uv k (u\<lparr>ur_localBuf := Some b, ur_world := w\<rparr>))\<lparr>ur_localBuf := Some b'\<rparr>)"
        using 3(2) by (auto simp: udp_forward_def bnd_Inr_iff Let_def split: if_splits option.splits)
      then show ?thesis
        by (elim disjE exE) (auto simp: udp_quiet_def udp_panic_closes udp_call_uv_def)
    qed
    ultimately show ?thesis using udp_quiet_owned by blast
  qed (use assms(1) t udp_quiet_owned [OF udp_quiet_panic] in auto)
qed

lemma udp_step_owned:
  assumes "udp_owned s" and "udp_step N U L cb s = Inr s'"
  shows "udp_owned s'"
proof (cases cb)
  case (ServerDatagram a data len)
  show ?thesis
  proof (cases "ur_listening s")
    case True
    then have "bnd (Buffer_newBuf (lib_heap L)) (\<lambda>b. serverRecv N U L a data len (s\<lparr>ur_localBuf := Some b\<rparr>)) = Inr s'"
      using assms(2) ServerDatagram by (simp add: udp_step_def onServerDatagram_def)
    then obtain b where "serverRecv N U L a data len (s\<lparr>ur_localBuf := Some b\<rparr>) = Inr s'"
      by (rule bnd_InrE)
    from serverRecv_owned [OF udp_quiet_owned [OF udp_quiet_fields(2) assms(1)] this] show ?thesis .
  next
    case False
    with assms ServerDatagram show ?thesis by (simp add: udp_step_def)
  qed
next
  case (RemoteDatagram h data len)
  then have "udp_quiet s s'"
    using assms(2) udp_quiet_publish [of "udp_remoteRecv N L data len"] udp_quiet_remoteRecv by (auto simp: udp_step_def runs_in_def)
  then show ?thesis using assms(1) by (rule udp_quiet_owned)
next
  case (TimerExpired h)
  then have "udp_quiet s s'"
    using assms(2) udp_quiet_publish [of "udp_timeout h"] udp_quiet_timeout by (auto simp: udp_step_def runs_in_def)
  then show ?thesis using assms(1) by (rule udp_quiet_owned)
qed

end
