(* ===== verification/SS_ServerRun.thy ===== *)
theory SS_ServerRun
  imports SS_Server SS_UdpSession SS_UdpHandles
begin

text \<open>
  The start and the stop of the server: which addresses the relays get, and that a stop request ends the loop with
  every handle closed, whatever has happened before. The invariant \<open>server_inv\<close> joins those of the two relays. The two tables of connections (TCP by client handle, UDP by client address) are torn down in
  the same way; the locale \<open>teardown\<close> states what clearing such a table does.
\<close>

section \<open>Clearing a table of connections\<close>

locale teardown =
  fixes tab :: "'s \<Rightarrow> 'k \<rightharpoonup> 'x" and closing :: "'s \<Rightarrow> hid \<Rightarrow> bool" and owns :: "'x \<Rightarrow> hid \<Rightarrow> bool" and drop1 :: "'k \<Rightarrow> 's \<Rightarrow> 's"
  assumes tab_drop: "tab (drop1 k s) = (tab s)(k := None)"
    and closing_drop: "closing (drop1 k s) h \<longleftrightarrow> closing s h \<or> (\<exists>x. tab s k = Some x \<and> owns x h)"
begin

lemma tab_fold: "tab (fold drop1 ks s) = tab s |` (- set ks)"
  by (induction ks arbitrary: s) (auto simp: tab_drop restrict_map_def fun_eq_iff)

lemma closing_fold: "closing (fold drop1 ks s) h \<longleftrightarrow> closing s h \<or> (\<exists>k\<in>set ks. \<exists>x. tab s k = Some x \<and> owns x h)"
proof (induction ks arbitrary: s)
  case (Cons a ks)
  show ?case
    by (simp add: Cons tab_drop closing_drop) metis
qed simp

lemma tab_cleared: "dom (tab s) \<subseteq> set ks \<Longrightarrow> tab (fold drop1 ks s) = Map.empty"
  by (auto simp: tab_fold restrict_map_def fun_eq_iff)

end

lemma handle_close_simps [simp]:
  "rl_closing (handle_close h s) = (rl_closing s)(h := True)" "rl_conns (handle_close h s) = rl_conns s"
  "rl_next (handle_close h s) = rl_next s" "rl_calls (handle_close h s) = rl_calls s"
  by (auto simp: handle_close_def fun_eq_iff)

lemma upd_em_keeps [simp]: "rl_closing (upd_em h f s) = rl_closing s" "rl_next (upd_em h f s) = rl_next s"
  by (simp_all add: upd_em_def)

interpretation tcp: teardown rl_conns rl_closing conn_owns panic
  by unfold_locales (simp_all add: panic_closes)

lemma udp_close_simps [simp]:
  "ur_closing (udp_close h s) = (ur_closing s)(h := True)" "ur_cache (udp_close h s) = ur_cache s" "ur_next (udp_close h s) = ur_next s"
  "ur_server (udp_close h s) = ur_server s"
  by (auto simp: udp_close_def udp_call_uv_def fun_eq_iff)

lemma udp_keeps [simp]:
  "ur_closing (udp_call_uv k s) = ur_closing s" "ur_cache (udp_call_uv k s) = ur_cache s" "ur_next (udp_call_uv k s) = ur_next s"
  "ur_server (udp_call_uv k s) = ur_server s"
  "ur_closing (udp_clear h s) = ur_closing s" "ur_cache (udp_clear h s) = ur_cache s" "ur_next (udp_clear h s) = ur_next s"
  "ur_server (udp_clear h s) = ur_server s"
  by (simp_all add: udp_call_uv_def udp_clear_def)

interpretation udp: teardown ur_cache ur_closing uconn_owns udp_panic
  by unfold_locales (simp_all add: udp_panic_closes)

lemma panic_keeps [simp]: "rl_next (panic c s) = rl_next s" "rl_calls (panic c s) = rl_calls s"
  by (auto simp: panic_def destroy_context_def Let_def upd_em_def split: option.splits)

lemma panics_keep [simp]: "rl_next (fold panic cs s) = rl_next s"
  by (induction cs arbitrary: s) simp_all

lemma udp_panic_keeps [simp]: "ur_next (udp_panic a u) = ur_next u" "ur_server (udp_panic a u) = ur_server u"
  by (auto simp: udp_panic_def destroy_udp_context_def Let_def split: option.splits)

lemma udp_panics_next [simp]: "ur_next (fold udp_panic as u) = ur_next u"
  by (induction as arbitrary: u) simp_all

lemma udp_panics_server [simp]: "ur_server (fold udp_panic as u) = ur_server u"
  by (induction as arbitrary: u) simp_all

lemma destroy_UDPRelay_closing:
  "ur_closing (destroy_UDPRelay as u) h \<longleftrightarrow>
     ur_closing u h \<or> ur_server u = Some h \<or> (\<exists>a\<in>set as. \<exists>x. ur_cache u a = Some x \<and> uconn_owns x h)"
  "ur_next (destroy_UDPRelay as u) = ur_next u"
  by (auto simp: destroy_UDPRelay_def Let_def udp.closing_fold split: option.splits)

section \<open>The handles of a running server\<close>

text \<open>
  The state of a running server: the timer and the listening socket are open, and every open handle of the loop is one of the two,
  the plugin's, or one of a connection's. \<open>order\<close> and \<open>uorder\<close> list the keys of the two tables.
\<close>

definition accounted :: "hid list \<Rightarrow> uaddr list \<Rightarrow> server \<Rightarrow> bool" where
  "accounted order uorder s \<longleftrightarrow>
     (let r = sv_relay s; t = sv_timer s in
      sv_first s \<le> t \<and> t < rl_next r \<and> \<not> rl_closing r t \<and> dom (rl_conns r) = set order \<and> sv_plugin s \<noteq> Some t \<and>
      (\<exists>h. sv_server s = Some h \<and> h \<noteq> t \<and> \<not> rl_closing r h) \<and>
      (\<forall>c x. rl_conns r c = Some x \<longrightarrow> \<not> conn_owns x t) \<and>
      (\<forall>h \<in> {sv_first s..<rl_next r}. rl_closing r h \<or> h = t \<or> sv_server s = Some h \<or> sv_plugin s = Some h \<or>
         (\<exists>c x. rl_conns r c = Some x \<and> conn_owns x h)) \<and>
      (\<forall>u. sv_udp s = Some u \<and> pf_mode (sv_profile s) = 1 \<longrightarrow> dom (ur_cache u) = set uorder \<and>
         (\<forall>h < ur_next u. ur_closing u h \<or> ur_server u = Some h \<or> (\<exists>a x. ur_cache u a = Some x \<and> uconn_owns x h))))"

text \<open>After the shutdown only the timer is left, and the plugin while its process runs.\<close>

definition winding_down :: "server \<Rightarrow> bool" where
  "winding_down s \<longleftrightarrow>
     (let r = sv_relay s; t = sv_timer s in
      sv_isStop s \<and> sv_first s \<le> t \<and> t < rl_next r \<and> rl_conns r = Map.empty \<and> sv_plugin s \<noteq> Some t \<and>
      (\<exists>h. sv_server s = Some h \<and> rl_closing r h) \<and>
      (\<forall>h \<in> {sv_first s..<rl_next r}. rl_closing r h \<or> h = t \<or> sv_plugin s = Some h) \<and>
      (\<forall>u. sv_udp s = Some u \<and> pf_mode (sv_profile s) = 1 \<longrightarrow> (\<forall>h < ur_next u. ur_closing u h)))"

definition at_rest :: "server \<Rightarrow> bool" where
  "at_rest s \<longleftrightarrow> sv_stopped s \<and> rl_closing (sv_relay s) (sv_timer s) \<and> open_handles s = 0 \<and> ce_crypto (rl_cipher (sv_relay s)) = None"

lemma sv_do_simps [simp]:
  "rl_closing (sv_relay (snd (sv_do U c s))) = rl_closing (sv_relay s)" "rl_next (sv_relay (snd (sv_do U c s))) = rl_next (sv_relay s)"
  "rl_conns (sv_relay (snd (sv_do U c s))) = rl_conns (sv_relay s)"
  "sv_timer (snd (sv_do U c s)) = sv_timer s" "sv_server (snd (sv_do U c s)) = sv_server s" "sv_plugin (snd (sv_do U c s)) = sv_plugin s"
  "sv_first (snd (sv_do U c s)) = sv_first s" "sv_isStop (snd (sv_do U c s)) = sv_isStop s" "sv_udp (snd (sv_do U c s)) = sv_udp s"
  "sv_profile (snd (sv_do U c s)) = sv_profile s" "sv_stopped (snd (sv_do U c s)) = sv_stopped s"
  "sv_plugin_listens (snd (sv_do U c s)) = sv_plugin_listens s"
  by (simp_all add: sv_do_def Let_def)

lemma sv_close_simps [simp]:
  "rl_closing (sv_relay (sv_close h s)) = (rl_closing (sv_relay s))(h := True)" "rl_next (sv_relay (sv_close h s)) = rl_next (sv_relay s)"
  "rl_conns (sv_relay (sv_close h s)) = rl_conns (sv_relay s)"
  "sv_timer (sv_close h s) = sv_timer s" "sv_server (sv_close h s) = sv_server s" "sv_plugin (sv_close h s) = sv_plugin s"
  "sv_first (sv_close h s) = sv_first s" "sv_isStop (sv_close h s) = sv_isStop s" "sv_udp (sv_close h s) = sv_udp s"
  "sv_profile (sv_close h s) = sv_profile s" "sv_stopped (sv_close h s) = sv_stopped s"
  by (simp_all add: sv_close_def)

lemma plugin_error_winding: "winding_down s \<Longrightarrow> winding_down (plugin_error q s)"
  by (auto simp: plugin_error_def winding_down_def Let_def)

lemma sv_do_winding: "winding_down (snd (sv_do U c s)) = winding_down s"
  by (simp add: winding_down_def Let_def)

lemma closed_all:
  assumes "accounted order uorder s" and h: "sv_server s = Some h"
  shows "rl_conns (fold panic order (sv_relay (sv_close h s))) = Map.empty"
    and "\<And>g. g \<in> {sv_first s..<rl_next (sv_relay s)} \<Longrightarrow>
      rl_closing (fold panic order (sv_relay (sv_close h s))) g \<or> g = sv_timer s \<or> sv_plugin s = Some g"
    and "\<And>u g. sv_udp s = Some u \<Longrightarrow> pf_mode (sv_profile s) = 1 \<Longrightarrow> g < ur_next u \<Longrightarrow> ur_closing (destroy_UDPRelay uorder u) g"
proof -
  have "dom (rl_conns (sv_relay s)) = set order"
    using assms by (simp add: accounted_def Let_def)
  then show "rl_conns (fold panic order (sv_relay (sv_close h s))) = Map.empty"
    by (intro tcp.tab_cleared) simp
  show "rl_closing (fold panic order (sv_relay (sv_close h s))) g \<or> g = sv_timer s \<or> sv_plugin s = Some g"
    if g: "g \<in> {sv_first s..<rl_next (sv_relay s)}" for g
  proof -
    have "rl_closing (sv_relay s) g \<or> g = sv_timer s \<or> sv_server s = Some g \<or> sv_plugin s = Some g \<or>
        (\<exists>c x. rl_conns (sv_relay s) c = Some x \<and> conn_owns x g)"
      using assms(1) g unfolding accounted_def Let_def by blast
    then show ?thesis
      using h \<open>dom _ = _\<close> by (auto simp: tcp.closing_fold)
  qed
  show "ur_closing (destroy_UDPRelay uorder u) g" if u: "sv_udp s = Some u" "pf_mode (sv_profile s) = 1" and "g < ur_next u" for u g
  proof -
    have "dom (ur_cache u) = set uorder"
      and "ur_closing u g \<or> ur_server u = Some g \<or> (\<exists>a x. ur_cache u a = Some x \<and> uconn_owns x g)"
      using assms(1) u \<open>g < _\<close> unfolding accounted_def Let_def by blast+
    then show ?thesis
      by (auto simp: destroy_UDPRelay_closing)
  qed
qed

lemma shut_down_winding:
  assumes "accounted order uorder s" and "sv_isStop s" and h: "sv_server s = Some h"
  shows "winding_down (shut_down U order uorder h s)"
proof -
  define s1 where "s1 = (let s = sv_close h s; s = s\<lparr>sv_relay := fold panic order (sv_relay s)\<rparr>
    in if pf_mode (sv_profile s) = 1 then s\<lparr>sv_udp := map_option (destroy_UDPRelay uorder) (sv_udp s)\<rparr> else s)"
  have "sv_first s \<le> sv_timer s" "sv_timer s < rl_next (sv_relay s)" "sv_plugin s \<noteq> Some (sv_timer s)"
    using assms(1) by (simp_all add: accounted_def Let_def)
  then have w: "winding_down s1"
    using assms(2) h closed_all [OF assms(1) h]
    unfolding s1_def winding_down_def Let_def
    by (auto simp: tcp.closing_fold destroy_UDPRelay_closing(2))
  have "shut_down U order uorder h s =
      (case sv_plugin s1 of None \<Rightarrow> s1
       | Some q \<Rightarrow> (let (rc, s2) = sv_do U (SvKill q SIGTERM) s1 in if rc \<noteq> 0 then plugin_error q s2 else s2))"
    unfolding shut_down_def s1_def Let_def by (rule refl)
  with w show ?thesis
    by (auto simp: split_def Let_def sv_do_winding plugin_error_winding split: option.splits)
qed

section \<open>Stopping\<close>

lemma filter_single: "(\<And>h. h \<in> set xs \<Longrightarrow> P h \<longleftrightarrow> h = t) \<Longrightarrow> distinct xs \<Longrightarrow> length (filter P xs) = (if t \<in> set xs then 1 else 0)"
  by (induction xs) auto

definition udp_open :: "server \<Rightarrow> nat" where
  "udp_open s = (case sv_udp s of None \<Rightarrow> 0
      | Some u \<Rightarrow> if pf_mode (sv_profile s) = 1 then length (filter (\<lambda>h. \<not> ur_closing u h) [0..<ur_next u]) else 0)"

lemma udp_open_cong: "sv_udp s' = sv_udp s \<Longrightarrow> sv_profile s' = sv_profile s \<Longrightarrow> udp_open s' = udp_open s"
  by (simp add: udp_open_def split: option.split)

lemma winding_udp: "winding_down s \<Longrightarrow> udp_open s = 0"
  by (auto simp: winding_down_def udp_open_def Let_def filter_empty_conv split: option.splits)

lemma open_handles_split:
  "open_handles s = length (filter (\<lambda>h. \<not> rl_closing (sv_relay s) h) [sv_first s..<rl_next (sv_relay s)]) + udp_open s"
  by (simp add: open_handles_def udp_open_def)

text \<open>The timer's turn while the server winds down: it stops once only the timer is left.\<close>

definition last_tick :: "uv_env \<Rightarrow> server \<Rightarrow> server" where
  "last_tick U s =
     (if open_handles s \<noteq> 1 then s
      else
        let (_, s) = sv_do U (SvTimerStop (sv_timer s)) s; s = sv_close (sv_timer s) s
        in s\<lparr>sv_relay := (sv_relay s)\<lparr>rl_cipher := \<lparr>ce_crypto = None\<rparr>\<rparr>, sv_stopped := True, sv_out := sv_out s @ [SvLoopStop]\<rparr>)"

lemma stop_tick_last:
  assumes "sv_isStop s" and "sv_server s = Some h"
  shows "stop_tick U order uorder s = Inr (last_tick U (if rl_closing (sv_relay s) h then s else shut_down U order uorder h s))"
  using assms by (simp add: stop_tick_def last_tick_def Let_def split_def)

lemma last_tick_winding: "winding_down s \<Longrightarrow> winding_down (last_tick U s)"
  by (auto simp: last_tick_def winding_down_def Let_def split_def)

lemma last_tick_rests:
  assumes "open_handles s = 1" "winding_down s" "\<not> rl_closing (sv_relay s) (sv_timer s)"
  shows "at_rest (last_tick U s)"
proof -
  let ?r = "sv_relay s" and ?t = "sv_timer s"
  have "?t \<in> set [sv_first s..<rl_next ?r]"
    using assms(2) by (simp add: winding_down_def Let_def)
  have "length (filter (\<lambda>h. \<not> rl_closing ?r h) [sv_first s..<rl_next ?r]) = 1"
    using assms(1) winding_udp [OF assms(2)] by (simp add: open_handles_split)
  then obtain y where y: "filter (\<lambda>h. \<not> rl_closing ?r h) [sv_first s..<rl_next ?r] = [y]"
    by (auto simp: length_Suc_conv)
  then have "y = ?t"
    using assms(3) \<open>?t \<in> _\<close> by (metis (mono_tags, lifting) empty_iff empty_set mem_Collect_eq set_ConsD set_filter)
  with y have "\<forall>h \<in> {sv_first s..<rl_next ?r}. rl_closing ?r h \<or> h = ?t"
    by (metis (mono_tags, lifting) atLeastLessThan_upt empty_iff empty_set mem_Collect_eq set_ConsD set_filter)
  moreover have "udp_open (last_tick U s) = 0"
    using winding_udp [OF assms(2)] udp_open_cong [of "last_tick U s" s] by (simp add: last_tick_def Let_def split_def)
  ultimately show ?thesis
    using assms(1) by (auto simp: at_rest_def last_tick_def open_handles_split Let_def split_def filter_empty_conv)
qed

lemma shut_down_timer:
  assumes "accounted order uorder s" and h: "sv_server s = Some h"
  shows "\<not> rl_closing (sv_relay (shut_down U order uorder h s)) (sv_timer s)" and "sv_timer (shut_down U order uorder h s) = sv_timer s"
proof -
  have "\<not> rl_closing (sv_relay s) (sv_timer s)" "sv_plugin s \<noteq> Some (sv_timer s)" "h \<noteq> sv_timer s"
    "\<And>c x. rl_conns (sv_relay s) c = Some x \<Longrightarrow> \<not> conn_owns x (sv_timer s)"
    using assms by (auto simp: accounted_def Let_def)
  then show "\<not> rl_closing (sv_relay (shut_down U order uorder h s)) (sv_timer s)" and "sv_timer (shut_down U order uorder h s) = sv_timer s"
    by (auto simp: shut_down_def Let_def split_def plugin_error_def tcp.closing_fold split: option.splits)
qed

lemma plugin_exit_winding: "winding_down s \<Longrightarrow> winding_down (plugin_exit s)"
  by (auto simp: plugin_exit_def winding_down_def Let_def split: option.splits)

lemma plugin_exit_timer:
  assumes "winding_down s"
  shows "rl_closing (sv_relay (plugin_exit s)) (sv_timer s) = rl_closing (sv_relay s) (sv_timer s)" "sv_timer (plugin_exit s) = sv_timer s"
  using assms by (auto simp: plugin_exit_def winding_down_def Let_def split: option.splits)

lemma plugin_exit_open:
  assumes w: "winding_down s" and t: "\<not> rl_closing (sv_relay s) (sv_timer s)"
  shows "open_handles (plugin_exit s) = 1"
proof -
  let ?s = "plugin_exit s"
  have all: "\<forall>h \<in> {sv_first s..<rl_next (sv_relay s)}. rl_closing (sv_relay ?s) h \<or> h = sv_timer s"
    and r: "sv_first ?s = sv_first s" "rl_next (sv_relay ?s) = rl_next (sv_relay s)"
      "sv_timer s \<in> set [sv_first s..<rl_next (sv_relay s)]"
    using w by (auto simp: plugin_exit_def winding_down_def Let_def split: option.splits)
  have "(\<not> rl_closing (sv_relay ?s) h) = (h = sv_timer s)" if "h \<in> set [sv_first s..<rl_next (sv_relay s)]" for h
    using that all t plugin_exit_timer(1) [OF w] by auto
  from filter_single [OF this distinct_upt] r(3)
  have "length (filter (\<lambda>h. \<not> rl_closing (sv_relay ?s) h) [sv_first s..<rl_next (sv_relay s)]) = 1"
    by simp
  then show ?thesis
    using winding_udp [OF plugin_exit_winding [OF w]] by (simp add: open_handles_split r)
qed

lemma plugin_exit_rests: "at_rest s \<Longrightarrow> at_rest (plugin_exit s)"
  by (auto simp: at_rest_def plugin_exit_def open_handles_split filter_empty_conv sv_close_def handle_close_def udp_open_def
      split: option.splits)

lemma winding_tick: "winding_down s \<Longrightarrow> stop_tick U order uorder s = Inr (last_tick U s)"
  by (auto simp: winding_down_def Let_def stop_tick_last)

lemma stop_from_accounted:
  assumes "accounted order uorder s"
  shows "\<exists>s'. server_run Y [StopRequest, StopTick order uorder, PluginExit, StopTick [] []] s = Inr s' \<and>
    sv_stopped s' \<and> rl_conns (sv_relay s') = Map.empty \<and> open_handles s' = 0 \<and> ce_crypto (rl_cipher (sv_relay s')) = None"
proof -
  let ?U = "sys_uv Y" and ?s = "stop_ssr_uv_local_server s"
  have acc: "accounted order uorder ?s" "sv_isStop ?s"
    using assms by (simp_all add: accounted_def stop_ssr_uv_local_server_def Let_def)
  then obtain h where h: "sv_server ?s = Some h" "\<not> rl_closing (sv_relay ?s) h"
    by (auto simp: accounted_def Let_def)
  define s1 where "s1 = shut_down ?U order uorder h ?s"
  define s2 where "s2 = last_tick ?U s1"
  have w1: "winding_down s1" and t1: "\<not> rl_closing (sv_relay s1) (sv_timer s1)"
    using shut_down_winding [OF acc h(1)] shut_down_timer [OF acc(1) h(1)] by (simp_all add: s1_def)
  then have w2: "winding_down s2"
    by (simp add: s2_def last_tick_winding)
  have "at_rest s2 \<or> s2 = s1"
    using last_tick_rests [OF _ w1 t1] by (cases "open_handles s1 = 1") (simp_all add: s2_def last_tick_def)
  then have "at_rest (last_tick ?U (plugin_exit s2))"
  proof
    assume "at_rest s2"
    from plugin_exit_rests [OF this] show ?thesis
      by (simp add: last_tick_def at_rest_def)
  next
    assume "s2 = s1"
    with w1 t1 show ?thesis
      by (intro last_tick_rests plugin_exit_winding) (simp_all add: plugin_exit_open plugin_exit_timer)
  qed
  moreover have "rl_conns (sv_relay (last_tick ?U (plugin_exit s2))) = Map.empty"
    using last_tick_winding [OF plugin_exit_winding [OF w2]] by (simp add: winding_down_def Let_def)
  moreover have "server_run Y [StopRequest, StopTick order uorder, PluginExit, StopTick [] []] s = Inr (last_tick ?U (plugin_exit s2))"
    using acc h winding_tick [OF plugin_exit_winding [OF w2]]
    by (simp add: server_step_def stop_tick_last s1_def s2_def)
  ultimately show ?thesis
    by (simp add: at_rest_def)
qed

section \<open>The invariant of the running server\<close>

definition sv_base :: "server \<Rightarrow> hid set" where
  "sv_base s = {sv_timer s} \<union> set_option (sv_server s) \<union> set_option (sv_plugin s)"

definition server_inv :: "server \<Rightarrow> bool" where
  "server_inv s \<longleftrightarrow> tcp_inv (sv_first s) (sv_base s) (rl_closing (sv_relay s)) (sv_relay s) \<and>
     sv_first s \<le> sv_timer s \<and> \<not> rl_closing (sv_relay s) (sv_timer s) \<and> sv_plugin s \<noteq> Some (sv_timer s) \<and>
     (\<exists>h. sv_server s = Some h \<and> h \<noteq> sv_timer s \<and> sv_plugin s \<noteq> Some h \<and> \<not> rl_closing (sv_relay s) h) \<and>
     \<not> sv_isStop s \<and> (\<forall>u. sv_udp s = Some u \<and> pf_mode (sv_profile s) = 1 \<longrightarrow> udp_owned u)"

text \<open>Events other than a stop request; libuv reads from the handles of connections only.\<close>

fun benign :: "hid set \<Rightarrow> server_event \<Rightarrow> bool" where
  "benign base (TcpEvent cb) \<longleftrightarrow> read_handle cb \<inter> base = {}"
| "benign base StopRequest \<longleftrightarrow> False"
| "benign base _ \<longleftrightarrow> True"

lemma tcp_inv_now: "tcp_inv lo base K s \<Longrightarrow> tcp_inv lo base (rl_closing s) s"
  by (simp add: tcp_inv_def)

lemma server_inv_relay:
  assumes inv: "server_inv s" and "tcp_inv (sv_first s) (sv_base s) (rl_closing (sv_relay s)) r"
  shows "server_inv (s\<lparr>sv_relay := r\<rparr>)"
proof -
  have "rl_closing r h = rl_closing (sv_relay s) h" if "h \<in> sv_base s" for h
    using assms(2) that by (simp add: tcp_inv_def)
  then show ?thesis
    using inv tcp_inv_now [OF assms(2)] by (auto simp: server_inv_def sv_base_def)
qed

lemma plugin_exit_inv:
  assumes "server_inv s"
  shows "server_inv (plugin_exit s)"
proof (cases "sv_plugin s")
  case None
  with assms show ?thesis by (simp add: plugin_exit_def)
next
  case (Some q)
  let ?s = "plugin_exit s"
  have c: "closes_in {q} (sv_relay s) (sv_relay ?s)"
    using Some quiet_close [of q "{q}"] by (simp add: plugin_exit_def sv_close_def)
  then have "rl_next (sv_relay ?s) = rl_next (sv_relay s)"
    by (simp add: closes_in_def)
  then have "tcp_inv (sv_first s) (sv_base s) (rl_closing (sv_relay ?s)) (sv_relay ?s)"
    using assms quiet_keyed [OF c] quiet_owned [OF c] quiet_first [OF c] by (simp add: server_inv_def tcp_inv_def)
  moreover have "sv_base ?s = sv_base s"
    by (simp add: sv_base_def plugin_exit_def Some)
  ultimately show ?thesis
    using assms Some by (auto simp: server_inv_def plugin_exit_def)
qed

lemma server_step_keeps:
  assumes "server_step Y ev s = Inr s'" and "ev \<noteq> StopRequest" and "\<not> sv_isStop s"
  shows "sv_base s' = sv_base s"
  using assms by (cases ev) (auto simp: server_step_def stop_tick_def plugin_exit_def bnd_Inr_iff sv_base_def split: option.splits)

lemma server_step_inv:
  assumes inv: "server_inv s" and "benign (sv_base s) ev" and step: "server_step Y ev s = Inr s'"
  shows "server_inv s'"
proof (cases ev)
  case (TcpEvent cb)
  then obtain la r where "relay_step (sys_uv Y) (sys_lib Y) (string_of la) (pf_local_port (sv_profile s)) cb (sv_relay s) = Inr r"
    and s': "s' = s\<lparr>sv_relay := r\<rparr>"
    using step by (auto simp: server_step_def bnd_Inr_iff)
  then have "tcp_inv (sv_first s) (sv_base s) (rl_closing (sv_relay s)) r"
    using relay_step_inv [of "sv_first s" "sv_base s" _ "sv_relay s" cb] inv assms(2) TcpEvent by (auto simp: server_inv_def)
  from server_inv_relay [OF inv this] s' show ?thesis by simp
next
  case (UdpEvent cb)
  show ?thesis
  proof (cases "sv_udp s")
    case None
    with step UdpEvent inv show ?thesis by (simp add: server_step_def)
  next
    case (Some u)
    then obtain u' where u': "udp_step (sys_net Y) (sys_udp_uv Y) (sys_lib Y) cb (u\<lparr>ur_world := rl_world (sv_relay s)\<rparr>) = Inr u'"
      and s': "s' = s\<lparr>sv_udp := Some u', sv_relay := (sv_relay s)\<lparr>rl_world := ur_world u'\<rparr>\<rparr>"
      using step UdpEvent by (auto simp: server_step_def bnd_Inr_iff)
    have "udp_owned u'" if "udp_owned u"
      using udp_step_owned [OF udp_quiet_owned [OF udp_quiet_fields(3) that] u'] .
    then have "server_inv (s\<lparr>sv_udp := Some u'\<rparr>)"
      using inv Some by (simp add: server_inv_def sv_base_def)
    from server_inv_relay [OF this, of "(sv_relay s)\<lparr>rl_world := ur_world u'\<rparr>"] quiet_inv [OF quiet_fields(3)] inv s' show ?thesis
      by (simp add: server_inv_def sv_base_def)
  qed
next
  case (StopTick os us)
  with step inv show ?thesis by (simp add: server_step_def stop_tick_def server_inv_def)
next
  case PluginExit
  with step plugin_exit_inv [OF inv] show ?thesis by (simp add: server_step_def)
qed (use assms(2) in simp)

lemma server_run_inv:
  "server_inv s \<Longrightarrow> \<forall>ev \<in> set evs. benign (sv_base s) ev \<Longrightarrow> server_run Y evs s = Inr s' \<Longrightarrow> server_inv s'"
proof (induction evs arbitrary: s)
  case (Cons ev evs)
  then obtain t where t: "server_step Y ev s = Inr t" "server_run Y evs t = Inr s'"
    by (auto simp: bnd_Inr_iff)
  have "ev \<noteq> StopRequest" "\<not> sv_isStop s"
    using Cons.prems(1,2) by (auto simp: server_inv_def)
  with Cons.prems server_step_keeps [OF t(1)] have "\<forall>ev \<in> set evs. benign (sv_base t) ev"
    by simp
  then show ?case
    using Cons.IH [OF _ _ t(2)] server_step_inv [OF Cons.prems(1) _ t(1)] Cons.prems(2) by simp
qed simp

lemma server_run_append: "server_run Y (xs @ ys) s = bnd (server_run Y xs s) (server_run Y ys)"
  by (induction xs arbitrary: s) (auto simp: bnd_assoc intro: bnd_cong)

lemma server_inv_accounted:
  assumes inv: "server_inv s" and "dom (rl_conns (sv_relay s)) = set order" and "\<forall>u. sv_udp s = Some u \<longrightarrow> dom (ur_cache u) = set uorder"
  shows "accounted order uorder s"
proof -
  let ?r = "sv_relay s"
  have tcp: "keyed_conns (sv_base s) ?r" "handles_owned (sv_first s) (sv_base s) ?r" "sv_base s \<subseteq> {..<rl_next ?r}"
    using inv by (simp_all add: server_inv_def tcp_inv_def)
  have "\<not> conn_owns x (sv_timer s)" if "rl_conns ?r c = Some x" for c x
    using keyed_connsD(3) [OF tcp(1) that, of "sv_timer s"] by (auto simp: sv_base_def)
  moreover have "\<forall>h \<in> {sv_first s..<rl_next ?r}. rl_closing ?r h \<or> h = sv_timer s \<or> sv_server s = Some h \<or> sv_plugin s = Some h \<or>
      (\<exists>c x. rl_conns ?r c = Some x \<and> conn_owns x h)"
    using tcp(2) unfolding handles_owned_def sv_base_def by fastforce
  moreover have "sv_timer s < rl_next ?r"
    using tcp(3) by (auto simp: sv_base_def)
  moreover have "\<forall>h < ur_next u. ur_closing u h \<or> ur_server u = Some h \<or> (\<exists>a x. ur_cache u a = Some x \<and> uconn_owns x h)"
    if "sv_udp s = Some u" "pf_mode (sv_profile s) = 1" for u
    using inv that unfolding server_inv_def udp_owned_def by blast
  ultimately show ?thesis
    using inv assms(2,3) unfolding accounted_def server_inv_def Let_def by blast
qed

text \<open>C9: A stop request ends the server, whenever it comes. From a state that satisfies the invariant (such as every started server's),
  let any events of the relays, the plugin and the timer happen, whatever codes libuv answers. Then, after
  \<^verbatim>\<open>stop_ssr_uv_local_server\<close>, one turn of the stop timer, the exit of the plugin (which that turn asks for with \<^verbatim>\<open>SIGTERM\<close>)
  and one more turn of the timer leave no fault: the loop is stopped, no connection is left, no handle is open and the cipher is
  released. \<open>order\<close> and \<open>uorder\<close> are the orders in which the tables of connections are cleared.
\<close>

theorem stop_completes:
  assumes "server_inv s" and "\<forall>ev \<in> set evs. benign (sv_base s) ev" and "server_run Y evs s = Inr s1"
    and "dom (rl_conns (sv_relay s1)) = set order" and "\<forall>u. sv_udp s1 = Some u \<longrightarrow> dom (ur_cache u) = set uorder"
  shows "\<exists>s'. server_run Y (evs @ [StopRequest, StopTick order uorder, PluginExit, StopTick [] []]) s = Inr s' \<and>
    sv_stopped s' \<and> rl_conns (sv_relay s') = Map.empty \<and> open_handles s' = 0 \<and> ce_crypto (rl_cipher (sv_relay s')) = None"
  using stop_from_accounted [OF server_inv_accounted [OF server_run_inv [OF assms(1-3)] assms(4,5)], of Y] assms(3)
  by (simp add: server_run_append)

section \<open>Starting\<close>

definition resolves :: "net_env \<Rightarrow> bytes \<Rightarrow> int \<Rightarrow> int \<Rightarrow> sockaddr \<Rightarrow> bool" where
  "resolves N host port ipv6first a \<longleftrightarrow> (\<exists>af. af \<noteq> -1 \<and> ssr_get_sock_addr N host port no_addr ipv6first = Inr (af, a))"

text \<open>No handshake's listener is long-lived, and no two wait on one handle.\<close>

definition tidy :: "(hid \<Rightarrow> emitter) \<Rightarrow> bool" where
  "tidy em \<longleftrightarrow> (\<forall>h. (\<forall>e \<in> set (h_onL (em_data (em h))). \<not> handshaking (snd e)) \<and> length (h_onceL (em_data (em h))) \<le> 1)"

lemma tidy_new [simp]: "tidy em \<Longrightarrow> tidy (em(h := new_emitter))"
  by (simp add: tidy_def new_emitter_def new_handler_def)

text \<open>What the steps of the start leave alone.\<close>

definition same_server :: "server \<Rightarrow> server \<Rightarrow> bool" where
  "same_server s s' \<longleftrightarrow> sv_profile s' = sv_profile s \<and> sv_timer s' = sv_timer s \<and> sv_first s' = sv_first s \<and>
     rl_remoteAddr (sv_relay s') = rl_remoteAddr (sv_relay s) \<and> rl_cipher (sv_relay s') = rl_cipher (sv_relay s) \<and> rl_conns (sv_relay s') = rl_conns (sv_relay s) \<and>
     rl_world (sv_relay s') = rl_world (sv_relay s) \<and> sv_isStop s' = sv_isStop s \<and> (tidy (rl_em (sv_relay s)) \<longrightarrow> tidy (rl_em (sv_relay s')))"

lemma accepting_do:
  assumes "accepting U"
  shows "sv_do U c s = (0, s\<lparr>sv_relay := (sv_relay s)\<lparr>rl_calls := Suc (rl_calls (sv_relay s))\<rparr>, sv_out := sv_out s @ [c]\<rparr>)"
    and "new_handle U r = (Some (rl_next r), r\<lparr>rl_calls := Suc (rl_calls r), rl_next := Suc (rl_next r),
           rl_em := (rl_em r)(rl_next r := new_emitter), rl_closing := (rl_closing r)(rl_next r := False)\<rparr>)"
    and "udp_new_handle U u = (Some (ur_next u), u\<lparr>ur_calls := Suc (ur_calls u), ur_next := Suc (ur_next u),
           ur_em := (ur_em u)(ur_next u := new_handler), ur_closing := (ur_closing u)(ur_next u := False)\<rparr>)"
  using assms by (simp_all add: sv_do_def new_handle_def udp_new_handle_def accepting_def Let_def)

lemma plugin_started_ok:
  assumes "accepting (sys_uv Y)" and "p = sv_profile s" and "pf_plugin p = Some file" and "pf_remote_host p = Some rh"
    and "pf_local_addr p = Some la" and "length (sprintf_d (pf_remote_port p)) < 8" and "sys_free_port Y \<noteq> 0"
    and q: "q = rl_next (sv_relay s)"
  shows "\<exists>s'. plugin_started Y s = Inr (True, s') \<and> same_server s s' \<and> sv_plugin s' = Some q \<and> sv_pluginPort s' = sys_free_port Y \<and>
    rl_next (sv_relay s') = Suc (Suc q) \<and> rl_closing (sv_relay s') = (rl_closing (sv_relay s))(q := False, Suc q := True) \<and>
    sv_udp s' = sv_udp s \<and>
    sv_out s' = sv_out s @ [SvBind (Suc q) \<lparr>sa_family = AF_INET, sa_addr = [0, 0, 0, 0], sa_port = [0, 0]\<rparr>,
      SvSpawn q file [file] (plugin_env Y p rh (sprintf_d (pf_remote_port p)) la (sprintf_d (uint (sys_free_port Y)))) [(1, UV_IGNORE), (2, UV_IGNORE)]]"
proof -
  have "length (sprintf_d (uint (sys_free_port Y))) < 8"
    using length_sprintf_port [of "sys_free_port Y"] by linarith
  then show ?thesis
    using assms
    by (simp add: plugin_started_def startPlugin_def getLocalPort_def sv_new_handle_def process_spawn_def accepting_do cstring_def
        sprintf_into_def sv_close_def handle_close_def same_server_def Let_def)
qed

lemma start_udp_ok:
  assumes "accepting (sys_udp_uv Y)" and "p = sv_profile s" and "pf_remote_host p = Some rh" and "pf_local_addr p = Some la"
    and "pf_mode p = 1" and "resolves (sys_net Y) rh (pf_remote_port p) (pf_ipv6first p) direct" and "resolves (sys_net Y) la (pf_local_port p) 0 local"
  shows "\<exists>u. start_udp Y s = Inr (0, s\<lparr>sv_udp := Some u\<rparr>) \<and> ur_remoteAddr u = direct \<and> ur_cipher u = rl_cipher (sv_relay s) \<and>
    ur_world u = rl_world (sv_relay s) \<and> ur_listening u \<and> ur_cache u = Map.empty \<and> ur_server u = Some 0 \<and> ur_next u = 1 \<and>
    ur_out u = [UdpBind 0 (sa_family local), UdpRecvStart 0]"
  using assms(6,7)
  by (auto simp: resolves_def start_udp_def cstring_def initUDPRelay_def accepting_do(3) [OF assms(1)] new_UDPRelay_def udp_call_uv_def
      no_addr_def assms(2) [symmetric] assms(3,4,5) Let_def)

lemma sv_listen_ok:
  assumes "accepting (sys_uv Y)" and "p = sv_profile s" and "pf_local_addr p = Some la" and "resolves (sys_net Y) la (pf_local_port p) 0 local"
    and q: "h = rl_next (sv_relay s)"
  shows "\<exists>s'. sv_listen Y s = Inr (0, s') \<and> same_server s s' \<and> sv_server s' = Some h \<and> rl_next (sv_relay s') = Suc h \<and>
    rl_closing (sv_relay s') = (rl_closing (sv_relay s))(h := False) \<and> sv_plugin s' = sv_plugin s \<and> sv_udp s' = sv_udp s \<and>
    sv_out s' = sv_out s @ [SvNoDelay h True, SvBind h local, SvListen h]"
  using assms(4)
  by (auto simp: resolves_def sv_listen_def sv_new_handle_def accepting_do [OF assms(1)] cstring_def assms(2) [symmetric] assms(3,5) same_server_def Let_def)

text \<open>The calls that start the plugin, where there is one.\<close>

definition plugin_calls :: "system \<Rightarrow> profile_t \<Rightarrow> bytes \<Rightarrow> bytes \<Rightarrow> hid \<Rightarrow> server_call list" where
  "plugin_calls Y p rh la q =
     (case pf_plugin p of None \<Rightarrow> []
      | Some file \<Rightarrow> [SvBind (Suc q) \<lparr>sa_family = AF_INET, sa_addr = [0, 0, 0, 0], sa_port = [0, 0]\<rparr>,
          SvSpawn q file [file] (plugin_env Y p rh (sprintf_d (pf_remote_port p)) la (sprintf_d (uint (sys_free_port Y))))
            [(1, UV_IGNORE), (2, UV_IGNORE)]])"

lemma plugin_phase:
  assumes "accepting (sys_uv Y)" and "p = sv_profile s" and "pf_remote_host p = Some rh" and "pf_local_addr p = Some la"
    and "pf_plugin p \<noteq> None \<longrightarrow> length (sprintf_d (pf_remote_port p)) < 8 \<and> sys_free_port Y \<noteq> 0"
    and q: "q = rl_next (sv_relay s)"
  shows "\<exists>s'. plugin_started Y s = Inr (True, s') \<and> same_server s s' \<and> sv_udp s' = sv_udp s \<and>
    sv_pluginPort s' = (if pf_plugin p = None then sv_pluginPort s else sys_free_port Y) \<and>
    sv_plugin s' = (if pf_plugin p = None then sv_plugin s else Some q) \<and>
    q \<le> rl_next (sv_relay s') \<and> (\<forall>h. h < q \<longrightarrow> rl_closing (sv_relay s') h = rl_closing (sv_relay s) h) \<and>
    (\<forall>h. q < h \<and> h < rl_next (sv_relay s') \<longrightarrow> rl_closing (sv_relay s') h) \<and> (q < rl_next (sv_relay s') \<longrightarrow> sv_plugin s' = Some q) \<and>
    (pf_plugin p \<noteq> None \<longrightarrow> q < rl_next (sv_relay s')) \<and> sv_out s' = sv_out s @ plugin_calls Y p rh la q"
proof (cases "pf_plugin p")
  case None
  then show ?thesis
    using assms(2,6) by (auto simp: plugin_started_def plugin_calls_def same_server_def)
next
  case (Some cmd)
  with assms obtain s' where "plugin_started Y s = Inr (True, s')" "same_server s s'" "sv_plugin s' = Some q" "sv_pluginPort s' = sys_free_port Y"
    "rl_next (sv_relay s') = Suc (Suc q)" "rl_closing (sv_relay s') = (rl_closing (sv_relay s))(q := False, Suc q := True)"
    "sv_udp s' = sv_udp s" "sv_out s' = sv_out s @ plugin_calls Y p rh la q"
    using plugin_started_ok [OF assms(1,2) Some assms(3,4) _ _ assms(6)] by (auto simp: plugin_calls_def)
  then show ?thesis
    using Some by (intro exI [of _ s']) (auto simp: less_Suc_eq)
qed

lemma tcp_remote_is:
  assumes "sv_profile s = p" and "pf_remote_host p = Some rh" and "pf_local_addr p = Some la"
  shows "tcp_remote Y s = ssr_get_sock_addr (sys_net Y) (if sv_pluginPort s \<noteq> 0 then la else rh)
    (if sv_pluginPort s \<noteq> 0 then uint (sv_pluginPort s) else pf_remote_port p) no_addr (pf_ipv6first p)"
  using assms by (simp add: tcp_remote_def cstring_def)

lemma udp_phase:
  assumes "accepting (sys_udp_uv Y)" and "p = sv_profile s" and "pf_remote_host p = Some rh" and "pf_local_addr p = Some la"
    and "pf_mode p = 1 \<longrightarrow> resolves (sys_net Y) rh (pf_remote_port p) (pf_ipv6first p) direct" and "resolves (sys_net Y) la (pf_local_port p) 0 local"
  shows "\<exists>x. start_udp Y s = Inr (0, s\<lparr>sv_udp := x\<rparr>) \<and>
    (pf_mode p = 1 \<longrightarrow> (\<exists>u. x = Some u \<and> ur_remoteAddr u = direct \<and> ur_cipher u = rl_cipher (sv_relay s) \<and> ur_listening u \<and>
       ur_cache u = Map.empty \<and> ur_server u = Some 0 \<and> ur_next u = 1 \<and> ur_out u = [UdpBind 0 (sa_family local), UdpRecvStart 0]))"
proof (cases "pf_mode p = 1")
  case True
  with assms start_udp_ok [OF assms(1-4) True _ assms(6)] show ?thesis
    by blast
next
  case False
  then show ?thesis
    using assms(2) by (intro exI [of _ "sv_udp s"]) (simp add: start_udp_def)
qed

lemma server_inv_fresh:
  assumes "sv_first s = t" and "sv_timer s = t" and "rl_conns (sv_relay s) = Map.empty" and "sv_server s = Some h"
    and "rl_next (sv_relay s) = Suc h" and "t < h" and "\<not> rl_closing (sv_relay s) t" and "\<not> rl_closing (sv_relay s) h"
    and plugin: "\<forall>q. sv_plugin s = Some q \<longrightarrow> q < h \<and> q \<noteq> t" and between: "\<And>g. t < g \<Longrightarrow> g < h \<Longrightarrow> rl_closing (sv_relay s) g \<or> sv_plugin s = Some g"
    and udp: "\<And>u. sv_udp s = Some u \<Longrightarrow> pf_mode (sv_profile s) = 1 \<Longrightarrow> ur_cache u = Map.empty \<and> ur_server u = Some 0 \<and> ur_next u = 1"
    and "\<not> sv_isStop s" and "tidy (rl_em (sv_relay s))"
  shows "server_inv s"
proof -
  have "handles_owned t (sv_base s) (sv_relay s)"
    unfolding handles_owned_def
  proof (intro allI impI)
    fix g
    assume "t \<le> g" "g < rl_next (sv_relay s)"
    then show "rl_closing (sv_relay s) g \<or> g \<in> sv_base s \<or> (\<exists>c x. rl_conns (sv_relay s) c = Some x \<and> conn_owns x g)"
      using between [of g] assms(2,4,5) by (cases "g = t \<or> g = h") (auto simp: sv_base_def)
  qed
  moreover have "sv_base s \<subseteq> {..<rl_next (sv_relay s)}"
    using assms(2,4,5,6) plugin by (auto simp: sv_base_def)
  ultimately have "tcp_inv t (sv_base s) (rl_closing (sv_relay s)) (sv_relay s)"
    using assms(3,13) by (simp add: tcp_inv_def keyed_conns_def handshake_first_def tidy_def calm_def once_of_def on_of_def)
  moreover have "udp_owned u" if "sv_udp s = Some u" "pf_mode (sv_profile s) = 1" for u
    using udp [OF that] by (simp add: udp_owned_def)
  ultimately show ?thesis
    using assms(1-8,12) plugin by (auto simp: server_inv_def)
qed

text \<open>C8: The start of the server, where libuv accepts its calls, the method is known and the names resolve. \<^verbatim>\<open>loopMain\<close>
  enters the event loop (code 0) with the cipher environment of the profile. With a plugin, the plugin is spawned with the
  server's and its own address in its environment, and the TCP relay connects to the plugin's port at the local address; without one,
  to the server - unless an earlier start of the same object left a plugin's port behind, which is then used.
  The UDP relay always sends to the server itself. The calls are, in order: the timer's start, the plugin's, and the listening socket's.
  The server then satisfies its invariant, so that a stop will complete.
\<close>

theorem loopMain_starts:
  assumes "accepting (sys_uv Y)" and "accepting (sys_udp_uv Y)"
    and env: "new_CipherEnv (sys_lib Y) (sys_libm Y) (rl_world (sv_relay s)) (pf_password p) (map_option string_of (pf_method p)) (pf_key p) =
      Inr (env, w)" "ce_crypto env \<noteq> None"
    and rh: "pf_remote_host p = Some rh" and la: "pf_local_addr p = Some la"
    and plugin: "pf_plugin p \<noteq> None \<longrightarrow> length (sprintf_d (pf_remote_port p)) < 8 \<and> sys_free_port Y \<noteq> 0"
    and port: "port = (if pf_plugin p = None then sv_pluginPort s else sys_free_port Y)"
    and remote: "resolves (sys_net Y) (if port \<noteq> 0 then la else rh) (if port \<noteq> 0 then uint port else pf_remote_port p) (pf_ipv6first p) remote"
    and udp: "pf_mode p = 1 \<longrightarrow> resolves (sys_net Y) rh (pf_remote_port p) (pf_ipv6first p) direct"
    and local: "resolves (sys_net Y) la (pf_local_port p) 0 local"
    and fresh: "rl_conns (sv_relay s) = Map.empty" "\<forall>q. sv_plugin s = Some q \<longrightarrow> q < rl_next (sv_relay s)" "tidy (rl_em (sv_relay s))" and t: "t = rl_next (sv_relay s)"
  shows "\<exists>s' h. loopMain Y p s = Inr (0, s') \<and> rl_remoteAddr (sv_relay s') = remote \<and> rl_cipher (sv_relay s') = env \<and>
    (pf_mode p = 1 \<longrightarrow> (\<exists>u. sv_udp s' = Some u \<and> ur_remoteAddr u = direct \<and> ur_cipher u = env \<and> ur_listening u)) \<and>
    sv_out s' = sv_out s @ [SvTimerStart t 500 500] @ plugin_calls Y p rh la (Suc t) @ [SvNoDelay h True, SvBind h local, SvListen h] \<and>
    sv_server s' = Some h \<and> server_inv s'"
proof -
  define s1 where "s1 = s\<lparr>sv_profile := p, sv_isStop := False, sv_first := t, sv_stopped := False, sv_timer := t,
    sv_relay := snd (new_handle (sys_uv Y) ((sv_relay s)\<lparr>rl_tx := 0, rl_rx := 0\<rparr>))\<lparr>rl_world := w, rl_cipher := env\<rparr>\<rparr>"
  define s2 where "s2 = snd (sv_do (sys_uv Y) (SvTimerStart t 500 500) s1)"
  have s2: "sv_profile s2 = p" "sv_first s2 = t" "sv_timer s2 = t" "sv_out s2 = sv_out s @ [SvTimerStart t 500 500]" "rl_cipher (sv_relay s2) = env"
    "rl_next (sv_relay s2) = Suc t" "rl_closing (sv_relay s2) = (rl_closing (sv_relay s))(t := False)" "sv_pluginPort s2 = sv_pluginPort s"
    "sv_plugin s2 = sv_plugin s" "rl_conns (sv_relay s2) = Map.empty" "tidy (rl_em (sv_relay s2))" "\<not> sv_isStop s2"
    using t fresh by (simp_all add: s2_def s1_def accepting_do [OF assms(1)])
  obtain s3 where s3: "plugin_started Y s2 = Inr (True, s3)" "same_server s2 s3" "sv_pluginPort s3 = port"
    "sv_plugin s3 = (if pf_plugin p = None then sv_plugin s else Some (Suc t))" "Suc t \<le> rl_next (sv_relay s3)"
    "\<forall>h. h < Suc t \<longrightarrow> rl_closing (sv_relay s3) h = rl_closing (sv_relay s2) h"
    "\<forall>h. Suc t < h \<and> h < rl_next (sv_relay s3) \<longrightarrow> rl_closing (sv_relay s3) h"
    "Suc t < rl_next (sv_relay s3) \<longrightarrow> sv_plugin s3 = Some (Suc t)" "sv_out s3 = sv_out s2 @ plugin_calls Y p rh la (Suc t)"
    "pf_plugin p \<noteq> None \<longrightarrow> Suc t < rl_next (sv_relay s3)"
    using plugin_phase [OF assms(1) s2(1) [symmetric] rh la plugin s2(6) [symmetric], unfolded s2(8,9) port [symmetric]] by blast
  define s4 where "s4 = s3\<lparr>sv_relay := (sv_relay s3)\<lparr>rl_remoteAddr := remote\<rparr>\<rparr>"
  obtain af where af: "tcp_remote Y s3 = Inr (af, remote)" "af \<noteq> -1"
    using remote tcp_remote_is [of s3 p rh la Y] s3(2,3) s2(1) rh la by (auto simp: resolves_def same_server_def)
  have s4: "sv_profile s4 = p" "rl_cipher (sv_relay s4) = env"
    using s3(2) s2 by (simp_all add: s4_def same_server_def)
  obtain x where x: "start_udp Y s4 = Inr (0, s4\<lparr>sv_udp := x\<rparr>)"
    "pf_mode p = 1 \<longrightarrow> (\<exists>u. x = Some u \<and> ur_remoteAddr u = direct \<and> ur_cipher u = env \<and> ur_listening u \<and>
       ur_cache u = Map.empty \<and> ur_server u = Some 0 \<and> ur_next u = 1 \<and> ur_out u = [UdpBind 0 (sa_family local), UdpRecvStart 0])"
    using udp_phase [OF assms(2) s4(1) [symmetric] rh la udp local] s4(2) by auto
  let ?s5 = "s4\<lparr>sv_udp := x\<rparr>" and ?h = "rl_next (sv_relay s3)"
  obtain s6 where s6: "sv_listen Y ?s5 = Inr (0, s6)" "same_server ?s5 s6" "sv_server s6 = Some ?h" "rl_next (sv_relay s6) = Suc ?h"
    "rl_closing (sv_relay s6) = (rl_closing (sv_relay s3))(?h := False)" "sv_plugin s6 = sv_plugin s3" "sv_udp s6 = x"
    "sv_out s6 = sv_out s3 @ [SvNoDelay ?h True, SvBind ?h local, SvListen ?h]"
    using sv_listen_ok [OF assms(1) _ la local, of ?s5 ?h] s4 by (auto simp: s4_def)
  have "loopMain Y p s = Inr (0, s6)"
    using env s3(1) af x(1) s6(1) t
    by (simp add: loopMain_def accepting_do [OF assms(1)] Let_def s1_def s2_def s4_def)
  moreover have "server_inv s6"
  proof (rule server_inv_fresh)
    show "sv_first s6 = t" "sv_timer s6 = t" "rl_conns (sv_relay s6) = Map.empty" "sv_server s6 = Some ?h" "rl_next (sv_relay s6) = Suc ?h"
      "\<not> sv_isStop s6" "tidy (rl_em (sv_relay s6))"
      using s6 s3(2) s2 by (simp_all add: same_server_def s4_def)
    show "t < ?h" "\<not> rl_closing (sv_relay s6) t" "\<not> rl_closing (sv_relay s6) ?h"
      using s6(5) s3(5,6) s2(7) by simp_all
    show "\<forall>q. sv_plugin s6 = Some q \<longrightarrow> q < ?h \<and> q \<noteq> t"
      using s6(6) s3(4,5,10) fresh(2) t by (auto split: if_splits)
    show "rl_closing (sv_relay s6) g \<or> sv_plugin s6 = Some g" if "t < g" "g < ?h" for g
      using that s6(5,6) s3(7,8) by (cases "g = Suc t") auto
    show "ur_cache u = Map.empty \<and> ur_server u = Some 0 \<and> ur_next u = 1" if "sv_udp s6 = Some u" "pf_mode (sv_profile s6) = 1" for u
      using that s6(2,7) s4(1) x(2) by (auto simp: same_server_def)
  qed
  ultimately show ?thesis
    using s6 s3 s2 x by (intro exI [of _ s6] exI [of _ ?h]) (auto simp: same_server_def s4_def)
qed

end
