(* ===== verification/SS_WitnessMain.thy ===== *)
theory SS_WitnessMain
  imports SS_WitnessRelay SS_CryptoInit SS_GetoptRun SS_CommandLine SS_ServerRun
begin

text \<open>
  The properties of the option parser, the command line and the server's life applied to concrete inputs.
\<close>

section \<open>The command line\<close>

theorem getopt_long_terminates_witness:
  "\<exists>cs s'. option_run True (length [cstr ''ss'', cstr ''file'', cstr ''-v'', cstr ''--mtu=9'']) short_options (Some long_options) True
     (getopt_init [cstr ''ss'', cstr ''file'', cstr ''-v'', cstr ''--mtu=9'']) cs (Inr s') \<and>
    mset (go_argv s') = mset [cstr ''ss'', cstr ''file'', cstr ''-v'', cstr ''--mtu=9''] \<and>
    go_optind s' \<le> length [cstr ''ss'', cstr ''file'', cstr ''-v'', cstr ''--mtu=9'']"
  by (rule getopt_long_terminates) (simp_all add: proper_table_def long_options_def long_opt_def)

definition demo_settings :: "(bool \<times> setting) list" where
  "demo_settings = [(True, Port 8388), (False, LocalPort 1080), (False, Plugin [118]), (True, Udp), (True, Host [97]), (False, Port 443)]"

theorem command_line_roundtrip_witness:
  "ss_main False ([115] # concat (map render demo_settings)) =
    Inr (Parsed (default_profile\<lparr>pf_remote_host := Some [97], pf_remote_port := 443, pf_local_port := 1080, pf_plugin := Some [118], pf_mode := 1\<rparr>) 0)"
proof -
  have "\<forall>x\<in>set demo_settings. setting_ok (snd x)"
    by (simp add: demo_settings_def int_ok_def)
  from command_line_roundtrip [OF this refl, of False "[115]"]
  show ?thesis by (simp add: demo_settings_def default_profile_def)
qed

section \<open>The server\<close>

text \<open>A system in which names resolve, ports are free and libuv accepts every call, and a profile with a plugin and UDP.\<close>

definition demo_system :: system where
  "demo_system = \<lparr>sys_uv = demo_uv, sys_udp_uv = demo_uv, sys_net = demo_net, sys_lib = demo 0, sys_libm = demo_libm, sys_free_port = 5000,
     sys_PATH = [47], sys_cwd = [47]\<rparr>"

definition demo_profile :: profile_t where
  "demo_profile = default_profile\<lparr>pf_remote_port := 8388, pf_local_port := 1080, pf_mode := 1, pf_plugin := Some [118]\<rparr>"

lemma short_numbers: "length (sprintf_d 8388) < 8"
  using length_dec_digits [of 8388 3] by (simp add: sprintf_d_def)

lemma demo_resolves: "resolves demo_net host 1080 0 (demo_addr AF_INET)" "resolves demo_net host 8388 0 (demo_addr AF_INET)"
    "resolves demo_net host 5000 0 (demo_addr AF_INET)"
  by (simp_all add: resolves_def ssr_get_sock_addr_def demo_net_def Let_def use_addrinfo_def sprintf_int_fits)

lemma demo_sizes: "heap_ok (lib_heap (demo a))"
  by (simp add: heap_ok_def demo_heap_def demo_def)

lemma string_of_cstr: "string_of (cstr s) = s"
proof -
  have "unat (of_char c :: byte) = of_char c" for c
  proof -
    have "unat (of_nat (of_char c) :: byte) = of_char c"
      using of_char_mod_256 [of c, where ?'a = nat] by (simp only: unat_of_nat len_num1 len_bit0 mult_2) simp
    then show ?thesis by (simp only: of_nat_of_char)
  qed
  then show ?thesis
    by (simp add: string_of_def cstr_def map_idI)
qed

lemma demo_env:
  "\<exists>env w. new_CipherEnv (demo 0) demo_libm demo_world (pf_password demo_profile) (map_option string_of (pf_method demo_profile))
     (pf_key demo_profile) = Inr (env, w) \<and> ce_crypto env \<noteq> None"
proof -
  obtain pp where "ppbloom_init (lib_heap (demo 0)) demo_libm (w_pp demo_world) 10000 (1 / 10 ^ 15) = Inr (0, pp)"
    using ppbloom_init_client [OF demo_libm_ok, of "lib_heap (demo 0)"] demo_sizes by metis
  moreover have "supported_aead_ciphers ! 3 = ''chacha20-ietf-poly1305''"
    by (simp add: supported_aead_ciphers_def)
  ultimately show ?thesis
    using crypto_init_aead_password [OF demo_laws demo_md5_law, of 3 0 demo_libm demo_world 0 pp]
    by (auto simp: new_CipherEnv_def demo_profile_def default_profile_def demo_def string_of_cstr)
qed

theorem loopMain_starts_witness:
  "\<exists>env s' h. loopMain demo_system demo_profile (new_server demo_world) = Inr (0, s') \<and> rl_remoteAddr (sv_relay s') = demo_addr AF_INET \<and>
    rl_cipher (sv_relay s') = env \<and>
    (pf_mode demo_profile = 1 \<longrightarrow> (\<exists>u. sv_udp s' = Some u \<and> ur_remoteAddr u = demo_addr AF_INET \<and> ur_cipher u = env \<and> ur_listening u)) \<and>
    sv_out s' = [] @ [SvTimerStart 0 500 500] @ plugin_calls demo_system demo_profile (cstr ''127.0.0.1'') (cstr ''0.0.0.0'') (Suc 0) @
      [SvNoDelay h True, SvBind h (demo_addr AF_INET), SvListen h] \<and>
    sv_server s' = Some h \<and> server_inv s'"
proof -
  obtain env w where env: "new_CipherEnv (demo 0) demo_libm demo_world (pf_password demo_profile) (map_option string_of (pf_method demo_profile))
     (pf_key demo_profile) = Inr (env, w)" "ce_crypto env \<noteq> None"
    using demo_env by blast
  have p: "pf_remote_host demo_profile = Some (cstr ''127.0.0.1'')" "pf_local_addr demo_profile = Some (cstr ''0.0.0.0'')"
    "pf_plugin demo_profile = Some [118]" "pf_remote_port demo_profile = 8388" "pf_local_port demo_profile = 1080" "pf_ipv6first demo_profile = 0"
    by (simp_all add: demo_profile_def default_profile_def)
  have y: "sys_uv demo_system = demo_uv" "sys_udp_uv demo_system = demo_uv" "sys_net demo_system = demo_net" "sys_lib demo_system = demo 0"
    "sys_libm demo_system = demo_libm" "sys_free_port demo_system = 5000"
    by (simp_all add: demo_system_def)
  have v: "rl_world (sv_relay (new_server demo_world)) = demo_world" "rl_conns (sv_relay (new_server demo_world)) = Map.empty"
    "rl_next (sv_relay (new_server demo_world)) = 0" "sv_plugin (new_server demo_world) = None" "sv_out (new_server demo_world) = []"
    "tidy (rl_em (sv_relay (new_server demo_world)))"
    by (simp_all add: new_server_def new_relay_def tidy_def new_emitter_def new_handler_def)
  show ?thesis
    using loopMain_starts [of demo_system "new_server demo_world" demo_profile env w "cstr ''127.0.0.1''" "cstr ''0.0.0.0''" 5000
        "demo_addr AF_INET" "demo_addr AF_INET" "demo_addr AF_INET" 0, unfolded y v(1-5) p, OF demo_accepting demo_accepting env(1) env(2) refl refl]
      demo_resolves short_numbers v(6) by (intro exI [of _ env]) simp
qed

text \<open>A running server with a client on each relay and a plugin.\<close>

definition demo_server :: server where
  "demo_server = (new_server demo_world)\<lparr>sv_profile := demo_profile, sv_timer := 0, sv_server := Some 1, sv_plugin := Some 2,
     sv_plugin_listens := True, sv_udp := Some demo_udp,
     sv_relay := demo_relay\<lparr>rl_next := 5, rl_conns := [3 \<mapsto> (hs_context 3 (buf_of []))\<lparr>cc_remote := Some 4\<rparr>]\<rparr>\<rparr>"

lemma demo_server_inv: "server_inv demo_server"
proof -
  have base: "sv_base demo_server = {0, 1, 2}"
    by (auto simp: sv_base_def demo_server_def)
  have owned: "handles_owned 0 {0, 1, 2} (sv_relay demo_server)"
    unfolding handles_owned_def
  proof (intro allI impI)
    fix h
    assume "h < rl_next (sv_relay demo_server)"
    then have "h \<in> {0, 1, 2} \<or> h = 3 \<or> h = 4"
      by (auto simp: demo_server_def)
    then show "rl_closing (sv_relay demo_server) h \<or> h \<in> {0, 1, 2} \<or> (\<exists>c x. rl_conns (sv_relay demo_server) c = Some x \<and> conn_owns x h)"
      by (auto simp: demo_server_def hs_context_def conn_owns_def)
  qed
  have "udp_owned demo_udp"
    unfolding udp_owned_def
  proof (intro allI impI)
    fix h
    assume "h < ur_next demo_udp"
    then have "h = 0 \<or> ur_cache demo_udp demo_client = Some demo_uctx \<and> uconn_owns demo_uctx h"
      by (auto simp: demo_udp_def uconn_owns_def demo_uctx_def)
    then show "ur_closing demo_udp h \<or> ur_server demo_udp = Some h \<or> (\<exists>a x. ur_cache demo_udp a = Some x \<and> uconn_owns x h)"
      by (auto simp: demo_udp_def simp del: split_paired_Ex)
  qed
  moreover have "tcp_inv 0 {0, 1, 2} (rl_closing (sv_relay demo_server)) (sv_relay demo_server)"
    using owned by (auto simp: tcp_inv_def keyed_conns_def handshake_first_def calm_def once_of_def on_of_def demo_server_def demo_relay_def
        new_emitter_def new_handler_def hs_context_def conn_owns_def)
  ultimately show ?thesis
    using base by (simp add: server_inv_def) (simp add: demo_server_def new_server_def demo_relay_def)
qed

theorem stop_completes_witness:
  "\<exists>s'. server_run demo_system ([PluginExit] @ [StopRequest, StopTick [3] [demo_client], PluginExit, StopTick [] []]) demo_server = Inr s' \<and>
    sv_stopped s' \<and> rl_conns (sv_relay s') = Map.empty \<and> open_handles s' = 0 \<and> ce_crypto (rl_cipher (sv_relay s')) = None"
  by (rule stop_completes [OF demo_server_inv, of _ _ "plugin_exit demo_server"])
    (simp_all add: server_step_def plugin_exit_def demo_server_def demo_relay_def sv_close_def demo_udp_def)

end
