(* ===== verification/Spec2Isabelle.thy ===== *)
theory Spec2Isabelle
  imports SS_Witness SS_WitnessKeys SS_WitnessRelay SS_WitnessMain
begin

text \<open>
  Verification of shadowsocks-uvw, a shadowsocks client built on libuv.

  \<^bold>\<open>The program.\<close> The client listens on a local SOCKS5 port. A TCP client's greeting and request are parsed, a connection
  to the shadowsocks server (or to a plugin in front of it) is opened, and from then on the client's bytes are encrypted
  towards the server and the server's bytes decrypted towards the client. UDP datagrams of SOCKS5 associations are
  relayed packet by packet. The ciphers are the AEAD and stream ciphers of libsodium and mbed TLS; salts and
  nonces that have been seen are kept in a replay filter. \<^verbatim>\<open>main\<close> reads a profile from the command line and runs the
  server until it is asked to stop.

  \<^bold>\<open>Theories and sources\<close> (paths below \<^verbatim>\<open>src/src\<close> unless given):

  \<^item> \<^verbatim>\<open>SS_Prelude\<close>: bytes and machine words, the outcome type \<open>'a res\<close> (\<open>Inl\<close> a fault: an exit of the process, undefined
    behaviour or a loop that never ends; \<open>Inr\<close> a result), memory blocks with checked reads and writes, byte orders, shared list facts.
  \<^item> \<^verbatim>\<open>SS_Lib\<close>: the structures of \<^verbatim>\<open>crypto.h\<close>, the record \<open>crypto_lib\<close> of the functions of libsodium, mbed TLS and the
    allocator that the code calls, and the record \<open>world\<close> of the static variables of a process.
  \<^item> \<^verbatim>\<open>SS_Buffer\<close>: \<^verbatim>\<open>ssrutils.c\<close> (allocation) and \<^verbatim>\<open>buffer_t\<close> of \<^verbatim>\<open>crypto.c\<close>; \<^verbatim>\<open>SS_CxxBuffer\<close>: the class of \<^verbatim>\<open>Buffer.cpp\<close>.
  \<^item> \<^verbatim>\<open>SS_Bloom\<close>, \<^verbatim>\<open>SS_PPBloom\<close>, \<^verbatim>\<open>SS_Filter\<close>: \<^verbatim>\<open>libbloom/bloom.c\<close>, \<^verbatim>\<open>MurmurHash2.c\<close>, \<^verbatim>\<open>ppbloom.c\<close> and their sizing.
  \<^item> \<^verbatim>\<open>SS_Kdf\<close>: key derivation of \<^verbatim>\<open>crypto.c\<close>; \<^verbatim>\<open>SS_Base64\<close>: \<^verbatim>\<open>base64.c\<close>; \<^verbatim>\<open>SS_Socks5\<close>: \<^verbatim>\<open>sockaddr_universal.c\<close>.
  \<^item> \<^verbatim>\<open>SS_Aead\<close> (definitions), \<^verbatim>\<open>SS_AeadBox\<close>, \<^verbatim>\<open>SS_AeadPacket\<close>, \<^verbatim>\<open>SS_AeadStream\<close>, \<^verbatim>\<open>SS_AeadRecv\<close>, \<^verbatim>\<open>SS_AeadSession\<close>: \<^verbatim>\<open>aead.c\<close>.
  \<^item> \<^verbatim>\<open>SS_Stream\<close> (definitions), \<^verbatim>\<open>SS_StreamBox\<close>, \<^verbatim>\<open>SS_StreamSession\<close>: \<^verbatim>\<open>stream.c\<close>.
  \<^item> \<^verbatim>\<open>SS_Crypto\<close>, \<^verbatim>\<open>SS_CryptoInit\<close>: \<^verbatim>\<open>crypto_init\<close>, \<^verbatim>\<open>crypto_parse_key\<close>, the key set-up of both families, \<^verbatim>\<open>CipherEnv\<close>.
  \<^item> \<^verbatim>\<open>SS_Emitter\<close>: the event handlers of \<^verbatim>\<open>uvw/emitter.h\<close>.
  \<^item> \<^verbatim>\<open>SS_TcpRelay\<close> (definitions), \<^verbatim>\<open>SS_TcpHandshake\<close>, \<^verbatim>\<open>SS_TcpStream\<close>, \<^verbatim>\<open>SS_TcpErrors\<close>: the event handlers of
    \<^verbatim>\<open>local_uv.cpp\<close>, \<^verbatim>\<open>ConnectionContext.cpp\<close> and the uvw operations on TCP handles they use.
    \<^verbatim>\<open>SS_TcpHandles\<close> shows that the relay never forgets an open handle.
  \<^item> \<^verbatim>\<open>SS_Net\<close>: \<^verbatim>\<open>NetUtils.cpp\<close>; \<^verbatim>\<open>SS_UdpRelay\<close> (definitions), \<^verbatim>\<open>SS_UdpSession\<close>, \<^verbatim>\<open>SS_UdpHandles\<close>: \<^verbatim>\<open>UDPRelay.cpp\<close>, \<^verbatim>\<open>UDPConnectionContext.cpp\<close>.
  \<^item> \<^verbatim>\<open>SS_Cache\<close>: \<^verbatim>\<open>cache.c\<close>.
  \<^item> \<^verbatim>\<open>SS_Getopt\<close> (definitions and the permutation), \<^verbatim>\<open>SS_GetoptRun\<close>: \<^verbatim>\<open>win/getopt.c\<close>; \<^verbatim>\<open>SS_Main\<close>, \<^verbatim>\<open>SS_CommandLine\<close>: \<^verbatim>\<open>ss_local.cpp\<close>.
  \<^item> \<^verbatim>\<open>SS_Server\<close> (definitions), \<^verbatim>\<open>SS_ServerRun\<close>: \<^verbatim>\<open>loopMain\<close>, \<^verbatim>\<open>listen\<close>, the plugin and the stop timer of \<^verbatim>\<open>local_uv.cpp\<close>,
    \<^verbatim>\<open>uvw/process.cpp\<close> as far as used, \<^verbatim>\<open>SSThread::run\<close>.
  \<^item> \<^verbatim>\<open>SS_Demo\<close> is an instance of the libraries that satisfies every law assumed of them; \<^verbatim>\<open>SS_Witness\<close>, \<^verbatim>\<open>SS_WitnessKeys\<close>,
    \<^verbatim>\<open>SS_WitnessRelay\<close> and \<^verbatim>\<open>SS_WitnessMain\<close> apply the properties to concrete inputs.

  \<^bold>\<open>How code becomes definitions.\<close> One definition per function, in the order of its statements; where a function is long, its
  loop or a branch is a definition of its own. Structures are records with the source's fields; what a function
  writes through a pointer is returned. A null pointer is \<open>None\<close> or the empty block. Every access to memory goes through
  \<open>read_mem\<close> and \<open>write_mem\<close>, so a theorem with an \<open>Inr\<close> result includes memory safety. Integers have the width of
  the source where it matters (words of 8, 16, 32 and 64 bits; \<^verbatim>\<open>int\<close> results are checked or wrapped as the text of the
  theory says); sizes that cannot reach their limit are \<open>nat\<close>. All loops are total functions: there is no fuel, and
  termination is proved where it is not structural (the loops of Base64, the permutation, \<^verbatim>\<open>getopt_start\<close>, the loop of \<^verbatim>\<open>main\<close>, the
  receiving loops).

  libuv is the environment of both relays: a callback is a step, the calls a step makes are recorded in order, and the code
  a call returns is a parameter (\<open>uv_rc\<close> of the number of the call). Listeners are data, one constructor per lambda
  expression, and run through the emitter's model. A reference to a connection that has been destroyed is \<open>UB\<close>. The
  server joins the two relays, the plugin and the timer to one state with the steps \<open>server_step\<close>; requests to
  stop and turns of the timer are steps, so that interleavings are sequences of steps.

  External code is a parameter with named laws: \<open>lib_laws\<close>, \<open>stream_laws\<close>, \<open>md5_law\<close> (a cipher opens what it sealed and
  nothing else, digests are functions of the bytes fed in, sizes are the documented ones), \<open>libm_ok\<close> (floating point is right to
  one part in a hundred within a range), \<open>heap_ok\<close> (the allocator gives memory), \<open>accepting\<close> (libuv accepts calls). No property
  assumes a law that is not satisfied by \<^verbatim>\<open>SS_Demo\<close>.

  The configuration is the client for little-endian 64-bit machines with assertions enabled, \<^verbatim>\<open>FS_HAVE_XCHACHA20IETF\<close>
  defined, \<^verbatim>\<open>MODULE_REMOTE\<close> and \<^verbatim>\<open>SS_DEBUG\<close> undefined, mbed TLS 2.7 or later, and no Qt.
  The command line is read with the repository's own \<^verbatim>\<open>getopt_long\<close>, which the Windows build uses.

  \<^bold>\<open>Interfaces.\<close> \<open>growable_buffer\<close> (the C buffer, used by the ciphers), \<open>byte_queue\<close> (the class, used by the relays),
  \<open>membership_filter\<close> and \<open>replay_guard\<close> (the Bloom filter for the ping-pong filter, and that for the ciphers),
  \<open>incremental\<close> and \<open>incremental_pair\<close> (stream transformations), \<open>component\<close> (a handler inside a program state),
  \<open>step_order\<close> (a relation that publishing preserves) and \<open>teardown\<close> (a table of connections being cleared) are locales, each interpreted on the definitions of the model.

  \<^bold>\<open>What is shown.\<close>

  \<^item> Relays: what a TCP client sends in any pieces reaches a server with the same key as the address and the data, and
    back; a request leads to exactly one connection attempt; any error takes a connection down completely and silently.
    The UDP relay keeps its invariant under every sequence of datagrams and time-outs; requests and replies are
    forwarded exactly once with the right header.
  \<^item> Server: the start directs the relays to the right addresses and makes its calls in order; after any events a stop request ends
    with every handle closed, whatever libuv answers.
  \<^item> Ciphers: round trips of packets and of fragmented streams across different back ends, refinement of the receiver to an
    abstract one on arbitrary input, acceptance of exactly the genuine packets, rejection of replays within the window of the filter,
    every header and payload of a session sealed under a nonce of its own; sessions of two processes started from the same password.
  \<^item> Foundations: HKDF and key derivation equal their standards, Base64 round trip and totality, sizes of the filter,
    acceptance of addresses, preference of address families, the listeners that \<^verbatim>\<open>publish\<close> calls, memory accounting of the cache and
    of the buffer, argument permutation, termination of the option parser, and the round trip of the command line.
  \<^item> Theorems that describe what the code does where it does not mean to: data lost between reply and first write, aborts on large
    reads, use of a destroyed context, the newest listener of an event called twice, an over-read of one byte in the address parser, an
    overflow in \<^verbatim>\<open>Buffer::copy\<close>, and the port of an earlier plugin that is used again.

  \<^bold>\<open>Not modelled.\<close> The rest of uvw (file system, threads, DNS classes, pipes, signals: a copy of a third-party library whose
  functions each wrap one libuv call; only what the program calls is modelled), \<^verbatim>\<open>uthash.h\<close> (third-party macros, used through
  their documented behaviour), logging, the usage text, statistics and the Qt bindings (output only; of \<^verbatim>\<open>SSThread\<close> only \<^verbatim>\<open>run\<close>
  is modelled), and the test programs. Timing is not modelled: the order of callbacks is arbitrary.
  The conversion of client addresses of the UDP relay by uvw, which knows IPv4 only, is outside the model.
\<close>

end
